(* ===== verification/Prelude.thy ===== *)
theory Prelude
  imports Main "HOL-Library.Word"
begin

text \<open>
  What every component of the development shares: the names of the machine types, Rust's
  checked and saturating arithmetic on them, the result type, big-endian byte encodings
  and the lemma collections that carry the component proofs.

  A fallible Rust function returns a sum: \<open>Inl\<close> is \<open>Err\<close> and \<open>Inr\<close> is \<open>Ok\<close>. A method
  taking \<open>&mut self\<close> returns its result together with the new state. Unsigned integers
  whose overflow the code handles are words of their width; a \<open>usize\<close> that counts bytes
  of a list is a \<open>nat\<close>, with the overflow of the 64-bit type written out where the code
  checks for it. A \<open>Duration\<close> is a number of nanoseconds.
\<close>

section \<open>Machine types and results\<close>

type_synonym u8 = "8 word"
type_synonym u16 = "16 word"
type_synonym u32 = "32 word"
type_synonym u64 = "64 word"
type_synonym duration = nat

type_synonym bytes = "u8 list"

named_theorems byte_simps \<open>lengths and round trips of the byte encodings\<close>
named_theorems frame_laws \<open>what an operation leaves unchanged\<close>
named_theorems step_intros \<open>invariants kept by the operations\<close>

definition is_ok :: "'e + 'a \<Rightarrow> bool" where
  "is_ok r = (case r of Inl _ \<Rightarrow> False | Inr _ \<Rightarrow> True)"

lemma is_ok_simps [simp]: "\<not> is_ok (Inl e)" "is_ok (Inr x)"
  by (simp_all add: is_ok_def)

lemma is_ok_cases: "is_ok r \<longleftrightarrow> (\<exists>x. r = Inr x)"
  by (cases r) simp_all

lemma not_is_ok_cases: "\<not> is_ok r \<longleftrightarrow> (\<exists>e. r = Inl e)"
  by (cases r) simp_all

text \<open>Rust's \<open>Result::map_err\<close>.\<close>

definition map_err :: "('e \<Rightarrow> 'f) \<Rightarrow> 'e + 'a \<Rightarrow> 'f + 'a" where
  "map_err f r = (case r of Inl e \<Rightarrow> Inl (f e) | Inr x \<Rightarrow> Inr x)"

lemma map_err_simps [simp]:
  "map_err f (Inl e) = Inl (f e)" "map_err f (Inr x) = Inr x"
  "map_err f r = Inr x \<longleftrightarrow> r = Inr x"
  by (auto simp: map_err_def split: sum.splits)

lemma unat_bounds:
  "unat (a :: u8) < 256"
  "unat (b :: u16) < 65536"
  "unat (c :: u32) < 4294967296"
  "unat (d :: u64) < 18446744073709551616"
  using unsigned_less [of a] unsigned_less [of b] unsigned_less [of c] unsigned_less [of d]
  by simp_all

text \<open>The \<open>?\<close> operator: go on with the value, or return the error.\<close>

definition bind_result :: "'e + 'a \<Rightarrow> ('a \<Rightarrow> 'e + 'b) \<Rightarrow> 'e + 'b" where
  "bind_result r f = (case r of Inl e \<Rightarrow> Inl e | Inr x \<Rightarrow> f x)"

lemma bind_result_simps [simp]:
  "bind_result (Inl e) f = Inl e" "bind_result (Inr x) f = f x"
  by (simp_all add: bind_result_def)

lemma bind_result_Inr: "bind_result r f = Inr y \<longleftrightarrow> (\<exists>x. r = Inr x \<and> f x = Inr y)"
  by (cases r) simp_all

lemma map_sum_Inr_iff [simp]: "map_sum f g r = Inr y \<longleftrightarrow> (\<exists>x. r = Inr x \<and> y = g x)"
  by (cases r) auto

section \<open>Checked and saturating arithmetic\<close>

definition checked_add :: "'a::len word \<Rightarrow> 'a word \<Rightarrow> 'a word option" where
  "checked_add a b = (if unat a + unat b < 2 ^ LENGTH('a) then Some (a + b) else None)"

definition saturating_add :: "'a::len word \<Rightarrow> 'a word \<Rightarrow> 'a word" where
  "saturating_add a b = (if unat a + unat b < 2 ^ LENGTH('a) then a + b else - 1)"

lemma checked_add_Some:
  fixes a b c :: "'a::len word"
  shows "checked_add a b = Some c \<Longrightarrow> unat c = unat a + unat b"
  by (auto simp: checked_add_def unat_word_ariths split: if_splits)

lemma checked_add_eq_iff:
  fixes a b c :: "'a::len word"
  shows "checked_add a b = Some c \<longleftrightarrow> unat c = unat a + unat b"
proof
  assume "checked_add a b = Some c"
  then show "unat c = unat a + unat b" by (rule checked_add_Some)
next
  assume eq: "unat c = unat a + unat b"
  have "unat c < 2 ^ LENGTH('a)" by simp
  then have lt: "unat a + unat b < 2 ^ LENGTH('a)" by (simp add: eq)
  then have "unat (a + b) = unat c" by (simp add: unat_word_ariths eq)
  then have "c = a + b" by (metis word_unat_eq_iff)
  with lt show "checked_add a b = Some c" by (simp add: checked_add_def)
qed

lemma checked_add_one_ne:
  fixes a c :: u64
  shows "checked_add a 1 = Some c \<Longrightarrow> c \<noteq> a"
  by (auto dest: checked_add_Some)

lemma checked_add_one_iff: "(\<exists>c. checked_add (a :: u64) 1 = Some c) \<longleftrightarrow> a \<noteq> - 1"
proof -
  have "unat (- 1 :: u64) = 18446744073709551615"
    by (simp add: unsigned_minus_1_eq_mask mask_eq_exp_minus_1)
  then have "a = - 1 \<longleftrightarrow> unat a = 18446744073709551615" by (metis word_unat_eq_iff)
  then show ?thesis using unat_bounds(4) [of a] by (auto simp: checked_add_def)
qed

lemma saturating_add_unat:
  fixes a b :: "'a::len word"
  shows "unat (saturating_add a b) = min (unat a + unat b) (2 ^ LENGTH('a) - 1)"
proof (cases "unat a + unat b < 2 ^ LENGTH('a)")
  case True
  then show ?thesis by (simp add: saturating_add_def unat_word_ariths)
next
  case False
  then show ?thesis by (simp add: saturating_add_def unsigned_minus_1_eq_mask mask_eq_exp_minus_1)
qed

definition usize_max :: nat where
  "usize_max = 2 ^ 64 - 1"

definition checked_add_usize :: "nat \<Rightarrow> nat \<Rightarrow> nat option" where
  "checked_add_usize a b = (if a + b \<le> usize_max then Some (a + b) else None)"

lemma checked_add_usize_Some [simp]:
  "checked_add_usize a b = Some c \<longleftrightarrow> c = a + b \<and> a + b \<le> usize_max"
  by (auto simp: checked_add_usize_def)

lemma checked_add_usize_None [simp]:
  "checked_add_usize a b = None \<longleftrightarrow> usize_max < a + b"
  by (auto simp: checked_add_usize_def)

section \<open>Big-endian encodings\<close>

text \<open>\<open>be_bytes n v\<close> is \<open>v\<close> as \<open>n\<close> bytes, most significant first (\<open>to_be_bytes\<close>).\<close>

fun be_bytes :: "nat \<Rightarrow> nat \<Rightarrow> bytes" where
  "be_bytes 0 v = []"
| "be_bytes (Suc n) v = be_bytes n (v div 256) @ [word_of_nat (v mod 256)]"

definition be_value :: "bytes \<Rightarrow> nat" where
  "be_value bs = foldl (\<lambda>acc b. acc * 256 + unat b) 0 bs"

lemma length_be_bytes [byte_simps, simp]: "length (be_bytes n v) = n"
  by (induction n arbitrary: v) simp_all

lemma be_value_append1 [simp]: "be_value (bs @ [b]) = be_value bs * 256 + unat b"
  by (simp add: be_value_def)

lemma be_value_be_bytes [byte_simps]: "v < 256 ^ n \<Longrightarrow> be_value (be_bytes n v) = v"
proof (induction n arbitrary: v)
  case 0
  then show ?case by (simp add: be_value_def)
next
  case (Suc n)
  have "v div 256 < 256 ^ n"
    using Suc.prems by (simp add: less_mult_imp_div_less mult.commute)
  then have "be_value (be_bytes n (v div 256)) = v div 256" by (rule Suc.IH)
  then show ?case by (simp add: unat_of_nat take_bit_eq_mod)
qed

lemma be_value_bound: "be_value bs < 256 ^ length bs"
proof (induction bs rule: rev_induct)
  case Nil
  then show ?case by (simp add: be_value_def)
next
  case (snoc b bs)
  have "unat b < 256" by (rule unat_bounds)
  moreover have "be_value bs * 256 + 256 \<le> 256 ^ length bs * 256"
    using snoc by simp
  ultimately show ?case by simp
qed

lemma be_bytes_be_value [byte_simps]: "be_bytes (length bs) (be_value bs) = bs"
proof (induction bs rule: rev_induct)
  case Nil
  then show ?case by simp
next
  case (snoc b bs)
  have b: "unat b < 256" by (rule unat_bounds)
  then have "(be_value bs * 256 + unat b) div 256 = be_value bs" by simp
  moreover have "(be_value bs * 256 + unat b) mod 256 = unat b" using b by simp
  ultimately show ?case using snoc by simp
qed

definition u16_to_be :: "u16 \<Rightarrow> bytes" where "u16_to_be w = be_bytes 2 (unat w)"
definition u32_to_be :: "u32 \<Rightarrow> bytes" where "u32_to_be w = be_bytes 4 (unat w)"
definition u64_to_be :: "u64 \<Rightarrow> bytes" where "u64_to_be w = be_bytes 8 (unat w)"
definition u16_from_be :: "bytes \<Rightarrow> u16" where "u16_from_be bs = word_of_nat (be_value bs)"
definition u32_from_be :: "bytes \<Rightarrow> u32" where "u32_from_be bs = word_of_nat (be_value bs)"
definition u64_from_be :: "bytes \<Rightarrow> u64" where "u64_from_be bs = word_of_nat (be_value bs)"

lemma length_to_be [byte_simps, simp]:
  "length (u16_to_be a) = 2" "length (u32_to_be b) = 4" "length (u64_to_be c) = 8"
  by (simp_all add: u16_to_be_def u32_to_be_def u64_to_be_def)

lemma from_to_be [byte_simps, simp]:
  "u16_from_be (u16_to_be a) = a"
  "u32_from_be (u32_to_be b) = b"
  "u64_from_be (u64_to_be c) = c"
  using unat_bounds(2) [of a] unat_bounds(3) [of b] unat_bounds(4) [of c]
  by (simp_all add: u16_to_be_def u32_to_be_def u64_to_be_def
      u16_from_be_def u32_from_be_def u64_from_be_def be_value_be_bytes)

lemma to_from_be [byte_simps]:
  "length bs = 2 \<Longrightarrow> u16_to_be (u16_from_be bs) = bs"
  "length bs = 4 \<Longrightarrow> u32_to_be (u32_from_be bs) = bs"
  "length bs = 8 \<Longrightarrow> u64_to_be (u64_from_be bs) = bs"
  using be_value_bound [of bs] be_bytes_be_value [of bs]
  by (simp_all add: u16_to_be_def u32_to_be_def u64_to_be_def
      u16_from_be_def u32_from_be_def u64_from_be_def unat_of_nat take_bit_eq_mod)

end
