(* ===== verification/Writers.thy ===== *)
theory Writers
  imports Prelude
begin

text \<open>
  The bounded \<open>std::io::Write\<close> implementations into which \<open>serde_json\<close> serializes:
  \<open>BoundedFrameWriter\<close> (\<open>sidecar_protocol.rs\<close>), \<open>LimitWriter\<close> (\<open>runtime.rs\<close>) and
  \<open>PayloadSizeLimiter\<close> (\<open>sidecar_runtime.rs\<close>).

  The serializer itself is not code of the repository. A serialization is given to the
  model as the sequence of chunks it hands to the writer and whether it ends with an
  error of its own (a \<open>Serialize\<close> implementation that refuses the value). \<open>to_writer\<close>
  is the documented contract of \<open>serde_json::to_writer\<close>: it passes the chunks on in order
  with \<open>write_all\<close> and stops at the first writer error.

  The locale \<open>bounded_sink\<close> states what all three writers promise; \<open>to_writer_ok_iff\<close> is
  proved once inside it and holds for each of them by interpretation.
\<close>

section \<open>Serializations and writers\<close>

record serialized =
  chunks :: "bytes list"
  refused :: bool

definition total_len :: "bytes list \<Rightarrow> nat" where
  "total_len bss = sum_list (map length bss)"

lemma total_len_simps [simp]:
  "total_len [] = 0" "total_len (bs # bss) = length bs + total_len bss"
  by (simp_all add: total_len_def)

lemma length_concat_total_len [simp]: "length (concat bss) = total_len bss"
  by (simp add: total_len_def length_concat)

text \<open>A call of \<open>write\<close> returns \<open>Some n\<close> for \<open>Ok(n)\<close> and \<open>None\<close> for an I/O error.\<close>

type_synonym 'w write_fn = "'w \<Rightarrow> bytes \<Rightarrow> nat option \<times> 'w"

text \<open>\<open>std::io::Write::write_all\<close>: \<open>Ok(0)\<close> is the error \<open>WriteZero\<close>.\<close>

function write_all :: "'w write_fn \<Rightarrow> 'w \<Rightarrow> bytes \<Rightarrow> bool \<times> 'w" where
  "write_all write w bs =
     (if bs = [] then (True, w)
      else case write w bs of
        (None, w') \<Rightarrow> (False, w')
      | (Some n, w') \<Rightarrow>
          if n = 0 then (False, w') else write_all write w' (drop n bs))"
  by pat_completeness auto
termination
  by (relation "measure (\<lambda>(write, w, bs). length bs)") auto

declare write_all.simps [simp del]

fun write_chunks :: "'w write_fn \<Rightarrow> 'w \<Rightarrow> bytes list \<Rightarrow> bool \<times> 'w" where
  "write_chunks write w [] = (True, w)"
| "write_chunks write w (bs # bss) =
     (case write_all write w bs of
        (False, w') \<Rightarrow> (False, w')
      | (True, w') \<Rightarrow> write_chunks write w' bss)"

definition to_writer :: "'w write_fn \<Rightarrow> 'w \<Rightarrow> serialized \<Rightarrow> bool \<times> 'w" where
  "to_writer write w s =
     (case write_chunks write w (chunks s) of
        (False, w') \<Rightarrow> (False, w')
      | (True, w') \<Rightarrow> (\<not> refused s, w'))"

section \<open>The contract of a bounded sink\<close>

locale bounded_sink =
  fixes put :: "'w write_fn"
    and room :: "'w \<Rightarrow> nat"
    and invar :: "'w \<Rightarrow> bool"
    and absorb :: "'w \<Rightarrow> bytes \<Rightarrow> 'w"
  assumes write_fits: "invar w \<Longrightarrow> length bs \<le> room w \<Longrightarrow> put w bs = (Some (length bs), absorb w bs)"
    and write_over: "invar w \<Longrightarrow> room w < length bs \<Longrightarrow> fst (put w bs) = None"
    and absorb_room: "invar w \<Longrightarrow> length bs \<le> room w \<Longrightarrow> room (absorb w bs) = room w - length bs"
    and absorb_invar: "invar w \<Longrightarrow> length bs \<le> room w \<Longrightarrow> invar (absorb w bs)"
    and absorb_nil: "invar w \<Longrightarrow> absorb w [] = w"
    and absorb_append: "invar w \<Longrightarrow> length bs + length cs \<le> room w \<Longrightarrow>
      absorb (absorb w bs) cs = absorb w (bs @ cs)"
begin

lemma write_all_fits:
  assumes "invar w" and "length bs \<le> room w"
  shows "write_all put w bs = (True, absorb w bs)"
proof (cases "bs = []")
  case True
  then show ?thesis using assms by (simp add: write_all.simps absorb_nil)
next
  case False
  then show ?thesis
    using assms by (simp add: write_all.simps [of put w bs] write_fits
        write_all.simps [of put "absorb w bs" "[]"])
qed

lemma write_all_over:
  assumes "invar w" and "room w < length bs"
  shows "fst (write_all put w bs) = False"
proof -
  from assms have "bs \<noteq> []" by auto
  with write_over [OF assms] show ?thesis
    by (auto simp: write_all.simps [of put w bs] split: prod.splits option.splits)
qed

lemma write_chunks_fits:
  "invar w \<Longrightarrow> total_len bss \<le> room w \<Longrightarrow>
   write_chunks put w bss = (True, absorb w (concat bss))"
proof (induction bss arbitrary: w)
  case Nil
  then show ?case by (simp add: absorb_nil)
next
  case (Cons bs bss)
  from Cons.prems have fits: "length bs \<le> room w" by simp
  have "invar (absorb w bs)" and "total_len bss \<le> room (absorb w bs)"
    using Cons.prems fits by (simp_all add: absorb_invar absorb_room)
  then have "write_chunks put (absorb w bs) bss
      = (True, absorb (absorb w bs) (concat bss))" by (rule Cons.IH)
  then show ?case
    using Cons.prems fits by (simp add: write_all_fits absorb_append)
qed

lemma write_chunks_over:
  "invar w \<Longrightarrow> room w < total_len bss \<Longrightarrow> fst (write_chunks put w bss) = False"
proof (induction bss arbitrary: w)
  case Nil
  then show ?case by simp
next
  case (Cons bs bss)
  show ?case
  proof (cases "length bs \<le> room w")
    case True
    have "invar (absorb w bs)" and "room (absorb w bs) < total_len bss"
      using Cons.prems True by (simp_all add: absorb_invar absorb_room)
    then have "fst (write_chunks put (absorb w bs) bss) = False" by (rule Cons.IH)
    then show ?thesis using Cons.prems True by (simp add: write_all_fits)
  next
    case False
    then have "fst (write_all put w bs) = False"
      using Cons.prems by (simp add: write_all_over)
    then show ?thesis by (auto split: prod.splits bool.splits)
  qed
qed

lemma to_writer_ok_iff:
  "invar w \<Longrightarrow>
   fst (to_writer put w s) \<longleftrightarrow> total_len (chunks s) \<le> room w \<and> \<not> refused s"
  using write_chunks_fits [of w "chunks s"] write_chunks_over [of w "chunks s"]
  by (cases "total_len (chunks s) \<le> room w")
    (auto simp: to_writer_def split: prod.splits bool.splits)

lemma to_writer_result:
  "invar w \<Longrightarrow> total_len (chunks s) \<le> room w \<Longrightarrow>
   to_writer put w s = (\<not> refused s, absorb w (concat (chunks s)))"
  by (simp add: to_writer_def write_chunks_fits)

end

section \<open>BoundedFrameWriter\<close>

record bounded_frame_writer =
  bfw_frame :: bytes
  bfw_max_len :: nat
  bfw_exceeded :: bool

definition bounded_frame_writer_new :: "bytes \<Rightarrow> nat \<Rightarrow> bounded_frame_writer" where
  "bounded_frame_writer_new frame max_len =
     \<lparr>bfw_frame = frame, bfw_max_len = max_len, bfw_exceeded = False\<rparr>"

lemma bounded_frame_writer_new_sel [simp]:
  "bfw_frame (bounded_frame_writer_new f m) = f"
  "\<not> bfw_exceeded (bounded_frame_writer_new f m)"
  by (simp_all add: bounded_frame_writer_new_def)

definition bounded_frame_write :: "bounded_frame_writer write_fn" where
  "bounded_frame_write w bs =
     (let remaining = bfw_max_len w - length (bfw_frame w) in
      if length bs > remaining then (None, w\<lparr>bfw_exceeded := True\<rparr>)
      else (Some (length bs), w\<lparr>bfw_frame := bfw_frame w @ bs\<rparr>))"

definition bounded_frame_room :: "bounded_frame_writer \<Rightarrow> nat" where
  "bounded_frame_room w = bfw_max_len w - length (bfw_frame w)"

interpretation bounded_frame: bounded_sink bounded_frame_write bounded_frame_room
    "\<lambda>_. True" "\<lambda>w bs. w\<lparr>bfw_frame := bfw_frame w @ bs\<rparr>"
  by unfold_locales (auto simp: bounded_frame_write_def bounded_frame_room_def)

text \<open>Only the limit sets \<open>exceeded\<close>: a serializer that refuses its value leaves it clear.\<close>

lemma bounded_frame_write_all_exceeded:
  "bfw_exceeded (snd (write_all bounded_frame_write w bs)) \<longleftrightarrow>
   bfw_exceeded w \<or> bounded_frame_room w < length bs"
proof (cases "length bs \<le> bounded_frame_room w")
  case True
  then show ?thesis by (simp add: bounded_frame.write_all_fits)
next
  case False
  then have "bs \<noteq> []" by auto
  with False show ?thesis
    by (simp add: write_all.simps [of _ w bs] bounded_frame_write_def bounded_frame_room_def)
qed

lemma bounded_frame_chunks_exceeded:
  "bfw_exceeded (snd (write_chunks bounded_frame_write w bss)) \<longleftrightarrow>
   bfw_exceeded w \<or> bounded_frame_room w < total_len bss"
proof (induction bss arbitrary: w)
  case Nil
  then show ?case by simp
next
  case (Cons bs bss)
  show ?case
  proof (cases "length bs \<le> bounded_frame_room w")
    case True
    then show ?thesis
      by (auto simp: bounded_frame.write_all_fits Cons.IH bounded_frame_room_def)
  next
    case False
    then have "fst (write_all bounded_frame_write w bs) = False"
      by (simp add: bounded_frame.write_all_over)
    with False bounded_frame_write_all_exceeded [of w bs] show ?thesis
      by (auto split: prod.splits bool.splits)
  qed
qed

section \<open>LimitWriter\<close>

record limit_writer =
  lw_written :: nat
  lw_maximum :: nat

definition limit_write :: "limit_writer write_fn" where
  "limit_write w bs =
     (case checked_add_usize (lw_written w) (length bs) of
        None \<Rightarrow> (None, w)
      | Some next \<Rightarrow>
          if next > lw_maximum w then (None, w)
          else (Some (length bs), w\<lparr>lw_written := next\<rparr>))"

definition limit_writer_invar :: "limit_writer \<Rightarrow> bool" where
  "limit_writer_invar w \<longleftrightarrow> lw_written w \<le> lw_maximum w \<and> lw_maximum w \<le> usize_max"

interpretation limit: bounded_sink limit_write "\<lambda>w. lw_maximum w - lw_written w"
    limit_writer_invar "\<lambda>w bs. w\<lparr>lw_written := lw_written w + length bs\<rparr>"
  by unfold_locales
    (auto simp: limit_write_def limit_writer_invar_def add.assoc split: option.splits)

text \<open>
  \<open>serialized_json_within_limit\<close> of \<open>runtime.rs\<close>: does the serialization of a value fit?
\<close>

definition serialized_json_within_limit :: "serialized \<Rightarrow> nat \<Rightarrow> bool" where
  "serialized_json_within_limit s maximum =
     fst (to_writer limit_write \<lparr>lw_written = 0, lw_maximum = maximum\<rparr> s)"

section \<open>PayloadSizeLimiter\<close>

record payload_size_limiter =
  psl_written :: nat
  psl_limit :: nat

definition payload_size_write :: "payload_size_limiter write_fn" where
  "payload_size_write w bs =
     (let remaining = psl_limit w - psl_written w in
      if length bs > remaining then (None, w)
      else (Some (length bs), w\<lparr>psl_written := psl_written w + length bs\<rparr>))"

interpretation payload_size: bounded_sink payload_size_write
    "\<lambda>w. psl_limit w - psl_written w" "\<lambda>_. True"
    "\<lambda>w bs. w\<lparr>psl_written := psl_written w + length bs\<rparr>"
  by unfold_locales (auto simp: payload_size_write_def add.assoc)

definition runtime_message_within_limit :: "serialized \<Rightarrow> nat \<Rightarrow> bool" where
  "runtime_message_within_limit s limit =
     fst (to_writer payload_size_write \<lparr>psl_written = 0, psl_limit = limit\<rparr> s)"

section \<open>Properties\<close>

lemma runtime_message_within_limit_iff:
  "runtime_message_within_limit s limit \<longleftrightarrow> total_len (chunks s) \<le> limit \<and> \<not> refused s"
  by (simp add: runtime_message_within_limit_def payload_size.to_writer_ok_iff)

lemma serialized_json_within_limit_iff:
  "maximum \<le> usize_max \<Longrightarrow>
   serialized_json_within_limit s maximum \<longleftrightarrow>
     total_len (chunks s) \<le> maximum \<and> \<not> refused s"
  by (simp add: serialized_json_within_limit_def limit.to_writer_ok_iff limit_writer_invar_def)

end
