(* ===== verification/RustText.thy ===== *)
theory RustText
  imports Prelude "HOL-Library.Char_ord" "HOL-Library.List_Lexorder" "HOL-Library.Sublist"
begin

text \<open>
  Rust's \<open>String\<close> and \<open>&str\<close>. A Rust string is a valid UTF-8 byte sequence; it is modelled
  as the HOL \<open>string\<close> of those bytes (a \<open>char\<close> of HOL is one byte), so \<open>length\<close> is \<open>len()\<close>,
  the order of \<open>List_Lexorder\<close> is the bytewise order of Rust strings, and the ASCII tests
  read one byte at a time. The only operations of the standard library that look at more
  than one byte are written out over the UTF-8 encodings: the Unicode white space that
  \<open>trim\<close> removes.
\<close>

section \<open>Bytes of a string\<close>

definition char_code :: "char \<Rightarrow> nat" where
  "char_code c = of_char c"

lemma char_code_bound: "char_code c < 256"
  by (simp add: char_code_def)

lemma char_code_inject [simp]: "char_code c = char_code d \<longleftrightarrow> c = d"
  by (simp add: char_code_def)

definition as_bytes :: "string \<Rightarrow> bytes" where
  "as_bytes s = map (\<lambda>c. word_of_nat (char_code c)) s"

lemma length_as_bytes [byte_simps, simp]: "length (as_bytes s) = length s"
  by (simp add: as_bytes_def)

lemma u8_of_char_code_inject: "(word_of_nat (char_code c) :: u8) = word_of_nat (char_code d) \<Longrightarrow> c = d"
proof -
  assume "(word_of_nat (char_code c) :: u8) = word_of_nat (char_code d)"
  then have "unat (word_of_nat (char_code c) :: u8) = unat (word_of_nat (char_code d) :: u8)" by simp
  then have "char_code c = char_code d"
    using char_code_bound [of c] char_code_bound [of d] by (simp add: unat_of_nat take_bit_eq_mod)
  then show ?thesis by simp
qed

lemma as_bytes_inject [simp]: "as_bytes s = as_bytes t \<longleftrightarrow> s = t"
proof -
  have "inj (\<lambda>c. word_of_nat (char_code c) :: u8)"
    by (rule injI) (rule u8_of_char_code_inject)
  then show ?thesis unfolding as_bytes_def by (simp add: inj_map_eq_map)
qed

section \<open>ASCII tests\<close>

definition is_ascii_alphanumeric :: "char \<Rightarrow> bool" where
  "is_ascii_alphanumeric c =
     (48 \<le> char_code c \<and> char_code c \<le> 57 \<or> 65 \<le> char_code c \<and> char_code c \<le> 90 \<or> 97 \<le> char_code c \<and> char_code c \<le> 122)"

definition to_ascii_lowercase :: "string \<Rightarrow> string" where
  "to_ascii_lowercase s =
     map (\<lambda>c. if 65 \<le> char_code c \<and> char_code c \<le> 90 then char_of (char_code c + 32) else c) s"

definition eq_ignore_ascii_case :: "string \<Rightarrow> string \<Rightarrow> bool" where
  "eq_ignore_ascii_case s t = (to_ascii_lowercase s = to_ascii_lowercase t)"

section \<open>Trimming\<close>

text \<open>
  Unicode \<open>White_Space\<close>, by its UTF-8 encodings of one, two and three bytes: U+0009 to
  U+000D and U+0020; U+0085 and U+00A0; U+1680, U+2000 to U+200A, U+2028, U+2029, U+202F,
  U+205F and U+3000.
\<close>

definition is_ws1 :: "char \<Rightarrow> bool" where
  "is_ws1 a = (9 \<le> char_code a \<and> char_code a \<le> 13 \<or> char_code a = 32)"

definition is_ws2 :: "char \<Rightarrow> char \<Rightarrow> bool" where
  "is_ws2 a b = (char_code a = 194 \<and> (char_code b = 133 \<or> char_code b = 160))"

definition is_ws3 :: "char \<Rightarrow> char \<Rightarrow> char \<Rightarrow> bool" where
  "is_ws3 a b c =
     (char_code a = 225 \<and> char_code b = 154 \<and> char_code c = 128
      \<or> char_code a = 226 \<and> char_code b = 128 \<and>
          (128 \<le> char_code c \<and> char_code c \<le> 138 \<or> char_code c = 168 \<or> char_code c = 169 \<or> char_code c = 175)
      \<or> char_code a = 226 \<and> char_code b = 129 \<and> char_code c = 159
      \<or> char_code a = 227 \<and> char_code b = 128 \<and> char_code c = 128)"

fun trim_start :: "string \<Rightarrow> string" where
  "trim_start [] = []"
| "trim_start [a] = (if is_ws1 a then [] else [a])"
| "trim_start [a, b] =
     (if is_ws1 a then trim_start [b] else if is_ws2 a b then [] else [a, b])"
| "trim_start (a # b # c # s) =
     (if is_ws1 a then trim_start (b # c # s)
      else if is_ws2 a b then trim_start (c # s)
      else if is_ws3 a b c then trim_start s
      else a # b # c # s)"

text \<open>The same from the end, on the reversed string.\<close>

fun trim_end_rev :: "string \<Rightarrow> string" where
  "trim_end_rev [] = []"
| "trim_end_rev [a] = (if is_ws1 a then [] else [a])"
| "trim_end_rev [b, a] =
     (if is_ws1 b then trim_end_rev [a] else if is_ws2 a b then [] else [b, a])"
| "trim_end_rev (c # b # a # s) =
     (if is_ws1 c then trim_end_rev (b # a # s)
      else if is_ws2 b c then trim_end_rev (a # s)
      else if is_ws3 a b c then trim_end_rev s
      else c # b # a # s)"

definition trim :: "string \<Rightarrow> string" where
  "trim s = rev (trim_end_rev (rev (trim_start s)))"

lemma length_trim_start: "length (trim_start s) \<le> length s"
  by (induction s rule: trim_start.induct) auto

lemma length_trim_end_rev: "length (trim_end_rev s) \<le> length s"
  by (induction s rule: trim_end_rev.induct) auto

lemma length_trim: "length (trim s) \<le> length s"
  using length_trim_start [of s] length_trim_end_rev [of "rev (trim_start s)"]
  by (simp add: trim_def)

lemma trim_Nil [simp]: "trim [] = []"
  by (simp add: trim_def)

section \<open>Prefixes, infixes and order\<close>

definition starts_with :: "string \<Rightarrow> string \<Rightarrow> bool" where
  "starts_with s p = (take (length p) s = p)"

fun contains :: "string \<Rightarrow> string \<Rightarrow> bool" where
  "contains [] p = (p = [])"
| "contains (c # s) p = (starts_with (c # s) p \<or> contains s p)"

lemma starts_with_iff_prefix: "starts_with s p \<longleftrightarrow> prefix p s"
  by (auto simp: starts_with_def prefix_def) (metis append_take_drop_id)

lemma contains_iff_sublist: "contains s p \<longleftrightarrow> sublist p s"
  by (induction s) (auto simp: starts_with_iff_prefix sublist_Cons_right)

text \<open>\<open>Vec<String>::sort\<close>: a stable sort by the bytewise order.\<close>

definition sorted_strings :: "string list \<Rightarrow> string list" where
  "sorted_strings values = sort values"

lemma sorted_strings_props [simp]:
  "sorted (sorted_strings xs)"
  "set (sorted_strings xs) = set xs"
  "distinct (sorted_strings xs) = distinct xs"
  "length (sorted_strings xs) = length xs"
  by (simp_all add: sorted_strings_def)

section \<open>Decimal numbers\<close>

text \<open>\<open>Display\<close> of an unsigned integer.\<close>

fun show_nat :: "nat \<Rightarrow> string" where
  "show_nat n = (if n < 10 then [char_of (48 + n)] else show_nat (n div 10) @ [char_of (48 + n mod 10)])"

declare show_nat.simps [simp del]

definition nat_value :: "string \<Rightarrow> nat" where
  "nat_value t = foldl (\<lambda>a c. a * 10 + (of_char c - 48)) 0 t"

lemma nat_value_show: "nat_value (show_nat n) = n"
proof (induction n rule: show_nat.induct)
  case (1 n)
  then show ?case
    by (cases "n < 10") (simp_all add: nat_value_def show_nat.simps [of n])
qed

lemma show_nat_inject: "show_nat m = show_nat n \<longleftrightarrow> m = n"
  using nat_value_show by metis

text \<open>The digits are ASCII digits, and there is one.\<close>

lemma char_code_digit: "k < 10 \<Longrightarrow> char_code (char_of (48 + k)) = 48 + k"
  by (simp add: char_code_def)

lemma show_nat_digits: "c \<in> set (show_nat n) \<Longrightarrow> 48 \<le> char_code c \<and> char_code c \<le> 57"
proof (induction n rule: show_nat.induct)
  case (1 n)
  have "char_code (char_of (48 + n mod 10)) = 48 + n mod 10" by (rule char_code_digit) simp
  then show ?case using 1 char_code_digit [of n]
    by (cases "n < 10") (auto simp: show_nat.simps [of n])
qed

lemma show_nat_nonempty: "show_nat n \<noteq> []"
  by (subst show_nat.simps) simp

end
