(* ===== verification/SidecarProtocol.thy ===== *)
theory SidecarProtocol
  imports Writers RustText
begin

text \<open>
  The data of \<open>sidecar_protocol.rs\<close> and its pure part: roles and directions, offers and
  limits, the negotiation of a protocol and the state of one authenticated channel with
  the operations that do not touch a frame. The frame codec (\<open>seal\<close> and \<open>open\<close>) is in
  theory \<open>SidecarFrames\<close>.
\<close>

section \<open>Constants\<close>

definition SIDECAR_PROTOCOL_MAJOR :: u16 where "SIDECAR_PROTOCOL_MAJOR = 1"
definition SIDECAR_PROTOCOL_MINOR :: u16 where "SIDECAR_PROTOCOL_MINOR = 0"
definition SIDECAR_MAX_FEATURE_BITS :: u64 where "SIDECAR_MAX_FEATURE_BITS = 2 ^ 53 - 1"
definition SIDECAR_BOOTSTRAP_MINOR :: u16 where "SIDECAR_BOOTSTRAP_MINOR = 0"
definition FRAME_MAGIC :: bytes where "FRAME_MAGIC = as_bytes ''OCSC''"
definition AUTH_TAG_BYTES :: nat where "AUTH_TAG_BYTES = 32"
definition FIXED_HEADER_BYTES :: nat where
  "FIXED_HEADER_BYTES = 4 + 2 + 2 + 1 + 8 + 8 + 2 + 4"
definition PAYLOAD_LENGTH_OFFSET :: nat where
  "PAYLOAD_LENGTH_OFFSET = 4 + 2 + 2 + 1 + 8 + 8 + 2"
definition MIN_FRAME_BYTES :: u32 where "MIN_FRAME_BYTES = 65"

lemma frame_constants [simp]:
  "AUTH_TAG_BYTES = 32" "FIXED_HEADER_BYTES = 31" "PAYLOAD_LENGTH_OFFSET = 27"
  "length FRAME_MAGIC = 4"
  by (simp_all add: AUTH_TAG_BYTES_def FIXED_HEADER_BYTES_def PAYLOAD_LENGTH_OFFSET_def
      FRAME_MAGIC_def)

definition minimum_frame_bytes :: "nat \<Rightarrow> nat" where
  "minimum_frame_bytes session_id_bytes =
     FIXED_HEADER_BYTES + session_id_bytes + AUTH_TAG_BYTES + 1"

section \<open>Errors\<close>

datatype sidecar_protocol_error =
    ChannelInstanceIdExhausted
  | InvalidFeatureBits
  | InvalidPeerRole
  | InvalidLimit string
  | InvalidSessionId
  | LimitIncrease u32 u32
  | FrameLimitLocked
  | InvalidGeneration
  | UnsupportedMajor u16 u16
  | UnsupportedLocalMinor u16

text \<open>
  The errors of \<open>serde_json\<close> and of the transport are values of other crates; the three
  last constructors stand for them without their content.
\<close>

datatype sidecar_frame_error =
    Authentication
  | ChannelRetired
  | Deadline
  | FrameTooLarge u64 u32
  | InvalidDirection u8
  | InvalidMagic
  | InvalidFrameLimit u32
  | InvalidFrameSessionId
  | WrongGeneration u64 u64
  | WrongSession
  | WrongDirection
  | SequenceExhausted
  | UnexpectedSequence u64 u64
  | Truncated
  | TrailingBytes
  | UnsupportedVersion u16 u16
  | Serialize
  | Deserialize
  | Io

section \<open>Roles and directions\<close>

datatype sidecar_peer_role = Supervisor | Runtime

datatype sidecar_direction = SupervisorToRuntime | RuntimeToSupervisor

fun outgoing_direction :: "sidecar_peer_role \<Rightarrow> sidecar_direction" where
  "outgoing_direction Supervisor = SupervisorToRuntime"
| "outgoing_direction Runtime = RuntimeToSupervisor"

fun expected_remote :: "sidecar_peer_role \<Rightarrow> sidecar_peer_role" where
  "expected_remote Supervisor = Runtime"
| "expected_remote Runtime = Supervisor"

fun wire_value :: "sidecar_direction \<Rightarrow> u8" where
  "wire_value SupervisorToRuntime = 1"
| "wire_value RuntimeToSupervisor = 2"

definition from_wire :: "u8 \<Rightarrow> sidecar_frame_error + sidecar_direction" where
  "from_wire value =
     (if value = 1 then Inr SupervisorToRuntime
      else if value = 2 then Inr RuntimeToSupervisor
      else Inl (InvalidDirection value))"

lemma from_wire_eq_iff [simp]: "from_wire v = Inr d \<longleftrightarrow> v = wire_value d"
  by (cases d) (auto simp: from_wire_def)

lemma from_wire_wire_value [simp]: "from_wire (wire_value d) = Inr d"
  by simp

lemma expected_remote_simps [simp]:
  "expected_remote (expected_remote r) = r" "expected_remote r \<noteq> r"
  by (cases r; simp)+

lemma other_role: "r \<noteq> r' \<longleftrightarrow> r' = expected_remote r"
  by (cases r; cases r') simp_all

section \<open>Offers and negotiation\<close>

record sidecar_peer_identity =
  peer_role :: sidecar_peer_role
  peer_name :: string
  peer_version :: string
  artifact_identity :: string

record sidecar_limits =
  max_frame_bytes :: u32
  max_in_flight :: u16
  bootstrap_timeout_ms :: u32

record sidecar_protocol_offer =
  offer_major :: u16
  offer_minor :: u16
  offer_peer :: sidecar_peer_identity
  offer_feature_bits :: u64
  offer_limits :: sidecar_limits

record negotiated_sidecar_protocol =
  neg_major :: u16
  neg_minor :: u16
  neg_feature_bits :: u64
  neg_limits :: sidecar_limits
  neg_remote_peer :: sidecar_peer_identity

definition validate_limits :: "sidecar_limits \<Rightarrow> sidecar_protocol_error + sidecar_limits" where
  "validate_limits l =
     (if max_frame_bytes l < MIN_FRAME_BYTES then Inl (InvalidLimit ''maxFrameBytes'')
      else if max_in_flight l = 0 then Inl (InvalidLimit ''maxInFlight'')
      else if bootstrap_timeout_ms l = 0 then Inl (InvalidLimit ''bootstrapTimeoutMs'')
      else Inr l)"

definition negotiate_sidecar_protocol ::
  "sidecar_protocol_offer \<Rightarrow> sidecar_protocol_offer \<Rightarrow>
   sidecar_protocol_error + negotiated_sidecar_protocol" where
  "negotiate_sidecar_protocol local remote =
     (case validate_limits (offer_limits local) of
        Inl e \<Rightarrow> Inl e
      | Inr local_limits \<Rightarrow>
     (case validate_limits (offer_limits remote) of
        Inl e \<Rightarrow> Inl e
      | Inr remote_limits \<Rightarrow>
        if peer_role (offer_peer local) = peer_role (offer_peer remote)
          then Inl InvalidPeerRole
        else if offer_feature_bits local > SIDECAR_MAX_FEATURE_BITS
             \<or> offer_feature_bits remote > SIDECAR_MAX_FEATURE_BITS
          then Inl InvalidFeatureBits
        else if offer_major local \<noteq> SIDECAR_PROTOCOL_MAJOR
             \<or> offer_major remote \<noteq> SIDECAR_PROTOCOL_MAJOR
          then Inl (UnsupportedMajor (offer_major local) (offer_major remote))
        else if offer_minor local > SIDECAR_PROTOCOL_MINOR
          then Inl (UnsupportedLocalMinor (offer_minor local))
        else Inr \<lparr>
          neg_major = SIDECAR_PROTOCOL_MAJOR,
          neg_minor = min (offer_minor local) (offer_minor remote),
          neg_feature_bits = and (offer_feature_bits local) (offer_feature_bits remote),
          neg_limits = \<lparr>
            max_frame_bytes = min (max_frame_bytes local_limits) (max_frame_bytes remote_limits),
            max_in_flight = min (max_in_flight local_limits) (max_in_flight remote_limits),
            bootstrap_timeout_ms =
              min (bootstrap_timeout_ms local_limits) (bootstrap_timeout_ms remote_limits)\<rparr>,
          neg_remote_peer = offer_peer remote\<rparr>))"

section \<open>The channel state\<close>

text \<open>
  \<open>ch_retired\<close> is the value of the \<open>watch\<close> cell behind \<open>SidecarChannelLiveness\<close>. The key
  is 32 bytes long by its Rust type \<open>[u8; 32]\<close>.
\<close>

record channel =
  ch_instance_id :: u64
  ch_role :: sidecar_peer_role
  ch_minor :: u16
  ch_session_id :: string
  ch_generation :: u64
  ch_key :: bytes
  ch_max_frame_bytes :: u32
  ch_frame_limit_locked :: bool
  ch_send_sequence :: u64
  ch_receive_sequence :: u64
  ch_retired :: bool

text \<open>
  \<open>AuthenticatedSidecarChannel::new\<close>. The process-wide counter \<open>NEXT_CHANNEL_INSTANCE_ID\<close>
  is passed and returned; \<open>fetch_update\<close> hands out its old value.
\<close>

definition channel_new ::
  "u64 \<Rightarrow> sidecar_peer_role \<Rightarrow> string \<Rightarrow> u64 \<Rightarrow> bytes \<Rightarrow> u32 \<Rightarrow>
   (sidecar_protocol_error + channel) \<times> u64" where
  "channel_new next_id role session_id generation key frame_limit =
     (if session_id = [] \<or> length session_id > 65535 then (Inl InvalidSessionId, next_id)
      else if generation = 0 then (Inl InvalidGeneration, next_id)
      else if unat frame_limit < minimum_frame_bytes (length session_id)
        then (Inl (InvalidLimit ''maxFrameBytes''), next_id)
      else case checked_add next_id 1 of
        None \<Rightarrow> (Inl ChannelInstanceIdExhausted, next_id)
      | Some next_id' \<Rightarrow>
          (Inr \<lparr>ch_instance_id = next_id, ch_role = role, ch_minor = SIDECAR_BOOTSTRAP_MINOR,
                ch_session_id = session_id, ch_generation = generation, ch_key = key,
                ch_max_frame_bytes = frame_limit, ch_frame_limit_locked = False,
                ch_send_sequence = 0, ch_receive_sequence = 0, ch_retired = False\<rparr>,
           next_id'))"

text \<open>\<open>retire\<close> zeroizes the key and raises the liveness flag.\<close>

definition retire :: "channel \<Rightarrow> channel" where
  "retire ch = ch\<lparr>ch_key := replicate (length (ch_key ch)) 0, ch_retired := True\<rparr>"

definition max_payload_bytes :: "channel \<Rightarrow> nat" where
  "max_payload_bytes ch =
     unat (ch_max_frame_bytes ch) - FIXED_HEADER_BYTES - length (ch_session_id ch) - AUTH_TAG_BYTES"

definition lower_frame_limit :: "u32 \<Rightarrow> channel \<Rightarrow> (sidecar_protocol_error + unit) \<times> channel" where
  "lower_frame_limit negotiated_max ch =
     (if ch_frame_limit_locked ch then (Inl FrameLimitLocked, ch)
      else if unat negotiated_max < minimum_frame_bytes (length (ch_session_id ch))
        then (Inl (InvalidLimit ''maxFrameBytes''), ch)
      else if negotiated_max > ch_max_frame_bytes ch
        then (Inl (LimitIncrease (ch_max_frame_bytes ch) negotiated_max), ch)
      else (Inr (), ch\<lparr>ch_max_frame_bytes := negotiated_max\<rparr>))"

definition lock_frame_limit :: "channel \<Rightarrow> channel" where
  "lock_frame_limit ch = ch\<lparr>ch_frame_limit_locked := True\<rparr>"

definition apply_negotiated_protocol ::
  "negotiated_sidecar_protocol \<Rightarrow> channel \<Rightarrow> (sidecar_protocol_error + unit) \<times> channel" where
  "apply_negotiated_protocol n ch =
     (if neg_major n \<noteq> SIDECAR_PROTOCOL_MAJOR
        then (Inl (UnsupportedMajor SIDECAR_PROTOCOL_MAJOR (neg_major n)), ch)
      else if neg_minor n > SIDECAR_PROTOCOL_MINOR
        then (Inl (UnsupportedLocalMinor (neg_minor n)), ch)
      else case lower_frame_limit (max_frame_bytes (neg_limits n)) ch of
        (Inl e, ch') \<Rightarrow> (Inl e, ch')
      | (Inr _, ch') \<Rightarrow> (Inr (), ch'\<lparr>ch_minor := neg_minor n\<rparr>))"

section \<open>Properties\<close>

lemma validate_limits_Inr:
  "validate_limits l = Inr l' \<longleftrightarrow>
   l' = l \<and> MIN_FRAME_BYTES \<le> max_frame_bytes l \<and> max_in_flight l \<noteq> 0 \<and> bootstrap_timeout_ms l \<noteq> 0"
  by (auto simp: validate_limits_def not_less)

lemma validate_limits_cases: "(\<exists>e. validate_limits l = Inl e) \<or> validate_limits l = Inr l"
  by (simp add: validate_limits_def)

text \<open>The conditions under which an offer takes part in a negotiation, and its outcome.\<close>

definition offer_ok :: "sidecar_protocol_offer \<Rightarrow> bool" where
  "offer_ok offer \<longleftrightarrow>
     validate_limits (offer_limits offer) = Inr (offer_limits offer) \<and>
     offer_feature_bits offer \<le> SIDECAR_MAX_FEATURE_BITS \<and>
     offer_major offer = SIDECAR_PROTOCOL_MAJOR"

definition common_limits :: "sidecar_limits \<Rightarrow> sidecar_limits \<Rightarrow> sidecar_limits" where
  "common_limits a b =
     \<lparr>max_frame_bytes = min (max_frame_bytes a) (max_frame_bytes b),
      max_in_flight = min (max_in_flight a) (max_in_flight b),
      bootstrap_timeout_ms = min (bootstrap_timeout_ms a) (bootstrap_timeout_ms b)\<rparr>"

lemma negotiate_Inr_iff:
  "negotiate_sidecar_protocol a b = Inr n \<longleftrightarrow>
   offer_ok a \<and> offer_ok b \<and> peer_role (offer_peer a) \<noteq> peer_role (offer_peer b) \<and>
   offer_minor a \<le> SIDECAR_PROTOCOL_MINOR \<and>
   n = \<lparr>neg_major = SIDECAR_PROTOCOL_MAJOR, neg_minor = min (offer_minor a) (offer_minor b),
        neg_feature_bits = and (offer_feature_bits a) (offer_feature_bits b),
        neg_limits = common_limits (offer_limits a) (offer_limits b),
        neg_remote_peer = offer_peer b\<rparr>"
  using validate_limits_cases [of "offer_limits a"] validate_limits_cases [of "offer_limits b"]
  by (elim disjE exE)
    (auto simp: negotiate_sidecar_protocol_def offer_ok_def common_limits_def not_less)

lemma word_and_le: "and (a :: 'a::len word) b \<le> a" "and (a :: 'a::len word) b \<le> b"
  by (simp_all add: word_and_le1 word_and_le2)

lemma word_and_absorb [simp]:
  "and (and (a :: 'a::len word) b) a = and a b" "and (and (a :: 'a::len word) b) b = and a b"
  by (rule bit_word_eqI; auto simp: bit_and_iff)+

lemma common_limits_props:
  "validate_limits a = Inr a \<Longrightarrow> validate_limits b = Inr b \<Longrightarrow>
   validate_limits (common_limits a b) = Inr (common_limits a b)"
  "common_limits a b = common_limits b a"
  by (auto simp: validate_limits_Inr common_limits_def min_def)

text \<open>
  Two peers that negotiate each other's offers arrive at the same selection: major and
  minor version, feature bits and limits agree, and each side holds the identity the other
  one offered.
\<close>

lemma negotiation_agrees:
  assumes "negotiate_sidecar_protocol a b = Inr n" and "negotiate_sidecar_protocol b a = Inr n'"
  shows "neg_major n = neg_major n' \<and> neg_minor n = neg_minor n' \<and>
    neg_feature_bits n = neg_feature_bits n' \<and> neg_limits n = neg_limits n' \<and>
    neg_remote_peer n = offer_peer b \<and> neg_remote_peer n' = offer_peer a"
  using assms by (simp add: negotiate_Inr_iff and.commute min.commute common_limits_props(2))

definition demo_offer :: "sidecar_peer_role \<Rightarrow> u32 \<Rightarrow> sidecar_protocol_offer" where
  "demo_offer role limit =
     \<lparr>offer_major = 1, offer_minor = 0,
      offer_peer = \<lparr>peer_role = role, peer_name = ''peer'', peer_version = ''1'',
                    artifact_identity = ''artifact''\<rparr>,
      offer_feature_bits = 6,
      offer_limits = \<lparr>max_frame_bytes = limit, max_in_flight = 8, bootstrap_timeout_ms = 500\<rparr>\<rparr>"

definition demo_negotiated :: "sidecar_peer_role \<Rightarrow> u32 \<Rightarrow> u32 \<Rightarrow> negotiated_sidecar_protocol" where
  "demo_negotiated role limit limit' =
     \<lparr>neg_major = 1, neg_minor = 0, neg_feature_bits = 6,
      neg_limits = \<lparr>max_frame_bytes = min limit limit', max_in_flight = 8, bootstrap_timeout_ms = 500\<rparr>,
      neg_remote_peer = offer_peer (demo_offer (expected_remote role) limit')\<rparr>"

lemma demo_negotiate:
  "65 \<le> limit \<Longrightarrow> 65 \<le> limit' \<Longrightarrow>
   negotiate_sidecar_protocol (demo_offer role limit) (demo_offer (expected_remote role) limit')
   = Inr (demo_negotiated role limit limit')"
  by (simp add: negotiate_Inr_iff validate_limits_Inr offer_ok_def demo_offer_def demo_negotiated_def common_limits_def
      MIN_FRAME_BYTES_def SIDECAR_MAX_FEATURE_BITS_def SIDECAR_PROTOCOL_MAJOR_def
      SIDECAR_PROTOCOL_MINOR_def not_sym [OF expected_remote_simps(2)])

lemma negotiation_agrees_witness:
  "neg_limits (demo_negotiated Supervisor 100 200) = neg_limits (demo_negotiated Runtime 200 100)"
proof -
  have "negotiate_sidecar_protocol (demo_offer Supervisor 100) (demo_offer Runtime 200)
      = Inr (demo_negotiated Supervisor 100 200)"
    using demo_negotiate [of 100 200 Supervisor] by simp
  moreover have "negotiate_sidecar_protocol (demo_offer Runtime 200) (demo_offer Supervisor 100)
      = Inr (demo_negotiated Runtime 200 100)"
    using demo_negotiate [of 200 100 Runtime] by simp
  ultimately show ?thesis using negotiation_agrees by blast
qed

text \<open>
  A negotiated selection stays within both offers: its limits are valid and no larger
  than either side's, its feature bits are offered by both, its minor version is at most
  either side's and one this build implements, and the two peers have different roles.
\<close>

lemma negotiation_within_offers:
  assumes "negotiate_sidecar_protocol a b = Inr n"
  shows "validate_limits (neg_limits n) = Inr (neg_limits n) \<and>
    max_frame_bytes (neg_limits n) \<le> max_frame_bytes (offer_limits a) \<and>
    max_frame_bytes (neg_limits n) \<le> max_frame_bytes (offer_limits b) \<and>
    max_in_flight (neg_limits n) \<le> max_in_flight (offer_limits a) \<and>
    max_in_flight (neg_limits n) \<le> max_in_flight (offer_limits b) \<and>
    and (neg_feature_bits n) (offer_feature_bits a) = neg_feature_bits n \<and>
    and (neg_feature_bits n) (offer_feature_bits b) = neg_feature_bits n \<and>
    neg_feature_bits n \<le> SIDECAR_MAX_FEATURE_BITS \<and>
    neg_major n = SIDECAR_PROTOCOL_MAJOR \<and> neg_minor n \<le> offer_minor a \<and>
    neg_minor n \<le> offer_minor b \<and> neg_minor n \<le> SIDECAR_PROTOCOL_MINOR \<and>
    peer_role (neg_remote_peer n) = expected_remote (peer_role (offer_peer a))"
proof -
  from assms have ok: "offer_ok a" "offer_ok b" and role: "peer_role (offer_peer a) \<noteq> peer_role (offer_peer b)"
    and minor: "offer_minor a \<le> SIDECAR_PROTOCOL_MINOR"
    and n: "n = \<lparr>neg_major = SIDECAR_PROTOCOL_MAJOR, neg_minor = min (offer_minor a) (offer_minor b),
        neg_feature_bits = and (offer_feature_bits a) (offer_feature_bits b),
        neg_limits = common_limits (offer_limits a) (offer_limits b),
        neg_remote_peer = offer_peer b\<rparr>"
    unfolding negotiate_Inr_iff by blast+
  have "validate_limits (neg_limits n) = Inr (neg_limits n)"
    using ok by (simp add: n offer_ok_def common_limits_props(1))
  moreover have "and (offer_feature_bits a) (offer_feature_bits b) \<le> SIDECAR_MAX_FEATURE_BITS"
    using ok(1) unfolding offer_ok_def by (meson order_trans word_and_le(1))
  ultimately show ?thesis
    using role minor other_role [of "peer_role (offer_peer a)" "peer_role (offer_peer b)"]
    by (simp add: n common_limits_def min.coboundedI1 and.assoc and.left_commute
       )
qed

lemma negotiation_within_offers_witness:
  "validate_limits (neg_limits (demo_negotiated Runtime 80 300))
     = Inr (neg_limits (demo_negotiated Runtime 80 300))"
  using negotiation_within_offers [OF demo_negotiate [of 80 300 Runtime]]
  by simp

end
