(* ===== verification/SidecarFrames.thy ===== *)
theory SidecarFrames
  imports SidecarProtocol
begin

text \<open>
  The frame codec of \<open>AuthenticatedSidecarChannel\<close> (\<open>seal\<close>, \<open>open\<close> and \<open>open_active\<close> of
  \<open>sidecar_protocol.rs\<close>) and the length-prefixed transport below it.

  HMAC-SHA-256 and the JSON codec are other crates: \<open>hm key msg\<close> is the tag (\<open>None\<close> where
  the key is refused), \<open>ser\<close> the serialization of a payload and \<open>de\<close> its deserialization.
  What the proofs need of them are the hypotheses \<open>hmac_total\<close> (a tag of 32 bytes for every
  key) and, for a given payload, that \<open>de\<close> reads back what \<open>ser\<close> wrote.

  The lemmas characterise an accepted frame exactly: \<open>seal_ok_iff\<close> says which bytes \<open>seal\<close>
  produces, \<open>open_frame_Inr_iff\<close> that \<open>open\<close> accepts those bytes and no others.
\<close>

type_synonym hmac = "bytes \<Rightarrow> bytes \<Rightarrow> bytes option"

definition hmac_total :: "hmac \<Rightarrow> bool" where
  "hmac_total hm \<longleftrightarrow> (\<forall>k m. \<exists>t. hm k m = Some t \<and> length t = AUTH_TAG_BYTES)"

section \<open>Slices\<close>

definition take_slice :: "bytes \<Rightarrow> nat \<Rightarrow> nat \<Rightarrow> sidecar_frame_error + bytes \<times> nat" where
  "take_slice bs cursor len =
     (case checked_add_usize cursor len of
        None \<Rightarrow> Inl Truncated
      | Some end \<Rightarrow>
          if end \<le> length bs then Inr (take len (drop cursor bs), end) else Inl Truncated)"

lemma take_slice_Inr [simp]:
  "take_slice bs c n = Inr (x, c') \<longleftrightarrow>
   c' = c + n \<and> c + n \<le> length bs \<and> c + n \<le> usize_max \<and> x = take n (drop c bs)"
  by (auto simp: take_slice_def split: option.splits)

section \<open>seal\<close>

definition patch_u32 :: "bytes \<Rightarrow> nat \<Rightarrow> u32 \<Rightarrow> bytes" where
  "patch_u32 frame offset v = take offset frame @ u32_to_be v @ drop (offset + 4) frame"

definition seal ::
  "hmac \<Rightarrow> ('a \<Rightarrow> serialized) \<Rightarrow> 'a \<Rightarrow> channel \<Rightarrow> (sidecar_frame_error + bytes) \<times> channel" where
  "seal hm ser payload ch =
    (if ch_retired ch then (Inl ChannelRetired, ch)
     else case checked_add (ch_send_sequence ch) 1 of
       None \<Rightarrow> (Inl SequenceExhausted, ch)
     | Some sequence \<Rightarrow>
    (let session_id = as_bytes (ch_session_id ch);
         limit = ch_max_frame_bytes ch in
     case Option.bind (checked_add_usize FIXED_HEADER_BYTES (length session_id))
            (\<lambda>size. checked_add_usize size AUTH_TAG_BYTES) of
       None \<Rightarrow> (Inl (FrameTooLarge (- 1) limit), ch)
     | Some minimum_capacity \<Rightarrow>
     if minimum_capacity \<ge> unat limit
       then (Inl (FrameTooLarge (word_of_nat (min (minimum_capacity + 1) usize_max)) limit), ch)
     else if length session_id > 65535 then (Inl InvalidFrameSessionId, ch)
     else
    (let session_len = word_of_nat (length session_id) :: u16;
         frame = FRAME_MAGIC @ u16_to_be SIDECAR_PROTOCOL_MAJOR @ u16_to_be (ch_minor ch)
           @ [wire_value (outgoing_direction (ch_role ch))]
           @ u64_to_be (ch_generation ch) @ u64_to_be sequence
           @ u16_to_be session_len @ u32_to_be 0 @ session_id;
         payload_start = length frame;
         max_authenticated_len = unat limit - AUTH_TAG_BYTES in
     case to_writer bounded_frame_write
            (bounded_frame_writer_new frame max_authenticated_len) (ser payload) of
       (False, w) \<Rightarrow>
         if bfw_exceeded w then (Inl (FrameTooLarge (ucast limit + 1) limit), ch)
         else (Inl Serialize, ch)
     | (True, w) \<Rightarrow>
         let len = length (bfw_frame w) - payload_start in
         if len \<ge> 2 ^ 32 then (Inl (FrameTooLarge (- 1) limit), ch)
         else
           let frame' = patch_u32 (bfw_frame w) PAYLOAD_LENGTH_OFFSET (word_of_nat len) in
           case hm (ch_key ch) frame' of
             None \<Rightarrow> (Inl Authentication, ch)
           | Some tag \<Rightarrow> (Inr (frame' @ tag), ch\<lparr>ch_send_sequence := sequence\<rparr>))))"

section \<open>open\<close>

definition open_active ::
  "hmac \<Rightarrow> (bytes \<Rightarrow> 'a option) \<Rightarrow> bytes \<Rightarrow> channel \<Rightarrow> sidecar_frame_error + 'a \<times> channel" where
  "open_active hm de frame ch =
    (if length frame > unat (ch_max_frame_bytes ch)
       then Inl (FrameTooLarge (word_of_nat (length frame)) (ch_max_frame_bytes ch))
     else if length frame < FIXED_HEADER_BYTES + AUTH_TAG_BYTES then Inl Truncated
     else
    (let authenticated_len = length frame - AUTH_TAG_BYTES;
         authenticated = take authenticated_len frame;
         supplied_tag = drop authenticated_len frame in
     if hm (ch_key ch) authenticated \<noteq> Some supplied_tag then Inl Authentication
     else
     bind_result (take_slice authenticated 0 4) (\<lambda>(magic, cursor).
     if magic \<noteq> FRAME_MAGIC then Inl InvalidMagic else
     bind_result (take_slice authenticated cursor 2) (\<lambda>(major_bytes, cursor).
     bind_result (take_slice authenticated cursor 2) (\<lambda>(minor_bytes, cursor).
     let major = u16_from_be major_bytes; minor = u16_from_be minor_bytes in
     if major \<noteq> SIDECAR_PROTOCOL_MAJOR \<or> minor \<noteq> ch_minor ch
       then Inl (UnsupportedVersion major minor) else
     bind_result (take_slice authenticated cursor 1) (\<lambda>(direction_byte, cursor).
     bind_result (from_wire (hd direction_byte)) (\<lambda>direction.
     if direction \<noteq> outgoing_direction (expected_remote (ch_role ch)) then Inl WrongDirection else
     bind_result (take_slice authenticated cursor 8) (\<lambda>(generation_bytes, cursor).
     let generation = u64_from_be generation_bytes in
     if generation \<noteq> ch_generation ch
       then Inl (WrongGeneration (ch_generation ch) generation) else
     bind_result (take_slice authenticated cursor 8) (\<lambda>(sequence_bytes, cursor).
     let sequence = u64_from_be sequence_bytes in
     case checked_add (ch_receive_sequence ch) 1 of
       None \<Rightarrow> Inl SequenceExhausted
     | Some expected_sequence \<Rightarrow>
     if sequence \<noteq> expected_sequence
       then Inl (UnexpectedSequence expected_sequence sequence) else
     bind_result (take_slice authenticated cursor 2) (\<lambda>(session_len, cursor).
     bind_result (take_slice authenticated cursor 4) (\<lambda>(payload_len, cursor).
     bind_result (take_slice authenticated cursor (unat (u16_from_be session_len)))
       (\<lambda>(session, cursor).
     if session \<noteq> as_bytes (ch_session_id ch) then Inl WrongSession else
     bind_result (take_slice authenticated cursor (unat (u32_from_be payload_len)))
       (\<lambda>(payload, cursor).
     if cursor \<noteq> length authenticated then Inl TrailingBytes
     else case de payload of
       None \<Rightarrow> Inl Deserialize
     | Some decoded \<Rightarrow> Inr (decoded, ch\<lparr>ch_receive_sequence := sequence\<rparr>))))))))))))))"

definition open_frame ::
  "hmac \<Rightarrow> (bytes \<Rightarrow> 'a option) \<Rightarrow> bytes \<Rightarrow> channel \<Rightarrow> (sidecar_frame_error + 'a) \<times> channel" where
  "open_frame hm de frame ch =
     (if ch_retired ch then (Inl ChannelRetired, ch)
      else case open_active hm de frame ch of
        Inl e \<Rightarrow> (Inl e, retire ch)
      | Inr (decoded, ch') \<Rightarrow> (Inr decoded, ch'))"

section \<open>What a frame is\<close>

text \<open>
  The authenticated part of the frame that carries \<open>payload\<close> as number \<open>sequence\<close> of a
  session: header, session identifier, payload.
\<close>

definition frame_body ::
  "u16 \<Rightarrow> sidecar_direction \<Rightarrow> u64 \<Rightarrow> u64 \<Rightarrow> string \<Rightarrow> bytes \<Rightarrow> bytes" where
  "frame_body minor direction generation sequence session_id payload =
     FRAME_MAGIC @ u16_to_be SIDECAR_PROTOCOL_MAJOR @ u16_to_be minor @ [wire_value direction]
     @ u64_to_be generation @ u64_to_be sequence
     @ u16_to_be (word_of_nat (length session_id)) @ u32_to_be (word_of_nat (length payload))
     @ as_bytes session_id @ payload"

lemma length_frame_body [byte_simps, simp]:
  "length (frame_body m d g q s p) = FIXED_HEADER_BYTES + length s + length p"
  by (simp add: frame_body_def)

lemma patch_header:
  "length h = 27 \<Longrightarrow> patch_u32 (h @ u32_to_be 0 @ rest) 27 v = h @ u32_to_be v @ rest"
  by (simp add: patch_u32_def)

text \<open>\<open>seal\<close> succeeds exactly when the payload fits, and then produces that frame.\<close>

definition sealed_body :: "('a \<Rightarrow> serialized) \<Rightarrow> 'a \<Rightarrow> u64 \<Rightarrow> channel \<Rightarrow> bytes" where
  "sealed_body ser payload sequence ch =
     frame_body (ch_minor ch) (outgoing_direction (ch_role ch)) (ch_generation ch) sequence
       (ch_session_id ch) (concat (chunks (ser payload)))"

lemma to_writer_frame_fits:
  "total_len (chunks s) \<le> m - length f \<Longrightarrow>
   to_writer bounded_frame_write (bounded_frame_writer_new f m) s =
     (\<not> refused s, bounded_frame_writer_new (f @ concat (chunks s)) m)"
  by (subst bounded_frame.to_writer_result)
    (simp_all add: bounded_frame_writer_new_def bounded_frame_room_def)

lemma to_writer_frame_over:
  assumes "m - length f < total_len (chunks s)"
  shows "\<exists>w. to_writer bounded_frame_write (bounded_frame_writer_new f m) s = (False, w) \<and> bfw_exceeded w"
proof -
  let ?w = "bounded_frame_writer_new f m"
  have room: "bounded_frame_room ?w < total_len (chunks s)"
    using assms by (simp add: bounded_frame_room_def bounded_frame_writer_new_def)
  then have "fst (write_chunks bounded_frame_write ?w (chunks s)) = False"
    by (simp add: bounded_frame.write_chunks_over)
  moreover have "bfw_exceeded (snd (write_chunks bounded_frame_write ?w (chunks s)))"
    using room by (simp add: bounded_frame_chunks_exceeded)
  ultimately show ?thesis
    by (auto simp: to_writer_def split: prod.splits bool.splits)
qed

text \<open>\<open>seal\<close> on every branch, with the writer and the patched length resolved.\<close>

lemma seal_unfold:
  assumes sid: "length (ch_session_id ch) \<le> 65535"
  shows "seal hm ser payload ch =
    (if ch_retired ch then (Inl ChannelRetired, ch)
     else case checked_add (ch_send_sequence ch) 1 of
       None \<Rightarrow> (Inl SequenceExhausted, ch)
     | Some sequence \<Rightarrow>
       if unat (ch_max_frame_bytes ch) \<le> 63 + length (ch_session_id ch)
         then (Inl (FrameTooLarge (word_of_nat (64 + length (ch_session_id ch))) (ch_max_frame_bytes ch)), ch)
       else if unat (ch_max_frame_bytes ch) <
           63 + length (ch_session_id ch) + total_len (chunks (ser payload))
         then (Inl (FrameTooLarge (ucast (ch_max_frame_bytes ch) + 1) (ch_max_frame_bytes ch)), ch)
       else if refused (ser payload) then (Inl Serialize, ch)
       else case hm (ch_key ch) (sealed_body ser payload sequence ch) of
         None \<Rightarrow> (Inl Authentication, ch)
       | Some tag \<Rightarrow> (Inr (sealed_body ser payload sequence ch @ tag), ch\<lparr>ch_send_sequence := sequence\<rparr>))"
proof -
  have cap: "Option.bind (checked_add_usize 31 (length (ch_session_id ch)))
      (\<lambda>size. checked_add_usize size 32) = Some (63 + length (ch_session_id ch))"
    using sid by (simp add: checked_add_usize_def usize_max_def)
  show ?thesis
proof (cases "ch_retired ch \<or> checked_add (ch_send_sequence ch) 1 = None
    \<or> unat (ch_max_frame_bytes ch) \<le> 63 + length (ch_session_id ch)")
  case True
  then show ?thesis using sid
    by (auto simp: seal_def cap usize_max_def min_def Let_def split: option.split)
next
  case False
  then obtain q where live: "\<not> ch_retired ch" and q: "checked_add (ch_send_sequence ch) 1 = Some q"
    and room: "\<not> unat (ch_max_frame_bytes ch) \<le> 63 + length (ch_session_id ch)" by auto
  let ?lim = "unat (ch_max_frame_bytes ch)"
  let ?p = "concat (chunks (ser payload))"
  define h where "h = FRAME_MAGIC @ u16_to_be SIDECAR_PROTOCOL_MAJOR @ u16_to_be (ch_minor ch)
      @ [wire_value (outgoing_direction (ch_role ch))] @ u64_to_be (ch_generation ch) @ u64_to_be q
      @ u16_to_be (word_of_nat (length (ch_session_id ch)))"
  have h: "length h = 27" by (simp add: h_def)
  let ?f = "h @ u32_to_be 0 @ as_bytes (ch_session_id ch)"
  have body: "sealed_body ser payload q ch =
      h @ u32_to_be (word_of_nat (length ?p)) @ as_bytes (ch_session_id ch) @ ?p"
    by (simp add: sealed_body_def frame_body_def h_def)
  have seal_eq: "seal hm ser payload ch =
      (case to_writer bounded_frame_write (bounded_frame_writer_new ?f (?lim - 32)) (ser payload) of
        (False, w) \<Rightarrow>
          if bfw_exceeded w then (Inl (FrameTooLarge (ucast (ch_max_frame_bytes ch) + 1) (ch_max_frame_bytes ch)), ch)
          else (Inl Serialize, ch)
      | (True, w) \<Rightarrow>
          let len = length (bfw_frame w) - length ?f in
          if len \<ge> 2 ^ 32 then (Inl (FrameTooLarge (- 1) (ch_max_frame_bytes ch)), ch)
          else
            let frame' = patch_u32 (bfw_frame w) PAYLOAD_LENGTH_OFFSET (word_of_nat len) in
            case hm (ch_key ch) frame' of
              None \<Rightarrow> (Inl Authentication, ch)
            | Some tag \<Rightarrow> (Inr (frame' @ tag), ch\<lparr>ch_send_sequence := q\<rparr>))"
    using live q room sid
    by (simp add: seal_def cap h_def Let_def split: prod.split bool.split)
  show ?thesis
  proof (cases "?lim < 63 + length (ch_session_id ch) + total_len (chunks (ser payload))")
    case True
    then have "?lim - 32 - length ?f < total_len (chunks (ser payload))"
      using room h by simp
    from to_writer_frame_over [OF this] show ?thesis
      using live q room True by (auto simp: seal_eq)
  next
    case fits: False
    then have "total_len (chunks (ser payload)) \<le> ?lim - 32 - length ?f"
      using h by simp
    note W = to_writer_frame_fits [OF this]
    have "total_len (chunks (ser payload)) < 2 ^ 32"
      using fits unat_bounds(3) [of "ch_max_frame_bytes ch"] by simp
    then show ?thesis
      using live q room fits
      by (simp add: seal_eq W Let_def h patch_header [OF h] body split: option.split)
  qed
qed
qed

lemma seal_ok_iff:
  assumes "length (ch_session_id ch) \<le> 65535"
  shows "seal hm ser payload ch = (Inr frame, ch') \<longleftrightarrow>
    \<not> ch_retired ch \<and> \<not> refused (ser payload) \<and>
    63 + length (ch_session_id ch) < unat (ch_max_frame_bytes ch) \<and>
    63 + length (ch_session_id ch) + total_len (chunks (ser payload)) \<le> unat (ch_max_frame_bytes ch) \<and>
    (\<exists>sequence tag. checked_add (ch_send_sequence ch) 1 = Some sequence \<and>
      hm (ch_key ch) (sealed_body ser payload sequence ch) = Some tag \<and>
      frame = sealed_body ser payload sequence ch @ tag \<and>
      ch' = ch\<lparr>ch_send_sequence := sequence\<rparr>)"
  unfolding seal_unfold [OF assms] by (auto split: option.splits if_splits)

text \<open>A refused frame leaves the sender as it was, whatever the session identifier.\<close>

lemma seal_error_unchanged: "seal hm ser payload ch = (Inl e, ch') \<Longrightarrow> ch' = ch"
  by (auto simp: seal_def Let_def split: if_splits option.splits prod.splits bool.splits)

section \<open>What open accepts\<close>

lemma slice_from_be:
  "u16_from_be (take 2 (drop c b)) = x \<Longrightarrow> c + 2 \<le> length b \<Longrightarrow> take 2 (drop c b) = u16_to_be x"
  "u64_from_be (take 8 (drop c b)) = y \<Longrightarrow> c + 8 \<le> length b \<Longrightarrow> take 8 (drop c b) = u64_to_be y"
  using to_from_be(1) [of "take 2 (drop c b)"] to_from_be(3) [of "take 8 (drop c b)"] by auto

text \<open>Reading a frame body field by field, from the front.\<close>

lemma frame_body_slices:
  fixes m q g s p d
  defines "b \<equiv> frame_body m d g q s p"
  shows "take 4 b = FRAME_MAGIC"
    "take 2 (drop 4 b) = u16_to_be SIDECAR_PROTOCOL_MAJOR"
    "take 2 (drop 6 b) = u16_to_be m"
    "take 1 (drop 8 b) = [wire_value d]"
    "take 8 (drop 9 b) = u64_to_be g"
    "take 8 (drop 17 b) = u64_to_be q"
    "take 2 (drop 25 b) = u16_to_be (word_of_nat (length s))"
    "take 4 (drop 27 b) = u32_to_be (word_of_nat (length p))"
    "take (length s) (drop 31 b) = as_bytes s"
    "drop (31 + length s) b = p"
  by (simp_all add: b_def frame_body_def drop_Cons')

lemma frame_body_of_slices:
  assumes "take 4 b = FRAME_MAGIC"
    and "take 2 (drop 4 b) = u16_to_be SIDECAR_PROTOCOL_MAJOR"
    and "take 2 (drop 6 b) = u16_to_be m"
    and "take 1 (drop 8 b) = [wire_value d]"
    and "take 8 (drop 9 b) = u64_to_be g"
    and "take 8 (drop 17 b) = u64_to_be q"
    and "take 2 (drop 25 b) = u16_to_be (word_of_nat (length s))"
    and "take 4 (drop 27 b) = u32_to_be (word_of_nat (length p))"
    and "take (length s) (drop 31 b) = as_bytes s"
    and "drop (31 + length s) b = p"
  shows "b = frame_body m d g q s p"
proof -
  have step: "drop i b = take n (drop i b) @ drop (i + n) b" for i n
    by (metis append_take_drop_id drop_drop add.commute)
  have "b = take 4 b @ drop 4 b" by simp
  also have "drop 4 b = take 2 (drop 4 b) @ take 2 (drop 6 b) @ take 1 (drop 8 b) @ drop 9 b"
    using step [of 4 2] step [of 6 2] step [of 8 1] by simp
  also have "drop 9 b = take 8 (drop 9 b) @ take 8 (drop 17 b) @ take 2 (drop 25 b)
      @ take 4 (drop 27 b) @ drop 31 b"
    using step [of 9 8] step [of 17 8] step [of 25 2] step [of 27 4] by simp
  also have "drop 31 b = as_bytes s @ p"
    using step [of 31 "length s"] assms(9,10) by simp
  finally show ?thesis using assms(1-8) by (simp add: frame_body_def)
qed

text \<open>
  \<open>open_active\<close> accepts a frame exactly when it is the body of the next expected frame of this
  session, generation, version and direction, followed by its valid tag.
\<close>

definition accepts :: "hmac \<Rightarrow> (bytes \<Rightarrow> 'a option) \<Rightarrow> bytes \<Rightarrow> channel \<Rightarrow> 'a \<Rightarrow> u64 \<Rightarrow> bool" where
  "accepts hm de frame ch decoded sequence \<longleftrightarrow>
     length frame \<le> unat (ch_max_frame_bytes ch) \<and>
     checked_add (ch_receive_sequence ch) 1 = Some sequence \<and>
     (\<exists>payload tag. length tag = AUTH_TAG_BYTES \<and> de payload = Some decoded \<and>
       frame = frame_body (ch_minor ch) (outgoing_direction (expected_remote (ch_role ch)))
         (ch_generation ch) sequence (ch_session_id ch) payload @ tag \<and>
       hm (ch_key ch) (frame_body (ch_minor ch) (outgoing_direction (expected_remote (ch_role ch)))
         (ch_generation ch) sequence (ch_session_id ch) payload) = Some tag)"

lemma open_active_complete:
  assumes sid: "length (ch_session_id ch) \<le> 65535"
    and acc: "accepts hm de frame ch decoded sequence"
  shows "open_active hm de frame ch = Inr (decoded, ch\<lparr>ch_receive_sequence := sequence\<rparr>)"
proof -
  let ?d = "outgoing_direction (expected_remote (ch_role ch))"
  from acc obtain p tag where tag: "length tag = 32" and de: "de p = Some decoded"
    and frame: "frame = frame_body (ch_minor ch) ?d (ch_generation ch) sequence (ch_session_id ch) p @ tag"
    and mac: "hm (ch_key ch) (frame_body (ch_minor ch) ?d (ch_generation ch) sequence (ch_session_id ch) p) = Some tag"
    and len: "length frame \<le> unat (ch_max_frame_bytes ch)"
    and seq: "checked_add (ch_receive_sequence ch) 1 = Some sequence"
    unfolding accepts_def by auto
  define b where "b = frame_body (ch_minor ch) ?d (ch_generation ch) sequence (ch_session_id ch) p"
  have lenb: "length b = 31 + length (ch_session_id ch) + length p" by (simp add: b_def)
  have small: "length frame < 4294967296"
    using len unat_bounds(3) [of "ch_max_frame_bytes ch"] by simp
  have lf: "length frame = length b + 32" using frame tag by (simp add: b_def)
  have p32: "unat (word_of_nat (length p) :: u32) = length p"
    using small lf lenb by (simp add: unat_of_nat take_bit_eq_mod)
  have s16: "unat (word_of_nat (length (ch_session_id ch)) :: u16) = length (ch_session_id ch)"
    using sid by (simp add: unat_of_nat take_bit_eq_mod)
  have slice: "take_slice b c n = Inr (take n (drop c b), c + n)" if "c + n \<le> length b" for c n
    using that small lf by (simp add: usize_max_def)
  note parts = frame_body_slices [where m = "ch_minor ch" and d = ?d and g = "ch_generation ch"
      and q = sequence and s = "ch_session_id ch" and p = p, folded b_def]
  have dir: "hd (drop 8 b) = wire_value ?d"
    using parts(4) by (metis hd_take list.sel(1) zero_less_one)
  have "frame = b @ tag" using frame by (simp add: b_def)
  then show ?thesis
    using len lf lenb tag mac de seq
    by (simp add: open_active_def slice parts dir Let_def p32 s16 b_def [symmetric]
        del: take_slice_Inr)
qed

lemma hd_take1: "Suc c \<le> length b \<Longrightarrow> take 1 (drop c b) = [hd (drop c b)]"
  by (cases "drop c b") auto

lemma open_active_sound:
  assumes "open_active hm de frame ch = Inr (decoded, ch')"
  shows "\<exists>sequence. accepts hm de frame ch decoded sequence \<and> ch' = ch\<lparr>ch_receive_sequence := sequence\<rparr>"
proof -
  let ?d = "outgoing_direction (expected_remote (ch_role ch))"
  define b where "b = take (length frame - 32) frame"
  define tag where "tag = drop (length frame - 32) frame"
  define sl where "sl = unat (u16_from_be (take 2 (drop 25 b)))"
  define pl where "pl = unat (u32_from_be (take 4 (drop 27 b)))"
  define p where "p = take pl (drop (31 + sl) b)"
  from assms have len: "length frame \<le> unat (ch_max_frame_bytes ch)" "63 \<le> length frame"
    and mac: "hm (ch_key ch) b = Some tag"
    by (auto simp: open_active_def Let_def b_def tag_def split: if_splits)
  have fr: "frame = b @ tag" and lt: "length tag = 32"
    using len by (simp_all add: b_def tag_def)
  have "take 4 b = FRAME_MAGIC \<and>
      u16_from_be (take 2 (drop 4 b)) = SIDECAR_PROTOCOL_MAJOR \<and>
      u16_from_be (take 2 (drop 6 b)) = ch_minor ch \<and>
      hd (take 1 (drop 8 b)) = wire_value ?d \<and>
      u64_from_be (take 8 (drop 9 b)) = ch_generation ch \<and>
      checked_add (ch_receive_sequence ch) 1 = Some (u64_from_be (take 8 (drop 17 b))) \<and>
      take sl (drop 31 b) = as_bytes (ch_session_id ch) \<and>
      31 + sl + pl = length b \<and> de p = Some decoded \<and>
      ch' = ch\<lparr>ch_receive_sequence := u64_from_be (take 8 (drop 17 b))\<rparr>"
    using assms len mac unfolding open_active_def b_def [symmetric]
    by (auto simp: Let_def bind_result_Inr b_def [symmetric] tag_def [symmetric] sl_def pl_def p_def
        split: if_splits option.splits)
  then have magic: "take 4 b = FRAME_MAGIC"
    and major: "u16_from_be (take 2 (drop 4 b)) = SIDECAR_PROTOCOL_MAJOR"
    and minor: "u16_from_be (take 2 (drop 6 b)) = ch_minor ch"
    and dir: "hd (take 1 (drop 8 b)) = wire_value ?d"
    and gen: "u64_from_be (take 8 (drop 9 b)) = ch_generation ch"
    and seq: "checked_add (ch_receive_sequence ch) 1 = Some (u64_from_be (take 8 (drop 17 b)))"
    and sess: "take sl (drop 31 b) = as_bytes (ch_session_id ch)"
    and lb: "31 + sl + pl = length b" and dec: "de p = Some decoded"
    and ch': "ch' = ch\<lparr>ch_receive_sequence := u64_from_be (take 8 (drop 17 b))\<rparr>"
    by simp_all
  have sid: "sl = length (ch_session_id ch)"
    using arg_cong [OF sess, of length] lb by simp
  have lp: "length p = pl" using lb by (simp add: p_def)
  define q where "q = u64_from_be (take 8 (drop 17 b))"
  have body: "b = frame_body (ch_minor ch) ?d (ch_generation ch) q (ch_session_id ch) p"
  proof (rule frame_body_of_slices)
    show "take 4 b = FRAME_MAGIC" by (rule magic)
    show "take 2 (drop 4 b) = u16_to_be SIDECAR_PROTOCOL_MAJOR"
      by (rule slice_from_be(1) [OF major]) (use lb in simp)
    show "take 2 (drop 6 b) = u16_to_be (ch_minor ch)"
      by (rule slice_from_be(1) [OF minor]) (use lb in simp)
    show "take 1 (drop 8 b) = [wire_value ?d]"
      using dir lb hd_take1 [of 8 b] by simp
    show "take 8 (drop 9 b) = u64_to_be (ch_generation ch)"
      by (rule slice_from_be(2) [OF gen]) (use lb in simp)
    show "take 8 (drop 17 b) = u64_to_be q"
      using lb by (simp add: q_def to_from_be)
    show "take 2 (drop 25 b) = u16_to_be (word_of_nat (length (ch_session_id ch)))"
      using lb by (simp add: sid [symmetric] sl_def to_from_be)
    show "take 4 (drop 27 b) = u32_to_be (word_of_nat (length p))"
      using lb by (simp add: lp pl_def to_from_be)
    show "take (length (ch_session_id ch)) (drop 31 b) = as_bytes (ch_session_id ch)"
      using sess sid by simp
    show "drop (31 + length (ch_session_id ch)) b = p"
      using lb by (simp add: p_def sid [symmetric])
  qed
  have "accepts hm de frame ch decoded q"
    unfolding accepts_def body [symmetric]
    using len seq lt dec mac fr body [symmetric] by (auto simp: q_def [symmetric])
  with ch' show ?thesis by (auto simp: q_def)
qed

lemma open_frame_Inr_iff:
  assumes "length (ch_session_id ch) \<le> 65535"
  shows "open_frame hm de frame ch = (Inr decoded, ch') \<longleftrightarrow>
    \<not> ch_retired ch \<and>
    (\<exists>sequence. accepts hm de frame ch decoded sequence \<and> ch' = ch\<lparr>ch_receive_sequence := sequence\<rparr>)"
  using open_active_complete [OF assms, of hm de frame decoded]
    open_active_sound [of hm de frame ch decoded ch']
  by (auto simp: open_frame_def split: sum.splits)

text \<open>A refused frame retires the channel and never moves the receive high-water mark.\<close>

lemma open_frame_Inl:
  "open_frame hm de frame ch = (Inl e, ch') \<Longrightarrow> ch' = (if ch_retired ch then ch else retire ch)"
  by (auto simp: open_frame_def split: if_splits sum.splits)

section \<open>The length-prefixed transport\<close>

text \<open>
  A reader is the bytes that arrive before the deadline and what happens after them: the
  stream ends (\<open>read_exact\<close> then fails with \<open>UnexpectedEof\<close>) or stays silent until the
  deadline expires. Each of the three steps of a write (length, frame, flush) is done, or
  fails or stalls after some bytes.
\<close>

datatype stream_end = EndOfStream | Silent

record byte_source =
  arriving :: bytes
  after_bytes :: stream_end

definition read_exact :: "nat \<Rightarrow> byte_source \<Rightarrow> (sidecar_frame_error + bytes) \<times> byte_source" where
  "read_exact n src =
     (if length (arriving src) < n
      then (Inl (case after_bytes src of EndOfStream \<Rightarrow> Io | Silent \<Rightarrow> Deadline), src\<lparr>arriving := []\<rparr>)
      else (Inr (take n (arriving src)), src\<lparr>arriving := drop n (arriving src)\<rparr>))"

definition read_sidecar_frame :: "u32 \<Rightarrow> byte_source \<Rightarrow> (sidecar_frame_error + bytes) \<times> byte_source" where
  "read_sidecar_frame max_frame src =
     (if max_frame < MIN_FRAME_BYTES then (Inl (InvalidFrameLimit max_frame), src)
      else case read_exact 4 src of
        (Inl e, src') \<Rightarrow> (Inl e, src')
      | (Inr prefix_bytes, src') \<Rightarrow>
          let len = u32_from_be prefix_bytes in
          if len = 0 \<or> len > max_frame then (Inl (FrameTooLarge (ucast len) max_frame), src')
          else read_exact (unat len) src')"

datatype write_outcome = Done | FailsAfter nat | StallsAfter nat

definition write_step :: "write_outcome \<Rightarrow> bytes \<Rightarrow> bytes \<Rightarrow> (sidecar_frame_error + unit) \<times> bytes" where
  "write_step outcome bs sink =
     (case outcome of
        Done \<Rightarrow> (Inr (), sink @ bs)
      | FailsAfter n \<Rightarrow> (Inl Io, sink @ take n bs)
      | StallsAfter n \<Rightarrow> (Inl Deadline, sink @ take n bs))"

definition write_sidecar_frame ::
  "write_outcome \<times> write_outcome \<times> write_outcome \<Rightarrow> bytes \<Rightarrow> u32 \<Rightarrow> bytes \<Rightarrow>
   (sidecar_frame_error + unit) \<times> bytes" where
  "write_sidecar_frame outcomes frame max_frame sink =
     (if max_frame < MIN_FRAME_BYTES then (Inl (InvalidFrameLimit max_frame), sink)
      else if length frame \<ge> 2 ^ 32
        then (Inl (FrameTooLarge (word_of_nat (length frame)) max_frame), sink)
      else
        let len = word_of_nat (length frame) :: u32 in
        if len = 0 \<or> len > max_frame then (Inl (FrameTooLarge (ucast len) max_frame), sink)
        else case outcomes of (prefix_write, frame_write, flush) \<Rightarrow>
          (case write_step prefix_write (u32_to_be len) sink of
             (Inl e, sink') \<Rightarrow> (Inl e, sink')
           | (Inr _, sink') \<Rightarrow>
               (case write_step frame_write frame sink' of
                  (Inl e, sink'') \<Rightarrow> (Inl e, sink'')
                | (Inr _, sink'') \<Rightarrow> write_step flush [] sink'')))"

lemma write_sidecar_frame_ok:
  assumes "write_sidecar_frame outcomes frame limit sink = (Inr (), sink')"
  shows "sink' = sink @ u32_to_be (word_of_nat (length frame)) @ frame"
    and "frame \<noteq> []" and "length frame \<le> unat limit" and "MIN_FRAME_BYTES \<le> limit"
proof -
  from assms have "MIN_FRAME_BYTES \<le> limit" and small: "length frame < 2 ^ 32"
    and nz: "word_of_nat (length frame) \<noteq> (0 :: u32)" and le: "word_of_nat (length frame) \<le> limit"
    by (simp_all add: write_sidecar_frame_def Let_def not_less split: if_splits)
  from small have u: "unat (word_of_nat (length frame) :: u32) = length frame"
    by (simp add: unat_of_nat take_bit_eq_mod)
  show "MIN_FRAME_BYTES \<le> limit" by fact
  show "frame \<noteq> []" using nz by auto
  show "length frame \<le> unat limit" using le u by (simp add: word_le_nat_alt)
  show "sink' = sink @ u32_to_be (word_of_nat (length frame)) @ frame"
  proof -
    obtain a b c where o: "outcomes = (a, b, c)" by (cases outcomes)
    have "\<not> limit < MIN_FRAME_BYTES" "\<not> limit < word_of_nat (length frame)"
      using \<open>MIN_FRAME_BYTES \<le> limit\<close> le by (simp_all add: not_less)
    with assms small nz show ?thesis
      by (cases a; cases b; cases c) (simp_all add: o write_sidecar_frame_def write_step_def Let_def)
  qed
qed

lemma read_sidecar_frame_prefix:
  assumes "frame \<noteq> []" and "length frame \<le> unat limit" and "MIN_FRAME_BYTES \<le> limit"
    and "arriving src = u32_to_be (word_of_nat (length frame)) @ frame @ rest"
  shows "read_sidecar_frame limit src = (Inr frame, src\<lparr>arriving := rest\<rparr>)"
proof -
  have small: "length frame < 4294967296"
    using assms(2) unat_bounds(3) [of limit] by simp
  then have u: "unat (word_of_nat (length frame) :: u32) = length frame"
    by (simp add: unat_of_nat take_bit_eq_mod)
  then have "(word_of_nat (length frame) :: u32) \<noteq> 0"
    using assms(1) by (metis length_0_conv unat_0)
  moreover have "\<not> limit < word_of_nat (length frame)"
    using assms(2) u by (simp add: word_less_nat_alt)
  ultimately show ?thesis
    using assms(3,4) u by (simp add: read_sidecar_frame_def read_exact_def Let_def not_less)
qed

lemma write_sidecar_frame_fits:
  assumes "frame \<noteq> []" and "length frame \<le> unat limit" and "MIN_FRAME_BYTES \<le> limit"
  shows "write_sidecar_frame (Done, Done, Done) frame limit sink
    = (Inr (), sink @ u32_to_be (word_of_nat (length frame)) @ frame)"
proof -
  have small: "length frame < 4294967296"
    using assms(2) unat_bounds(3) [of limit] by simp
  then have u: "unat (word_of_nat (length frame) :: u32) = length frame"
    by (simp add: unat_of_nat take_bit_eq_mod)
  then have "(word_of_nat (length frame) :: u32) \<noteq> 0"
    using assms(1) by (metis length_0_conv unat_0)
  moreover have "\<not> limit < word_of_nat (length frame)"
    using assms(2) u by (simp add: word_less_nat_alt)
  ultimately show ?thesis
    using assms(3) small by (simp add: write_sidecar_frame_def write_step_def Let_def not_less)
qed

section \<open>Properties of the transport\<close>

lemma read_exact_Inr:
  "read_exact n src = (Inr bs, src') \<Longrightarrow>
   length bs = n \<and> arriving src = bs @ arriving src' \<and> after_bytes src' = after_bytes src"
  by (auto simp: read_exact_def split: if_splits)

lemma read_exact_Inl: "read_exact n src = (Inl e, src') \<Longrightarrow> arriving src' = []"
  by (auto simp: read_exact_def split: if_splits)

lemma read_sidecar_frame_Inr:
  assumes "read_sidecar_frame limit src = (Inr frame, src')"
  shows "0 < length frame \<and> length frame \<le> unat limit \<and> MIN_FRAME_BYTES \<le> limit \<and>
    after_bytes src' = after_bytes src \<and>
    arriving src = u32_to_be (word_of_nat (length frame)) @ frame @ arriving src'"
proof -
  from assms obtain p src1 where p: "read_exact 4 src = (Inr p, src1)"
    and nz: "u32_from_be p \<noteq> 0" and le: "u32_from_be p \<le> limit"
    and f: "read_exact (unat (u32_from_be p)) src1 = (Inr frame, src')" and "MIN_FRAME_BYTES \<le> limit"
    by (auto simp: read_sidecar_frame_def Let_def not_less split: if_splits prod.splits sum.splits)
  define l where "l = u32_from_be p"
  note r = read_exact_Inr [OF p] read_exact_Inr [OF f, folded l_def]
  have pl: "u32_to_be l = p" using r(1) by (simp add: l_def to_from_be(2))
  have "word_of_nat (length frame) = l" using r(2) by simp
  moreover have "0 < unat l" using nz by (simp add: l_def [symmetric] unat_gt_0)
  moreover have "unat l \<le> unat limit" using le by (simp add: l_def word_le_nat_alt)
  ultimately show ?thesis
    using r pl \<open>MIN_FRAME_BYTES \<le> limit\<close> by (intro conjI) simp_all
qed

lemma read_sidecar_frame_Inl:
  assumes "read_sidecar_frame limit src = (Inl e, src')"
  shows "\<exists>read. arriving src = read @ arriving src'"
proof -
  obtain r1 s1 where r: "read_exact 4 src = (r1, s1)" by (cases "read_exact 4 src")
  then have "\<exists>read. arriving src = read @ arriving s1"
    using read_exact_Inr [of 4 src _ s1] read_exact_Inl [of 4 src _ s1]
    by (cases r1) auto
  with assms show ?thesis
    by (auto simp: read_sidecar_frame_def Let_def r split: if_splits sum.splits dest: read_exact_Inl)
qed

text \<open>
  What one side writes the other reads: if \<open>write_sidecar_frame\<close> succeeds, a reader with at
  least the same limit that receives these bytes, and whatever follows them, obtains exactly
  the frame and leaves what follows in place.
\<close>

lemma written_frame_is_read:
  assumes "write_sidecar_frame outcomes frame limit sink = (Inr (), sink')"
    and "arriving src = drop (length sink) sink' @ rest" and "limit \<le> limit'"
  shows "read_sidecar_frame limit' src = (Inr frame, src\<lparr>arriving := rest\<rparr>)"
proof (rule read_sidecar_frame_prefix)
  note w = write_sidecar_frame_ok [OF assms(1)]
  show "frame \<noteq> []" by (rule w)
  show "MIN_FRAME_BYTES \<le> limit'" using w(4) assms(3) by simp
  show "length frame \<le> unat limit'" using w(3) assms(3) by (simp add: word_le_nat_alt)
  show "arriving src = u32_to_be (word_of_nat (length frame)) @ frame @ rest"
    using assms(2) w(1) by simp
qed

lemma written_frame_is_read_witness:
  "read_sidecar_frame 70 \<lparr>arriving = u32_to_be 1 @ [7] @ [9], after_bytes = Silent\<rparr>
     = (Inr [7], \<lparr>arriving = [9], after_bytes = Silent\<rparr>)"
proof -
  have "write_sidecar_frame (Done, Done, Done) [7] 65 [1] = (Inr (), [1] @ u32_to_be 1 @ [7])"
    by (simp add: write_sidecar_frame_def write_step_def MIN_FRAME_BYTES_def Let_def)
  from written_frame_is_read [OF this, of "\<lparr>arriving = u32_to_be 1 @ [7] @ [9], after_bytes = Silent\<rparr>" "[9]" 70]
  show ?thesis by simp
qed

text \<open>
  The reader never returns an empty frame or one above its limit, and takes no more from
  the transport than the prefix and the frame: for every source and limit.
\<close>

lemma read_frame_bounded:
  "case read_sidecar_frame limit src of
     (Inr frame, src') \<Rightarrow> 0 < length frame \<and> length frame \<le> unat limit \<and>
       MIN_FRAME_BYTES \<le> limit \<and> after_bytes src' = after_bytes src \<and>
       arriving src = u32_to_be (word_of_nat (length frame)) @ frame @ arriving src'
   | (Inl e, src') \<Rightarrow> \<exists>read. arriving src = read @ arriving src'"
proof (cases "read_sidecar_frame limit src")
  case (Pair r src')
  then show ?thesis
    using read_sidecar_frame_Inr [of limit src _ src'] read_sidecar_frame_Inl [of limit src _ src']
    by (cases r) simp_all
qed

end
