(* ===== verification/SidecarChannel.thy ===== *)
theory SidecarChannel
  imports SidecarFrames
begin

text \<open>
  One authenticated channel over its whole life. The locale \<open>secure_link\<close> is what the
  handshake and the configuration exchange rely on: numbered frames, a receiver that takes
  each number once and in order, and retirement as a terminal state. Its interpretation
  \<open>link\<close> discharges these laws for \<open>seal\<close> and \<open>open_frame\<close>, for every tag function and
  every codec. \<open>channel_step\<close> is one call of any operation of
  \<open>AuthenticatedSidecarChannel\<close>.
\<close>

section \<open>The interface\<close>

locale secure_link =
  fixes send :: "'m \<Rightarrow> 'c \<Rightarrow> ('e + 'f) \<times> 'c"
    and recv :: "'f \<Rightarrow> 'c \<Rightarrow> ('e + 'n) \<times> 'c"
    and step :: "'c \<Rightarrow> 'c \<Rightarrow> bool"
    and retired :: "'c \<Rightarrow> bool"
    and sent :: "'c \<Rightarrow> nat"
    and received :: "'c \<Rightarrow> nat"
    and number :: "'f \<Rightarrow> nat"
    and dead :: 'e
  assumes send_dead: "retired c \<Longrightarrow> send m c = (Inl dead, c)"
    and recv_dead: "retired c \<Longrightarrow> recv f c = (Inl dead, c)"
    and send_ok: "send m c = (Inr f, c') \<Longrightarrow> number f = Suc (sent c) \<and> sent c' = Suc (sent c)"
    and recv_ok: "recv f c = (Inr n, c') \<Longrightarrow>
      number f = Suc (received c) \<and> received c' = Suc (received c) \<and> \<not> retired c'"
    and recv_fail: "recv f c = (Inl e, c') \<Longrightarrow> retired c' \<and> received c' = received c"
    and step_mono: "step c c' \<Longrightarrow>
      sent c \<le> sent c' \<and> received c \<le> received c' \<and> (retired c \<longrightarrow> retired c')"
begin

lemma steps_mono:
  "step\<^sup>*\<^sup>* c c' \<Longrightarrow>
   sent c \<le> sent c' \<and> received c \<le> received c' \<and> (retired c \<longrightarrow> retired c')"
proof (induction rule: rtranclp_induct)
  case base
  show ?case by simp
next
  case (step c1 c2)
  then show ?case using step_mono [of c1 c2] by auto
qed

lemma stays_retired: "retired c \<Longrightarrow> step\<^sup>*\<^sup>* c c' \<Longrightarrow> retired c'"
  using steps_mono by blast

text \<open>A frame that was accepted is never accepted again, however the channel goes on.\<close>

lemma no_replay:
  assumes "recv f c = (Inr n, c')" and "step\<^sup>*\<^sup>* c' c''"
  shows "\<exists>e. fst (recv f c'') = Inl e"
proof (rule ccontr)
  assume "\<nexists>e. fst (recv f c'') = Inl e"
  then obtain n' c3 where "recv f c'' = (Inr n', c3)"
    by (cases "recv f c''"; cases "fst (recv f c'')") auto
  then have "number f = Suc (received c'')" using recv_ok by blast
  moreover have "number f = received c'" using recv_ok [OF assms(1)] by simp
  moreover have "received c' \<le> received c''" using steps_mono [OF assms(2)] by simp
  ultimately show False by simp
qed

text \<open>After one refused frame nothing is accepted and nothing is sent any more.\<close>

lemma refusal_is_final:
  assumes "recv f c = (Inl e, c')" and "step\<^sup>*\<^sup>* c' c''"
  shows "recv g c'' = (Inl dead, c'')" and "send m c'' = (Inl dead, c'')"
  using recv_fail [OF assms(1)] stays_retired [OF _ assms(2)] recv_dead send_dead by simp_all

text \<open>Two frames sealed by one channel carry different numbers, the later the larger.\<close>

lemma numbers_increase:
  assumes "send m c = (Inr f, c')" and "step\<^sup>*\<^sup>* c' c''" and "send m' c'' = (Inr f', c3)"
  shows "number f < number f'"
  using send_ok [OF assms(1)] send_ok [OF assms(3)] steps_mono [OF assms(2)] by simp

end

section \<open>Steps of a channel\<close>

text \<open>
  A step only sees of a payload what was serialized, and of a codec whether it accepts the
  received bytes, so one relation covers the messages of every type.
\<close>

inductive channel_step :: "hmac \<Rightarrow> channel \<Rightarrow> channel \<Rightarrow> bool" for hm where
  step_seal: "channel_step hm ch (snd (seal hm id s ch))"
| step_open: "channel_step hm ch (snd (open_frame hm (de :: bytes \<Rightarrow> unit option) frame ch))"
| step_retire: "channel_step hm ch (retire ch)"
| step_lower: "channel_step hm ch (snd (lower_frame_limit limit ch))"
| step_lock: "channel_step hm ch (lock_frame_limit ch)"
| step_apply: "channel_step hm ch (snd (apply_negotiated_protocol n ch))"

lemma seal_id: "seal hm ser payload ch = seal hm id (ser payload) ch"
  by (simp only: seal_def id_apply)

lemma open_active_map:
  "open_active hm (\<lambda>b. map_option f (de b)) frame ch =
   (case open_active hm de frame ch of Inl e \<Rightarrow> Inl e | Inr (x, ch') \<Rightarrow> Inr (f x, ch'))"
  by (simp add: open_active_def Let_def bind_result_def split: sum.split prod.split option.split)

lemma open_frame_unit:
  "snd (open_frame hm de frame ch) = snd (open_frame hm (\<lambda>b. map_option (\<lambda>_. ()) (de b)) frame ch)"
  by (simp add: open_frame_def open_active_map split: sum.split prod.split)

lemma channel_step_seal: "seal hm ser payload ch = (r, ch') \<Longrightarrow> channel_step hm ch ch'"
  using channel_step.step_seal [of hm ch "ser payload"] seal_id [of hm ser payload ch] by simp

lemma channel_step_open: "open_frame hm de frame ch = (r, ch') \<Longrightarrow> channel_step hm ch ch'"
  using channel_step.step_open [of hm ch "\<lambda>b. map_option (\<lambda>_. ()) (de b)" frame]
    open_frame_unit [of hm de frame ch] by simp

section \<open>What each operation leaves unchanged\<close>

lemma retire_simps [simp]:
  "ch_retired (retire ch)" "ch_send_sequence (retire ch) = ch_send_sequence ch"
  "ch_receive_sequence (retire ch) = ch_receive_sequence ch"
  "ch_instance_id (retire ch) = ch_instance_id ch" "ch_role (retire ch) = ch_role ch"
  "ch_session_id (retire ch) = ch_session_id ch" "ch_generation (retire ch) = ch_generation ch"
  "ch_max_frame_bytes (retire ch) = ch_max_frame_bytes ch" "ch_minor (retire ch) = ch_minor ch"
  "ch_frame_limit_locked (retire ch) = ch_frame_limit_locked ch"
  by (simp_all add: retire_def)

lemma lock_frame_limit_simps [simp]:
  "ch_retired (lock_frame_limit ch) = ch_retired ch"
  "ch_send_sequence (lock_frame_limit ch) = ch_send_sequence ch"
  "ch_receive_sequence (lock_frame_limit ch) = ch_receive_sequence ch"
  "ch_instance_id (lock_frame_limit ch) = ch_instance_id ch"
  "ch_role (lock_frame_limit ch) = ch_role ch"
  "ch_session_id (lock_frame_limit ch) = ch_session_id ch"
  "ch_generation (lock_frame_limit ch) = ch_generation ch"
  "ch_max_frame_bytes (lock_frame_limit ch) = ch_max_frame_bytes ch"
  "ch_minor (lock_frame_limit ch) = ch_minor ch" "ch_key (lock_frame_limit ch) = ch_key ch"
  "ch_frame_limit_locked (lock_frame_limit ch)"
  by (simp_all add: lock_frame_limit_def)

text \<open>The result of \<open>seal\<close> differs from its argument in the send counter at most.\<close>

lemma seal_state:
  "seal hm ser payload ch = (r, ch') \<Longrightarrow>
   ch' = ch \<or> (\<exists>q. checked_add (ch_send_sequence ch) 1 = Some q \<and> is_ok r \<and>
     ch' = ch\<lparr>ch_send_sequence := q\<rparr>)"
  by (auto simp: seal_def Let_def split: if_splits option.splits prod.splits bool.splits)

lemma seal_Inr_state:
  "seal hm ser payload ch = (Inr f, ch') \<Longrightarrow>
   \<not> ch_retired ch \<and>
   (\<exists>q. checked_add (ch_send_sequence ch) 1 = Some q \<and> ch' = ch\<lparr>ch_send_sequence := q\<rparr>)"
  by (auto simp: seal_def Let_def split: if_splits option.splits prod.splits bool.splits)

lemma open_frame_Inr_state:
  assumes "open_frame hm de frame ch = (Inr m, ch')"
  shows "\<not> ch_retired ch \<and> (\<exists>q. checked_add (ch_receive_sequence ch) 1 = Some q \<and>
    ch' = ch\<lparr>ch_receive_sequence := q\<rparr>)"
  using assms open_active_sound [of hm de frame ch m ch']
  by (auto simp: open_frame_def accepts_def split: if_splits sum.splits)

lemma open_frame_state:
  assumes "open_frame hm de frame ch = (r, ch')"
  shows "ch' = ch \<or> ch' = retire ch \<or>
    (\<exists>q. checked_add (ch_receive_sequence ch) 1 = Some q \<and> ch' = ch\<lparr>ch_receive_sequence := q\<rparr>)"
proof (cases r)
  case (Inl e)
  then show ?thesis using assms by (auto simp: open_frame_def split: if_splits sum.splits)
next
  case (Inr m)
  then show ?thesis using assms open_frame_Inr_state [of hm de frame ch m ch'] by simp
qed

lemma lower_frame_limit_state:
  "lower_frame_limit limit ch = (r, ch') \<Longrightarrow>
   ch' = ch \<or> (r = Inr () \<and> \<not> ch_frame_limit_locked ch \<and> limit \<le> ch_max_frame_bytes ch \<and>
     minimum_frame_bytes (length (ch_session_id ch)) \<le> unat limit \<and>
     ch' = ch\<lparr>ch_max_frame_bytes := limit\<rparr>)"
  by (auto simp: lower_frame_limit_def split: if_splits)

lemma apply_negotiated_protocol_state:
  "apply_negotiated_protocol n ch = (r, ch') \<Longrightarrow>
   ch' = ch \<or> (r = Inr () \<and> \<not> ch_frame_limit_locked ch \<and>
     max_frame_bytes (neg_limits n) \<le> ch_max_frame_bytes ch \<and>
     minimum_frame_bytes (length (ch_session_id ch)) \<le> unat (max_frame_bytes (neg_limits n)) \<and>
     neg_minor n \<le> SIDECAR_PROTOCOL_MINOR \<and>
     ch' = ch\<lparr>ch_max_frame_bytes := max_frame_bytes (neg_limits n), ch_minor := neg_minor n\<rparr>)"
  by (auto simp: apply_negotiated_protocol_def lower_frame_limit_def split: if_splits)

section \<open>The interpretation\<close>

text \<open>The sequence number a frame carries on the wire, at bytes 17 to 24.\<close>

definition frame_number :: "bytes \<Rightarrow> nat" where
  "frame_number frame = unat (u64_from_be (take 8 (drop 17 frame)))"

lemma frame_number_body [simp]: "frame_number (frame_body m d g q s p @ tag) = unat q"
  by (simp add: frame_number_def frame_body_def)

text \<open>
  \<open>seal\<close> writes the number it took from the counter, also where the identifier is longer
  than a channel ever holds.
\<close>

lemma seal_number:
  assumes "seal hm ser payload ch = (Inr f, ch')"
  shows "frame_number f = Suc (unat (ch_send_sequence ch))
    \<and> unat (ch_send_sequence ch') = Suc (unat (ch_send_sequence ch))"
proof (cases "length (ch_session_id ch) \<le> 65535")
  case True
  from assms obtain q t where "checked_add (ch_send_sequence ch) 1 = Some q"
    and "f = sealed_body ser payload q ch @ t" and "ch' = ch\<lparr>ch_send_sequence := q\<rparr>"
    unfolding seal_ok_iff [OF True] by auto
  then show ?thesis by (simp add: sealed_body_def checked_add_eq_iff)
next
  case False
  then have "fst (seal hm ser payload ch) \<noteq> Inr f"
    by (auto simp: seal_def Let_def split: option.split)
  then show ?thesis using assms by simp
qed

lemma open_number:
  assumes "open_frame hm de f ch = (Inr m, ch')"
  shows "frame_number f = Suc (unat (ch_receive_sequence ch))
    \<and> unat (ch_receive_sequence ch') = Suc (unat (ch_receive_sequence ch)) \<and> \<not> ch_retired ch'"
  using assms open_active_sound [of hm de f ch m ch']
  by (auto simp: open_frame_def accepts_def checked_add_eq_iff split: if_splits sum.splits)

lemma open_refused:
  "open_frame hm de f ch = (Inl e, ch') \<Longrightarrow>
   ch_retired ch' \<and> ch_receive_sequence ch' = ch_receive_sequence ch"
  by (auto simp: open_frame_def split: if_splits sum.splits)

lemma channel_step_mono:
  assumes "channel_step hm ch ch'"
  shows "unat (ch_send_sequence ch) \<le> unat (ch_send_sequence ch')
    \<and> unat (ch_receive_sequence ch) \<le> unat (ch_receive_sequence ch')
    \<and> (ch_retired ch \<longrightarrow> ch_retired ch')"
  using assms
proof cases
  case (step_seal s)
  with seal_state [of hm id s ch] show ?thesis
    by (cases "seal hm id s ch") (auto simp: checked_add_eq_iff)
next
  case (step_open de frame)
  have "open_frame hm de frame ch = (fst (open_frame hm de frame ch), ch')"
    by (simp add: step_open)
  from open_frame_state [OF this] show ?thesis
    by (auto simp: checked_add_eq_iff)
next
  case (step_lower limit)
  with lower_frame_limit_state [of limit ch] show ?thesis
    by (cases "lower_frame_limit limit ch") auto
next
  case (step_apply n)
  with apply_negotiated_protocol_state [of n ch] show ?thesis
    by (cases "apply_negotiated_protocol n ch") auto
qed auto

interpretation link: secure_link "seal hm ser" "open_frame hm de" "channel_step hm"
    ch_retired "\<lambda>ch. unat (ch_send_sequence ch)" "\<lambda>ch. unat (ch_receive_sequence ch)"
    frame_number ChannelRetired
  for hm ser de
proof unfold_locales
  show "seal hm ser m c = (Inl ChannelRetired, c)" if "ch_retired c" for m c
    using that by (simp add: seal_def)
  show "open_frame hm de f c = (Inl ChannelRetired, c)" if "ch_retired c" for f c
    using that by (simp add: open_frame_def)
qed (simp_all add: seal_number open_number open_refused channel_step_mono)

section \<open>Invariant of a channel\<close>

text \<open>
  What \<open>channel_new\<close> establishes and every operation keeps: a nonzero generation, a session
  identifier whose length fits its field, room for a payload of at least one byte, a known
  minor version, and no key material left in a retired channel.
\<close>

definition channel_invar :: "channel \<Rightarrow> bool" where
  "channel_invar ch \<longleftrightarrow>
     ch_generation ch \<noteq> 0 \<and> ch_session_id ch \<noteq> [] \<and> length (ch_session_id ch) \<le> 65535 \<and>
     minimum_frame_bytes (length (ch_session_id ch)) \<le> unat (ch_max_frame_bytes ch) \<and>
     ch_minor ch \<le> SIDECAR_PROTOCOL_MINOR \<and>
     (ch_retired ch \<longrightarrow> set (ch_key ch) \<subseteq> {0})"

text \<open>
  What the future of a channel may change: its identity never, its frame limit only
  downwards and not at all once it is locked.
\<close>

definition channel_evolves :: "channel \<Rightarrow> channel \<Rightarrow> bool" where
  "channel_evolves ch ch' \<longleftrightarrow>
     ch_instance_id ch' = ch_instance_id ch \<and> ch_role ch' = ch_role ch \<and>
     ch_session_id ch' = ch_session_id ch \<and> ch_generation ch' = ch_generation ch \<and>
     ch_max_frame_bytes ch' \<le> ch_max_frame_bytes ch \<and>
     (ch_frame_limit_locked ch \<longrightarrow> ch_frame_limit_locked ch' \<and>
        ch_max_frame_bytes ch' = ch_max_frame_bytes ch \<and> ch_minor ch' = ch_minor ch) \<and>
     unat (ch_send_sequence ch) \<le> unat (ch_send_sequence ch') \<and>
     unat (ch_receive_sequence ch) \<le> unat (ch_receive_sequence ch') \<and>
     (ch_retired ch \<longrightarrow> ch_retired ch')"

lemma channel_new_invar:
  "channel_new next_id role sid gen key limit = (Inr ch, next') \<Longrightarrow> channel_invar ch"
  by (auto simp: channel_new_def channel_invar_def minimum_frame_bytes_def
      SIDECAR_BOOTSTRAP_MINOR_def SIDECAR_PROTOCOL_MINOR_def split: if_splits option.splits)

lemma channel_invar_min: "channel_invar ch \<Longrightarrow> MIN_FRAME_BYTES \<le> ch_max_frame_bytes ch"
  by (cases "ch_session_id ch")
    (simp_all add: channel_invar_def minimum_frame_bytes_def MIN_FRAME_BYTES_def word_le_nat_alt)

lemma retire_invar [step_intros]: "channel_invar ch \<Longrightarrow> channel_invar (retire ch)"
  by (auto simp: channel_invar_def retire_def)

lemma lock_invar [step_intros]: "channel_invar ch \<Longrightarrow> channel_invar (lock_frame_limit ch)"
  by (simp add: channel_invar_def)

lemma sequences_invar [step_intros]:
  "channel_invar ch \<Longrightarrow> channel_invar (ch\<lparr>ch_send_sequence := q\<rparr>)"
  "channel_invar ch \<Longrightarrow> channel_invar (ch\<lparr>ch_receive_sequence := q\<rparr>)"
  by (simp_all add: channel_invar_def)

lemma seal_invar [step_intros]:
  "channel_invar ch \<Longrightarrow> channel_invar (snd (seal hm ser payload ch))"
  using seal_state [of hm ser payload ch] by (cases "seal hm ser payload ch") (auto intro: step_intros)

lemma open_invar [step_intros]:
  "channel_invar ch \<Longrightarrow> channel_invar (snd (open_frame hm de frame ch))"
  using open_frame_state [of hm de frame ch]
  by (cases "open_frame hm de frame ch") (auto intro: step_intros)

lemma lower_invar [step_intros]:
  "channel_invar ch \<Longrightarrow> channel_invar (snd (lower_frame_limit limit ch))"
  using lower_frame_limit_state [of limit ch]
  by (cases "lower_frame_limit limit ch") (auto simp: channel_invar_def)

lemma apply_invar [step_intros]:
  "channel_invar ch \<Longrightarrow> channel_invar (snd (apply_negotiated_protocol n ch))"
  using apply_negotiated_protocol_state [of n ch]
  by (cases "apply_negotiated_protocol n ch") (auto simp: channel_invar_def)

lemma channel_step_invar: "channel_step hm ch ch' \<Longrightarrow> channel_invar ch \<Longrightarrow> channel_invar ch'"
  by (induction rule: channel_step.induct) (auto intro: step_intros)

lemma channel_evolves_refl [simp]: "channel_evolves ch ch"
  by (simp add: channel_evolves_def)

lemma channel_evolves_trans: "channel_evolves a b \<Longrightarrow> channel_evolves b c \<Longrightarrow> channel_evolves a c"
  by (auto simp: channel_evolves_def)

lemma channel_step_evolves: "channel_step hm ch ch' \<Longrightarrow> channel_evolves ch ch'"
proof -
  assume st: "channel_step hm ch ch'"
  have frame: "ch_instance_id ch' = ch_instance_id ch \<and> ch_role ch' = ch_role ch \<and>
     ch_session_id ch' = ch_session_id ch \<and> ch_generation ch' = ch_generation ch \<and>
     ch_max_frame_bytes ch' \<le> ch_max_frame_bytes ch \<and>
     (ch_frame_limit_locked ch \<longrightarrow> ch_frame_limit_locked ch' \<and>
        ch_max_frame_bytes ch' = ch_max_frame_bytes ch \<and> ch_minor ch' = ch_minor ch)"
    using st
  proof cases
    case (step_seal s)
    with seal_state [of hm id s ch] show ?thesis by (cases "seal hm id s ch") auto
  next
    case (step_open de frame)
    with open_frame_state [of hm de frame ch] show ?thesis
      by (cases "open_frame hm de frame ch") auto
  next
    case (step_lower limit)
    with lower_frame_limit_state [of limit ch] show ?thesis
      by (cases "lower_frame_limit limit ch") auto
  next
    case (step_apply n)
    with apply_negotiated_protocol_state [of n ch] show ?thesis
      by (cases "apply_negotiated_protocol n ch") auto
  qed auto
  with channel_step_mono [OF st] show ?thesis by (simp add: channel_evolves_def)
qed

lemma channel_steps_evolve: "(channel_step hm)\<^sup>*\<^sup>* ch ch' \<Longrightarrow> channel_evolves ch ch'"
  by (induction rule: rtranclp_induct) (auto intro: channel_evolves_trans channel_step_evolves)

lemma channel_steps_invar:
  "(channel_step hm)\<^sup>*\<^sup>* ch ch' \<Longrightarrow> channel_invar ch \<Longrightarrow> channel_invar ch'"
  by (induction rule: rtranclp_induct) (auto intro: channel_step_invar)

section \<open>A sender and its receiver\<close>

text \<open>
  \<open>linked a b\<close>: what \<open>a\<close> seals next is what \<open>b\<close> expects next.
\<close>

definition linked :: "channel \<Rightarrow> channel \<Rightarrow> bool" where
  "linked a b \<longleftrightarrow>
     \<not> ch_retired a \<and> \<not> ch_retired b \<and> ch_role b = expected_remote (ch_role a) \<and>
     ch_session_id a = ch_session_id b \<and> length (ch_session_id b) \<le> 65535 \<and>
     ch_generation a = ch_generation b \<and> ch_minor a = ch_minor b \<and> ch_key a = ch_key b \<and>
     ch_send_sequence a = ch_receive_sequence b \<and>
     unat (ch_max_frame_bytes a) \<le> unat (ch_max_frame_bytes b)"

definition reads_back :: "('a \<Rightarrow> serialized) \<Rightarrow> (bytes \<Rightarrow> 'a option) \<Rightarrow> 'a \<Rightarrow> bool" where
  "reads_back ser de m \<longleftrightarrow> de (concat (chunks (ser m))) = Some m"

lemma open_sealed:
  assumes "linked a b" and "reads_back ser de m" and "hmac_total hm"
    and "seal hm ser m a = (Inr frame, a')"
  shows "\<exists>b'. open_frame hm de frame b = (Inr m, b') \<and> linked a' b'
    \<and> b' = b\<lparr>ch_receive_sequence := ch_send_sequence a'\<rparr>"
proof -
  have sid: "length (ch_session_id a) \<le> 65535" using assms(1) by (simp add: linked_def)
  from assms(4) obtain q t where q: "checked_add (ch_send_sequence a) 1 = Some q"
    and t: "hm (ch_key a) (sealed_body ser m q a) = Some t"
    and frame: "frame = sealed_body ser m q a @ t" and a': "a' = a\<lparr>ch_send_sequence := q\<rparr>"
    and len: "63 + length (ch_session_id a) + total_len (chunks (ser m)) \<le> unat (ch_max_frame_bytes a)"
    unfolding seal_ok_iff [OF sid] by auto
  have lt: "length t = 32" using assms(3) t by (metis hmac_total_def frame_constants(1) option.inject)
  have "accepts hm de frame b m q"
    using assms(1,2) q t frame len lt
    by (auto simp: accepts_def linked_def sealed_body_def reads_back_def intro!: exI)
  from open_active_complete [OF _ this]
  have "open_active hm de frame b = Inr (m, b\<lparr>ch_receive_sequence := q\<rparr>)"
    using assms(1) sid by (simp add: linked_def)
  then show ?thesis using assms(1) by (auto simp: open_frame_def linked_def a')
qed

fun seal_all ::
  "hmac \<Rightarrow> ('a \<Rightarrow> serialized) \<Rightarrow> 'a list \<Rightarrow> channel \<Rightarrow> (sidecar_frame_error + bytes list) \<times> channel" where
  "seal_all hm ser [] ch = (Inr [], ch)"
| "seal_all hm ser (m # ms) ch =
     (case seal hm ser m ch of
        (Inl e, ch') \<Rightarrow> (Inl e, ch')
      | (Inr frame, ch') \<Rightarrow>
          (case seal_all hm ser ms ch' of
             (Inl e, ch'') \<Rightarrow> (Inl e, ch'')
           | (Inr frames, ch'') \<Rightarrow> (Inr (frame # frames), ch'')))"

fun open_all ::
  "hmac \<Rightarrow> (bytes \<Rightarrow> 'a option) \<Rightarrow> bytes list \<Rightarrow> channel \<Rightarrow> (sidecar_frame_error + 'a list) \<times> channel" where
  "open_all hm de [] ch = (Inr [], ch)"
| "open_all hm de (frame # frames) ch =
     (case open_frame hm de frame ch of
        (Inl e, ch') \<Rightarrow> (Inl e, ch')
      | (Inr m, ch') \<Rightarrow>
          (case open_all hm de frames ch' of
             (Inl e, ch'') \<Rightarrow> (Inl e, ch'')
           | (Inr ms, ch'') \<Rightarrow> (Inr (m # ms), ch'')))"

lemma open_all_sealed:
  "linked a b \<Longrightarrow> \<forall>m\<in>set ms. reads_back ser de m \<Longrightarrow> hmac_total hm \<Longrightarrow>
   seal_all hm ser ms a = (Inr frames, a') \<Longrightarrow>
   \<exists>b'. open_all hm de frames b = (Inr ms, b') \<and> linked a' b'"
proof (induction ms arbitrary: a b frames)
  case Nil
  then show ?case by auto
next
  case (Cons m ms)
  from Cons.prems(4) obtain f a1 fs where f: "seal hm ser m a = (Inr f, a1)"
    and fs: "seal_all hm ser ms a1 = (Inr fs, a')" and frames: "frames = f # fs"
    by (auto split: prod.splits sum.splits)
  have "reads_back ser de m" using Cons.prems(2) by simp
  from open_sealed [OF Cons.prems(1) this Cons.prems(3) f] obtain b1
    where b1: "open_frame hm de f b = (Inr m, b1)" and l1: "linked a1 b1" by blast
  from Cons.IH [OF l1 _ Cons.prems(3) fs] Cons.prems(2) b1 show ?case
    by (auto simp: frames)
qed

text \<open>\<open>max_payload_bytes\<close> is exact: it is the length up to which \<open>seal\<close> succeeds.\<close>

lemma seal_succeeds_iff:
  assumes "channel_invar ch" and "hmac_total hm"
  shows "is_ok (fst (seal hm ser payload ch)) \<longleftrightarrow>
    \<not> ch_retired ch \<and> ch_send_sequence ch \<noteq> - 1 \<and> \<not> refused (ser payload) \<and>
    total_len (chunks (ser payload)) \<le> max_payload_bytes ch"
proof -
  have sid: "length (ch_session_id ch) \<le> 65535"
    and room: "64 + length (ch_session_id ch) \<le> unat (ch_max_frame_bytes ch)"
    using assms(1) by (auto simp: channel_invar_def minimum_frame_bytes_def)
  note more = checked_add_one_iff [of "ch_send_sequence ch"]
  have "\<exists>t. hm k m = Some t" for k m using assms(2) by (auto simp: hmac_total_def)
  then have "is_ok (fst (seal hm ser payload ch)) \<longleftrightarrow>
      \<not> ch_retired ch \<and> (\<exists>q. checked_add (ch_send_sequence ch) 1 = Some q) \<and> \<not> refused (ser payload) \<and>
      63 + length (ch_session_id ch) + total_len (chunks (ser payload)) \<le> unat (ch_max_frame_bytes ch)"
    unfolding seal_unfold [OF sid] using room
    by (auto split: option.split) (metis option.distinct(1))+
  then show ?thesis using room by (auto simp: more max_payload_bytes_def)
qed

text \<open>Messages that fit are all sealed, until the counter of 64 bits is used up.\<close>

definition fits :: "('a \<Rightarrow> serialized) \<Rightarrow> channel \<Rightarrow> 'a \<Rightarrow> bool" where
  "fits ser ch m \<longleftrightarrow> \<not> refused (ser m) \<and> total_len (chunks (ser m)) \<le> max_payload_bytes ch"

lemma fits_send_sequence [simp]: "fits ser (ch\<lparr>ch_send_sequence := q\<rparr>) m = fits ser ch m"
  by (simp add: fits_def max_payload_bytes_def)

lemma seal_all_succeeds:
  "channel_invar ch \<Longrightarrow> hmac_total hm \<Longrightarrow> \<not> ch_retired ch \<Longrightarrow>
   unat (ch_send_sequence ch) + length ms < 2 ^ 64 \<Longrightarrow> \<forall>m\<in>set ms. fits ser ch m \<Longrightarrow>
   \<exists>frames ch'. seal_all hm ser ms ch = (Inr frames, ch')"
proof (induction ms arbitrary: ch)
  case Nil
  then show ?case by simp
next
  case (Cons m ms)
  have "\<exists>q. checked_add (ch_send_sequence ch) 1 = Some q"
    using Cons.prems(4) by (simp add: checked_add_def)
  then have "is_ok (fst (seal hm ser m ch))"
    using Cons.prems by (simp add: seal_succeeds_iff checked_add_one_iff fits_def)
  then obtain f ch' where f: "seal hm ser m ch = (Inr f, ch')"
    by (cases "seal hm ser m ch") (auto simp: is_ok_cases)
  from seal_Inr_state [OF f] obtain q where q: "unat q = Suc (unat (ch_send_sequence ch))"
    and ch': "ch' = ch\<lparr>ch_send_sequence := q\<rparr>" by (auto simp: checked_add_eq_iff)
  have "\<exists>frames ch''. seal_all hm ser ms ch' = (Inr frames, ch'')"
    using Cons.prems by (intro Cons.IH) (simp_all add: ch' q step_intros)
  then show ?case by (auto simp: f)
qed

section \<open>Properties\<close>

subsection \<open>Inputs of the witnesses\<close>

definition demo_hm :: hmac where
  "demo_hm k m = Some (replicate 31 0 @ [foldl xor 0 (k @ m)])"

definition demo_ser :: "bool \<Rightarrow> serialized" where
  "demo_ser b = \<lparr>chunks = [[if b then 1 else 0]], refused = False\<rparr>"

definition demo_de :: "bytes \<Rightarrow> bool option" where
  "demo_de bs = (if bs = [1] then Some True else if bs = [0] then Some False else None)"

definition demo_channel :: "sidecar_peer_role \<Rightarrow> channel" where
  "demo_channel role =
     \<lparr>ch_instance_id = 1, ch_role = role, ch_minor = 0, ch_session_id = ''s'', ch_generation = 1,
      ch_key = replicate 32 7, ch_max_frame_bytes = 128, ch_frame_limit_locked = False,
      ch_send_sequence = 0, ch_receive_sequence = 0, ch_retired = False\<rparr>"

lemma demo_hm_total [simp]: "hmac_total demo_hm"
  by (simp add: hmac_total_def demo_hm_def)

lemma demo_reads_back [simp]: "reads_back demo_ser demo_de b"
  by (simp add: reads_back_def demo_ser_def demo_de_def)

lemma demo_channel_new:
  "channel_new 1 role ''s'' 1 (replicate 32 7) 128 = (Inr (demo_channel role), 2)"
  by (simp add: channel_new_def demo_channel_def minimum_frame_bytes_def checked_add_def
      SIDECAR_BOOTSTRAP_MINOR_def)

lemma demo_invar [simp]: "channel_invar (demo_channel role)"
  by (rule channel_new_invar [OF demo_channel_new])

lemma demo_channel_simps [simp]:
  "\<not> ch_retired (demo_channel role)" "ch_send_sequence (demo_channel role) = 0"
  "ch_receive_sequence (demo_channel role) = 0"
  by (simp_all add: demo_channel_def)

lemma demo_fits [simp]: "fits demo_ser (demo_channel role) m"
  by (simp add: fits_def demo_ser_def max_payload_bytes_def demo_channel_def)

subsection \<open>Delivery\<close>

text \<open>
  C16. Two channels built with the same session, generation, key and frame limit and with
  opposite roles deliver: every sequence of messages that each fit \<open>max_payload_bytes\<close> is
  sealed by one, and the other opens these frames to the same messages in the same order;
  the two ends are then ready for more.
\<close>

lemma sealed_stream_delivered:
  assumes "channel_new i role sid gen key limit = (Inr a, i')"
    and "channel_new j (expected_remote role) sid gen key limit = (Inr b, j')"
    and "hmac_total hm" and "\<forall>m\<in>set ms. fits ser a m \<and> reads_back ser de m"
    and "length ms < 2 ^ 64"
  shows "\<exists>frames a' b'. seal_all hm ser ms a = (Inr frames, a') \<and>
    open_all hm de frames b = (Inr ms, b') \<and> linked a' b'"
proof -
  have "linked a b" and fresh: "\<not> ch_retired a" "ch_send_sequence a = 0" using assms(1,2)
    by (auto simp: linked_def channel_new_def not_less split: if_splits option.splits)
  from seal_all_succeeds [OF channel_new_invar [OF assms(1)] assms(3) fresh(1)] fresh assms(4,5)
  obtain frames a' where f: "seal_all hm ser ms a = (Inr frames, a')" by fastforce
  have "\<forall>m\<in>set ms. reads_back ser de m" using assms(4) by blast
  from open_all_sealed [OF \<open>linked a b\<close> this assms(3) f] f show ?thesis by blast
qed

lemma sealed_stream_delivered_witness:
  "\<exists>frames a' b'. seal_all demo_hm demo_ser [True, False] (demo_channel Supervisor) = (Inr frames, a')
     \<and> open_all demo_hm demo_de frames (demo_channel Runtime) = (Inr [True, False], b')
     \<and> linked a' b'"
  by (rule sealed_stream_delivered [OF demo_channel_new, where j = 1 and j' = 2])
    (simp_all add: demo_channel_new)

text \<open>
  \<open>max_payload_bytes\<close> is exact: on a channel that is not retired and has numbers left,
  \<open>seal\<close> succeeds for exactly the payloads that serialize to at most that many bytes, and a
  refused payload leaves the channel as it was.
\<close>

lemma seal_limit_exact:
  assumes "channel_invar ch" and "hmac_total hm"
  shows "(is_ok (fst (seal hm ser payload ch)) \<longleftrightarrow>
      \<not> ch_retired ch \<and> ch_send_sequence ch \<noteq> - 1 \<and> fits ser ch payload)
    \<and> (is_ok (fst (seal hm ser payload ch)) \<or> snd (seal hm ser payload ch) = ch)"
proof -
  have "snd (seal hm ser payload ch) = ch" if "\<not> is_ok (fst (seal hm ser payload ch))"
    using that seal_error_unchanged [of hm ser payload ch]
    by (cases "seal hm ser payload ch") (auto simp: not_is_ok_cases)
  then show ?thesis by (auto simp: seal_succeeds_iff [OF assms] fits_def)
qed

lemma seal_limit_exact_witness:
  "is_ok (fst (seal demo_hm demo_ser True (demo_channel Runtime)))"
  using seal_limit_exact [OF demo_invar demo_hm_total, of demo_ser True Runtime]
  by simp

text \<open>
  Authentication: \<open>open_frame\<close> returns a message for a frame exactly when the channel is
  live and the frame is the header of the next expected number of this session, generation,
  version and direction, then the session identifier and a payload that decodes to the
  message, then the tag of all this under the key of the channel, within the frame limit.
  It then advances the receive counter and nothing else.
\<close>

lemma open_accepts_exactly:
  assumes "channel_invar ch"
  shows "open_frame hm de frame ch = (Inr m, ch') \<longleftrightarrow>
    \<not> ch_retired ch \<and>
    (\<exists>sequence. accepts hm de frame ch m sequence \<and> ch' = ch\<lparr>ch_receive_sequence := sequence\<rparr>)"
  using assms open_frame_Inr_iff [of ch hm de frame m ch'] by (auto simp: channel_invar_def)

lemma demo_linked: "linked (demo_channel Supervisor) (demo_channel Runtime)"
  by (simp add: linked_def demo_channel_def)

lemma demo_frame:
  obtains f a b where "seal demo_hm demo_ser True (demo_channel Supervisor) = (Inr f, a)"
    and "open_frame demo_hm demo_de f (demo_channel Runtime) = (Inr True, b)"
proof -
  have "is_ok (fst (seal demo_hm demo_ser True (demo_channel Supervisor)))"
    by (simp add: seal_succeeds_iff fits_def [symmetric])
  then obtain f a where f: "seal demo_hm demo_ser True (demo_channel Supervisor) = (Inr f, a)"
    by (cases "seal demo_hm demo_ser True (demo_channel Supervisor)") (auto simp: is_ok_cases)
  from open_sealed [OF demo_linked demo_reads_back demo_hm_total f] that [OF f] show ?thesis by blast
qed

lemma open_accepts_exactly_witness:
  "\<exists>frame sequence. accepts demo_hm demo_de frame (demo_channel Runtime) True sequence"
proof -
  obtain f b where "open_frame demo_hm demo_de f (demo_channel Runtime) = (Inr True, b)"
    by (rule demo_frame)
  then show ?thesis
    unfolding open_accepts_exactly [OF demo_invar, of demo_hm demo_de f Runtime True b] by blast
qed

subsection \<open>Replay, refusal and the life of a channel\<close>

text \<open>
  C18. No replay: a frame that was accepted once is refused ever after, whatever operations
  are performed on the channel in between, and it leaves the channel retired.
\<close>

lemma accepted_frame_never_again:
  assumes "open_frame hm de frame ch = (Inr m, ch1)"
    and "(channel_step hm)\<^sup>*\<^sup>* ch1 ch2"
  shows "\<exists>e ch3. open_frame hm de frame ch2 = (Inl e, ch3) \<and> ch_retired ch3"
proof -
  from link.no_replay [OF assms] obtain e where "fst (open_frame hm de frame ch2) = Inl e" by blast
  then show ?thesis using open_refused [of hm de frame ch2 e]
    by (cases "open_frame hm de frame ch2") auto
qed

lemma accepted_frame_never_again_witness:
  "\<exists>frame ch1 e. fst (open_frame demo_hm demo_de frame (demo_channel Runtime)) = Inr True
     \<and> fst (open_frame demo_hm demo_de frame (lock_frame_limit ch1)) = Inl e"
proof -
  obtain f b where f: "open_frame demo_hm demo_de f (demo_channel Runtime) = (Inr True, b)"
    by (rule demo_frame)
  have "(channel_step demo_hm)\<^sup>*\<^sup>* b (lock_frame_limit b)"
    by (rule r_into_rtranclp) (rule channel_step.step_lock)
  from accepted_frame_never_again [OF f this] obtain e
    where "fst (open_frame demo_hm demo_de f (lock_frame_limit b)) = Inl e" by auto
  moreover have "fst (open_frame demo_hm demo_de f (demo_channel Runtime)) = Inr True"
    using f by simp
  ultimately show ?thesis by blast
qed

text \<open>
  C19. One refused frame ends a channel: afterwards every frame is refused, nothing can be
  sealed, and the key has been overwritten, whatever operations follow.
\<close>

lemma refused_frame_ends_channel:
  assumes "channel_invar ch" and "open_frame hm de frame ch = (Inl e, ch1)"
    and "(channel_step hm)\<^sup>*\<^sup>* ch1 ch2"
  shows "open_frame hm de frame' ch2 = (Inl ChannelRetired, ch2) \<and>
    seal hm ser payload ch2 = (Inl ChannelRetired, ch2) \<and> set (ch_key ch2) \<subseteq> {0}"
proof -
  have "channel_invar ch1" using open_invar [OF assms(1), of hm de frame] assms(2) by simp
  then have "channel_invar ch2" by (rule channel_steps_invar [OF assms(3)])
  moreover have "ch_retired ch2"
    using link.stays_retired [OF _ assms(3)] open_refused [OF assms(2)] by blast
  ultimately show ?thesis
    using link.refusal_is_final [OF assms(2,3)] by (simp add: channel_invar_def)
qed

lemma refused_frame_ends_channel_witness:
  "\<exists>ch. open_frame demo_hm demo_de [] (demo_channel Runtime) = (Inl Truncated, ch)
     \<and> seal demo_hm demo_ser True ch = (Inl ChannelRetired, ch)"
proof -
  have f: "open_frame demo_hm demo_de [] (demo_channel Runtime)
      = (Inl Truncated, retire (demo_channel Runtime))"
    by (simp add: open_frame_def open_active_def demo_channel_def)
  have "seal demo_hm demo_ser True (retire (demo_channel Runtime))
      = (Inl ChannelRetired, retire (demo_channel Runtime))"
    by (rule refused_frame_ends_channel [OF demo_invar f rtranclp.rtrancl_refl,
          THEN conjunct2, THEN conjunct1])
  with f show ?thesis by (intro exI conjI)
qed

text \<open>
  Life of a channel: from its creation on, whatever operations are performed, its
  identity (instance, role, session, generation) is fixed, there is room for a payload, its
  counters only grow, its frame limit only falls and stays put once it is locked, retirement
  is permanent and a retired channel holds no key material.
\<close>

lemma channel_life:
  assumes "channel_new i role sid gen key limit = (Inr ch, i')"
    and "(channel_step hm)\<^sup>*\<^sup>* ch ch1" and "(channel_step hm)\<^sup>*\<^sup>* ch1 ch2"
  shows "channel_invar ch1 \<and> channel_evolves ch1 ch2"
  using channel_steps_invar [OF assms(2) channel_new_invar [OF assms(1)]]
    channel_steps_evolve [OF assms(3)] by simp

lemma channel_life_witness:
  "channel_invar (demo_channel Runtime) \<and>
   channel_evolves (demo_channel Runtime) (retire (demo_channel Runtime))"
  by (rule channel_life [OF demo_channel_new])
    (auto intro: channel_step.step_retire)

text \<open>
  End to end: a message sealed on a linked channel can be written to the transport with
  the channel's frame limit, and the peer that reads the transport with its own limit opens
  exactly that message, whatever bytes follow.
\<close>

lemma sealed_message_crosses_transport:
  assumes "linked a b" and "reads_back ser de m" and "hmac_total hm" and "channel_invar a"
    and "seal hm ser m a = (Inr frame, a')"
  shows "\<exists>sent b'.
    write_sidecar_frame (Done, Done, Done) frame (ch_max_frame_bytes a) sink = (Inr (), sink @ sent) \<and>
    read_sidecar_frame (ch_max_frame_bytes b) \<lparr>arriving = sent @ rest, after_bytes = fate\<rparr>
      = (Inr frame, \<lparr>arriving = rest, after_bytes = fate\<rparr>) \<and>
    open_frame hm de frame b = (Inr m, b') \<and> linked a' b'"
proof -
  have sid: "length (ch_session_id a) \<le> 65535" using assms(1) by (simp add: linked_def)
  have limits: "ch_max_frame_bytes a \<le> ch_max_frame_bytes b"
    using assms(1) by (simp add: linked_def word_le_nat_alt)
  from assms(5) obtain q t where frame: "frame = sealed_body ser m q a @ t"
    and "hm (ch_key a) (sealed_body ser m q a) = Some t"
    and len: "63 + length (ch_session_id a) + total_len (chunks (ser m)) \<le> unat (ch_max_frame_bytes a)"
    and room: "63 + length (ch_session_id a) < unat (ch_max_frame_bytes a)"
    unfolding seal_ok_iff [OF sid] by auto
  then have "length t = 32" using assms(3) by (metis hmac_total_def frame_constants(1) option.inject)
  then have fl: "length frame = 63 + length (ch_session_id a) + total_len (chunks (ser m))"
    by (simp add: frame sealed_body_def)
  have ne: "frame \<noteq> []" and fits: "length frame \<le> unat (ch_max_frame_bytes a)"
    using fl len by auto
  have min: "MIN_FRAME_BYTES \<le> ch_max_frame_bytes a"
    using assms(4) by (rule channel_invar_min)
  note w = write_sidecar_frame_fits [OF ne fits min, of sink]
  have r: "read_sidecar_frame (ch_max_frame_bytes b)
      \<lparr>arriving = (u32_to_be (word_of_nat (length frame)) @ frame) @ rest, after_bytes = fate\<rparr>
    = (Inr frame, \<lparr>arriving = rest, after_bytes = fate\<rparr>)"
    using read_sidecar_frame_prefix [OF ne, of "ch_max_frame_bytes b"
        "\<lparr>arriving = (u32_to_be (word_of_nat (length frame)) @ frame) @ rest, after_bytes = fate\<rparr>" rest]
      fits min limits by (simp add: word_le_nat_alt)
  from open_sealed [OF assms(1-3,5)] obtain b'
    where "open_frame hm de frame b = (Inr m, b')" "linked a' b'" by blast
  with w r show ?thesis by blast
qed

lemma sealed_message_crosses_transport_witness:
  "\<exists>frame sent. write_sidecar_frame (Done, Done, Done) frame 128 [] = (Inr (), sent)
     \<and> fst (read_sidecar_frame 128 \<lparr>arriving = sent @ [1, 2], after_bytes = Silent\<rparr>) = Inr frame
     \<and> fst (open_frame demo_hm demo_de frame (demo_channel Runtime)) = Inr True"
proof -
  obtain f a b where f: "seal demo_hm demo_ser True (demo_channel Supervisor) = (Inr f, a)"
    and "open_frame demo_hm demo_de f (demo_channel Runtime) = (Inr True, b)" by (rule demo_frame)
  have limit: "ch_max_frame_bytes (demo_channel r) = 128" for r by (simp add: demo_channel_def)
  from sealed_message_crosses_transport [OF demo_linked demo_reads_back demo_hm_total demo_invar f,
      where sink = "[]" and rest = "[1, 2]" and fate = Silent, unfolded limit]
  show ?thesis by (metis append_Nil fst_conv)
qed

end
