(* ===== verification/BoundExchange.thy ===== *)
theory BoundExchange
  imports SidecarChannel
begin

text \<open>
  What the handshake and the configuration exchange have in common: a state machine bound to
  one channel instance. An operation on any other channel retires that channel and does not
  touch the machine; a refused operation on the bound channel retires it and ends the machine
  in a dead phase; phases only advance. The locale \<open>bound_exchange\<close> states this and derives
  what it means for a whole run, in which every operation may be given another channel.
\<close>

text \<open>One operation, with whatever channel; \<open>act\<close> tells whether it returned \<open>Ok\<close>.\<close>

inductive acts_step :: "('o \<Rightarrow> 's \<Rightarrow> channel \<Rightarrow> bool \<times> 's \<times> channel) \<Rightarrow> 's \<Rightarrow> 's \<Rightarrow> bool" for act where
  acts: "act op s ch = (ok, s', ch') \<Longrightarrow> acts_step act s s'"

inductive_cases acts_stepE: "acts_step act s s'"

definition may_use :: "u64 option \<Rightarrow> channel \<Rightarrow> bool" where
  "may_use bound ch \<longleftrightarrow> bound = None \<or> bound = Some (ch_instance_id ch)"

lemma may_use_simps [simp]:
  "may_use None ch" "may_use (Some i) ch \<longleftrightarrow> i = ch_instance_id ch"
  by (auto simp: may_use_def)

locale bound_exchange =
  fixes act :: "'o \<Rightarrow> 's \<Rightarrow> channel \<Rightarrow> bool \<times> 's \<times> channel"
    and bound :: "'s \<Rightarrow> u64 option"
    and phase :: "'s \<Rightarrow> 'p::linorder"
    and dead :: 'p
  assumes stray: "\<not> may_use (bound s) ch \<Longrightarrow> act op s ch = (False, s, retire ch)"
    and binds: "may_use (bound s) ch \<Longrightarrow> act op s ch = (ok, s', ch') \<Longrightarrow>
      bound s' = Some (ch_instance_id ch)"
    and refuses: "may_use (bound s) ch \<Longrightarrow> act op s ch = (False, s', ch') \<Longrightarrow>
      phase s' = dead \<and> ch_retired ch'"
    and advances: "act op s ch = (ok, s', ch') \<Longrightarrow> phase s \<le> phase s'"
    and dead_refuses: "phase s = dead \<Longrightarrow> act op s ch = (ok, s', ch') \<Longrightarrow> \<not> ok"
    and dead_last: "phase s \<le> dead"
begin

lemma refused_retires: "act op s ch = (False, s', ch') \<Longrightarrow> ch_retired ch'"
  using stray [of s ch op] refuses [of s ch op s' ch'] by (cases "may_use (bound s) ch") auto

lemma step_phase: "acts_step act s s' \<Longrightarrow> phase s \<le> phase s'"
  by (auto elim: acts_stepE dest: advances)

lemma run_phase: "(acts_step act)\<^sup>*\<^sup>* s s' \<Longrightarrow> phase s \<le> phase s'"
  by (induction rule: rtranclp_induct) (auto dest: step_phase)

lemma step_bound: "acts_step act s s' \<Longrightarrow> bound s = Some i \<Longrightarrow> bound s' = Some i"
proof (elim acts_stepE)
  fix op ch ok ch'
  assume b: "bound s = Some i" and a: "act op s ch = (ok, s', ch')"
  show "bound s' = Some i"
  proof (cases "may_use (bound s) ch")
    case True
    then show ?thesis using binds [OF True a] b by simp
  next
    case False
    then show ?thesis using stray [OF False, of op] a b by simp
  qed
qed

lemma run_bound: "(acts_step act)\<^sup>*\<^sup>* s s' \<Longrightarrow> bound s = Some i \<Longrightarrow> bound s' = Some i"
  by (induction rule: rtranclp_induct) (auto intro: step_bound)

lemma dead_for_ever:
  assumes "phase s = dead" and "(acts_step act)\<^sup>*\<^sup>* s s'" and "act op s' ch = (ok, s'', ch')"
  shows "\<not> ok \<and> phase s'' = dead \<and> ch_retired ch'"
proof -
  have dead': "phase s' = dead"
    using run_phase [OF assms(2)] assms(1) dead_last [of s'] by simp
  then have "\<not> ok" using dead_refuses assms(3) by blast
  moreover have "phase s'' = dead"
    using advances [OF assms(3)] dead' dead_last [of s''] by simp
  ultimately show ?thesis using refused_retires assms(3) by simp
qed

text \<open>After a refusal on the bound channel nothing succeeds any more, on any channel.\<close>

lemma refusal_ends_run:
  assumes "may_use (bound s) ch" and "act op s ch = (False, s1, ch1)"
    and "(acts_step act)\<^sup>*\<^sup>* s1 s2" and "act op' s2 ch2 = (ok, s3, ch3)"
  shows "\<not> ok \<and> phase s3 = dead \<and> ch_retired ch3"
  using dead_for_ever [OF _ assms(3,4)] refuses [OF assms(1,2)] by blast

text \<open>A foreign channel is retired and leaves the machine as it was, at any time.\<close>

lemma foreign_channel:
  assumes "bound s = Some i" and "(acts_step act)\<^sup>*\<^sup>* s s'" and "ch_instance_id ch \<noteq> i"
  shows "act op s' ch = (False, s', retire ch)"
  using stray [of s' ch op] run_bound [OF assms(2,1)] assms(3) by auto

end

end
