(* ===== verification/SidecarHandshake.thy ===== *)
theory SidecarHandshake
  imports BoundExchange
begin

text \<open>
  The offer/accept state machine of \<open>sidecar_handshake.rs\<close> on top of one authenticated
  channel. A method of \<open>SidecarHandshake\<close> takes the handshake and the channel and returns
  its result with both of them updated. The tag function \<open>hm\<close> and the codec \<open>ser\<close>, \<open>de\<close> of
  \<open>SidecarHandshakeMessage\<close> are parameters, as in \<open>SidecarFrames\<close>.
\<close>

section \<open>Data\<close>

datatype sidecar_handshake_state =
  Starting | AwaitingAcceptance | AcceptancePending | Authenticated | Failed

record sidecar_protocol_selection =
  sel_major :: u16
  sel_minor :: u16
  sel_feature_bits :: u64
  sel_limits :: sidecar_limits

definition selection_from :: "negotiated_sidecar_protocol \<Rightarrow> sidecar_protocol_selection" where
  "selection_from negotiated =
     \<lparr>sel_major = neg_major negotiated, sel_minor = neg_minor negotiated,
      sel_feature_bits = neg_feature_bits negotiated, sel_limits = neg_limits negotiated\<rparr>"

datatype sidecar_handshake_message =
    Offer sidecar_protocol_offer
  | Accept sidecar_protocol_offer sidecar_protocol_selection

datatype sidecar_handshake_error =
    Frame sidecar_frame_error
  | Negotiation sidecar_protocol_error
  | SupervisorMustInitiate
  | SelectionMismatch
  | UnexpectedMessage
  | InvalidPeerIdentity
  | WrongPeerRole
  | ChannelRoleMismatch
  | ChannelInstanceMismatch

record sidecar_handshake =
  hs_local_offer :: sidecar_protocol_offer
  hs_state :: sidecar_handshake_state
  hs_negotiated :: "negotiated_sidecar_protocol option"
  hs_pending_negotiated :: "negotiated_sidecar_protocol option"
  hs_channel_instance_id :: "u64 option"

text \<open>The order in which the states are passed through.\<close>

fun handshake_rank :: "sidecar_handshake_state \<Rightarrow> nat" where
  "handshake_rank Starting = 0"
| "handshake_rank AwaitingAcceptance = 1"
| "handshake_rank AcceptancePending = 2"
| "handshake_rank Authenticated = 3"
| "handshake_rank Failed = 4"

lemma handshake_rank_inject: "handshake_rank s = handshake_rank t \<Longrightarrow> s = t"
  by (cases s; cases t) simp_all

instantiation sidecar_handshake_state :: linorder
begin

definition less_eq_sidecar_handshake_state where
  "(s :: sidecar_handshake_state) \<le> t \<longleftrightarrow> handshake_rank s \<le> handshake_rank t"

definition less_sidecar_handshake_state where
  "(s :: sidecar_handshake_state) < t \<longleftrightarrow> handshake_rank s < handshake_rank t"

instance
  by standard
    (auto simp: less_eq_sidecar_handshake_state_def less_sidecar_handshake_state_def
      intro: handshake_rank_inject)

end

lemma handshake_state_le_Failed [simp]: "(s :: sidecar_handshake_state) \<le> Failed"
  by (cases s) (simp_all add: less_eq_sidecar_handshake_state_def)

lemma handshake_state_Failed_le [simp]: "Failed \<le> (s :: sidecar_handshake_state) \<longleftrightarrow> s = Failed"
  by (cases s) (simp_all add: less_eq_sidecar_handshake_state_def)

section \<open>Operations\<close>

definition validate_peer_identity :: "sidecar_protocol_offer \<Rightarrow> sidecar_handshake_error + unit" where
  "validate_peer_identity offer =
     (if trim (peer_name (offer_peer offer)) = []
         \<or> trim (peer_version (offer_peer offer)) = []
         \<or> trim (artifact_identity (offer_peer offer)) = []
      then Inl InvalidPeerIdentity else Inr ())"

definition validate_local_offer :: "sidecar_protocol_offer \<Rightarrow> sidecar_handshake_error + unit" where
  "validate_local_offer offer =
     bind_result (validate_peer_identity offer) (\<lambda>_.
       let counterpart = \<lparr>offer_major = offer_major offer, offer_minor = offer_minor offer,
             offer_peer = \<lparr>peer_role = (case peer_role (offer_peer offer) of
                              Supervisor \<Rightarrow> Runtime | Runtime \<Rightarrow> Supervisor),
                           peer_name = ''validation-peer'', peer_version = ''0'',
                           artifact_identity = ''validation-only''\<rparr>,
             offer_feature_bits = offer_feature_bits offer, offer_limits = offer_limits offer\<rparr> in
       map_err Negotiation
         (map_sum id (\<lambda>_. ()) (negotiate_sidecar_protocol offer counterpart)))"

definition handshake_new ::
  "sidecar_protocol_offer \<Rightarrow> sidecar_handshake_error + sidecar_handshake" where
  "handshake_new local_offer =
     bind_result (validate_local_offer local_offer) (\<lambda>_.
       Inr \<lparr>hs_local_offer = local_offer, hs_state = Starting, hs_negotiated = None,
            hs_pending_negotiated = None, hs_channel_instance_id = None\<rparr>)"

text \<open>\<open>local_role\<close> of the handshake.\<close>

definition local_role :: "sidecar_handshake \<Rightarrow> sidecar_peer_role" where
  "local_role hs = peer_role (offer_peer (hs_local_offer hs))"

definition fail ::
  "sidecar_handshake \<Rightarrow> channel \<Rightarrow> sidecar_handshake_error \<Rightarrow>
   (sidecar_handshake_error + 'a) \<times> sidecar_handshake \<times> channel" where
  "fail hs ch error =
     (Inl error,
      hs\<lparr>hs_state := Failed, hs_negotiated := None, hs_pending_negotiated := None\<rparr>,
      retire ch)"

definition bind_channel ::
  "sidecar_handshake \<Rightarrow> channel \<Rightarrow> (sidecar_handshake_error + unit) \<times> sidecar_handshake" where
  "bind_channel hs ch =
     (case hs_channel_instance_id hs of
        None \<Rightarrow> (Inr (), hs\<lparr>hs_channel_instance_id := Some (ch_instance_id ch)\<rparr>)
      | Some bound \<Rightarrow>
          if bound = ch_instance_id ch then (Inr (), hs) else (Inl ChannelInstanceMismatch, hs))"

definition start ::
  "hmac \<Rightarrow> (sidecar_handshake_message \<Rightarrow> serialized) \<Rightarrow> sidecar_handshake \<Rightarrow> channel \<Rightarrow>
   (sidecar_handshake_error + bytes) \<times> sidecar_handshake \<times> channel" where
  "start hm ser hs0 ch =
     (case bind_channel hs0 ch of
        (Inl error, hs) \<Rightarrow> (Inl error, hs, retire ch)
      | (Inr _, hs) \<Rightarrow>
        if ch_role ch \<noteq> local_role hs then fail hs ch ChannelRoleMismatch
        else if local_role hs \<noteq> Supervisor then fail hs ch SupervisorMustInitiate
        else if hs_state hs \<noteq> Starting then fail hs ch UnexpectedMessage
        else case seal hm ser (Offer (hs_local_offer hs)) ch of
          (Inl error, ch') \<Rightarrow> fail hs ch' (Frame error)
        | (Inr frame, ch') \<Rightarrow> (Inr frame, hs\<lparr>hs_state := AwaitingAcceptance\<rparr>, ch'))"

definition accept_supervisor ::
  "hmac \<Rightarrow> (sidecar_handshake_message \<Rightarrow> serialized) \<Rightarrow> sidecar_protocol_offer \<Rightarrow>
   sidecar_handshake \<Rightarrow> channel \<Rightarrow>
   (sidecar_handshake_error + bytes) \<times> sidecar_handshake \<times> channel" where
  "accept_supervisor hm ser supervisor_offer hs ch =
     (if peer_role (offer_peer supervisor_offer) \<noteq> Supervisor then (Inl WrongPeerRole, hs, ch)
      else case validate_peer_identity supervisor_offer of
        Inl e \<Rightarrow> (Inl e, hs, ch)
      | Inr _ \<Rightarrow>
      (case negotiate_sidecar_protocol (hs_local_offer hs) supervisor_offer of
        Inl e \<Rightarrow> (Inl (Negotiation e), hs, ch)
      | Inr negotiated \<Rightarrow>
      (case seal hm ser (Accept (hs_local_offer hs) (selection_from negotiated)) ch of
        (Inl e, ch') \<Rightarrow> (Inl (Frame e), hs, ch')
      | (Inr acceptance, ch') \<Rightarrow>
          (Inr acceptance,
           hs\<lparr>hs_pending_negotiated := Some negotiated, hs_state := AcceptancePending\<rparr>, ch'))))"

definition confirm_runtime ::
  "sidecar_protocol_offer \<Rightarrow> sidecar_protocol_selection \<Rightarrow> sidecar_handshake \<Rightarrow> channel \<Rightarrow>
   (sidecar_handshake_error + unit) \<times> sidecar_handshake \<times> channel" where
  "confirm_runtime runtime_offer claimed hs ch =
     (if peer_role (offer_peer runtime_offer) \<noteq> Runtime then (Inl WrongPeerRole, hs, ch)
      else case validate_peer_identity runtime_offer of
        Inl e \<Rightarrow> (Inl e, hs, ch)
      | Inr _ \<Rightarrow>
      (case negotiate_sidecar_protocol (hs_local_offer hs) runtime_offer of
        Inl e \<Rightarrow> (Inl (Negotiation e), hs, ch)
      | Inr negotiated \<Rightarrow>
        if claimed \<noteq> selection_from negotiated then (Inl SelectionMismatch, hs, ch)
        else case apply_negotiated_protocol negotiated ch of
          (Inl e, ch') \<Rightarrow> (Inl (Negotiation e), hs, ch')
        | (Inr _, ch') \<Rightarrow>
            (Inr (), hs\<lparr>hs_negotiated := Some negotiated, hs_state := Authenticated\<rparr>, ch')))"

definition receive_active ::
  "hmac \<Rightarrow> (sidecar_handshake_message \<Rightarrow> serialized) \<Rightarrow> (bytes \<Rightarrow> sidecar_handshake_message option) \<Rightarrow>
   bytes \<Rightarrow> sidecar_handshake \<Rightarrow> channel \<Rightarrow>
   (sidecar_handshake_error + bytes option) \<times> sidecar_handshake \<times> channel" where
  "receive_active hm ser de frame hs ch =
     (case open_frame hm de frame ch of
        (Inl e, ch') \<Rightarrow> (Inl (Frame e), hs, ch')
      | (Inr message, ch') \<Rightarrow>
        (case (local_role hs, hs_state hs, message) of
           (Runtime, Starting, Offer offer) \<Rightarrow>
             (case accept_supervisor hm ser offer hs ch' of
                (r, hs', ch'') \<Rightarrow> (map_sum id Some r, hs', ch''))
         | (Supervisor, AwaitingAcceptance, Accept offer selection) \<Rightarrow>
             (case confirm_runtime offer selection hs ch' of
                (r, hs', ch'') \<Rightarrow> (map_sum id (\<lambda>_. None) r, hs', ch''))
         | _ \<Rightarrow> (Inl UnexpectedMessage, hs, ch')))"

definition receive ::
  "hmac \<Rightarrow> (sidecar_handshake_message \<Rightarrow> serialized) \<Rightarrow> (bytes \<Rightarrow> sidecar_handshake_message option) \<Rightarrow>
   bytes \<Rightarrow> sidecar_handshake \<Rightarrow> channel \<Rightarrow>
   (sidecar_handshake_error + bytes option) \<times> sidecar_handshake \<times> channel" where
  "receive hm ser de frame hs0 ch =
     (case bind_channel hs0 ch of
        (Inl error, hs) \<Rightarrow> (Inl error, hs, retire ch)
      | (Inr _, hs) \<Rightarrow>
        if ch_role ch \<noteq> local_role hs then fail hs ch ChannelRoleMismatch
        else case receive_active hm ser de frame hs ch of
          (Inl e, hs', ch') \<Rightarrow>
            (Inl e, hs'\<lparr>hs_state := Failed, hs_negotiated := None, hs_pending_negotiated := None\<rparr>,
             retire ch')
        | (Inr r, hs', ch') \<Rightarrow> (Inr r, hs', ch'))"

definition complete_acceptance ::
  "sidecar_handshake \<Rightarrow> channel \<Rightarrow> (sidecar_handshake_error + unit) \<times> sidecar_handshake \<times> channel" where
  "complete_acceptance hs0 ch =
     (case bind_channel hs0 ch of
        (Inl error, hs) \<Rightarrow> (Inl error, hs, retire ch)
      | (Inr _, hs) \<Rightarrow>
        if ch_role ch \<noteq> Runtime then fail hs ch ChannelRoleMismatch
        else if ch_retired ch then fail hs ch (Frame ChannelRetired)
        else if hs_state hs \<noteq> AcceptancePending then fail hs ch UnexpectedMessage
        else case hs_pending_negotiated hs of
          None \<Rightarrow> fail hs ch UnexpectedMessage
        | Some negotiated \<Rightarrow>
          let hs' = hs\<lparr>hs_pending_negotiated := None\<rparr> in
          (case apply_negotiated_protocol negotiated ch of
             (Inl error, ch') \<Rightarrow> fail hs' ch' (Negotiation error)
           | (Inr _, ch') \<Rightarrow>
               (Inr (), hs'\<lparr>hs_negotiated := Some negotiated, hs_state := Authenticated\<rparr>, ch')))"

section \<open>The contract of the handshake\<close>

text \<open>
  The operations as one type. \<open>failed_on hs ch\<close> is the state every refusal on the bound channel
  leaves behind.
\<close>

datatype handshake_op = OpStart | OpReceive bytes | OpComplete

definition handshake_act ::
  "hmac \<Rightarrow> (sidecar_handshake_message \<Rightarrow> serialized) \<Rightarrow> (bytes \<Rightarrow> sidecar_handshake_message option) \<Rightarrow>
   handshake_op \<Rightarrow> sidecar_handshake \<Rightarrow> channel \<Rightarrow> bool \<times> sidecar_handshake \<times> channel" where
  "handshake_act hm ser de op hs ch =
     (case op of
        OpStart \<Rightarrow> apfst is_ok (start hm ser hs ch)
      | OpReceive frame \<Rightarrow> apfst is_ok (receive hm ser de frame hs ch)
      | OpComplete \<Rightarrow> apfst is_ok (complete_acceptance hs ch))"

definition bound_to :: "sidecar_handshake \<Rightarrow> channel \<Rightarrow> sidecar_handshake" where
  "bound_to hs ch = hs\<lparr>hs_channel_instance_id := Some (ch_instance_id ch)\<rparr>"

definition failed_on :: "sidecar_handshake \<Rightarrow> channel \<Rightarrow> sidecar_handshake" where
  "failed_on hs ch =
     hs\<lparr>hs_channel_instance_id := Some (ch_instance_id ch), hs_state := Failed,
        hs_negotiated := None, hs_pending_negotiated := None\<rparr>"

lemma bound_to_simps [simp]:
  "hs_local_offer (bound_to hs ch) = hs_local_offer hs" "hs_state (bound_to hs ch) = hs_state hs"
  "hs_negotiated (bound_to hs ch) = hs_negotiated hs"
  "hs_pending_negotiated (bound_to hs ch) = hs_pending_negotiated hs"
  "hs_channel_instance_id (bound_to hs ch) = Some (ch_instance_id ch)"
  "local_role (bound_to hs ch) = local_role hs"
  by (simp_all add: bound_to_def local_role_def)

lemma failed_on_simps [simp]:
  "hs_local_offer (failed_on hs ch) = hs_local_offer hs" "hs_state (failed_on hs ch) = Failed"
  "hs_negotiated (failed_on hs ch) = None" "hs_pending_negotiated (failed_on hs ch) = None"
  "hs_channel_instance_id (failed_on hs ch) = Some (ch_instance_id ch)"
  "local_role (failed_on hs ch) = local_role hs"
  by (simp_all add: failed_on_def local_role_def)

lemma bind_channel_eq:
  "bind_channel hs ch =
     (if may_use (hs_channel_instance_id hs) ch then (Inr (), bound_to hs ch)
      else (Inl ChannelInstanceMismatch, hs))"
  by (cases hs) (auto simp: bind_channel_def bound_to_def split: option.split)

lemma fail_eq: "fail (bound_to hs ch) ch' e = (Inl e, failed_on hs ch, retire ch')"
  by (simp add: fail_def bound_to_def failed_on_def)

text \<open>Each operation on a channel it may use: refused as above, or one of a few successes.\<close>

lemma start_cases:
  assumes "may_use (hs_channel_instance_id hs) ch" and "start hm ser hs ch = (r, hs', ch')"
  shows "(\<exists>e. r = Inl e) \<and> hs' = failed_on hs ch \<and> ch_retired ch' \<or>
    (\<exists>frame. r = Inr frame \<and> local_role hs = Supervisor \<and> ch_role ch = Supervisor \<and>
      hs_state hs = Starting \<and> seal hm ser (Offer (hs_local_offer hs)) ch = (Inr frame, ch') \<and>
      hs' = (bound_to hs ch)\<lparr>hs_state := AwaitingAcceptance\<rparr>)"
  using assms
  by (auto simp: start_def bind_channel_eq fail_eq split: if_splits prod.splits sum.splits)

lemma complete_acceptance_cases:
  assumes "may_use (hs_channel_instance_id hs) ch" and "complete_acceptance hs ch = (r, hs', ch')"
  shows "(\<exists>e. r = Inl e) \<and> hs' = failed_on hs ch \<and> ch_retired ch' \<or>
    (\<exists>n. r = Inr () \<and> ch_role ch = Runtime \<and> \<not> ch_retired ch \<and>
      hs_state hs = AcceptancePending \<and> hs_pending_negotiated hs = Some n \<and>
      apply_negotiated_protocol n ch = (Inr (), ch') \<and>
      hs' = (bound_to hs ch)\<lparr>hs_pending_negotiated := None, hs_negotiated := Some n,
        hs_state := Authenticated\<rparr>)"
proof -
  have fail': "fail ((bound_to hs ch)\<lparr>hs_pending_negotiated := None\<rparr>) ch' e
      = (Inl e, failed_on hs ch, retire ch')" for ch' and e :: sidecar_handshake_error
    by (simp add: fail_def bound_to_def failed_on_def)
  show ?thesis using assms
    by (auto simp: complete_acceptance_def bind_channel_eq fail_eq fail' Let_def
        split: if_splits prod.splits sum.splits option.splits)
qed

lemma accept_supervisor_Inr:
  "accept_supervisor hm ser offer hs ch = (Inr frame, hs', ch') \<Longrightarrow>
   \<exists>n. peer_role (offer_peer offer) = Supervisor \<and> validate_peer_identity offer = Inr () \<and>
     negotiate_sidecar_protocol (hs_local_offer hs) offer = Inr n \<and>
     seal hm ser (Accept (hs_local_offer hs) (selection_from n)) ch = (Inr frame, ch') \<and>
     hs' = hs\<lparr>hs_pending_negotiated := Some n, hs_state := AcceptancePending\<rparr>"
  by (auto simp: accept_supervisor_def split: if_splits sum.splits prod.splits)

lemma accept_supervisor_Inl:
  "accept_supervisor hm ser offer hs ch = (Inl e, hs', ch') \<Longrightarrow> hs' = hs"
  by (auto simp: accept_supervisor_def split: if_splits sum.splits prod.splits)

lemma confirm_runtime_Inr:
  "confirm_runtime offer claimed hs ch = (Inr u, hs', ch') \<Longrightarrow>
   \<exists>n. peer_role (offer_peer offer) = Runtime \<and> validate_peer_identity offer = Inr () \<and>
     negotiate_sidecar_protocol (hs_local_offer hs) offer = Inr n \<and> claimed = selection_from n \<and>
     apply_negotiated_protocol n ch = (Inr (), ch') \<and>
     hs' = hs\<lparr>hs_negotiated := Some n, hs_state := Authenticated\<rparr>"
  by (auto simp: confirm_runtime_def split: if_splits sum.splits prod.splits)

lemma confirm_runtime_Inl: "confirm_runtime offer claimed hs ch = (Inl e, hs', ch') \<Longrightarrow> hs' = hs"
  by (auto simp: confirm_runtime_def split: if_splits sum.splits prod.splits)

text \<open>The two successes of \<open>receive\<close>: the runtime accepts an offer, the supervisor an acceptance.\<close>

definition runtime_accepts where
  "runtime_accepts hm ser de frame hs ch acceptance hs' ch' \<longleftrightarrow>
     (\<exists>offer n ch1. local_role hs = Runtime \<and> hs_state hs = Starting \<and>
       open_frame hm de frame ch = (Inr (Offer offer), ch1) \<and>
       peer_role (offer_peer offer) = Supervisor \<and> validate_peer_identity offer = Inr () \<and>
       negotiate_sidecar_protocol (hs_local_offer hs) offer = Inr n \<and>
       seal hm ser (Accept (hs_local_offer hs) (selection_from n)) ch1 = (Inr acceptance, ch') \<and>
       hs' = hs\<lparr>hs_pending_negotiated := Some n, hs_state := AcceptancePending\<rparr>)"

definition supervisor_confirms where
  "supervisor_confirms hm de frame hs ch hs' ch' \<longleftrightarrow>
     (\<exists>offer n ch1. local_role hs = Supervisor \<and> hs_state hs = AwaitingAcceptance \<and>
       open_frame hm de frame ch = (Inr (Accept offer (selection_from n)), ch1) \<and>
       peer_role (offer_peer offer) = Runtime \<and> validate_peer_identity offer = Inr () \<and>
       negotiate_sidecar_protocol (hs_local_offer hs) offer = Inr n \<and>
       apply_negotiated_protocol n ch1 = (Inr (), ch') \<and>
       hs' = hs\<lparr>hs_negotiated := Some n, hs_state := Authenticated\<rparr>)"

lemma receive_active_cases:
  assumes "receive_active hm ser de frame hs ch = (r, hs', ch')"
  shows "(\<exists>e. r = Inl e) \<and> hs' = hs \<or>
    (\<exists>acceptance. r = Inr (Some acceptance) \<and> runtime_accepts hm ser de frame hs ch acceptance hs' ch') \<or>
    r = Inr None \<and> supervisor_confirms hm de frame hs ch hs' ch'"
proof -
  obtain r1 ch1 where o: "open_frame hm de frame ch = (r1, ch1)" by (cases "open_frame hm de frame ch")
  show ?thesis
  proof (cases r1)
    case (Inl e)
    then show ?thesis using assms o by (auto simp: receive_active_def)
  next
    case (Inr m)
    consider (offer) x where "local_role hs = Runtime" "hs_state hs = Starting" "m = Offer x"
      | (accept) x c where "local_role hs = Supervisor" "hs_state hs = AwaitingAcceptance" "m = Accept x c"
      | (other) "receive_active hm ser de frame hs ch = (Inl UnexpectedMessage, hs, ch1)"
      using o Inr by (cases "local_role hs"; cases "hs_state hs"; cases m) (auto simp: receive_active_def)
    then show ?thesis
    proof cases
      case offer
      then obtain r2 where "accept_supervisor hm ser x hs ch1 = (r2, hs', ch')" "r = map_sum id Some r2"
        using assms o Inr by (auto simp: receive_active_def split: prod.splits)
      then show ?thesis using offer o Inr accept_supervisor_Inl [of hm ser x hs ch1 _ hs' ch']
          accept_supervisor_Inr [of hm ser x hs ch1 _ hs' ch']
        by (cases r2) (auto simp: runtime_accepts_def)
    next
      case accept
      then obtain r2 where "confirm_runtime x c hs ch1 = (r2, hs', ch')" "r = map_sum id (\<lambda>_. None) r2"
        using assms o Inr by (auto simp: receive_active_def split: prod.splits)
      then show ?thesis using accept o Inr confirm_runtime_Inl [of x c hs ch1 _ hs' ch']
          confirm_runtime_Inr [of x c hs ch1 _ hs' ch']
        by (cases r2) (auto simp: supervisor_confirms_def)
    next
      case other
      then show ?thesis using assms by simp
    qed
  qed
qed

lemma receive_cases:
  assumes "may_use (hs_channel_instance_id hs) ch" and "receive hm ser de frame hs ch = (r, hs', ch')"
  shows "(\<exists>e. r = Inl e) \<and> hs' = failed_on hs ch \<and> ch_retired ch' \<or>
    ch_role ch = local_role hs \<and>
    ((\<exists>acceptance. r = Inr (Some acceptance) \<and>
       runtime_accepts hm ser de frame (bound_to hs ch) ch acceptance hs' ch') \<or>
     r = Inr None \<and> supervisor_confirms hm de frame (bound_to hs ch) ch hs' ch')"
proof -
  obtain r1 hs1 ch1 where a: "receive_active hm ser de frame (bound_to hs ch) ch = (r1, hs1, ch1)"
    by (cases "receive_active hm ser de frame (bound_to hs ch) ch")
  have failed: "(bound_to hs ch)\<lparr>hs_state := Failed, hs_negotiated := None, hs_pending_negotiated := None\<rparr>
      = failed_on hs ch" by (simp add: bound_to_def failed_on_def)
  show ?thesis
    using assms receive_active_cases [OF a]
    by (auto simp: receive_def bind_channel_eq fail_eq a failed split: if_splits sum.splits)
qed

section \<open>Invariant\<close>

text \<open>
  What the state says about the selections: the runtime holds a pending one exactly while its
  acceptance is pending, either side a committed one exactly when it is authenticated, and
  each is the result of negotiating the local offer with an offer of the opposite role.
\<close>

definition negotiated_from :: "sidecar_protocol_offer \<Rightarrow> negotiated_sidecar_protocol \<Rightarrow> bool" where
  "negotiated_from local n \<longleftrightarrow>
     (\<exists>remote. negotiate_sidecar_protocol local remote = Inr n \<and>
       validate_peer_identity remote = Inr ())"

definition handshake_invar :: "sidecar_handshake \<Rightarrow> bool" where
  "handshake_invar hs \<longleftrightarrow>
     (hs_negotiated hs \<noteq> None \<longleftrightarrow> hs_state hs = Authenticated) \<and>
     (hs_pending_negotiated hs \<noteq> None \<longleftrightarrow> hs_state hs = AcceptancePending) \<and>
     (\<forall>n. hs_negotiated hs = Some n \<or> hs_pending_negotiated hs = Some n \<longrightarrow>
        negotiated_from (hs_local_offer hs) n) \<and>
     (hs_state hs \<noteq> Starting \<longrightarrow> hs_channel_instance_id hs \<noteq> None)"

lemma handshake_new_invar: "handshake_new offer = Inr hs \<Longrightarrow> handshake_invar hs"
  by (auto simp: handshake_new_def handshake_invar_def bind_result_Inr)

lemma failed_on_invar [step_intros, simp]: "handshake_invar (failed_on hs ch)"
  by (simp add: handshake_invar_def)

lemma bound_to_invar [step_intros]: "handshake_invar hs \<Longrightarrow> handshake_invar (bound_to hs ch)"
  by (simp add: handshake_invar_def)

lemma start_invar:
  assumes "handshake_invar hs" and "start hm ser hs ch = (r, hs', ch')"
  shows "handshake_invar hs'"
proof (cases "may_use (hs_channel_instance_id hs) ch")
  case True
  from start_cases [OF True assms(2)] show ?thesis
    using assms(1) by (auto simp: handshake_invar_def)
next
  case False
  then show ?thesis using assms by (simp add: start_def bind_channel_eq)
qed

lemma receive_invar:
  assumes "handshake_invar hs" and "receive hm ser de frame hs ch = (r, hs', ch')"
  shows "handshake_invar hs'"
proof (cases "may_use (hs_channel_instance_id hs) ch")
  case True
  from receive_cases [OF True assms(2)] show ?thesis
    using assms(1)
    by (auto simp: handshake_invar_def runtime_accepts_def supervisor_confirms_def negotiated_from_def)
next
  case False
  then show ?thesis using assms by (simp add: receive_def bind_channel_eq)
qed

lemma complete_invar:
  assumes "handshake_invar hs" and "complete_acceptance hs ch = (r, hs', ch')"
  shows "handshake_invar hs'"
proof (cases "may_use (hs_channel_instance_id hs) ch")
  case True
  from complete_acceptance_cases [OF True assms(2)] show ?thesis
    using assms(1) by (auto simp: handshake_invar_def)
next
  case False
  then show ?thesis using assms by (simp add: complete_acceptance_def bind_channel_eq)
qed

lemma handshake_act_cases:
  assumes "handshake_act hm ser de op hs ch = (ok, hs', ch')"
  obtains (start) r where "op = OpStart" "start hm ser hs ch = (r, hs', ch')" "ok = is_ok r"
    | (receive) frame r where "op = OpReceive frame" "receive hm ser de frame hs ch = (r, hs', ch')"
        "ok = is_ok r"
    | (complete) r where "op = OpComplete" "complete_acceptance hs ch = (r, hs', ch')" "ok = is_ok r"
  using assms by (cases op) (auto simp: handshake_act_def apfst_def map_prod_def split: prod.splits)

lemma handshake_act_invar:
  assumes "handshake_act hm ser de op hs ch = (ok, hs', ch')" and "handshake_invar hs"
  shows "handshake_invar hs'"
  using assms(1)
  by (rule handshake_act_cases)
    (rule start_invar [OF assms(2)] receive_invar [OF assms(2)] complete_invar [OF assms(2)],
      assumption)+

lemma handshake_run_invar:
  "(acts_step (handshake_act hm ser de))\<^sup>*\<^sup>* hs hs' \<Longrightarrow> handshake_invar hs \<Longrightarrow> handshake_invar hs'"
  by (induction rule: rtranclp_induct) (auto elim!: acts_stepE dest: handshake_act_invar)

lemma handshake_act_local_offer:
  assumes "handshake_act hm ser de op hs ch = (ok, hs', ch')"
  shows "hs_local_offer hs' = hs_local_offer hs"
  using assms
proof (cases rule: handshake_act_cases)
  case (start r)
  then show ?thesis using start_cases [of hs ch hm ser r hs' ch']
    by (cases "may_use (hs_channel_instance_id hs) ch") (auto simp: start_def bind_channel_eq)
next
  case (receive frame r)
  then show ?thesis using receive_cases [of hs ch hm ser de frame r hs' ch']
    by (cases "may_use (hs_channel_instance_id hs) ch")
      (auto simp: receive_def bind_channel_eq runtime_accepts_def supervisor_confirms_def)
next
  case (complete r)
  then show ?thesis using complete_acceptance_cases [of hs ch r hs' ch']
    by (cases "may_use (hs_channel_instance_id hs) ch") (auto simp: complete_acceptance_def bind_channel_eq)
qed

lemma handshake_run_local_offer:
  "(acts_step (handshake_act hm ser de))\<^sup>*\<^sup>* hs hs' \<Longrightarrow> hs_local_offer hs' = hs_local_offer hs"
  by (induction rule: rtranclp_induct) (auto elim!: acts_stepE dest: handshake_act_local_offer)

section \<open>The interpretation\<close>

lemma handshake_stray:
  "\<not> may_use (hs_channel_instance_id hs) ch \<Longrightarrow>
   start hm ser hs ch = (Inl ChannelInstanceMismatch, hs, retire ch)"
  "\<not> may_use (hs_channel_instance_id hs) ch \<Longrightarrow>
   receive hm ser de frame hs ch = (Inl ChannelInstanceMismatch, hs, retire ch)"
  "\<not> may_use (hs_channel_instance_id hs) ch \<Longrightarrow>
   complete_acceptance hs ch = (Inl ChannelInstanceMismatch, hs, retire ch)"
  by (simp_all add: start_def receive_def complete_acceptance_def bind_channel_eq)

text \<open>On a channel it may use, an operation fails on it, or advances from a state before the last.\<close>

lemma handshake_act_outcome:
  assumes "may_use (hs_channel_instance_id hs) ch"
    and "handshake_act hm ser de op hs ch = (ok, hs', ch')"
  shows "hs_channel_instance_id hs' = Some (ch_instance_id ch) \<and>
    (\<not> ok \<and> hs' = failed_on hs ch \<and> ch_retired ch' \<or>
     ok \<and> hs_state hs < hs_state hs' \<and> hs_state hs' < Failed)"
  using assms(2)
proof (cases rule: handshake_act_cases)
  case (start r)
  from start_cases [OF assms(1) start(2)] start(3) show ?thesis
    by (auto simp: less_sidecar_handshake_state_def)
next
  case (receive frame r)
  from receive_cases [OF assms(1) receive(2)] receive(3) show ?thesis
    by (auto simp: runtime_accepts_def supervisor_confirms_def less_sidecar_handshake_state_def)
next
  case (complete r)
  from complete_acceptance_cases [OF assms(1) complete(2)] complete(3) show ?thesis
    by (auto simp: less_sidecar_handshake_state_def)
qed

lemma handshake_act_stray:
  "\<not> may_use (hs_channel_instance_id hs) ch \<Longrightarrow> handshake_act hm ser de op hs ch = (False, hs, retire ch)"
  by (cases op) (simp_all add: handshake_act_def handshake_stray)

interpretation handshake: bound_exchange "handshake_act hm ser de" hs_channel_instance_id hs_state Failed
  for hm ser de
proof
  fix op hs ch ok hs' ch'
  show "handshake_act hm ser de op hs ch = (False, hs, retire ch)"
    if "\<not> may_use (hs_channel_instance_id hs) ch"
    using that by (rule handshake_act_stray)
  show "hs_channel_instance_id hs' = Some (ch_instance_id ch)"
    if "may_use (hs_channel_instance_id hs) ch" "handshake_act hm ser de op hs ch = (ok, hs', ch')"
    using handshake_act_outcome [OF that] by blast
  show "hs_state hs' = Failed \<and> ch_retired ch'"
    if "may_use (hs_channel_instance_id hs) ch" "handshake_act hm ser de op hs ch = (False, hs', ch')"
    using handshake_act_outcome [OF that] by auto
  show "hs_state hs \<le> hs_state hs'" if a: "handshake_act hm ser de op hs ch = (ok, hs', ch')"
    using handshake_act_outcome [OF _ a] handshake_act_stray [of hs ch hm ser de op] a
    by (cases "may_use (hs_channel_instance_id hs) ch") auto
  show "\<not> ok" if "hs_state hs = Failed" and a: "handshake_act hm ser de op hs ch = (ok, hs', ch')"
    using that handshake_act_outcome [OF _ a] handshake_act_stray [of hs ch hm ser de op]
    by (cases "may_use (hs_channel_instance_id hs) ch") (auto simp: less_le)
  show "hs_state hs \<le> Failed" by simp
qed

section \<open>Two peers\<close>

text \<open>Both directions of a connection: each end is ready for what the other sends next.\<close>

definition paired :: "channel \<Rightarrow> channel \<Rightarrow> bool" where
  "paired a b \<longleftrightarrow> linked a b \<and> linked b a \<and> channel_invar a \<and> channel_invar b"

lemma paired_sym: "paired a b \<Longrightarrow> paired b a"
  by (simp add: paired_def)

lemma paired_live: "paired a b \<Longrightarrow> \<not> ch_retired a \<and> \<not> ch_retired b"
  unfolding paired_def linked_def by blast

text \<open>What sending and receiving leave of a channel.\<close>

definition same_channel :: "channel \<Rightarrow> channel \<Rightarrow> bool" where
  "same_channel ch ch' \<longleftrightarrow>
     ch' = ch\<lparr>ch_send_sequence := ch_send_sequence ch', ch_receive_sequence := ch_receive_sequence ch'\<rparr>"

lemma same_channel_simps:
  "same_channel ch ch' \<Longrightarrow>
   ch_instance_id ch' = ch_instance_id ch \<and> ch_role ch' = ch_role ch \<and>
   ch_minor ch' = ch_minor ch \<and> ch_session_id ch' = ch_session_id ch \<and>
   ch_max_frame_bytes ch' = ch_max_frame_bytes ch \<and>
   ch_frame_limit_locked ch' = ch_frame_limit_locked ch \<and> ch_retired ch' = ch_retired ch \<and>
   (channel_invar ch' \<longleftrightarrow> channel_invar ch)"
  by (cases ch; cases ch') (simp add: same_channel_def channel_invar_def)

lemma same_channel_fits: "same_channel ch ch' \<Longrightarrow> fits ser ch' m \<longleftrightarrow> fits ser ch m"
  by (simp add: same_channel_simps fits_def max_payload_bytes_def)

lemma same_channel_trans: "same_channel a b \<Longrightarrow> same_channel b c \<Longrightarrow> same_channel a c"
  by (cases a; cases b; cases c) (simp add: same_channel_def)

lemma same_channel_sequence [simp]:
  "same_channel ch (ch\<lparr>ch_send_sequence := q\<rparr>)" "same_channel ch (ch\<lparr>ch_receive_sequence := q\<rparr>)"
  by (simp_all add: same_channel_def)

text \<open>One message from one end to the other.\<close>

lemma paired_transfer:
  assumes "paired a b" and "hmac_total hm" and "reads_back ser de m" and "fits ser a m"
    and "ch_send_sequence a \<noteq> - 1"
  obtains f a' b' where "seal hm ser m a = (Inr f, a')" and "open_frame hm de f b = (Inr m, b')"
    and "paired a' b'" and "same_channel a a'" and "same_channel b b'"
    and "unat (ch_send_sequence a') = Suc (unat (ch_send_sequence a))"
    and "ch_send_sequence b' = ch_send_sequence b"
proof -
  have inv: "channel_invar a" "channel_invar b" and l: "linked a b" "linked b a"
    using assms(1) by (simp_all add: paired_def)
  have "is_ok (fst (seal hm ser m a))"
    using assms(2,4,5) l(1) by (simp add: seal_succeeds_iff [OF inv(1)] fits_def linked_def)
  then obtain f a' where f: "seal hm ser m a = (Inr f, a')"
    by (cases "seal hm ser m a") (auto simp: is_ok_cases)
  from seal_Inr_state [OF f] obtain q where q: "unat q = Suc (unat (ch_send_sequence a))"
    and a': "a' = a\<lparr>ch_send_sequence := q\<rparr>" by (auto simp: checked_add_eq_iff)
  from open_sealed [OF l(1) assms(3,2) f] obtain b' where o: "open_frame hm de f b = (Inr m, b')"
    and l': "linked a' b'" and b': "b' = b\<lparr>ch_receive_sequence := q\<rparr>" by (auto simp: a')
  have "linked b' a'" using l(2) by (simp add: linked_def a' b')
  then have "paired a' b'" using l' inv by (simp add: paired_def a' b' step_intros)
  with that [OF f o] show ?thesis
    by (simp add: a' b' same_channel_sequence q)
qed

text \<open>Both ends commit the same protocol.\<close>

definition committed :: "negotiated_sidecar_protocol \<Rightarrow> channel \<Rightarrow> channel" where
  "committed n ch = ch\<lparr>ch_max_frame_bytes := max_frame_bytes (neg_limits n), ch_minor := neg_minor n\<rparr>"

definition can_commit :: "negotiated_sidecar_protocol \<Rightarrow> channel \<Rightarrow> bool" where
  "can_commit n ch \<longleftrightarrow>
     \<not> ch_frame_limit_locked ch \<and> neg_major n = SIDECAR_PROTOCOL_MAJOR \<and>
     neg_minor n \<le> SIDECAR_PROTOCOL_MINOR \<and>
     minimum_frame_bytes (length (ch_session_id ch)) \<le> unat (max_frame_bytes (neg_limits n)) \<and>
     max_frame_bytes (neg_limits n) \<le> ch_max_frame_bytes ch"

lemma apply_commits: "can_commit n ch \<Longrightarrow> apply_negotiated_protocol n ch = (Inr (), committed n ch)"
  by (simp add: apply_negotiated_protocol_def lower_frame_limit_def can_commit_def committed_def not_less)

lemma can_commit_same: "same_channel ch ch' \<Longrightarrow> can_commit n ch' \<longleftrightarrow> can_commit n ch"
  by (simp add: can_commit_def same_channel_simps)

lemma linked_committed:
  "linked a b \<Longrightarrow> max_frame_bytes (neg_limits n) = max_frame_bytes (neg_limits m) \<Longrightarrow>
   neg_minor n = neg_minor m \<Longrightarrow> linked (committed n a) (committed m b)"
  by (simp add: linked_def committed_def)

lemma committed_invar: "channel_invar ch \<Longrightarrow> can_commit n ch \<Longrightarrow> channel_invar (committed n ch)"
  by (simp add: can_commit_def committed_def channel_invar_def)

lemma paired_committed:
  assumes "paired a b" and "can_commit n a" and "can_commit m b"
    and "max_frame_bytes (neg_limits n) = max_frame_bytes (neg_limits m)" and "neg_minor n = neg_minor m"
  shows "paired (committed n a) (committed m b)"
  using assms linked_committed [of a b n m] linked_committed [of b a m n] committed_invar
  unfolding paired_def by presburger

lemma handshake_new_iff:
  "handshake_new offer = Inr hs \<longleftrightarrow>
   offer_ok offer \<and> offer_minor offer \<le> SIDECAR_PROTOCOL_MINOR \<and>
   validate_peer_identity offer = Inr () \<and>
   hs = \<lparr>hs_local_offer = offer, hs_state = Starting, hs_negotiated = None,
         hs_pending_negotiated = None, hs_channel_instance_id = None\<rparr>"
proof -
  have "validate_peer_identity offer = Inr () \<or> (\<exists>e. validate_peer_identity offer = Inl e)"
    by (simp add: validate_peer_identity_def)
  then show ?thesis
    by (cases "peer_role (offer_peer offer)")
      (auto simp: handshake_new_def validate_local_offer_def bind_result_Inr Let_def
        negotiate_Inr_iff offer_ok_def)
qed

text \<open>When each operation succeeds, and with what.\<close>

lemma start_succeeds:
  assumes "may_use (hs_channel_instance_id hs) ch" and "ch_role ch = Supervisor"
    and "local_role hs = Supervisor" and "hs_state hs = Starting"
    and "seal hm ser (Offer (hs_local_offer hs)) ch = (Inr frame, ch')"
  shows "start hm ser hs ch = (Inr frame, (bound_to hs ch)\<lparr>hs_state := AwaitingAcceptance\<rparr>, ch')"
  using assms by (simp add: start_def bind_channel_eq)

lemma receive_accepts:
  assumes "may_use (hs_channel_instance_id hs) ch" and "ch_role ch = Runtime"
    and "local_role hs = Runtime" and "hs_state hs = Starting"
    and "open_frame hm de frame ch = (Inr (Offer offer), ch1)"
    and "peer_role (offer_peer offer) = Supervisor" and "validate_peer_identity offer = Inr ()"
    and "negotiate_sidecar_protocol (hs_local_offer hs) offer = Inr n"
    and "seal hm ser (Accept (hs_local_offer hs) (selection_from n)) ch1 = (Inr acceptance, ch2)"
  shows "receive hm ser de frame hs ch = (Inr (Some acceptance),
    (bound_to hs ch)\<lparr>hs_pending_negotiated := Some n, hs_state := AcceptancePending\<rparr>, ch2)"
  using assms by (simp add: receive_def receive_active_def accept_supervisor_def bind_channel_eq)

lemma receive_confirms:
  assumes "may_use (hs_channel_instance_id hs) ch" and "ch_role ch = Supervisor"
    and "local_role hs = Supervisor" and "hs_state hs = AwaitingAcceptance"
    and "open_frame hm de frame ch = (Inr (Accept offer (selection_from n)), ch1)"
    and "peer_role (offer_peer offer) = Runtime" and "validate_peer_identity offer = Inr ()"
    and "negotiate_sidecar_protocol (hs_local_offer hs) offer = Inr n" and "can_commit n ch1"
  shows "receive hm ser de frame hs ch = (Inr None,
    (bound_to hs ch)\<lparr>hs_negotiated := Some n, hs_state := Authenticated\<rparr>, committed n ch1)"
  using assms
  by (simp add: receive_def receive_active_def confirm_runtime_def bind_channel_eq apply_commits)

lemma complete_acceptance_succeeds:
  assumes "may_use (hs_channel_instance_id hs) ch" and "ch_role ch = Runtime" and "\<not> ch_retired ch"
    and "hs_state hs = AcceptancePending" and "hs_pending_negotiated hs = Some n" and "can_commit n ch"
  shows "complete_acceptance hs ch = (Inr (),
    (bound_to hs ch)\<lparr>hs_pending_negotiated := None, hs_negotiated := Some n, hs_state := Authenticated\<rparr>,
    committed n ch)"
  using assms by (simp add: complete_acceptance_def bind_channel_eq apply_commits Let_def)

text \<open>Two fresh channels with one session, generation, key and frame limit are paired.\<close>

definition fresh :: "channel \<Rightarrow> bool" where
  "fresh ch \<longleftrightarrow> ch_send_sequence ch = 0 \<and> ch_receive_sequence ch = 0 \<and> \<not> ch_frame_limit_locked ch"

lemma channel_new_paired:
  assumes "channel_new i role sid gen key limit = (Inr a, i')"
    and "channel_new j (expected_remote role) sid gen key limit = (Inr b, j')"
  shows "paired a b \<and> fresh a \<and> fresh b \<and> ch_role a = role \<and> ch_role b = expected_remote role \<and>
    ch_max_frame_bytes a = limit \<and> ch_max_frame_bytes b = limit \<and>
    ch_session_id a = sid \<and> ch_session_id b = sid"
  using channel_new_invar [OF assms(1)] channel_new_invar [OF assms(2)] assms
  by (auto simp: paired_def fresh_def linked_def channel_new_def not_less
      split: if_splits option.splits)

text \<open>
  The negotiation of two valid offers with opposite roles succeeds on both sides, with one
  selection that both channels can commit.
\<close>

lemma offers_negotiate:
  assumes "handshake_new a = Inr ha" and "handshake_new b = Inr hb"
    and "peer_role (offer_peer a) \<noteq> peer_role (offer_peer b)"
  obtains n m where "negotiate_sidecar_protocol a b = Inr n" and "negotiate_sidecar_protocol b a = Inr m"
    and "selection_from n = selection_from m"
    and "neg_remote_peer n = offer_peer b" and "neg_remote_peer m = offer_peer a"
    and "neg_limits n = common_limits (offer_limits a) (offer_limits b)"
    and "neg_major n = SIDECAR_PROTOCOL_MAJOR" and "neg_minor n \<le> SIDECAR_PROTOCOL_MINOR"
proof -
  let ?sel = "\<lambda>x y. \<lparr>neg_major = SIDECAR_PROTOCOL_MAJOR, neg_minor = min (offer_minor x) (offer_minor y),
        neg_feature_bits = and (offer_feature_bits x) (offer_feature_bits y),
        neg_limits = common_limits (offer_limits x) (offer_limits y),
        neg_remote_peer = offer_peer y\<rparr>"
  show ?thesis
    by (rule that [of "?sel a b" "?sel b a"])
      (use assms in \<open>simp_all add: handshake_new_iff negotiate_Inr_iff selection_from_def
        and.commute min.commute common_limits_props(2) min.coboundedI1\<close>)
qed

lemma selection_from_eq:
  "selection_from n = selection_from m \<longleftrightarrow> neg_major n = neg_major m \<and> neg_minor n = neg_minor m \<and>
    neg_feature_bits n = neg_feature_bits m \<and> neg_limits n = neg_limits m"
  by (auto simp: selection_from_def)

lemma can_commit_eq: "selection_from n = selection_from m \<Longrightarrow> can_commit n ch \<longleftrightarrow> can_commit m ch"
  by (simp add: can_commit_def selection_from_eq)

text \<open>The two frames of a handshake, on fresh paired channels.\<close>

lemma handshake_frames:
  assumes "paired a b" and "fresh a" and "fresh b" and hm: "hmac_total hm"
    and offer: "reads_back ser de m1" "fits ser a m1"
    and acc: "fits ser b m2" "reads_back ser de m2"
  shows "\<exists>f1 a1 b1 f2 b2 a2.
    seal hm ser m1 a = (Inr f1, a1) \<and> open_frame hm de f1 b = (Inr m1, b1) \<and>
    seal hm ser m2 b1 = (Inr f2, b2) \<and> open_frame hm de f2 a1 = (Inr m2, a2) \<and>
    paired a2 b2 \<and> same_channel a a1 \<and> same_channel a a2 \<and> same_channel b b2"
proof -
  have sa: "ch_send_sequence a \<noteq> - 1" "ch_send_sequence b \<noteq> - 1"
    using assms(2,3) by (simp_all add: fresh_def)
  obtain f1 a1 b1 where t1: "seal hm ser m1 a = (Inr f1, a1)"
      "open_frame hm de f1 b = (Inr m1, b1)" "paired a1 b1"
      "same_channel a a1" "same_channel b b1" "ch_send_sequence b1 = ch_send_sequence b"
    by (rule paired_transfer [OF assms(1) hm offer sa(1)])
  have fits2: "fits ser b1 m2" and sb: "ch_send_sequence b1 \<noteq> - 1"
    using acc t1(6) sa(2) by (simp_all add: same_channel_fits [OF t1(5)])
  obtain f2 b2 a2 where t2: "seal hm ser m2 b1 = (Inr f2, b2)"
      "open_frame hm de f2 a1 = (Inr m2, a2)" "paired b2 a2" "same_channel b1 b2" "same_channel a1 a2"
    by (rule paired_transfer [OF paired_sym [OF t1(3)] hm acc(2) fits2 sb])
  show ?thesis
    using t1 t2 paired_sym [OF t2(3)] same_channel_trans [OF t1(4) t2(5)]
      same_channel_trans [OF t1(5) t2(4)] by blast
qed

section \<open>Properties\<close>

text \<open>
  C1. The handshake succeeds: a supervisor and a runtime with valid offers, on two fresh
  channels with the same session, generation, key and bootstrap limit, whose two handshake
  messages fit the bootstrap limit, authenticate each other in two frames. They end with the
  same selection, each with the identity of the other; the negotiated limit, which both
  offers and the session identifier allow, is in force on both channels, and these are ready
  for traffic in both directions.
\<close>

lemma handshake_succeeds:
  assumes new: "handshake_new os = Inr s" "handshake_new rt = Inr r"
    and roles: "peer_role (offer_peer os) = Supervisor" "peer_role (offer_peer rt) = Runtime"
    and ch: "channel_new i Supervisor sid gen key limit = (Inr a, i')"
      "channel_new j Runtime sid gen key limit = (Inr b, j')"
    and hm: "hmac_total hm"
    and offer: "fits ser a (Offer os)" "reads_back ser de (Offer os)"
    and acc: "\<And>n. negotiate_sidecar_protocol rt os = Inr n \<Longrightarrow>
      fits ser b (Accept rt (selection_from n)) \<and> reads_back ser de (Accept rt (selection_from n))"
    and limits: "minimum_frame_bytes (length sid)
        \<le> unat (max_frame_bytes (common_limits (offer_limits os) (offer_limits rt)))"
      "max_frame_bytes (common_limits (offer_limits os) (offer_limits rt)) \<le> limit"
  shows "\<exists>f1 s1 a1 f2 r1 b1 s2 a2 r2 b2 n m.
    start hm ser s a = (Inr f1, s1, a1) \<and>
    receive hm ser de f1 r b = (Inr (Some f2), r1, b1) \<and>
    receive hm ser de f2 s1 a1 = (Inr None, s2, a2) \<and>
    complete_acceptance r1 b1 = (Inr (), r2, b2) \<and>
    hs_state s2 = Authenticated \<and> hs_state r2 = Authenticated \<and>
    hs_negotiated s2 = Some n \<and> hs_negotiated r2 = Some m \<and> selection_from n = selection_from m \<and>
    neg_remote_peer n = offer_peer rt \<and> neg_remote_peer m = offer_peer os \<and>
    ch_max_frame_bytes a2 = max_frame_bytes (neg_limits n) \<and> paired a2 b2"
proof -
  obtain n m where neg: "negotiate_sidecar_protocol os rt = Inr n" "negotiate_sidecar_protocol rt os = Inr m"
    and sel: "selection_from n = selection_from m"
    and peers: "neg_remote_peer n = offer_peer rt" "neg_remote_peer m = offer_peer os"
    and lim: "neg_limits n = common_limits (offer_limits os) (offer_limits rt)"
    and ver: "neg_major n = SIDECAR_PROTOCOL_MAJOR" "neg_minor n \<le> SIDECAR_PROTOCOL_MINOR"
    using offers_negotiate [OF new] roles by auto
  have ids: "validate_peer_identity os = Inr ()" "validate_peer_identity rt = Inr ()"
    and s: "s = \<lparr>hs_local_offer = os, hs_state = Starting, hs_negotiated = None,
         hs_pending_negotiated = None, hs_channel_instance_id = None\<rparr>"
    and r: "r = \<lparr>hs_local_offer = rt, hs_state = Starting, hs_negotiated = None,
         hs_pending_negotiated = None, hs_channel_instance_id = None\<rparr>"
    using new by (simp_all add: handshake_new_iff)
  have ab: "paired a b" "fresh a" "fresh b" "ch_role a = Supervisor" "ch_role b = Runtime"
    and commit: "can_commit n a" "can_commit n b"
    using channel_new_paired [OF ch(1), of j b j'] ch(2) limits ver
    by (simp_all add: can_commit_def fresh_def lim)
  from handshake_frames [OF ab(1-3) hm offer(2,1)] acc [OF neg(2)] obtain f1 a1 b1 f2 b2 a2 where
      t: "seal hm ser (Offer os) a = (Inr f1, a1)" "open_frame hm de f1 b = (Inr (Offer os), b1)"
        "seal hm ser (Accept rt (selection_from m)) b1 = (Inr f2, b2)"
        "open_frame hm de f2 a1 = (Inr (Accept rt (selection_from n)), a2)"
      and p: "paired a2 b2" and same: "same_channel a a1" "same_channel a a2" "same_channel b b2"
    unfolding sel by blast
  have cn: "can_commit n a2" "can_commit m b2"
    using commit can_commit_same [OF same(2)] can_commit_same [OF same(3)] can_commit_eq [OF sel] by simp_all
  have fin: "paired (committed n a2) (committed m b2)"
    using paired_committed [OF p cn] sel by (simp add: selection_from_eq)
  define s1 where "s1 = (bound_to s a)\<lparr>hs_state := AwaitingAcceptance\<rparr>"
  define r1 where "r1 = (bound_to r b)\<lparr>hs_pending_negotiated := Some m, hs_state := AcceptancePending\<rparr>"
  have st: "start hm ser s a = (Inr f1, s1, a1)"
    unfolding s1_def by (rule start_succeeds) (use t ab in \<open>simp_all add: s local_role_def roles\<close>)
  have rv: "receive hm ser de f1 r b = (Inr (Some f2), r1, b2)"
    unfolding r1_def by (rule receive_accepts [OF _ _ _ _ t(2) roles(1) ids(1)])
      (use t ab neg in \<open>simp_all add: r local_role_def roles\<close>)
  have cf: "receive hm ser de f2 s1 a1
      = (Inr None, (bound_to s1 a1)\<lparr>hs_negotiated := Some n, hs_state := Authenticated\<rparr>, committed n a2)"
    by (rule receive_confirms [OF _ _ _ _ t(4) roles(2) ids(2) _ cn(1)])
      (use ab neg same_channel_simps [OF same(1)] in \<open>simp_all add: s1_def s local_role_def roles\<close>)
  have ca: "complete_acceptance r1 b2 = (Inr (), (bound_to r1 b2)\<lparr>hs_pending_negotiated := None,
      hs_negotiated := Some m, hs_state := Authenticated\<rparr>, committed m b2)"
    by (rule complete_acceptance_succeeds [OF _ _ _ _ _ cn(2)])
      (use ab(5) paired_live [OF p] same_channel_simps [OF same(3)] in \<open>simp_all add: r1_def\<close>)
  have mx: "ch_max_frame_bytes (committed n a2) = max_frame_bytes (neg_limits n)"
    by (simp add: committed_def)
  show ?thesis
    by (intro exI conjI) (rule st rv cf ca | rule sel peers mx fin | simp)+
qed

definition demo_hs_ser :: "sidecar_handshake_message \<Rightarrow> serialized" where
  "demo_hs_ser m =
     \<lparr>chunks = [case m of Offer _ \<Rightarrow> [1] | Accept _ _ \<Rightarrow> [2, 3]], refused = False\<rparr>"

definition demo_hs_de :: "bytes \<Rightarrow> sidecar_handshake_message option" where
  "demo_hs_de bs =
     (if bs = [1] then Some (Offer (demo_offer Supervisor 100))
      else if bs = [2, 3] then Some (Accept (demo_offer Runtime 128)
        (selection_from (demo_negotiated Runtime 128 100)))
      else None)"

definition demo_handshake :: "sidecar_peer_role \<Rightarrow> u32 \<Rightarrow> sidecar_handshake" where
  "demo_handshake role limit =
     \<lparr>hs_local_offer = demo_offer role limit, hs_state = Starting, hs_negotiated = None,
      hs_pending_negotiated = None, hs_channel_instance_id = None\<rparr>"

lemma demo_identity [simp]: "validate_peer_identity (demo_offer role limit) = Inr ()"
  by (cases role) (simp_all add: validate_peer_identity_def demo_offer_def trim_def is_ws1_def
      is_ws2_def is_ws3_def char_code_def)

lemma demo_handshake_new:
  "65 \<le> limit \<Longrightarrow> handshake_new (demo_offer role limit) = Inr (demo_handshake role limit)"
  by (simp add: handshake_new_iff demo_handshake_def)
    (simp add: demo_offer_def offer_ok_def validate_limits_Inr MIN_FRAME_BYTES_def
      SIDECAR_MAX_FEATURE_BITS_def SIDECAR_PROTOCOL_MAJOR_def)

lemma demo_hs_fits [simp]: "fits demo_hs_ser (demo_channel role) m"
  by (cases m) (simp_all add: fits_def demo_hs_ser_def max_payload_bytes_def demo_channel_def)

lemma handshake_succeeds_witness:
  "\<exists>f1 s1 a1 f2 r1 b1 s2 a2 r2 b2.
    start demo_hm demo_hs_ser (demo_handshake Supervisor 100) (demo_channel Supervisor) = (Inr f1, s1, a1) \<and>
    receive demo_hm demo_hs_ser demo_hs_de f1 (demo_handshake Runtime 128) (demo_channel Runtime)
      = (Inr (Some f2), r1, b1) \<and>
    receive demo_hm demo_hs_ser demo_hs_de f2 s1 a1 = (Inr None, s2, a2) \<and>
    complete_acceptance r1 b1 = (Inr (), r2, b2) \<and> hs_state s2 = Authenticated \<and> paired a2 b2"
proof -
  have neg: "negotiate_sidecar_protocol (demo_offer Runtime 128) (demo_offer Supervisor 100)
      = Inr (demo_negotiated Runtime 128 100)"
    using demo_negotiate [of 128 100 Runtime] by simp
  have rb: "reads_back demo_hs_ser demo_hs_de (Offer (demo_offer Supervisor 100))"
      "reads_back demo_hs_ser demo_hs_de
        (Accept (demo_offer Runtime 128) (selection_from (demo_negotiated Runtime 128 100)))"
    by (simp_all add: reads_back_def demo_hs_ser_def demo_hs_de_def)
  have acc: "fits demo_hs_ser (demo_channel Runtime) (Accept (demo_offer Runtime 128) (selection_from n)) \<and>
      reads_back demo_hs_ser demo_hs_de (Accept (demo_offer Runtime 128) (selection_from n))"
    if "negotiate_sidecar_protocol (demo_offer Runtime 128) (demo_offer Supervisor 100) = Inr n" for n
    using that rb by (simp add: neg)
  have roles: "peer_role (offer_peer (demo_offer r l)) = r" for r l by (simp add: demo_offer_def)
  have limits: "minimum_frame_bytes (length ''s'') \<le> unat (max_frame_bytes (common_limits
        (offer_limits (demo_offer Supervisor 100)) (offer_limits (demo_offer Runtime 128))))"
      "max_frame_bytes (common_limits (offer_limits (demo_offer Supervisor 100))
        (offer_limits (demo_offer Runtime 128))) \<le> 128"
    by (simp_all add: common_limits_def demo_offer_def minimum_frame_bytes_def)
  have new: "handshake_new (demo_offer Supervisor 100) = Inr (demo_handshake Supervisor 100)"
      "handshake_new (demo_offer Runtime 128) = Inr (demo_handshake Runtime 128)"
    by (simp_all add: demo_handshake_new)
  from handshake_succeeds [OF new roles roles demo_channel_new demo_channel_new demo_hm_total
      demo_hs_fits rb(1) acc limits] show ?thesis by blast
qed

text \<open>
  C17. What a handshake state means: from \<open>handshake_new\<close> on, through any sequence of operations
  on any channels, a side is authenticated exactly when it holds a committed selection, has an
  acceptance pending exactly when it holds a pending one, every selection it holds is the
  outcome of negotiating its own offer with an offer of the other role, its offer never
  changes, and its state only advances, to \<open>Failed\<close> at the latest.
\<close>

lemma handshake_state_meaning:
  assumes "handshake_new offer = Inr hs" and "(acts_step (handshake_act hm ser de))\<^sup>*\<^sup>* hs hs1"
    and "(acts_step (handshake_act hm ser de))\<^sup>*\<^sup>* hs1 hs2"
  shows "(hs_state hs1 = Authenticated \<longleftrightarrow> (\<exists>n. hs_negotiated hs1 = Some n)) \<and>
    (hs_state hs1 = AcceptancePending \<longleftrightarrow> (\<exists>n. hs_pending_negotiated hs1 = Some n)) \<and>
    (\<forall>n. hs_negotiated hs1 = Some n \<or> hs_pending_negotiated hs1 = Some n \<longrightarrow>
      (\<exists>remote. negotiate_sidecar_protocol offer remote = Inr n)) \<and>
    hs_local_offer hs1 = offer \<and> hs_state hs1 \<le> hs_state hs2"
proof -
  have "handshake_invar hs1" using handshake_run_invar assms(2) handshake_new_invar [OF assms(1)] by blast
  moreover have "hs_local_offer hs1 = offer"
    using handshake_run_local_offer [OF assms(2)] assms(1) by (simp add: handshake_new_iff)
  moreover have "hs_state hs1 \<le> hs_state hs2" by (rule handshake.run_phase [OF assms(3)])
  ultimately show ?thesis by (auto simp: handshake_invar_def negotiated_from_def)
qed

lemma handshake_state_meaning_witness:
  "hs_local_offer (failed_on (demo_handshake Runtime 128) (demo_channel Runtime)) = demo_offer Runtime 128"
proof -
  have "handshake_act demo_hm demo_hs_ser demo_hs_de OpStart (demo_handshake Runtime 128) (demo_channel Runtime)
      = (False, failed_on (demo_handshake Runtime 128) (demo_channel Runtime), retire (demo_channel Runtime))"
    by (simp add: handshake_act_def start_def bind_channel_eq fail_eq)
      (simp add: demo_handshake_def local_role_def demo_offer_def demo_channel_def fail_eq)
  then have "(acts_step (handshake_act demo_hm demo_hs_ser demo_hs_de))\<^sup>*\<^sup>* (demo_handshake Runtime 128)
      (failed_on (demo_handshake Runtime 128) (demo_channel Runtime))"
    by (intro r_into_rtranclp acts_step.acts)
  from handshake_state_meaning [OF demo_handshake_new this rtranclp.rtrancl_refl] show ?thesis by simp
qed

text \<open>
  Refusal is terminal: once an operation on the bound channel (or the first channel used)
  has returned an error, the handshake is failed, and every later operation, on this or any
  other channel, returns an error and leaves the channel it was given retired.
\<close>

lemma handshake_refusal_terminal:
  assumes "may_use (hs_channel_instance_id hs) ch"
    and "handshake_act hm ser de op hs ch = (False, hs1, ch1)"
    and "(acts_step (handshake_act hm ser de))\<^sup>*\<^sup>* hs1 hs2"
    and "handshake_act hm ser de op' hs2 ch2 = (ok, hs3, ch3)"
  shows "ch_retired ch1 \<and> \<not> ok \<and> hs_state hs3 = Failed \<and> ch_retired ch3"
  using handshake.refusal_ends_run [OF assms] handshake.refused_retires [OF assms(2)] by blast

lemma demo_start_refused:
  "handshake_act demo_hm demo_hs_ser demo_hs_de OpStart (demo_handshake Runtime 128) (demo_channel Runtime)
   = (False, failed_on (demo_handshake Runtime 128) (demo_channel Runtime), retire (demo_channel Runtime))"
  by (simp add: handshake_act_def start_def bind_channel_eq fail_eq)
    (simp add: demo_handshake_def local_role_def demo_offer_def demo_channel_def fail_eq)

lemma handshake_refusal_terminal_witness:
  "ch_retired (retire (demo_channel Runtime)) \<and>
   \<not> fst (handshake_act demo_hm demo_hs_ser demo_hs_de OpComplete
     (failed_on (demo_handshake Runtime 128) (demo_channel Runtime)) (demo_channel Supervisor))"
proof -
  have usable: "may_use (hs_channel_instance_id (demo_handshake Runtime 128)) (demo_channel Runtime)"
    by (simp add: demo_handshake_def)
  show ?thesis
    using handshake_refusal_terminal [OF usable demo_start_refused rtranclp.rtrancl_refl]
    by (metis prod.collapse)
qed

text \<open>
  A handshake cannot move to another channel: once it is bound, every operation that is
  given a different channel instance returns \<open>ChannelInstanceMismatch\<close>, retires that channel
  and leaves the handshake as it was, at any later time.
\<close>

lemma handshake_channel_binding:
  assumes "hs_channel_instance_id hs = Some i" and "(acts_step (handshake_act hm ser de))\<^sup>*\<^sup>* hs hs'"
    and "ch_instance_id ch \<noteq> i"
  shows "start hm ser hs' ch = (Inl ChannelInstanceMismatch, hs', retire ch) \<and>
    receive hm ser de frame hs' ch = (Inl ChannelInstanceMismatch, hs', retire ch) \<and>
    complete_acceptance hs' ch = (Inl ChannelInstanceMismatch, hs', retire ch)"
  using handshake.run_bound [OF assms(2,1)] assms(3) by (simp add: handshake_stray)

lemma handshake_channel_binding_witness:
  "complete_acceptance (bound_to (demo_handshake Runtime 128) (demo_channel Runtime))
     ((demo_channel Runtime)\<lparr>ch_instance_id := 2\<rparr>)
   = (Inl ChannelInstanceMismatch, bound_to (demo_handshake Runtime 128) (demo_channel Runtime),
      retire ((demo_channel Runtime)\<lparr>ch_instance_id := 2\<rparr>))"
  using handshake_channel_binding [OF _ rtranclp.rtrancl_refl,
      of "bound_to (demo_handshake Runtime 128) (demo_channel Runtime)" 1
        "(demo_channel Runtime)\<lparr>ch_instance_id := 2\<rparr>"]
  by (simp add: demo_channel_def)

text \<open>
  C20. A forged selection is refused: if the supervisor, waiting for the acceptance, opens one
  whose claimed selection is not the one it derives itself from the runtime's offer, it
  returns \<open>SelectionMismatch\<close>, fails, and retires the channel at its old frame limit and version.
\<close>

lemma forged_selection_refused:
  assumes "may_use (hs_channel_instance_id hs) ch" and "ch_role ch = Supervisor"
    and "local_role hs = Supervisor" and "hs_state hs = AwaitingAcceptance"
    and "open_frame hm de frame ch = (Inr (Accept offer claimed), ch1)"
    and "peer_role (offer_peer offer) = Runtime" and "validate_peer_identity offer = Inr ()"
    and "negotiate_sidecar_protocol (hs_local_offer hs) offer = Inr n" and "claimed \<noteq> selection_from n"
  shows "receive hm ser de frame hs ch = (Inl SelectionMismatch, failed_on hs ch, retire ch1) \<and>
    ch_max_frame_bytes ch1 = ch_max_frame_bytes ch \<and> ch_minor ch1 = ch_minor ch"
  using assms open_frame_Inr_state [OF assms(5)]
  by (auto simp: receive_def receive_active_def confirm_runtime_def bind_channel_eq
      failed_on_def bound_to_def local_role_def)

definition demo_forged :: sidecar_protocol_selection where
  "demo_forged = (selection_from (demo_negotiated Supervisor 100 128))\<lparr>sel_feature_bits := 1\<rparr>"

definition demo_forged_de :: "bytes \<Rightarrow> sidecar_handshake_message option" where
  "demo_forged_de bs = Some (Accept (demo_offer Runtime 128) demo_forged)"

lemma forged_selection_refused_witness:
  "\<exists>frame hs' ch'. receive demo_hm demo_hs_ser demo_forged_de frame
     ((demo_handshake Supervisor 100)\<lparr>hs_state := AwaitingAcceptance\<rparr>) (demo_channel Supervisor)
   = (Inl SelectionMismatch, hs', ch')"
proof -
  let ?hs = "(demo_handshake Supervisor 100)\<lparr>hs_state := AwaitingAcceptance\<rparr>"
  have l: "linked (demo_channel Runtime) (demo_channel Supervisor)"
    by (simp add: linked_def demo_channel_def)
  have rb: "reads_back (\<lambda>_. \<lparr>chunks = [], refused = False\<rparr>) demo_forged_de
      (Accept (demo_offer Runtime 128) demo_forged)" by (simp add: reads_back_def demo_forged_de_def)
  have "is_ok (fst (seal demo_hm (\<lambda>_. \<lparr>chunks = [], refused = False\<rparr>)
      (Accept (demo_offer Runtime 128) demo_forged) (demo_channel Runtime)))"
    by (simp add: seal_succeeds_iff)
  then obtain f a where f: "seal demo_hm (\<lambda>_. \<lparr>chunks = [], refused = False\<rparr>)
      (Accept (demo_offer Runtime 128) demo_forged) (demo_channel Runtime) = (Inr f, a)"
    by (metis is_ok_cases prod.collapse)
  obtain b where o: "open_frame demo_hm demo_forged_de f (demo_channel Supervisor)
      = (Inr (Accept (demo_offer Runtime 128) demo_forged), b)"
    using open_sealed [OF l rb demo_hm_total f] by blast
  have neg: "negotiate_sidecar_protocol (hs_local_offer ?hs) (demo_offer Runtime 128)
      = Inr (demo_negotiated Supervisor 100 128)"
    using demo_negotiate [of 100 128 Supervisor] by (simp add: demo_handshake_def)
  have forged: "demo_forged \<noteq> selection_from (demo_negotiated Supervisor 100 128)"
    by (simp add: demo_forged_def selection_from_def demo_negotiated_def)
  have side: "may_use (hs_channel_instance_id ?hs) (demo_channel Supervisor)"
    "ch_role (demo_channel Supervisor) = Supervisor" "local_role ?hs = Supervisor"
    "hs_state ?hs = AwaitingAcceptance" "peer_role (offer_peer (demo_offer Runtime 128)) = Runtime"
    by (simp_all add: demo_handshake_def demo_channel_def local_role_def demo_offer_def)
  from forged_selection_refused [OF side(1-4) o side(5) demo_identity neg forged] show ?thesis by blast
qed

text \<open>
  Nothing is committed early: when the runtime answers an offer, its channel keeps the
  bootstrap frame limit and version and it holds no committed selection, so the acceptance can
  always be sent; only \<open>complete_acceptance\<close> puts the pending selection in force, exactly as
  it was negotiated, and it does so on a live channel only.
\<close>

lemma acceptance_commits_last:
  assumes "handshake_invar hs" and "receive hm ser de frame hs ch = (Inr (Some acceptance), hs1, ch1)"
    and "complete_acceptance hs1 ch2 = (Inr (), hs2, ch3)"
  shows "ch_max_frame_bytes ch1 = ch_max_frame_bytes ch \<and> ch_minor ch1 = ch_minor ch \<and>
    hs_state hs1 = AcceptancePending \<and> hs_negotiated hs1 = None \<and>
    (\<exists>n. hs_pending_negotiated hs1 = Some n \<and> hs_negotiated hs2 = Some n \<and>
      ch_max_frame_bytes ch3 = max_frame_bytes (neg_limits n) \<and> ch_minor ch3 = neg_minor n) \<and>
    \<not> ch_retired ch2 \<and> ch_instance_id ch2 = ch_instance_id ch"
proof -
  have use1: "may_use (hs_channel_instance_id hs) ch"
    using assms(2) handshake_stray(2) [of hs ch hm ser de frame] by auto
  from receive_cases [OF use1 assms(2)] obtain n offer ch0
    where hs1: "hs1 = (bound_to hs ch)\<lparr>hs_pending_negotiated := Some n, hs_state := AcceptancePending\<rparr>"
      and st: "hs_state hs = Starting" and o: "open_frame hm de frame ch = (Inr (Offer offer), ch0)"
      and s: "seal hm ser (Accept (hs_local_offer hs) (selection_from n)) ch0 = (Inr acceptance, ch1)"
    by (auto simp: runtime_accepts_def)
  have use2: "may_use (hs_channel_instance_id hs1) ch2"
    using assms(3) handshake_stray(3) [of hs1 ch2] by auto
  from complete_acceptance_cases [OF use2 assms(3)] hs1
  have fin: "\<not> ch_retired ch2" "apply_negotiated_protocol n ch2 = (Inr (), ch3)"
    "hs_negotiated hs2 = Some n" by auto
  have "ch_max_frame_bytes ch3 = max_frame_bytes (neg_limits n) \<and> ch_minor ch3 = neg_minor n"
    using fin(2) by (auto simp: apply_negotiated_protocol_def lower_frame_limit_def split: if_splits)
  moreover have "ch_max_frame_bytes ch1 = ch_max_frame_bytes ch \<and> ch_minor ch1 = ch_minor ch"
    using open_frame_Inr_state [OF o] seal_Inr_state [OF s] by auto
  moreover have "hs_negotiated hs1 = None" using assms(1) st by (auto simp: hs1 handshake_invar_def)
  ultimately show ?thesis using fin use2 by (simp add: hs1)
qed

lemma demo_runtime_accepts:
  obtains f1 f2 hs1 ch1 ch2 where
    "receive demo_hm demo_hs_ser demo_hs_de f1 (demo_handshake Runtime 128) (demo_channel Runtime)
      = (Inr (Some f2), hs1, ch1)"
    and "complete_acceptance hs1 ch1 = (Inr (),
      (bound_to hs1 ch1)\<lparr>hs_pending_negotiated := None,
        hs_negotiated := Some (demo_negotiated Runtime 128 100), hs_state := Authenticated\<rparr>, ch2)"
proof -
  let ?sel = "selection_from (demo_negotiated Runtime 128 100)"
  have rb: "reads_back demo_hs_ser demo_hs_de (Offer (demo_offer Supervisor 100))"
      "reads_back demo_hs_ser demo_hs_de (Accept (demo_offer Runtime 128) ?sel)"
    by (simp_all add: reads_back_def demo_hs_ser_def demo_hs_de_def)
  have p: "paired (demo_channel Supervisor) (demo_channel Runtime)" and fr: "fresh (demo_channel r)" for r
    using channel_new_paired [OF demo_channel_new [of Supervisor], of 1 "demo_channel Runtime" 2]
      demo_channel_new [of Runtime] by (simp_all add: fresh_def demo_channel_def)
  obtain f1 b1 f2 b2 where
      t: "open_frame demo_hm demo_hs_de f1 (demo_channel Runtime) = (Inr (Offer (demo_offer Supervisor 100)), b1)"
        "seal demo_hm demo_hs_ser (Accept (demo_offer Runtime 128) ?sel) b1 = (Inr f2, b2)"
      and sm: "same_channel (demo_channel Runtime) b2"
    using handshake_frames [OF p fr fr demo_hm_total rb(1) demo_hs_fits demo_hs_fits rb(2)] by blast
  have neg: "negotiate_sidecar_protocol (hs_local_offer (demo_handshake Runtime 128)) (demo_offer Supervisor 100)
      = Inr (demo_negotiated Runtime 128 100)"
    using demo_negotiate [of 128 100 Runtime] by (simp add: demo_handshake_def)
  define hs1 where "hs1 = (bound_to (demo_handshake Runtime 128) (demo_channel Runtime))
    \<lparr>hs_pending_negotiated := Some (demo_negotiated Runtime 128 100), hs_state := AcceptancePending\<rparr>"
  have r: "receive demo_hm demo_hs_ser demo_hs_de f1 (demo_handshake Runtime 128) (demo_channel Runtime)
      = (Inr (Some f2), hs1, b2)"
    unfolding hs1_def
    by (rule receive_accepts [OF _ _ _ _ t(1) _ _ neg])
      (use t(2) in \<open>simp_all add: demo_handshake_def local_role_def demo_channel_def demo_offer_def [of _ 100]
        demo_identity [of Supervisor 100, unfolded demo_offer_def]\<close>,
       simp_all add: demo_offer_def)
  have commit: "can_commit (demo_negotiated Runtime 128 100) b2"
    unfolding can_commit_same [OF sm]
    by (simp add: can_commit_def demo_channel_def demo_negotiated_def minimum_frame_bytes_def
        SIDECAR_PROTOCOL_MAJOR_def SIDECAR_PROTOCOL_MINOR_def)
  show ?thesis
    by (rule that [OF r], rule complete_acceptance_succeeds [OF _ _ _ _ _ commit])
      (simp_all add: same_channel_simps [OF sm] hs1_def, simp add: demo_channel_def)
qed

lemma acceptance_commits_last_witness:
  "\<exists>f1 f2 hs1 ch1. receive demo_hm demo_hs_ser demo_hs_de f1 (demo_handshake Runtime 128) (demo_channel Runtime)
      = (Inr (Some f2), hs1, ch1) \<and> ch_max_frame_bytes ch1 = 128 \<and>
    hs_pending_negotiated hs1 = Some (demo_negotiated Runtime 128 100)"
proof -
  have invar: "handshake_invar (demo_handshake Runtime 128)"
    by (rule handshake_new_invar [OF demo_handshake_new]) simp
  obtain f1 f2 hs1 ch1 ch2 where r: "receive demo_hm demo_hs_ser demo_hs_de f1
      (demo_handshake Runtime 128) (demo_channel Runtime) = (Inr (Some f2), hs1, ch1)"
    and c: "complete_acceptance hs1 ch1 = (Inr (),
      (bound_to hs1 ch1)\<lparr>hs_pending_negotiated := None,
        hs_negotiated := Some (demo_negotiated Runtime 128 100), hs_state := Authenticated\<rparr>, ch2)"
    by (rule demo_runtime_accepts)
  have "ch_max_frame_bytes (demo_channel Runtime) = 128" by (simp add: demo_channel_def)
  with acceptance_commits_last [OF invar r c] r show ?thesis by auto
qed

end
