(* ===== verification/Json.thy ===== *)
theory Json
  imports SidecarProtocol
begin

text \<open>
  \<open>serde_json::Value\<close> and its accessors, and the code's own restriction of the numbers that
  may cross the sidecar boundary (\<open>portable_json_value\<close> of \<open>sidecar_runtime.rs\<close>).

  A \<open>Number\<close> is what \<open>serde_json\<close> documents: a \<open>u64\<close>, a negative \<open>i64\<close> or a finite \<open>f64\<close>.
  \<open>NegInt n\<close> is the integer \<open>- 1 - n\<close>, \<open>Float m e\<close> the float \<open>m * 2 ^ e\<close>. An object is the
  list of its entries, looked up by key.
\<close>

datatype json_number = PosInt u64 | NegInt nat | Float int int

datatype json =
    JNull
  | JBool bool
  | JNumber json_number
  | JString string
  | JArray "json list"
  | JObject "(string \<times> json) list"

section \<open>Accessors\<close>

fun as_str :: "json \<Rightarrow> string option" where
  "as_str (JString s) = Some s" | "as_str _ = None"

fun as_bool :: "json \<Rightarrow> bool option" where
  "as_bool (JBool b) = Some b" | "as_bool _ = None"

fun as_array :: "json \<Rightarrow> json list option" where
  "as_array (JArray vs) = Some vs" | "as_array _ = None"

fun as_object :: "json \<Rightarrow> (string \<times> json) list option" where
  "as_object (JObject kvs) = Some kvs" | "as_object _ = None"

text \<open>
  What a derived struct is read from: the entries of an object, or an array with the values of its fields in
  their order, of which the last may be missing.
\<close>

definition struct_entries :: "string list \<Rightarrow> json \<Rightarrow> (string \<times> json) list option" where
  "struct_entries known value =
     (case value of
        JObject kvs \<Rightarrow> Some kvs
      | JArray vs \<Rightarrow> if length vs \<le> length known then Some (zip known vs) else None
      | _ \<Rightarrow> None)"

lemma struct_entries_object [simp]: "struct_entries known (JObject kvs) = Some kvs"
  by (simp add: struct_entries_def)

text \<open>The name of a variant without data of a derived enum: a string, or an object with \<open>null\<close> under it.\<close>

fun unit_variant :: "json \<Rightarrow> string option" where
  "unit_variant (JString s) = Some s"
| "unit_variant (JObject [(s, JNull)]) = Some s"
| "unit_variant _ = None"

fun json_as_u64 :: "json \<Rightarrow> u64 option" where
  "json_as_u64 (JNumber (PosInt n)) = Some n" | "json_as_u64 _ = None"

definition json_get :: "string \<Rightarrow> json \<Rightarrow> json option" where
  "json_get key value = Option.bind (as_object value) (\<lambda>kvs. map_of kvs key)"

text \<open>Indexing with a string, \<open>value["key"]\<close>, gives \<open>Null\<close> where there is no such entry.\<close>

definition json_index :: "json \<Rightarrow> string \<Rightarrow> json" where
  "json_index value key = (case json_get key value of Some v \<Rightarrow> v | None \<Rightarrow> JNull)"

fun number_as_u64 :: "json_number \<Rightarrow> u64 option" where
  "number_as_u64 (PosInt n) = Some n" | "number_as_u64 _ = None"

fun number_as_i64 :: "json_number \<Rightarrow> int option" where
  "number_as_i64 (PosInt n) = (if unat n < 2 ^ 63 then Some (int (unat n)) else None)"
| "number_as_i64 (NegInt n) = Some (- 1 - int n)"
| "number_as_i64 (Float m e) = None"

section \<open>Portable numbers\<close>

text \<open>\<open>fract() != 0.0\<close> and \<open>abs() <= b\<close> of the float \<open>m * 2 ^ e\<close>, for an integer \<open>b\<close>.\<close>

definition has_fraction :: "int \<Rightarrow> int \<Rightarrow> bool" where
  "has_fraction m e = (e < 0 \<and> m mod 2 ^ nat (- e) \<noteq> 0)"

definition float_abs_le :: "int \<Rightarrow> int \<Rightarrow> int \<Rightarrow> bool" where
  "float_abs_le m e b =
     (if 0 \<le> e then \<bar>m\<bar> * 2 ^ nat e \<le> b else \<bar>m\<bar> \<le> b * 2 ^ nat (- e))"

definition MAX_PORTABLE_JSON_INTEGER :: u64 where
  "MAX_PORTABLE_JSON_INTEGER = SIDECAR_MAX_FEATURE_BITS"

definition MIN_PORTABLE_JSON_INTEGER :: int where
  "MIN_PORTABLE_JSON_INTEGER = - 9007199254740991"

definition MAX_PORTABLE_JSON_INTEGER_F64 :: int where
  "MAX_PORTABLE_JSON_INTEGER_F64 = 9007199254740991"

fun portable_number :: "json_number \<Rightarrow> bool" where
  "portable_number number =
     (case number_as_u64 number of
        Some value \<Rightarrow> value \<le> MAX_PORTABLE_JSON_INTEGER
      | None \<Rightarrow>
     (case number_as_i64 number of
        Some value \<Rightarrow> value \<ge> MIN_PORTABLE_JSON_INTEGER
      | None \<Rightarrow>
     (case number of
        Float m e \<Rightarrow> has_fraction m e \<or> float_abs_le m e MAX_PORTABLE_JSON_INTEGER_F64
      | _ \<Rightarrow> False)))"

fun portable_json_value :: "json \<Rightarrow> bool" where
  "portable_json_value JNull = True"
| "portable_json_value (JBool _) = True"
| "portable_json_value (JString _) = True"
| "portable_json_value (JNumber number) = portable_number number"
| "portable_json_value (JArray values) = list_all portable_json_value values"
| "portable_json_value (JObject values) = list_all (\<lambda>(key, value). portable_json_value value) values"

definition portable_u64 :: "u64 \<Rightarrow> bool" where
  "portable_u64 value = (value \<le> MAX_PORTABLE_JSON_INTEGER)"

definition portable_optional_u64 :: "u64 option \<Rightarrow> bool" where
  "portable_optional_u64 value =
     (case value of None \<Rightarrow> True | Some value \<Rightarrow> value \<le> MAX_PORTABLE_JSON_INTEGER)"

section \<open>What portable means\<close>

text \<open>The integer a number denotes, if it denotes one, and the numbers of a value.\<close>

fun integer_of :: "json_number \<Rightarrow> int option" where
  "integer_of (PosInt n) = Some (int (unat n))"
| "integer_of (NegInt n) = Some (- 1 - int n)"
| "integer_of (Float m e) =
     (if 0 \<le> e then Some (m * 2 ^ nat e)
      else if 2 ^ nat (- e) dvd m then Some (m div 2 ^ nat (- e)) else None)"

fun numbers_of :: "json \<Rightarrow> json_number list" where
  "numbers_of (JNumber n) = [n]"
| "numbers_of (JArray vs) = concat (map numbers_of vs)"
| "numbers_of (JObject kvs) = concat (map (\<lambda>(k, v). numbers_of v) kvs)"
| "numbers_of _ = []"

lemma unat_max_portable: "unat MAX_PORTABLE_JSON_INTEGER = 9007199254740991"
  by (simp add: MAX_PORTABLE_JSON_INTEGER_def SIDECAR_MAX_FEATURE_BITS_def)

lemma portable_number_iff:
  "portable_number n \<longleftrightarrow> (\<forall>i. integer_of n = Some i \<longrightarrow> \<bar>i\<bar> \<le> 9007199254740991)"
proof (cases n)
  case (PosInt w)
  then show ?thesis by (simp add: word_le_def MAX_PORTABLE_JSON_INTEGER_def SIDECAR_MAX_FEATURE_BITS_def)
next
  case (NegInt k)
  then show ?thesis by (auto simp: MIN_PORTABLE_JSON_INTEGER_def)
next
  case (Float m e)
  show ?thesis
  proof (cases "0 \<le> e")
    case True
    then show ?thesis
      by (simp add: Float has_fraction_def float_abs_le_def MAX_PORTABLE_JSON_INTEGER_F64_def abs_mult)
  next
    case False
    define d where "d = (2 :: int) ^ nat (- e)"
    have d: "0 < d" by (simp add: d_def)
    have "\<bar>m div d\<bar> \<le> 9007199254740991 \<longleftrightarrow> \<bar>m\<bar> \<le> 9007199254740991 * d" if "d dvd m"
    proof -
      from that obtain k where m: "m = d * k" by (elim dvdE)
      then show ?thesis using d by (simp add: abs_mult mult.commute)
    qed
    then show ?thesis using False d
      by (auto simp: Float has_fraction_def float_abs_le_def MAX_PORTABLE_JSON_INTEGER_F64_def
          d_def [symmetric] dvd_eq_mod_eq_0)
  qed
qed

lemma portable_json_value_numbers: "portable_json_value v \<longleftrightarrow> list_all portable_number (numbers_of v)"
  by (induction v rule: portable_json_value.induct)
    (auto simp: list_all_iff simp del: portable_number.simps)

section \<open>Properties\<close>

text \<open>
  Portable JSON: a value passes the check exactly when every number in it that denotes an
  integer, at any depth and in any of the three representations, has an absolute value of at
  most \<open>2 ^ 53 - 1\<close>.
\<close>

lemma portable_json_exact:
  "portable_json_value v \<longleftrightarrow>
   (\<forall>n \<in> set (numbers_of v). case integer_of n of None \<Rightarrow> True | Some i \<Rightarrow> \<bar>i\<bar> \<le> 2 ^ 53 - 1)"
  by (simp add: portable_json_value_numbers list_all_iff portable_number_iff split: option.split
      del: portable_number.simps)

lemma portable_json_exact_witness:
  "portable_json_value (JArray [JNumber (Float 1 (- 1)), JNumber (NegInt 9007199254740990)]) \<and>
   \<not> portable_json_value (JObject [(''a'', JNumber (Float 1 53))])"
  using portable_json_exact [of "JArray [JNumber (Float 1 (- 1)), JNumber (NegInt 9007199254740990)]"]
    portable_json_exact [of "JObject [(''a'', JNumber (Float 1 53))]"]
  by simp

end
