(* ===== verification/NodeProfile.thy ===== *)
theory NodeProfile
  imports Json
begin

text \<open>
  The node side of the Gateway protocol (\<open>node.rs\<close>): the errors of a client, the options a
  node connects with and what of them is advertised, and the decoding of the events that
  carry invocations. The network session itself is in \<open>session.rs\<close>.

  \<open>serde\<close>'s derived deserializers are written out over the JSON value from the attributes of
  the structs; the parser of a JSON text is a parameter. Of an error message that ends with
  the text of another crate's error only the part before it is kept.
\<close>

section \<open>Errors\<close>

datatype identity_error = Random string | InvalidPublicKey | InvalidSignature

datatype client_error =
    InvalidUrl string
  | InsecureRemoteGateway
  | Transport string
  | Tls string
  | ConnectTimeout
  | ChallengeTimeout
  | InvalidChallenge string
  | ConnectParams string
  | Identity identity_error
  | Gateway (gateway_method: string) (gateway_code: string) (gateway_message: string)
      (gateway_details: "json option") (gateway_retryable: "bool option")
      (gateway_retry_after_ms: "u64 option")
  | RequestTimeout string
  | WriteTimeout string
  | Closed string
  | InvalidFrame string
  | EventLagged u64
  | NotActivated

text \<open>The errors of the Gateway client crate, and their translation.\<close>

datatype gateway_client_error =
    GwInvalidUrl string
  | GwInvalidHeader string
  | GwInsecureRemoteGateway
  | GwTransport string
  | GwTls string
  | GwConnectTimeout
  | GwChallengeTimeout
  | GwInvalidChallenge string
  | GwConnectParams string
  | GwGateway string string string "json option" "bool option" "u64 option"
  | GwRequestTimeout string
  | GwDispatchRejected string
  | GwWriteTimeout string
  | GwClosed string
  | GwInvalidFrame string
  | GwEventLagged u64

text \<open>\<open>None\<close> is the \<open>unreachable!\<close> branch.\<close>

fun map_gateway_error :: "gateway_client_error \<Rightarrow> client_error option" where
  "map_gateway_error (GwInvalidUrl e) = Some (InvalidUrl e)"
| "map_gateway_error (GwInvalidHeader e) = Some (InvalidUrl e)"
| "map_gateway_error GwInsecureRemoteGateway = Some InsecureRemoteGateway"
| "map_gateway_error (GwTransport e) = Some (Transport e)"
| "map_gateway_error (GwTls e) = Some (Tls e)"
| "map_gateway_error GwConnectTimeout = Some ConnectTimeout"
| "map_gateway_error GwChallengeTimeout = Some ChallengeTimeout"
| "map_gateway_error (GwInvalidChallenge e) = Some (InvalidChallenge e)"
| "map_gateway_error (GwConnectParams e) = Some (ConnectParams e)"
| "map_gateway_error (GwGateway method code message details retryable retry_after_ms) =
     Some (Gateway method code message details retryable retry_after_ms)"
| "map_gateway_error (GwRequestTimeout method) = Some (RequestTimeout method)"
| "map_gateway_error (GwDispatchRejected _) = None"
| "map_gateway_error (GwWriteTimeout operation) = Some (WriteTimeout operation)"
| "map_gateway_error (GwClosed e) = Some (Closed e)"
| "map_gateway_error (GwInvalidFrame e) = Some (InvalidFrame e)"
| "map_gateway_error (GwEventLagged count) = Some (EventLagged count)"

section \<open>Connect options\<close>

datatype node_protocol_version = V3 | V4

definition PROTOCOL_VERSION :: u32 where "PROTOCOL_VERSION = 4"
definition MINIMUM_NODE_PROTOCOL_VERSION :: u32 where "MINIMUM_NODE_PROTOCOL_VERSION = 3"

fun protocol_number :: "node_protocol_version \<Rightarrow> u32" where
  "protocol_number V3 = MINIMUM_NODE_PROTOCOL_VERSION"
| "protocol_number V4 = PROTOCOL_VERSION"

record connect_auth =
  auth_token :: "string option"
  auth_bootstrap_token :: "string option"
  auth_device_token :: "string option"
  auth_password :: "string option"

text \<open>\<open>Option::or\<close>.\<close>

definition or_else :: "'a option \<Rightarrow> 'a option \<Rightarrow> 'a option" where
  "or_else a b = (case a of Some x \<Rightarrow> Some x | None \<Rightarrow> b)"

definition signature_token :: "connect_auth \<Rightarrow> string option" where
  "signature_token auth =
     or_else (or_else (auth_token auth) (auth_device_token auth)) (auth_bootstrap_token auth)"

definition auth_with_token :: "string \<Rightarrow> connect_auth" where
  "auth_with_token value =
     \<lparr>auth_token = Some value, auth_bootstrap_token = None, auth_device_token = None, auth_password = None\<rparr>"

definition auth_with_bootstrap_token :: "string \<Rightarrow> connect_auth" where
  "auth_with_bootstrap_token value =
     \<lparr>auth_token = None, auth_bootstrap_token = Some value, auth_device_token = None, auth_password = None\<rparr>"

definition auth_with_device_token :: "string \<Rightarrow> connect_auth" where
  "auth_with_device_token value =
     \<lparr>auth_token = None, auth_bootstrap_token = None, auth_device_token = Some value, auth_password = None\<rparr>"

definition auth_with_password :: "string \<Rightarrow> connect_auth" where
  "auth_with_password value =
     \<lparr>auth_token = None, auth_bootstrap_token = None, auth_device_token = None, auth_password = Some value\<rparr>"

record client_info =
  ci_id :: string
  ci_display_name :: "string option"
  ci_version :: string
  ci_platform :: string
  ci_device_family :: "string option"
  ci_mode :: string
  ci_instance_id :: "string option"

record device_proof =
  dp_id :: string
  dp_public_key :: string
  dp_signature :: string
  dp_signed_at :: u64
  dp_nonce :: string

text \<open>
  The declared permissions are a \<open>BTreeMap\<close>, given by its entries in the order of their keys; the identity is given by its signing function (nonce,
  platform, device family, token and time to a proof); Ed25519 is another crate.
\<close>

type_synonym identity_signer =
  "string \<Rightarrow> string \<Rightarrow> string option \<Rightarrow> string option \<Rightarrow> u64 \<Rightarrow> identity_error + device_proof"

record node_connect_options =
  min_protocol :: u32
  max_protocol :: u32
  opt_client :: client_info
  advertised_caps :: "string list"
  advertised_commands :: "string list"
  advertised_permissions :: "(string \<times> bool) list"
  declared_caps :: "string list"
  declared_commands :: "string list"
  declared_permissions :: "(string \<times> bool) list"
  activated :: bool
  opt_path_env :: "string option"
  opt_role :: string
  opt_scopes :: "string list"
  opt_device :: "device_proof option"
  opt_identity :: "identity_signer option"
  opt_auth :: "connect_auth option"
  opt_locale :: "string option"
  opt_user_agent :: "string option"

definition options_new :: "string \<Rightarrow> string \<Rightarrow> node_connect_options" where
  "options_new version platform =
     \<lparr>min_protocol = MINIMUM_NODE_PROTOCOL_VERSION, max_protocol = PROTOCOL_VERSION,
      opt_client = \<lparr>ci_id = ''node-host'', ci_display_name = None, ci_version = version,
        ci_platform = platform, ci_device_family = None, ci_mode = ''node'', ci_instance_id = None\<rparr>,
      advertised_caps = [], advertised_commands = [], advertised_permissions = [],
      declared_caps = [], declared_commands = [], declared_permissions = [],
      activated = False, opt_path_env = None, opt_role = ''node'', opt_scopes = [], opt_device = None,
      opt_identity = None, opt_auth = None, opt_locale = None, opt_user_agent = None\<rparr>"

definition with_capability :: "string \<Rightarrow> node_connect_options \<Rightarrow> node_connect_options" where
  "with_capability value opts = opts\<lparr>declared_caps := declared_caps opts @ [value]\<rparr>"

definition with_command :: "string \<Rightarrow> node_connect_options \<Rightarrow> node_connect_options" where
  "with_command value opts = opts\<lparr>declared_commands := declared_commands opts @ [value]\<rparr>"

text \<open>\<open>BTreeMap::insert\<close>: in the order of the keys, replacing the value of a key that is there.\<close>

fun permissions_insert :: "string \<Rightarrow> 'a \<Rightarrow> (string \<times> 'a) list \<Rightarrow> (string \<times> 'a) list" where
  "permissions_insert k v [] = [(k, v)]"
| "permissions_insert k v ((j, w) # kvs) =
     (if k < j then (k, v) # (j, w) # kvs
      else if k = j then (k, v) # kvs else (j, w) # permissions_insert k v kvs)"

definition with_display_name :: "string \<Rightarrow> node_connect_options \<Rightarrow> node_connect_options" where
  "with_display_name value opts = opts\<lparr>opt_client := (opt_client opts)\<lparr>ci_display_name := Some value\<rparr>\<rparr>"

definition with_instance_id :: "string \<Rightarrow> node_connect_options \<Rightarrow> node_connect_options" where
  "with_instance_id value opts = opts\<lparr>opt_client := (opt_client opts)\<lparr>ci_instance_id := Some value\<rparr>\<rparr>"

definition with_device_family :: "string \<Rightarrow> node_connect_options \<Rightarrow> node_connect_options" where
  "with_device_family value opts = opts\<lparr>opt_client := (opt_client opts)\<lparr>ci_device_family := Some value\<rparr>\<rparr>"

definition with_path_env :: "string \<Rightarrow> node_connect_options \<Rightarrow> node_connect_options" where
  "with_path_env value opts = opts\<lparr>opt_path_env := Some value\<rparr>"

definition with_auth :: "connect_auth \<Rightarrow> node_connect_options \<Rightarrow> node_connect_options" where
  "with_auth value opts = opts\<lparr>opt_auth := Some value\<rparr>"

definition with_locale :: "string \<Rightarrow> node_connect_options \<Rightarrow> node_connect_options" where
  "with_locale value opts = opts\<lparr>opt_locale := Some value\<rparr>"

definition with_user_agent :: "string \<Rightarrow> node_connect_options \<Rightarrow> node_connect_options" where
  "with_user_agent value opts = opts\<lparr>opt_user_agent := Some value\<rparr>"

definition with_permission :: "string \<Rightarrow> bool \<Rightarrow> node_connect_options \<Rightarrow> node_connect_options" where
  "with_permission name allowed opts =
     opts\<lparr>declared_permissions := permissions_insert name allowed (declared_permissions opts)\<rparr>"

definition activate_options :: "node_connect_options \<Rightarrow> node_connect_options" where
  "activate_options opts = opts\<lparr>activated := True\<rparr>"

definition with_device :: "device_proof \<Rightarrow> node_connect_options \<Rightarrow> node_connect_options" where
  "with_device value opts = opts\<lparr>opt_device := Some value, opt_identity := None\<rparr>"

definition with_identity :: "identity_signer \<Rightarrow> node_connect_options \<Rightarrow> node_connect_options" where
  "with_identity value opts = opts\<lparr>opt_identity := Some value, opt_device := None\<rparr>"

definition legacy_node_platform :: "string \<Rightarrow> string" where
  "legacy_node_platform platform =
     (if platform = ''macos'' then ''darwin''
      else if platform = ''windows'' then ''win32'' else platform)"

definition for_protocol :: "node_protocol_version \<Rightarrow> node_connect_options \<Rightarrow> node_connect_options" where
  "for_protocol protocol opts =
     (let opts = opts\<lparr>min_protocol := protocol_number protocol, max_protocol := protocol_number protocol\<rparr> in
      if protocol = V3
      then opts\<lparr>opt_client := (opt_client opts)\<lparr>
        ci_platform := legacy_node_platform (ci_platform (opt_client opts)),
        ci_device_family := None\<rparr>\<rparr>
      else opts)"

definition identity_metadata :: "node_protocol_version \<Rightarrow> node_connect_options \<Rightarrow> string \<times> string option" where
  "identity_metadata protocol opts =
     (if protocol = V3 then (legacy_node_platform (ci_platform (opt_client opts)), None)
      else (ci_platform (opt_client opts), ci_device_family (opt_client opts)))"

definition finalize_identity ::
  "string \<Rightarrow> u64 \<Rightarrow> node_connect_options \<Rightarrow> identity_error + node_connect_options" where
  "finalize_identity nonce issued_at_ms opts0 =
     (let opts = (if activated opts0
        then opts0\<lparr>advertised_caps := declared_caps opts0,
          advertised_commands := declared_commands opts0,
          advertised_permissions := declared_permissions opts0\<rparr>
        else opts0) in
      case opt_identity opts of
        None \<Rightarrow> Inr opts
      | Some sign \<Rightarrow>
          bind_result (sign nonce (ci_platform (opt_client opts)) (ci_device_family (opt_client opts))
              (Option.bind (opt_auth opts) signature_token) issued_at_ms)
            (\<lambda>proof. Inr (opts\<lparr>opt_identity := None, opt_device := Some proof\<rparr>)))"

section \<open>Invocations\<close>

text \<open>\<open>received_at\<close> is an instant on the monotonic clock.\<close>

record node_invocation =
  inv_id :: string
  inv_node_id :: string
  inv_command :: string
  inv_params :: json
  inv_timeout_ms :: "u64 option"
  inv_idempotency_key :: "string option"
  inv_session_key :: "string option"
  received_params_bytes :: "nat option"
  received_at :: "nat option"

definition invocation_new :: "string \<Rightarrow> string \<Rightarrow> string \<Rightarrow> json \<Rightarrow> node_invocation" where
  "invocation_new invoke_id node_id command params =
     \<lparr>inv_id = invoke_id, inv_node_id = node_id, inv_command = command, inv_params = params,
      inv_timeout_ms = None, inv_idempotency_key = None, inv_session_key = None,
      received_params_bytes = None, received_at = None\<rparr>"

text \<open>\<open>Instant::elapsed\<close> at the instant \<open>now\<close> (it saturates at zero).\<close>

definition received_elapsed :: "nat \<Rightarrow> node_invocation \<Rightarrow> nat option" where
  "received_elapsed now call = map_option (\<lambda>received. now - received) (received_at call)"

datatype invocation_result = Success json | Failure string string

datatype node_session_event =
    Invocation node_invocation
  | InvocationInput string string u64 string
  | InvocationCancelled string string

definition require_non_empty_result_field :: "string \<Rightarrow> string \<Rightarrow> client_error + string" where
  "require_non_empty_result_field name value =
     (if value = [] then Inl (InvalidFrame (name @ '' must not be empty'')) else Inr value)"

subsection \<open>Derived deserializers\<close>

text \<open>
  Fields of an object: required; absent or decoded; absent, \<open>null\<close> or decoded. An outer
  \<open>None\<close> is a deserialization error.
\<close>

definition required_field :: "(json \<Rightarrow> 'a option) \<Rightarrow> string \<Rightarrow> (string \<times> json) list \<Rightarrow> 'a option" where
  "required_field decode key kvs = Option.bind (map_of kvs key) decode"

definition default_field ::
  "(json \<Rightarrow> 'a option) \<Rightarrow> string \<Rightarrow> (string \<times> json) list \<Rightarrow> 'a option option" where
  "default_field decode key kvs =
     (case map_of kvs key of None \<Rightarrow> Some None | Some v \<Rightarrow> map_option Some (decode v))"

definition nullable_field ::
  "(json \<Rightarrow> 'a option) \<Rightarrow> string \<Rightarrow> (string \<times> json) list \<Rightarrow> 'a option option" where
  "nullable_field decode key kvs =
     (case map_of kvs key of None \<Rightarrow> Some None | Some JNull \<Rightarrow> Some None
      | Some v \<Rightarrow> map_option Some (decode v))"

definition no_unknown_fields :: "string list \<Rightarrow> (string \<times> json) list \<Rightarrow> bool" where
  "no_unknown_fields known kvs = list_all (\<lambda>(k, _). k \<in> set known) kvs"

definition MAX_INPUT_FRAME_BYTES :: nat where "MAX_INPUT_FRAME_BYTES = 16 * 1024"

definition input_fields :: "string list" where "input_fields = [''id'', ''nodeId'', ''seq'', ''payloadJSON'']"

definition parse_invocation_input :: "json \<Rightarrow> client_error + node_session_event" where
  "parse_invocation_input payload =
     (case (case struct_entries input_fields payload of
        None \<Rightarrow> None
      | Some kvs \<Rightarrow>
          if \<not> no_unknown_fields input_fields kvs then None
          else Option.bind (required_field as_str ''id'' kvs) (\<lambda>call_id.
               Option.bind (required_field as_str ''nodeId'' kvs) (\<lambda>node_id.
               Option.bind (required_field json_as_u64 ''seq'' kvs) (\<lambda>seq.
               map_option (\<lambda>text. (call_id, node_id, seq, text))
                 (required_field as_str ''payloadJSON'' kvs))))) of
        None \<Rightarrow> Inl (InvalidFrame ''invalid node.invoke.input'')
      | Some (call_id, node_id, seq, text) \<Rightarrow>
          if length text > MAX_INPUT_FRAME_BYTES
            then Inl (InvalidFrame ''node.invoke.input payloadJSON exceeds 16 KiB'')
          else bind_result (require_non_empty_result_field ''input invocation id'' call_id) (\<lambda>invoke_id.
            bind_result (require_non_empty_result_field ''input invocation node id'' node_id) (\<lambda>node_id.
            Inr (InvocationInput invoke_id node_id seq text))))"

definition parse_invocation_cancel :: "json \<Rightarrow> client_error + node_session_event" where
  "parse_invocation_cancel payload =
     (case Option.bind (struct_entries [''invokeId'', ''nodeId''] payload) (\<lambda>kvs.
        Option.bind (required_field as_str ''invokeId'' kvs) (\<lambda>invoke_id.
        map_option (\<lambda>node_id. (invoke_id, node_id)) (required_field as_str ''nodeId'' kvs))) of
        None \<Rightarrow> Inl (InvalidFrame ''invalid node.invoke.cancel'')
      | Some (invoke_id, node_id) \<Rightarrow>
          bind_result (require_non_empty_result_field ''cancelled invocation id'' invoke_id) (\<lambda>invoke_id.
          bind_result (require_non_empty_result_field ''cancelled invocation node id'' node_id) (\<lambda>node_id.
          Inr (InvocationCancelled invoke_id node_id))))"

record decoded_invocation =
  dec_id :: string
  dec_node_id :: string
  dec_command :: string
  dec_params :: json
  dec_received_params_bytes :: "nat option"
  dec_timeout_ms :: "u64 option"
  dec_idempotency_key :: "string option"
  dec_session_key :: "string option"

definition invocation_fields :: "string list" where
  "invocation_fields = [''id'', ''nodeId'', ''command'', ''paramsJSON'', ''timeoutMs'',
     ''idempotencyKey'', ''sessionKey'']"

text \<open>The derived \<open>Payload\<close>, its fields in their order.\<close>

definition invocation_payload ::
  "json \<Rightarrow> (string \<times> string \<times> string \<times> string option \<times> u64 option \<times> string option \<times> string option) option" where
  "invocation_payload payload =
     Option.bind (struct_entries invocation_fields payload) (\<lambda>kvs.
       if \<not> no_unknown_fields invocation_fields kvs then None
       else Option.bind (required_field as_str ''id'' kvs) (\<lambda>call_id.
            Option.bind (required_field as_str ''nodeId'' kvs) (\<lambda>node_id.
            Option.bind (required_field as_str ''command'' kvs) (\<lambda>command.
            Option.bind (nullable_field as_str ''paramsJSON'' kvs) (\<lambda>params_json.
            Option.bind (default_field json_as_u64 ''timeoutMs'' kvs) (\<lambda>timeout_ms.
            Option.bind (default_field as_str ''idempotencyKey'' kvs) (\<lambda>idempotency_key.
            map_option (\<lambda>session_key.
              (call_id, node_id, command, params_json, timeout_ms, idempotency_key, session_key))
              (nullable_field as_str ''sessionKey'' kvs))))))))"

definition decode_invocation :: "(string \<Rightarrow> json option) \<Rightarrow> json \<Rightarrow> client_error + decoded_invocation" where
  "decode_invocation from_str payload =
     (case invocation_payload payload of
        None \<Rightarrow> Inl (InvalidFrame ''invalid node.invoke.request'')
      | Some (call_id, node_id, command, params_json, timeout_ms, idempotency_key, session_key) \<Rightarrow>
          bind_result
            (case params_json of
               Some value \<Rightarrow>
                 (case from_str value of
                    None \<Rightarrow> Inl (InvalidFrame ''invalid invocation paramsJSON'')
                  | Some params \<Rightarrow> Inr (params, Some (length value)))
             | None \<Rightarrow> Inr (JNull, Some 0))
            (\<lambda>(params, received_bytes).
               Inr \<lparr>dec_id = call_id, dec_node_id = node_id, dec_command = command, dec_params = params,
                    dec_received_params_bytes = received_bytes, dec_timeout_ms = timeout_ms,
                    dec_idempotency_key = idempotency_key, dec_session_key = session_key\<rparr>))"

text \<open>\<open>Option::map\<close> with a fallible function, then \<open>transpose\<close>.\<close>

definition transpose_map :: "('a \<Rightarrow> 'e + 'b) \<Rightarrow> 'a option \<Rightarrow> 'e + 'b option" where
  "transpose_map f x = (case x of None \<Rightarrow> Inr None | Some v \<Rightarrow> map_sum id Some (f v))"

definition parse_invocation ::
  "(string \<Rightarrow> json option) \<Rightarrow> json \<Rightarrow> nat \<Rightarrow> client_error + node_invocation" where
  "parse_invocation from_str payload arrival =
     bind_result (decode_invocation from_str payload) (\<lambda>dec.
     bind_result (require_non_empty_result_field ''invocation id'' (dec_id dec)) (\<lambda>call_id.
     bind_result (require_non_empty_result_field ''invocation node id'' (dec_node_id dec)) (\<lambda>node_id.
     bind_result (require_non_empty_result_field ''invocation command'' (dec_command dec)) (\<lambda>command.
     bind_result (transpose_map (require_non_empty_result_field ''invocation idempotency key'')
       (dec_idempotency_key dec)) (\<lambda>idempotency_key.
     bind_result (transpose_map (require_non_empty_result_field ''invocation session key'')
       (dec_session_key dec)) (\<lambda>session_key.
     Inr \<lparr>inv_id = call_id, inv_node_id = node_id, inv_command = command, inv_params = dec_params dec,
          inv_timeout_ms = dec_timeout_ms dec, inv_idempotency_key = idempotency_key,
          inv_session_key = session_key, received_params_bytes = dec_received_params_bytes dec,
          received_at = Some arrival\<rparr>))))))"

definition invocation_result_params :: "node_invocation \<Rightarrow> invocation_result \<Rightarrow> client_error + json" where
  "invocation_result_params call result =
     (case result of
        Success payload \<Rightarrow> Inr (JObject [(''id'', JString (inv_id call)),
          (''nodeId'', JString (inv_node_id call)), (''ok'', JBool True), (''payload'', payload)])
      | Failure code message \<Rightarrow>
          bind_result (require_non_empty_result_field ''error code'' code) (\<lambda>code.
          bind_result (require_non_empty_result_field ''error message'' message) (\<lambda>message.
          Inr (JObject [(''error'', JObject [(''code'', JString code), (''message'', JString message)]),
            (''id'', JString (inv_id call)), (''nodeId'', JString (inv_node_id call)),
            (''ok'', JBool False)]))))"

section \<open>The event loop of a node session\<close>

record gateway_event =
  ev_event :: string
  ev_payload :: json
  ev_seq :: "u64 option"

text \<open>
  \<open>next_node_event\<close> over the results that \<open>next_event\<close> returns one after the other, each with the
  instant of its arrival. It gives the result and what is left, or \<open>None\<close> while it still waits.
\<close>

fun next_node_event ::
  "(string \<Rightarrow> json option) \<Rightarrow> bool \<Rightarrow> (nat \<times> (client_error + gateway_event)) list \<Rightarrow>
   ((client_error + node_session_event) \<times> (nat \<times> (client_error + gateway_event)) list) option" where
  "next_node_event from_str is_activated incoming =
     (if \<not> is_activated then Some (Inl NotActivated, incoming)
      else case incoming of
        [] \<Rightarrow> None
      | (arrival, Inl error) # rest \<Rightarrow> Some (Inl error, rest)
      | (arrival, Inr event) # rest \<Rightarrow>
          if ev_event event = ''node.invoke.request''
            then Some (map_sum id Invocation (parse_invocation from_str (ev_payload event) arrival), rest)
          else if ev_event event = ''node.invoke.input''
            then Some (parse_invocation_input (ev_payload event), rest)
          else if ev_event event = ''node.invoke.cancel''
            then Some (parse_invocation_cancel (ev_payload event), rest)
          else next_node_event from_str is_activated rest)"

declare next_node_event.simps [simp del]

section \<open>Properties\<close>

lemma require_non_empty_Inr [simp]:
  "require_non_empty_result_field name v = Inr w \<longleftrightarrow> v \<noteq> [] \<and> w = v"
  by (auto simp: require_non_empty_result_field_def)

subsection \<open>The advertised surface\<close>

text \<open>The builder calls of an embedding, in the order it makes them.\<close>

datatype option_call =
    Capability string | Command string | Permission string bool | Activate
  | Device device_proof | IdentityKey identity_signer | Auth connect_auth
  | DisplayName string | InstanceId string | DeviceFamily string | PathEnv string | Locale string | UserAgent string

fun apply_call :: "option_call \<Rightarrow> node_connect_options \<Rightarrow> node_connect_options" where
  "apply_call (Capability v) opts = with_capability v opts"
| "apply_call (Command v) opts = with_command v opts"
| "apply_call (Permission n b) opts = with_permission n b opts"
| "apply_call Activate opts = activate_options opts"
| "apply_call (Device d) opts = with_device d opts"
| "apply_call (IdentityKey k) opts = with_identity k opts"
| "apply_call (Auth a) opts = with_auth a opts"
| "apply_call (DisplayName v) opts = with_display_name v opts"
| "apply_call (InstanceId v) opts = with_instance_id v opts"
| "apply_call (DeviceFamily v) opts = with_device_family v opts"
| "apply_call (PathEnv v) opts = with_path_env v opts"
| "apply_call (Locale v) opts = with_locale v opts"
| "apply_call (UserAgent v) opts = with_user_agent v opts"

definition commands_of :: "option_call list \<Rightarrow> string list" where
  "commands_of calls = concat (map (\<lambda>c. case c of Command v \<Rightarrow> [v] | _ \<Rightarrow> []) calls)"

definition capabilities_of :: "option_call list \<Rightarrow> string list" where
  "capabilities_of calls = concat (map (\<lambda>c. case c of Capability v \<Rightarrow> [v] | _ \<Rightarrow> []) calls)"

lemma surface_simps [simp]:
  "commands_of [] = []" "capabilities_of [] = []"
  "commands_of (calls @ [c]) = commands_of calls @ (case c of Command v \<Rightarrow> [v] | _ \<Rightarrow> [])"
  "capabilities_of (calls @ [c]) = capabilities_of calls @ (case c of Capability v \<Rightarrow> [v] | _ \<Rightarrow> [])"
  by (simp_all add: commands_of_def capabilities_of_def)

lemmas option_builders =
  with_capability_def with_command_def with_permission_def activate_options_def with_device_def
  with_identity_def with_auth_def with_display_name_def with_instance_id_def with_device_family_def
  with_path_env_def with_locale_def with_user_agent_def

lemma apply_calls:
  "let opts = fold apply_call calls (options_new version platform) in
   declared_commands opts = commands_of calls \<and> declared_caps opts = capabilities_of calls \<and>
   (activated opts \<longleftrightarrow> Activate \<in> set calls) \<and>
   advertised_commands opts = [] \<and> advertised_caps opts = [] \<and> advertised_permissions opts = []"
proof (induction calls rule: rev_induct)
  case Nil
  then show ?case by (simp add: options_new_def)
next
  case (snoc c calls)
  then show ?case by (cases c) (simp_all add: Let_def option_builders)
qed

lemma for_protocol_surface [simp]:
  "declared_commands (for_protocol p opts) = declared_commands opts"
  "declared_caps (for_protocol p opts) = declared_caps opts"
  "activated (for_protocol p opts) = activated opts"
  "advertised_commands (for_protocol p opts) = advertised_commands opts"
  "advertised_caps (for_protocol p opts) = advertised_caps opts"
  "advertised_permissions (for_protocol p opts) = advertised_permissions opts"
  "declared_permissions (for_protocol p opts) = declared_permissions opts"
  by (simp_all add: for_protocol_def Let_def)

text \<open>
  The surface is withheld until activation: whatever options an embedding builds, the
  connect envelope made of them for either protocol version advertises the declared commands
  and capabilities, in the order declared, if \<open>activate\<close> was called, and no command, capability
  or permission at all otherwise.
\<close>

lemma surface_withheld_until_activation:
  assumes "finalize_identity nonce issued_at
      (for_protocol protocol (fold apply_call calls (options_new version platform))) = Inr opts"
  shows "if Activate \<in> set calls
    then advertised_commands opts = commands_of calls \<and> advertised_caps opts = capabilities_of calls
    else advertised_commands opts = [] \<and> advertised_caps opts = [] \<and>
      advertised_permissions opts = []"
  using assms apply_calls [of calls version platform]
  by (auto simp: finalize_identity_def Let_def bind_result_Inr split: if_splits option.splits)

lemma surface_withheld_until_activation_witness:
  "\<exists>opts. finalize_identity ''n'' 7 (for_protocol V3 (fold apply_call [Command ''a.b'', Activate]
      (options_new ''1'' ''macos''))) = Inr opts \<and> advertised_commands opts = [''a.b'']"
proof -
  obtain opts where opts: "finalize_identity ''n'' 7 (for_protocol V3
      (fold apply_call [Command ''a.b'', Activate] (options_new ''1'' ''macos''))) = Inr opts"
    by (simp add: finalize_identity_def Let_def options_new_def option_builders for_protocol_def)
  from surface_withheld_until_activation [OF opts] opts show ?thesis
    by (simp add: commands_of_def)
qed

subsection \<open>Invocation requests\<close>

text \<open>The request the Gateway sends for an invocation with the parameters as JSON text.\<close>

definition optional_entry :: "string \<Rightarrow> ('a \<Rightarrow> json) \<Rightarrow> 'a option \<Rightarrow> (string \<times> json) list" where
  "optional_entry key enc x = (case x of None \<Rightarrow> [] | Some v \<Rightarrow> [(key, enc v)])"

definition request_json :: "node_invocation \<Rightarrow> string \<Rightarrow> json" where
  "request_json call text = JObject (
     [(''id'', JString (inv_id call)), (''nodeId'', JString (inv_node_id call)),
      (''command'', JString (inv_command call)), (''paramsJSON'', JString text)]
     @ optional_entry ''timeoutMs'' (\<lambda>n. JNumber (PosInt n)) (inv_timeout_ms call)
     @ optional_entry ''idempotencyKey'' JString (inv_idempotency_key call)
     @ optional_entry ''sessionKey'' JString (inv_session_key call))"

text \<open>
  C28. Decoding an invocation: a request made for an invocation whose identifiers and keys are
  not empty is parsed to exactly this invocation, with the length of the parameter text and the
  instant of arrival recorded for the input and deadline checks.
\<close>

lemma parse_invocation_roundtrip:
  assumes "inv_id call \<noteq> []" and "inv_node_id call \<noteq> []" and "inv_command call \<noteq> []"
    and "inv_idempotency_key call \<noteq> Some []" and "inv_session_key call \<noteq> Some []"
    and "from_str text = Some (inv_params call)"
  shows "parse_invocation from_str (request_json call text) arrival
    = Inr (call\<lparr>received_params_bytes := Some (length text), received_at := Some arrival\<rparr>)"
proof -
  have "decode_invocation from_str (request_json call text) =
    Inr \<lparr>dec_id = inv_id call, dec_node_id = inv_node_id call, dec_command = inv_command call,
      dec_params = inv_params call, dec_received_params_bytes = Some (length text),
      dec_timeout_ms = inv_timeout_ms call, dec_idempotency_key = inv_idempotency_key call,
      dec_session_key = inv_session_key call\<rparr>"
    using assms(6)
    by (cases "inv_timeout_ms call"; cases "inv_idempotency_key call"; cases "inv_session_key call")
      (simp_all add: decode_invocation_def invocation_payload_def request_json_def optional_entry_def no_unknown_fields_def
        invocation_fields_def required_field_def nullable_field_def default_field_def)
  then show ?thesis using assms(1-5)
    by (cases call)
      (auto simp: parse_invocation_def require_non_empty_result_field_def transpose_map_def
        split: option.splits)
qed

definition demo_invocation :: node_invocation where
  "demo_invocation = \<lparr>inv_id = ''i'', inv_node_id = ''n'', inv_command = ''a.b'', inv_params = JNull,
     inv_timeout_ms = Some 500, inv_idempotency_key = Some ''k'', inv_session_key = None,
     received_params_bytes = None, received_at = None\<rparr>"

lemma parse_invocation_roundtrip_witness:
  "parse_invocation (\<lambda>t. if t = ''null'' then Some JNull else None) (request_json demo_invocation ''null'') 9
   = Inr (demo_invocation\<lparr>received_params_bytes := Some 4, received_at := Some 9\<rparr>)"
  using parse_invocation_roundtrip [of demo_invocation "\<lambda>t. if t = ''null'' then Some JNull else None" "''null''" 9]
  by (simp add: demo_invocation_def)

subsection \<open>The order of events\<close>

definition node_event_names :: "string list" where
  "node_event_names = [''node.invoke.request'', ''node.invoke.input'', ''node.invoke.cancel'']"

definition skipped :: "nat \<times> (client_error + gateway_event) \<Rightarrow> bool" where
  "skipped x = (case snd x of Inl _ \<Rightarrow> False | Inr ev \<Rightarrow> ev_event ev \<notin> set node_event_names)"

lemma next_node_event_skip:
  "skipped x \<Longrightarrow> next_node_event from_str True (x # incoming) = next_node_event from_str True incoming"
  by (subst next_node_event.simps)
    (auto simp: skipped_def node_event_names_def split: prod.split sum.split)

text \<open>
  No node event is lost or reordered: an activated session skips the events of other kinds
  and returns what the first node event or error says, leaving everything behind it for the
  next call; before activation it returns \<open>NotActivated\<close> and takes nothing.
\<close>

lemma next_node_event_order:
  assumes "list_all skipped others" and "\<not> skipped item"
  shows "(\<exists>result. next_node_event from_str True [item] = Some (result, []) \<and>
      next_node_event from_str True (others @ item # rest) = Some (result, rest)) \<and>
    next_node_event from_str True others = None \<and>
    next_node_event from_str False (others @ item # rest) = Some (Inl NotActivated, others @ item # rest)"
proof -
  have "\<exists>result. next_node_event from_str True [item] = Some (result, []) \<and>
      next_node_event from_str True (item # rest) = Some (result, rest)"
    using assms(2)
    by (cases item; cases "snd item") (auto simp: next_node_event.simps skipped_def node_event_names_def)
  moreover have "next_node_event from_str True (others @ more) = next_node_event from_str True more" for more
    using assms(1) by (induction others) (simp_all add: next_node_event_skip)
  from this [of "item # rest"] this [of "[]"] show ?thesis
    using calculation by (simp add: next_node_event.simps [of from_str True "[]"]
        next_node_event.simps [of from_str False])
qed

lemma next_node_event_order_witness:
  "\<exists>result. next_node_event (\<lambda>_. None) True
    [(1, Inr \<lparr>ev_event = ''tick'', ev_payload = JNull, ev_seq = None\<rparr>), (2, Inl NotActivated)] = Some (result, [])"
  using next_node_event_order [of "[(1, Inr \<lparr>ev_event = ''tick'', ev_payload = JNull, ev_seq = None\<rparr>)]"
      "(2, Inl NotActivated)" "\<lambda>_. None" "[]"]
  by (auto simp: skipped_def node_event_names_def)

end
