(* ===== verification/ConnectPolicy.thy ===== *)
theory ConnectPolicy
  imports NodeProfile
begin

text \<open>
  The connection policy of the Gateway client crate (\<open>openclaw-gateway-client/src/lib.rs\<close>): the
  recovery metadata of a refused connect request, the reconnect delay, and the TLS trust selected
  by a certificate fingerprint. SHA-256 is a parameter; the rest of the TLS verifier is \<open>rustls\<close>.
\<close>

section \<open>White space and characters\<close>

text \<open>The length of the Unicode white space at the start of a string, 0 if there is none.\<close>

fun ws_prefix :: "string \<Rightarrow> nat" where
  "ws_prefix [] = 0"
| "ws_prefix [a] = (if is_ws1 a then 1 else 0)"
| "ws_prefix [a, b] = (if is_ws1 a then 1 else if is_ws2 a b then 2 else 0)"
| "ws_prefix (a # b # c # s) =
     (if is_ws1 a then 1 else if is_ws2 a b then 2 else if is_ws3 a b c then 3 else 0)"

text \<open>\<open>str::split_whitespace\<close>; the first argument is the word read so far.\<close>

function split_whitespace_from :: "string \<Rightarrow> string \<Rightarrow> string list" where
  "split_whitespace_from word [] = (if word = [] then [] else [word])"
| "split_whitespace_from word (a # s) =
     (if ws_prefix (a # s) = 0 then split_whitespace_from (word @ [a]) s
      else (if word = [] then [] else [word]) @ split_whitespace_from [] (drop (ws_prefix (a # s) - 1) s))"
  by pat_completeness auto
termination
  by (relation "measure (\<lambda>(word, s). length s)") auto

definition split_whitespace :: "string \<Rightarrow> string list" where
  "split_whitespace s = split_whitespace_from [] s"

fun join_words :: "string list \<Rightarrow> string" where
  "join_words [] = []"
| "join_words [w] = w"
| "join_words (w # v # ws) = w @ '' '' @ join_words (v # ws)"

text \<open>A byte that continues a character of UTF-8, and \<open>chars().take(n)\<close>.\<close>

definition is_continuation :: "char \<Rightarrow> bool" where
  "is_continuation c = (128 \<le> char_code c \<and> char_code c < 192)"

fun take_chars :: "nat \<Rightarrow> string \<Rightarrow> string" where
  "take_chars n [] = []"
| "take_chars n (c # s) =
     (if is_continuation c then c # take_chars n s
      else case n of 0 \<Rightarrow> [] | Suc m \<Rightarrow> c # take_chars m s)"

definition count_chars :: "string \<Rightarrow> nat" where
  "count_chars s = length (filter (\<lambda>c. \<not> is_continuation c) s)"

section \<open>Recovery metadata\<close>

definition AUTH_DEVICE_TOKEN_MISMATCH_DETAIL_CODE :: string where
  "AUTH_DEVICE_TOKEN_MISMATCH_DETAIL_CODE = ''AUTH_DEVICE_TOKEN_MISMATCH''"

definition TLS_PIN_MISMATCH_ERROR :: string where
  "TLS_PIN_MISMATCH_ERROR = ''Gateway TLS certificate fingerprint mismatch''"

record connect_error_details =
  ced_code :: "string option"
  ced_device_id :: "string option"
  ced_remediation_hint :: "string option"
  ced_retryable :: "bool option"
  ced_pause_reconnect :: "bool option"

definition connect_detail_text :: "json option \<Rightarrow> nat \<Rightarrow> string option" where
  "connect_detail_text value max_chars =
     Option.bind (Option.bind value as_str) (\<lambda>s.
       let normalized = join_words (split_whitespace s) in
       if normalized = [] then None else Some (take_chars max_chars normalized))"

definition details_from_value :: "json option \<Rightarrow> connect_error_details" where
  "details_from_value value =
     (case value of
        None \<Rightarrow> \<lparr>ced_code = None, ced_device_id = None, ced_remediation_hint = None,
          ced_retryable = None, ced_pause_reconnect = None\<rparr>
      | Some v \<Rightarrow>
          \<lparr>ced_code = connect_detail_text (json_get ''code'' v) 80,
           ced_device_id = connect_detail_text (json_get ''deviceId'' v) 128,
           ced_remediation_hint = connect_detail_text (json_get ''remediationHint'' v) 240,
           ced_retryable = Option.bind (json_get ''retryable'' v) as_bool,
           ced_pause_reconnect = Option.bind (json_get ''pauseReconnect'' v) as_bool\<rparr>)"

definition should_pause_reconnect :: "connect_error_details \<Rightarrow> bool" where
  "should_pause_reconnect details =
     (ced_pause_reconnect details = Some True \<or> ced_retryable details = Some False)"

definition invalidates_device_token :: "connect_error_details \<Rightarrow> bool" where
  "invalidates_device_token details = (ced_code details = Some AUTH_DEVICE_TOKEN_MISMATCH_DETAIL_CODE)"

section \<open>Reconnect delay\<close>

text \<open>\<open>checked_shl\<close> fails for shifts of 64 or more; delays are in seconds.\<close>

definition reconnect_backoff :: "u32 \<Rightarrow> duration \<Rightarrow> duration" where
  "reconnect_backoff attempt maximum =
     (let shift = unat attempt - 1;
          seconds = (if shift < 64 then (2 ^ shift) mod 2 ^ 64 else 2 ^ 64 - 1) in
      min seconds (maximum div 1000000000) * 1000000000)"

section \<open>TLS trust\<close>

datatype tls_trust = SystemRoots | Pinned bytes

definition is_ascii_hexdigit :: "u8 \<Rightarrow> bool" where
  "is_ascii_hexdigit b =
     (48 \<le> unat b \<and> unat b \<le> 57 \<or> 65 \<le> unat b \<and> unat b \<le> 70 \<or> 97 \<le> unat b \<and> unat b \<le> 102)"

definition hex_digit :: "u8 \<Rightarrow> nat" where
  "hex_digit b = (if unat b \<le> 57 then unat b - 48 else if unat b \<le> 70 then unat b - 55 else unat b - 87)"

text \<open>\<open>u8::from_str_radix\<close> of each pair of hexadecimal digits.\<close>

fun hex_pairs :: "bytes \<Rightarrow> bytes" where
  "hex_pairs (a # b # s) = word_of_nat (hex_digit a * 16 + hex_digit b) # hex_pairs s"
| "hex_pairs _ = []"

definition parse_tls_fingerprint :: "string \<Rightarrow> string + bytes" where
  "parse_tls_fingerprint raw =
     (let bs = as_bytes (trim raw) in
      if length bs \<noteq> 64 \<or> \<not> list_all is_ascii_hexdigit bs
        then Inl ''Gateway TLS fingerprint must be 64 hexadecimal characters.''
      else Inr (hex_pairs bs))"

definition tls_trust_of :: "string option \<Rightarrow> string + tls_trust" where
  "tls_trust_of fingerprint =
     (case fingerprint of
        None \<Rightarrow> Inr SystemRoots
      | Some raw \<Rightarrow> bind_result (parse_tls_fingerprint raw) (\<lambda>expected. Inr (Pinned expected)))"

definition pinned_fingerprint_matches :: "(bytes \<Rightarrow> bytes) \<Rightarrow> bytes \<Rightarrow> bytes \<Rightarrow> bool" where
  "pinned_fingerprint_matches sha256 expected certificate_der = (expected = sha256 certificate_der)"

definition verify_server_cert :: "(bytes \<Rightarrow> bytes) \<Rightarrow> bytes \<Rightarrow> bytes \<Rightarrow> string + unit" where
  "verify_server_cert sha256 expected end_entity =
     (if pinned_fingerprint_matches sha256 expected end_entity then Inr () else Inl TLS_PIN_MISMATCH_ERROR)"

section \<open>Lemmas\<close>

text \<open>A string without white space is trimmed to itself.\<close>

definition printable :: "char \<Rightarrow> bool" where
  "printable c = (32 < char_code c \<and> char_code c < 128)"

lemma printable_not_ws: "printable c \<Longrightarrow> \<not> is_ws1 c \<and> \<not> is_ws2 c d \<and> \<not> is_ws3 c d e \<and> \<not> is_ws2 d c \<and> \<not> is_ws3 d e c"
  by (auto simp: printable_def is_ws1_def is_ws2_def is_ws3_def)

lemma trim_start_printable: "\<forall>c \<in> set s. printable c \<Longrightarrow> trim_start s = s"
  by (cases s rule: trim_start.cases) (auto simp: printable_not_ws)

lemma trim_end_printable: "\<forall>c \<in> set s. printable c \<Longrightarrow> trim_end_rev s = s"
  by (cases s rule: trim_end_rev.cases) (auto simp: printable_not_ws)

lemma trim_printable: "\<forall>c \<in> set s. printable c \<Longrightarrow> trim s = s"
  by (simp add: trim_def trim_start_printable trim_end_printable)

text \<open>The hexadecimal text of bytes, in lower or upper case.\<close>

definition hex_char :: "bool \<Rightarrow> nat \<Rightarrow> char" where
  "hex_char upper n = char_of (if n < 10 then n + 48 else if upper then n + 55 else n + 87)"

definition hex_string :: "bool \<Rightarrow> bytes \<Rightarrow> string" where
  "hex_string upper bs = concat (map (\<lambda>b. [hex_char upper (unat b div 16), hex_char upper (unat b mod 16)]) bs)"

lemma code_hex_char: "n < 16 \<Longrightarrow> char_code (hex_char upper n) = (if n < 10 then n + 48 else if upper then n + 55 else n + 87)"
  by (simp add: hex_char_def char_code_def take_bit_eq_mod)

lemma hex_char_props:
  assumes "n < 16"
  shows "printable (hex_char upper n)" "is_ascii_hexdigit (word_of_nat (char_code (hex_char upper n)))"
    "hex_digit (word_of_nat (char_code (hex_char upper n))) = n"
  using assms by (auto simp: printable_def code_hex_char is_ascii_hexdigit_def hex_digit_def unat_of_nat take_bit_eq_mod)

lemma hex_string_props:
  "\<forall>c \<in> set (hex_string upper bs). printable c" "length (hex_string upper bs) = 2 * length bs"
  "list_all is_ascii_hexdigit (as_bytes (hex_string upper bs))" "hex_pairs (as_bytes (hex_string upper bs)) = bs"
proof (induction bs)
  case (Cons b bs)
  have b: "unat b div 16 < 16" "unat b mod 16 < 16" "unat b div 16 * 16 + unat b mod 16 = unat b"
    using unat_bounds(1) [of b] by simp_all
  note p = hex_char_props [OF b(1), of upper] hex_char_props [OF b(2), of upper]
  { case 1 then show ?case using Cons(1) p by (auto simp: hex_string_def) }
  { case 2 then show ?case using Cons(2) by (simp add: hex_string_def) }
  { case 3 then show ?case using Cons(3) p by (simp add: hex_string_def as_bytes_def) }
  { case 4 then show ?case using Cons(4) p b(3) by (simp add: hex_string_def as_bytes_def) }
qed (simp_all add: hex_string_def as_bytes_def)

lemma as_bytes_trim_hex: "trim (hex_string upper bs) = hex_string upper bs"
  by (simp add: trim_printable hex_string_props)

lemma take_chars_count: "count_chars (take_chars n s) \<le> n"
  by (induction n s rule: take_chars.induct) (auto simp: count_chars_def split: nat.split)

section \<open>Properties\<close>

text \<open>
  Pinning is exact: the hexadecimal text of any 32-byte fingerprint, in either case, selects
  trust in exactly that fingerprint, and the verifier then accepts exactly the certificates with
  that SHA-256 digest; without a fingerprint the system roots are trusted, and no text of another
  length is ever read as a pin.
\<close>

lemma fingerprint_pins_exactly:
  assumes "length fingerprint = 32"
  shows "tls_trust_of (Some (hex_string upper fingerprint)) = Inr (Pinned fingerprint) \<and>
    (verify_server_cert sha256 fingerprint certificate = Inr () \<longleftrightarrow> sha256 certificate = fingerprint) \<and>
    tls_trust_of None = Inr SystemRoots \<and>
    (\<forall>raw. length (trim raw) \<noteq> 64 \<longrightarrow> \<not> is_ok (tls_trust_of (Some raw)))"
  using assms
  by (auto simp: tls_trust_of_def parse_tls_fingerprint_def as_bytes_trim_hex hex_string_props
      verify_server_cert_def pinned_fingerprint_matches_def Let_def)

lemma fingerprint_pins_exactly_witness:
  "tls_trust_of (Some (hex_string True (replicate 32 171))) = Inr (Pinned (replicate 32 171))"
  using fingerprint_pins_exactly [of "replicate 32 171" True "\<lambda>x. x" "[]"] by simp

text \<open>
  The reconnect delay doubles from one second and stops at the caller's maximum: for every
  attempt, however large, it is the smaller of \<open>2 ^ (attempt - 1)\<close> seconds and the whole seconds of
  the maximum, so it never decreases and never exceeds the maximum.
\<close>

lemma reconnect_backoff_exact:
  assumes "maximum div 1000000000 < 2 ^ 64" and "1 \<le> attempt"
  shows "reconnect_backoff attempt maximum = min (2 ^ (unat attempt - 1)) (maximum div 1000000000) * 1000000000 \<and>
    reconnect_backoff attempt maximum \<le> maximum \<and>
    (\<forall>later. attempt \<le> later \<longrightarrow> reconnect_backoff attempt maximum \<le> reconnect_backoff later maximum)"
proof -
  have exact: "reconnect_backoff a maximum = min (2 ^ (unat a - 1)) (maximum div 1000000000) * 1000000000" for a
  proof (cases "unat a - 1 < 64")
    case True
    then have "(2 :: nat) ^ (unat a - 1) < 2 ^ 64" by (intro power_strict_increasing) auto
    then show ?thesis using True by (simp add: reconnect_backoff_def Let_def)
  next
    case False
    then have "(2 :: nat) ^ 64 \<le> 2 ^ (unat a - 1)" by (intro power_increasing) auto
    then have "min (2 ^ 64 - 1) (maximum div 1000000000) = maximum div 1000000000"
      "min (2 ^ (unat a - 1)) (maximum div 1000000000) = maximum div 1000000000"
      using assms(1) by (simp_all add: min_def)
    then show ?thesis using False by (simp add: reconnect_backoff_def)
  qed
  have "maximum div 1000000000 * 1000000000 \<le> maximum" by simp
  then have "reconnect_backoff attempt maximum \<le> maximum"
    unfolding exact by (meson le_trans min.cobounded2 mult_le_mono1)
  moreover have "reconnect_backoff attempt maximum \<le> reconnect_backoff later maximum" if "attempt \<le> later" for later
  proof -
    have "(2 :: nat) ^ (unat attempt - 1) \<le> 2 ^ (unat later - 1)"
      using that by (intro power_increasing) (auto simp: word_le_nat_alt)
    then show ?thesis unfolding exact by (intro mult_le_mono1 min.mono) auto
  qed
  ultimately show ?thesis using exact by blast
qed

lemma reconnect_backoff_exact_witness:
  "reconnect_backoff 6 30000000000 = 30000000000 \<and> reconnect_backoff 5 30000000000 = 16000000000"
  using reconnect_backoff_exact [of 30000000000 6] reconnect_backoff_exact [of 30000000000 5] by simp

text \<open>
  Recovery metadata is bounded: whatever the Gateway sends as details of a refused connect, the
  code, device identifier and hint kept of it have at most 80, 128 and 240 characters.
\<close>

lemma recovery_metadata_bounded:
  "(\<forall>t. ced_code (details_from_value v) = Some t \<longrightarrow> count_chars t \<le> 80) \<and>
   (\<forall>t. ced_device_id (details_from_value v) = Some t \<longrightarrow> count_chars t \<le> 128) \<and>
   (\<forall>t. ced_remediation_hint (details_from_value v) = Some t \<longrightarrow> count_chars t \<le> 240)"
  by (auto simp: details_from_value_def connect_detail_text_def Let_def take_chars_count bind_eq_Some_conv
      split: option.splits if_splits)

lemma recovery_metadata_bounded_witness:
  "ced_code (details_from_value (Some (JObject [(''code'', JString '' a  b '')]))) = Some ''a b'' \<and>
   count_chars ''a b'' \<le> 80"
proof -
  have "ced_code (details_from_value (Some (JObject [(''code'', JString '' a  b '')]))) = Some ''a b''"
    by (simp add: details_from_value_def connect_detail_text_def json_get_def split_whitespace_def is_ws1_def
        is_ws2_def is_ws3_def char_code_def is_continuation_def Let_def)
  then show ?thesis using recovery_metadata_bounded [of "Some (JObject [(''code'', JString '' a  b '')])"] by blast
qed

end
