(* ===== verification/DuplexInput.thy ===== *)
theory DuplexInput
  imports NodeProfile
begin

text \<open>
  Ordered input and progress output of a duplex invocation (\<open>duplex.rs\<close>): the bounded buffer
  between the session's event loop and the handler, and the splitting of handler output into
  frames of at most 16 KiB at character boundaries.

  The locale \<open>ordered_queue\<close> is what the command runtime and the handler rely on: accepted
  payloads come out in the order they went in, none twice, and an ended queue stays empty. Its
  interpretation \<open>input_buffer\<close> is on \<open>InputBuffer\<close>.
\<close>

section \<open>The interface\<close>

datatype ('k, 'x) queue_op = Push 'k 'x | Pull | End

text \<open>A run of operations gives the accepted and the delivered payloads, and the last state.\<close>

fun queue_run ::
  "('k \<Rightarrow> 'x \<Rightarrow> 's \<Rightarrow> bool \<times> 's) \<Rightarrow> ('s \<Rightarrow> 'x option \<times> 's) \<Rightarrow> ('s \<Rightarrow> 's) \<Rightarrow>
   ('k, 'x) queue_op list \<Rightarrow> 's \<Rightarrow> ('k \<times> 'x) list \<times> 'x list \<times> 's" where
  "queue_run push pull finish [] s = ([], [], s)"
| "queue_run push pull finish (Push k x # ops) s =
     (case push k x s of (ok, s') \<Rightarrow>
      case queue_run push pull finish ops s' of (accepted, delivered, s'') \<Rightarrow>
        ((if ok then [(k, x)] else []) @ accepted, delivered, s''))"
| "queue_run push pull finish (Pull # ops) s =
     (case pull s of (out, s') \<Rightarrow>
      case queue_run push pull finish ops s' of (accepted, delivered, s'') \<Rightarrow>
        (accepted, (case out of None \<Rightarrow> [] | Some x \<Rightarrow> [x]) @ delivered, s''))"
| "queue_run push pull finish (End # ops) s = queue_run push pull finish ops (finish s)"

locale ordered_queue =
  fixes push :: "'k::linorder \<Rightarrow> 'x \<Rightarrow> 's \<Rightarrow> bool \<times> 's"
    and pull :: "'s \<Rightarrow> 'x option \<times> 's"
    and finish :: "'s \<Rightarrow> 's"
    and contents :: "'s \<Rightarrow> 'x list"
    and ended :: "'s \<Rightarrow> bool"
    and least :: "'s \<Rightarrow> 'k"
    and last_key :: 'k
  assumes push_taken: "push k x s = (True, s') \<Longrightarrow>
      contents s' = contents s @ [x] \<and> \<not> ended s \<and> \<not> ended s' \<and> least s \<le> k \<and> k \<le> least s' \<and>
      (k < least s' \<or> k = last_key)"
    and push_dropped: "push k x s = (False, s') \<Longrightarrow>
      (contents s' = contents s \<and> ended s' = ended s \<or> contents s' = [] \<and> ended s') \<and>
      least s \<le> least s'"
    and pull_head: "pull s = (out, s') \<Longrightarrow> (ended s \<longrightarrow> ended s') \<and> least s' = least s \<and>
      (case contents s of [] \<Rightarrow> out = None \<and> contents s' = [] | x # xs \<Rightarrow> out = Some x \<and> contents s' = xs)"
    and finish_empty: "contents (finish s) = [] \<and> ended (finish s) \<and> least (finish s) = least s"
    and top_key: "k \<le> last_key"
begin

abbreviation "run \<equiv> queue_run push pull finish"

text \<open>An ended queue accepts and delivers nothing any more.\<close>

lemma ended_run:
  "run ops s = (accepted, delivered, s') \<Longrightarrow> ended s \<Longrightarrow> contents s = [] \<Longrightarrow>
   accepted = [] \<and> delivered = [] \<and> ended s' \<and> contents s' = []"
proof (induction ops arbitrary: s accepted delivered)
  case Nil
  then show ?case by simp
next
  case (Cons op ops)
  show ?case
  proof (cases op)
    case (Push k x)
    obtain ok s1 where p: "push k x s = (ok, s1)" by (cases "push k x s")
    with Cons.prems push_taken [of k x s s1] push_dropped [of k x s s1]
    have "\<not> ok" "ended s1" "contents s1 = []" by (cases ok; auto)+
    then show ?thesis using Cons.prems Push p Cons.IH [of s1] by (auto split: prod.splits)
  next
    case Pull
    obtain out s1 where "pull s = (out, s1)" by (cases "pull s")
    then show ?thesis using Cons Pull pull_head [of s out s1] by (fastforce split: prod.splits)
  next
    case End
    then show ?thesis using Cons finish_empty by auto
  qed
qed

text \<open>
  First in, first out: what was delivered is a prefix of what was held and accepted, and what
  is missing is still held unless the queue has ended.
\<close>

lemma fifo:
  "run ops s = (accepted, delivered, s') \<Longrightarrow>
   \<exists>lost. contents s @ map snd accepted = delivered @ contents s' @ lost \<and> (ended s' \<or> lost = [])"
proof (induction ops arbitrary: s accepted delivered)
  case Nil
  then show ?case by simp
next
  case (Cons op ops)
  show ?case
  proof (cases op)
    case (Push k x)
    obtain ok s1 a d where p: "push k x s = (ok, s1)" and r: "run ops s1 = (a, d, s')"
      and a: "accepted = (if ok then [(k, x)] else []) @ a" and d: "delivered = d"
      using Cons.prems Push by (auto split: prod.splits)
    from Cons.IH [OF r] obtain lost where l: "contents s1 @ map snd a = d @ contents s' @ lost"
      and e: "ended s' \<or> lost = []" by blast
    show ?thesis
    proof (cases ok)
      case True
      then show ?thesis using push_taken [of k x s s1] p l e by (auto simp: a d)
    next
      case False
      with p push_dropped [of k x s s1] consider "contents s1 = contents s" | "contents s1 = []" "ended s1"
        by auto
      then show ?thesis
      proof cases
        case 1
        then show ?thesis using l e False by (auto simp: a d)
      next
        case 2
        from ended_run [OF r 2(2,1)] show ?thesis using False by (auto simp: a d)
      qed
    qed
  next
    case Pull
    obtain out s1 a d where p: "pull s = (out, s1)" and r: "run ops s1 = (a, d, s')"
      and a: "accepted = a" and d: "delivered = (case out of None \<Rightarrow> [] | Some x \<Rightarrow> [x]) @ d"
      using Cons.prems Pull by (auto split: prod.splits)
    from Cons.IH [OF r] obtain lost where "contents s1 @ map snd a = d @ contents s' @ lost"
      and "ended s' \<or> lost = []" by blast
    then show ?thesis using pull_head [OF p] by (auto simp: a d split: list.splits)
  next
    case End
    then have "run ops (finish s) = (accepted, delivered, s')" using Cons.prems by simp
    from ended_run [OF this] show ?thesis using finish_empty [of s] by auto
  qed
qed

text \<open>The keys of accepted payloads increase, except that the last key of all may repeat.\<close>

definition key_order :: "'k \<Rightarrow> 'k \<Rightarrow> bool" where
  "key_order a b \<longleftrightarrow> a < b \<or> a = last_key \<and> b = last_key"

lemma keys_increase:
  "run ops s = (accepted, delivered, s') \<Longrightarrow>
   sorted_wrt key_order (map fst accepted) \<and> (\<forall>k \<in> set (map fst accepted). least s \<le> k)"
proof (induction ops arbitrary: s accepted delivered)
  case Nil
  then show ?case by simp
next
  case (Cons op ops)
  show ?case
  proof (cases op)
    case (Push k x)
    obtain ok s1 a d where p: "push k x s = (ok, s1)" and r: "run ops s1 = (a, d, s')"
      and a: "accepted = (if ok then [(k, x)] else []) @ a"
      using Cons.prems Push by (auto split: prod.splits)
    note IH = Cons.IH [OF r]
    show ?thesis
    proof (cases ok)
      case True
      from push_taken [of k x s s1] p True have k: "least s \<le> k" "k \<le> least s1" "k < least s1 \<or> k = last_key"
        by auto
      have "key_order k j" if "j \<in> set (map fst a)" for j
        using IH k that top_key [of j] by (force simp: key_order_def)
      then show ?thesis using IH k True by (auto simp: a dest: order_trans)
    next
      case False
      then show ?thesis using IH push_dropped [of k x s s1] p by (auto simp: a dest: order_trans)
    qed
  next
    case Pull
    obtain out s1 a d where "pull s = (out, s1)" and r: "run ops s1 = (a, d, s')" and "accepted = a"
      using Cons.prems Pull by (auto split: prod.splits)
    then show ?thesis using Cons.IH [OF r] pull_head [of s out s1] by simp
  next
    case End
    then show ?thesis using Cons.IH [of "finish s"] Cons.prems finish_empty [of s] by simp
  qed
qed

end

section \<open>The input buffer\<close>

definition DEFAULT_PENDING_INPUT_BYTES :: nat where "DEFAULT_PENDING_INPUT_BYTES = 64 * 1024"

record input_buffer =
  next_seq :: u64
  queue :: "string list"
  buffered_bytes :: nat
  closed :: bool
  maximum_bytes :: nat

datatype input_disposition = Accepted | Ignored | Overflow

definition input_buffer_new :: "nat \<Rightarrow> input_buffer" where
  "input_buffer_new maximum =
     \<lparr>next_seq = 0, queue = [], buffered_bytes = 0, closed = False, maximum_bytes = maximum\<rparr>"

definition close_locked :: "input_buffer \<Rightarrow> input_buffer" where
  "close_locked b = b\<lparr>closed := True, queue := [], buffered_bytes := 0\<rparr>"

definition input_push :: "u64 \<Rightarrow> string \<Rightarrow> input_buffer \<Rightarrow> input_disposition \<times> input_buffer" where
  "input_push seq payload b0 =
     (if closed b0 \<or> seq < next_seq b0 then (Ignored, b0)
      else let b = b0\<lparr>next_seq := saturating_add seq 1\<rparr> in
      case checked_add_usize (buffered_bytes b) (length payload) of
        None \<Rightarrow> (Overflow, close_locked b)
      | Some bytes \<Rightarrow>
          if bytes > maximum_bytes b then (Overflow, close_locked b)
          else (Accepted, b\<lparr>buffered_bytes := bytes, queue := queue b @ [payload]\<rparr>))"

definition input_close :: "input_buffer \<Rightarrow> input_buffer" where
  "input_close b = close_locked b"

text \<open>
  One turn of the loop in \<open>InvocationInputReceiver::recv\<close>: a payload, the end, or a wait for the
  next notification.
\<close>

datatype received = Payload string | Ended | Waiting

definition input_recv :: "input_buffer \<Rightarrow> received \<times> input_buffer" where
  "input_recv b =
     (case queue b of
        payload # rest \<Rightarrow>
          (Payload payload, b\<lparr>queue := rest, buffered_bytes := buffered_bytes b - length payload\<rparr>)
      | [] \<Rightarrow> if closed b then (Ended, b) else (Waiting, b))"

section \<open>The interpretation\<close>

definition buffer_push :: "u64 \<Rightarrow> string \<Rightarrow> input_buffer \<Rightarrow> bool \<times> input_buffer" where
  "buffer_push seq payload b = apfst (\<lambda>d. d = Accepted) (input_push seq payload b)"

definition buffer_pull :: "input_buffer \<Rightarrow> string option \<times> input_buffer" where
  "buffer_pull b = apfst (\<lambda>r. case r of Payload x \<Rightarrow> Some x | _ \<Rightarrow> None) (input_recv b)"

lemma saturating_succ:
  fixes a :: u64
  shows "a \<le> saturating_add a 1" and "a < saturating_add a 1 \<or> a = - 1"
proof -
  have u: "unat (saturating_add a 1) = min (unat a + 1) 18446744073709551615"
    by (simp add: saturating_add_unat)
  have lt: "unat a < 18446744073709551616" by (rule unat_bounds)
  show "a \<le> saturating_add a 1" using u lt by (simp add: word_le_nat_alt)
  show "a < saturating_add a 1 \<or> a = - 1"
  proof (cases "unat a = 18446744073709551615")
    case True
    then have "unat a = unat (- 1 :: u64)" by (simp add: unsigned_minus_1_eq_mask mask_eq_exp_minus_1)
    then show ?thesis by (metis word_unat_eq_iff)
  next
    case False
    then show ?thesis using u lt by (simp add: word_less_nat_alt)
  qed
qed

interpretation input_buffer: ordered_queue buffer_push buffer_pull input_close queue
    "\<lambda>b. closed b \<and> queue b = []" next_seq "- 1 :: u64"
proof
  fix seq :: u64 and payload :: string and b b' :: input_buffer and out :: "string option"
  show "queue b' = queue b @ [payload] \<and> \<not> (closed b \<and> queue b = []) \<and> \<not> (closed b' \<and> queue b' = []) \<and>
      next_seq b \<le> seq \<and> seq \<le> next_seq b' \<and> (seq < next_seq b' \<or> seq = - 1)"
    if "buffer_push seq payload b = (True, b')"
    using that saturating_succ [of seq]
    by (auto simp: buffer_push_def input_push_def Let_def not_less split: if_splits option.splits)
  show "(queue b' = queue b \<and> (closed b' \<and> queue b' = []) = (closed b \<and> queue b = []) \<or>
      queue b' = [] \<and> (closed b' \<and> queue b' = [])) \<and> next_seq b \<le> next_seq b'"
    if "buffer_push seq payload b = (False, b')"
    using that saturating_succ(1) [of seq]
    by (auto simp: buffer_push_def input_push_def close_locked_def Let_def not_less
        split: if_splits option.splits)
  show "(closed b \<and> queue b = [] \<longrightarrow> closed b' \<and> queue b' = []) \<and> next_seq b' = next_seq b \<and>
      (case queue b of [] \<Rightarrow> out = None \<and> queue b' = [] | x # xs \<Rightarrow> out = Some x \<and> queue b' = xs)"
    if "buffer_pull b = (out, b')"
    using that by (auto simp: buffer_pull_def input_recv_def split: list.splits if_splits)
  show "queue (input_close b) = [] \<and> (closed (input_close b) \<and> queue (input_close b) = []) \<and>
      next_seq (input_close b) = next_seq b"
    by (simp add: input_close_def close_locked_def)
  show "seq \<le> - 1" by simp
qed

section \<open>Invariant of the buffer\<close>

definition buffer_invar :: "input_buffer \<Rightarrow> bool" where
  "buffer_invar b \<longleftrightarrow>
     buffered_bytes b = total_len (map as_bytes (queue b)) \<and> buffered_bytes b \<le> maximum_bytes b \<and>
     (closed b \<longrightarrow> queue b = [])"

lemma total_len_append [simp]: "total_len (xs @ ys) = total_len xs + total_len ys"
  by (simp add: total_len_def)

lemma input_buffer_new_invar [step_intros]: "buffer_invar (input_buffer_new maximum)"
  by (simp add: buffer_invar_def input_buffer_new_def)

lemma input_push_invar:
  "input_push seq payload b = (d, b') \<Longrightarrow> buffer_invar b \<Longrightarrow>
   buffer_invar b' \<and> maximum_bytes b' = maximum_bytes b"
  by (auto simp: input_push_def buffer_invar_def close_locked_def Let_def
      split: if_splits option.splits)

lemma input_recv_invar:
  "input_recv b = (r, b') \<Longrightarrow> buffer_invar b \<Longrightarrow> buffer_invar b' \<and> maximum_bytes b' = maximum_bytes b"
  by (auto simp: input_recv_def buffer_invar_def split: list.splits if_splits)

lemma input_close_invar: "buffer_invar (input_close b) \<and> maximum_bytes (input_close b) = maximum_bytes b"
  by (simp add: input_close_def close_locked_def buffer_invar_def)

lemma buffer_run_invar:
  "queue_run buffer_push buffer_pull input_close ops b = (accepted, delivered, b') \<Longrightarrow>
   buffer_invar b \<Longrightarrow> buffer_invar b' \<and> maximum_bytes b' = maximum_bytes b"
proof (induction ops arbitrary: b accepted delivered)
  case Nil
  then show ?case by simp
next
  case (Cons op ops)
  show ?case
  proof (cases op)
    case (Push k x)
    obtain d b1 where "input_push k x b = (d, b1)" by (cases "input_push k x b")
    then show ?thesis using Cons Push input_push_invar [of k x b d b1]
      by (auto simp: buffer_push_def split: prod.splits)
  next
    case Pull
    obtain r b1 where "input_recv b = (r, b1)" by (cases "input_recv b")
    then show ?thesis using Cons Pull input_recv_invar [of b r b1]
      by (auto simp: buffer_pull_def split: prod.splits)
  next
    case End
    then show ?thesis using Cons input_close_invar [of b] by auto
  qed
qed

section \<open>Progress output\<close>

definition PROGRESS_CHUNK_BYTES :: nat where "PROGRESS_CHUNK_BYTES = 16 * 1024"

text \<open>\<open>str::is_char_boundary\<close> on the bytes: an end of the text, or not a continuation byte.\<close>

definition is_char_boundary :: "string \<Rightarrow> nat \<Rightarrow> bool" where
  "is_char_boundary value i =
     (i = 0 \<or> i = length value \<or>
      i < length value \<and> (char_code (value ! i) < 128 \<or> 192 \<le> char_code (value ! i)))"

fun back_to_boundary :: "string \<Rightarrow> nat \<Rightarrow> nat" where
  "back_to_boundary value split =
     (if is_char_boundary value split then split
      else case split of 0 \<Rightarrow> 0 | Suc split' \<Rightarrow> back_to_boundary value split')"

declare back_to_boundary.simps [simp del]

definition utf8_prefix_len :: "string \<Rightarrow> nat \<Rightarrow> nat" where
  "utf8_prefix_len value maximum =
     (if length value \<le> maximum then length value else back_to_boundary value maximum)"

text \<open>
  The state behind \<open>InvocationProgress\<close>: the sequence counter, and as a record of the requests
  made the frames that were sent with it. What can happen during one \<open>send\<close>: the invocation is
  found inactive before or after waiting for the lock, or the request returns.
\<close>

record progress_state =
  progress_seq :: u64
  sent_frames :: "(u64 \<times> string) list"

datatype send_event = Inactive | Answered "client_error + unit"

definition progress_send ::
  "send_event \<Rightarrow> string \<Rightarrow> progress_state \<Rightarrow> (client_error + unit) \<times> progress_state" where
  "progress_send ev chunk st =
     (case ev of
        Inactive \<Rightarrow> (Inl (Closed ''invocation is no longer active''), st)
      | Answered answer \<Rightarrow>
          let st = st\<lparr>sent_frames := sent_frames st @ [(progress_seq st, chunk)]\<rparr> in
          (case answer of
             Inl error \<Rightarrow> (Inl error, st)
           | Inr _ \<Rightarrow> (Inr (), st\<lparr>progress_seq := progress_seq st + 1\<rparr>)))"

text \<open>
  \<open>write\<close>: the events are what happens during the successive sends. A split at zero would repeat
  for ever, hence the partial function.
\<close>

partial_function (option) progress_write ::
  "(nat \<Rightarrow> send_event) \<Rightarrow> nat \<Rightarrow> string \<Rightarrow> progress_state \<Rightarrow>
   ((client_error + unit) \<times> progress_state) option" where
  "progress_write env i remaining st =
     (if remaining = [] then Some (Inr (), st)
      else
        let split = utf8_prefix_len remaining PROGRESS_CHUNK_BYTES in
        case progress_send (env i) (take split remaining) st of
          (Inl error, st') \<Rightarrow> Some (Inl error, st')
        | (Inr _, st') \<Rightarrow> progress_write env (Suc i) (drop split remaining) st')"

definition progress_heartbeat :: "send_event \<Rightarrow> progress_state \<Rightarrow> (client_error + unit) \<times> progress_state" where
  "progress_heartbeat ev st = progress_send ev [] st"

subsection \<open>Texts in UTF-8\<close>

text \<open>
  The shape every Rust string has: a sequence of characters, each a byte that gives its length
  followed by continuation bytes.
\<close>

definition continuation :: "char \<Rightarrow> bool" where
  "continuation c \<longleftrightarrow> 128 \<le> char_code c \<and> char_code c < 192"

definition char_bytes :: "char \<Rightarrow> nat" where
  "char_bytes c =
     (if char_code c < 128 then 1 else if char_code c < 192 then 0
      else if char_code c < 224 then 2 else if char_code c < 240 then 3
      else if char_code c < 248 then 4 else 0)"

function utf8 :: "string \<Rightarrow> bool" where
  "utf8 s =
     (if s = [] then True
      else let n = char_bytes (hd s) in
        if n = 0 \<or> length s < n then False
        else list_all continuation (take (n - 1) (tl s)) \<and> utf8 (drop n s))"
  by pat_completeness auto
termination
  by (relation "measure length") auto

declare utf8.simps [simp del]

lemma utf8_Nil [simp]: "utf8 []"
  by (simp add: utf8.simps)

lemma char_bytes_le: "char_bytes c \<le> 4"
  by (simp add: char_bytes_def)

lemma utf8_head_boundary: "utf8 s \<Longrightarrow> s \<noteq> [] \<Longrightarrow> \<not> continuation (hd s)"
  by (subst (asm) utf8.simps) (auto simp: char_bytes_def continuation_def Let_def split: if_splits)

lemma boundary_iff:
  "is_char_boundary s i \<longleftrightarrow> i = 0 \<or> i = length s \<or> i < length s \<and> \<not> continuation (s ! i)"
  by (auto simp: is_char_boundary_def continuation_def)

lemma boundary_drop:
  assumes "utf8 (drop n s)" and "n \<le> i" and "n \<le> length s"
  shows "is_char_boundary s i \<longleftrightarrow> is_char_boundary (drop n s) (i - n)"
proof (cases "i = n")
  case True
  then show ?thesis
    using assms utf8_head_boundary [OF assms(1)] by (auto simp: boundary_iff hd_drop_conv_nth)
next
  case False
  then show ?thesis using assms(2,3) by (auto simp: boundary_iff)
qed

lemma utf8_char_append:
  assumes "n = char_bytes (hd s)" and "0 < n" and "n \<le> length s"
    and "list_all continuation (take (n - 1) (tl s))" and "utf8 t"
  shows "utf8 (take n s @ t)"
proof -
  obtain c r where s: "s = c # r" using assms(2,3) by (cases s) auto
  obtain k where k: "n = Suc k" using assms(2) by (cases n) auto
  have cb: "char_bytes c = Suc k" using assms(1) by (simp add: s k)
  have "utf8 (c # (take k r @ t))"
    by (subst utf8.simps) (use assms(3-5) in \<open>simp add: s k cb Let_def\<close>)
  then show ?thesis by (simp add: s k)
qed

lemma utf8_boundary:
  "utf8 s \<Longrightarrow> i \<le> length s \<Longrightarrow>
   (\<exists>j. j \<le> i \<and> i < j + 4 \<and> is_char_boundary s j) \<and>
   (is_char_boundary s i \<longrightarrow> utf8 (take i s) \<and> utf8 (drop i s))"
proof (induction s arbitrary: i rule: length_induct)
  case (1 s)
  show ?case
  proof (cases "s = []")
    case True
    then show ?thesis using 1(3) by (auto simp: boundary_iff)
  next
    case False
    define n where "n = char_bytes (hd s)"
    from 1(2) False have n: "0 < n" "n \<le> length s" and cont: "list_all continuation (take (n - 1) (tl s))"
      and rest: "utf8 (drop n s)"
      by (simp_all add: utf8.simps [of s] n_def Let_def split: if_splits)
    show ?thesis
    proof (cases "n \<le> i")
      case True
      from 1(1) [rule_format, of "drop n s" "i - n"] rest n 1(3) True False
      have IH: "\<exists>j. j \<le> i - n \<and> i - n < j + 4 \<and> is_char_boundary (drop n s) j"
        "is_char_boundary (drop n s) (i - n) \<longrightarrow> utf8 (take (i - n) (drop n s)) \<and> utf8 (drop (i - n) (drop n s))"
        by simp_all
      from IH(1) obtain j where "j \<le> i - n" "i - n < j + 4" "is_char_boundary (drop n s) j" by blast
      then have "n + j \<le> i \<and> i < n + j + 4 \<and> is_char_boundary s (n + j)"
        using True boundary_drop [OF rest, of "n + j"] n by auto
      moreover have "utf8 (take i s) \<and> utf8 (drop i s)" if "is_char_boundary s i"
      proof -
        have t: "take i s = take n s @ take (i - n) (drop n s)"
          using True by (metis le_add_diff_inverse take_add)
        have "utf8 (take (i - n) (drop n s))" "utf8 (drop i s)"
          using that IH(2) boundary_drop [OF rest True n(2)] True by simp_all
        moreover have "utf8 (take i s)"
          unfolding t using calculation(1) n cont by (intro utf8_char_append) (simp_all add: n_def)
        ultimately show ?thesis by simp
      qed
      ultimately show ?thesis by blast
    next
      case less: False
      have "\<not> is_char_boundary s i" if "0 < i"
      proof -
        have "s ! i = take (n - 1) (tl s) ! (i - 1)" using that less n by (simp add: nth_tl)
        moreover have "i - 1 < length (take (n - 1) (tl s))" using that less n by auto
        ultimately have "continuation (s ! i)" using cont by (simp add: list_all_length)
        then show ?thesis using that less n by (simp add: boundary_iff)
      qed
      moreover have "i < 0 + 4" using less char_bytes_le [of "hd s"] by (simp add: n_def)
      moreover have "is_char_boundary s 0" by (simp add: boundary_iff)
      ultimately show ?thesis using 1(2) by (cases "i = 0") auto
    qed
  qed
qed

lemma back_to_boundary_greatest:
  "is_char_boundary s (back_to_boundary s i) \<and> back_to_boundary s i \<le> i \<and>
   (\<forall>j \<le> i. is_char_boundary s j \<longrightarrow> j \<le> back_to_boundary s i)"
proof (induction i)
  case 0
  then show ?case by (simp add: back_to_boundary.simps [of s 0] boundary_iff)
next
  case (Suc i)
  then show ?case by (auto simp: back_to_boundary.simps [of s "Suc i"] le_Suc_eq)
qed

lemma utf8_prefix_len_props:
  assumes "utf8 s" and "s \<noteq> []" and "4 \<le> maximum"
  shows "0 < utf8_prefix_len s maximum \<and> utf8_prefix_len s maximum \<le> maximum \<and>
    utf8_prefix_len s maximum \<le> length s \<and>
    utf8 (take (utf8_prefix_len s maximum) s) \<and> utf8 (drop (utf8_prefix_len s maximum) s)"
proof (cases "length s \<le> maximum")
  case True
  then show ?thesis using assms by (simp add: utf8_prefix_len_def)
next
  case False
  let ?k = "back_to_boundary s maximum"
  from utf8_boundary [OF assms(1), of maximum] False obtain j
    where j: "j \<le> maximum" "maximum < j + 4" "is_char_boundary s j" by auto
  note greatest = back_to_boundary_greatest [of s maximum]
  have "0 < ?k" using j greatest assms(3) by fastforce
  moreover have "utf8 (take ?k s) \<and> utf8 (drop ?k s)"
    using utf8_boundary [OF assms(1), of ?k] greatest False by auto
  ultimately show ?thesis using greatest False by (simp add: utf8_prefix_len_def)
qed

section \<open>Properties\<close>

text \<open>
  The buffer as its users see it, without a counter of numbers or bytes: \<open>offered\<close> are the numbers of all pushes so
  far, \<open>pending\<close> the payloads waiting. A number is late if one at least as large was offered before; no number is
  above \<open>u64::MAX\<close>, and the source never takes that one as late. A late payload is dropped; one for which
  the pending bytes have no room, and a closing, end the input with everything pending lost. The values are the
  payloads taken, with their numbers, those the handler receives and those pending at the end, none if it ended.
\<close>

definition late_input :: "u64 list \<Rightarrow> u64 \<Rightarrow> bool" where
  "late_input offered seq \<longleftrightarrow> seq \<noteq> - 1 \<and> (\<exists>n \<in> set offered. seq \<le> n)"

fun expected_input ::
  "nat \<Rightarrow> u64 list \<Rightarrow> string list \<Rightarrow> (u64, string) queue_op list \<Rightarrow>
   (u64 \<times> string) list \<times> string list \<times> string list option" where
  "expected_input maximum offered pending [] = ([], [], Some pending)"
| "expected_input maximum offered pending (Push seq payload # ops) =
     (if late_input offered seq then expected_input maximum (seq # offered) pending ops
      else if maximum < length (concat pending) + length payload then ([], [], None)
      else apfst ((#) (seq, payload)) (expected_input maximum (seq # offered) (pending @ [payload]) ops))"
| "expected_input maximum offered pending (Pull # ops) =
     (case pending of
        [] \<Rightarrow> expected_input maximum offered [] ops
      | payload # rest \<Rightarrow> apsnd (apfst ((#) payload)) (expected_input maximum offered rest ops))"
| "expected_input maximum offered pending (End # ops) = ([], [], None)"

fun offered_input :: "('k, 'x) queue_op list \<Rightarrow> ('k \<times> 'x) list" where
  "offered_input [] = []"
| "offered_input (Push seq payload # ops) = (seq, payload) # offered_input ops"
| "offered_input (_ # ops) = offered_input ops"

text \<open>An open buffer and that view of it.\<close>

definition buffer_view :: "nat \<Rightarrow> u64 list \<Rightarrow> string list \<Rightarrow> input_buffer \<Rightarrow> bool" where
  "buffer_view maximum offered pending b \<longleftrightarrow>
     \<not> closed b \<and> queue b = pending \<and> buffered_bytes b = length (concat pending) \<and> maximum_bytes b = maximum \<and>
     (\<forall>seq. seq < next_seq b \<longleftrightarrow> late_input offered seq)"

lemma below_saturating_succ: "m < saturating_add n 1 \<longleftrightarrow> m \<le> n \<and> m \<noteq> - 1" for m n :: u64
proof -
  have top: "m = - 1 \<longleftrightarrow> unat m = 18446744073709551615"
    by (simp add: word_unat_eq_iff unsigned_minus_1_eq_mask mask_eq_exp_minus_1)
  have "unat (saturating_add n 1) = min (unat n + 1) 18446744073709551615"
    by (simp add: saturating_add_unat)
  moreover have "unat n < 18446744073709551616" "unat m < 18446744073709551616" by (rule unat_bounds)+
  ultimately show ?thesis unfolding word_less_nat_alt word_le_nat_alt top by auto
qed

lemma late_input_newest: "\<not> late_input offered seq \<Longrightarrow> late_input (seq # offered) k \<longleftrightarrow> k \<le> seq \<and> k \<noteq> - 1"
  by (auto simp: late_input_def not_le)

lemma late_input_again: "late_input offered seq \<Longrightarrow> late_input (seq # offered) k \<longleftrightarrow> late_input offered k"
  by (auto simp: late_input_def dest: order.trans)

lemma push_view:
  assumes "buffer_view maximum offered pending b" and "maximum \<le> usize_max"
  shows "if late_input offered seq then buffer_push seq payload b = (False, b) \<and> buffer_view maximum (seq # offered) pending b
    else if maximum < length (concat pending) + length payload
      then \<exists>b'. buffer_push seq payload b = (False, b') \<and> closed b' \<and> queue b' = []
    else \<exists>b'. buffer_push seq payload b = (True, b') \<and> buffer_view maximum (seq # offered) (pending @ [payload]) b'"
proof -
  have late: "seq < next_seq b \<longleftrightarrow> late_input offered seq" using assms(1) by (simp add: buffer_view_def)
  show ?thesis
  proof (cases "late_input offered seq")
    case True
    then show ?thesis using assms(1) late
      by (simp add: buffer_push_def input_push_def buffer_view_def late_input_again)
  next
    case False
    then show ?thesis using assms late
      by (auto simp: buffer_push_def input_push_def buffer_view_def close_locked_def checked_add_usize_def
          late_input_newest below_saturating_succ Let_def)
  qed
qed

lemma pull_view:
  assumes "buffer_view maximum offered pending b"
  shows "case pending of
      [] \<Rightarrow> \<exists>b'. buffer_pull b = (None, b') \<and> buffer_view maximum offered [] b'
    | payload # rest \<Rightarrow> \<exists>b'. buffer_pull b = (Some payload, b') \<and> buffer_view maximum offered rest b'"
  using assms by (auto simp: buffer_pull_def input_recv_def buffer_view_def split: list.split)

lemma buffer_run_view:
  "buffer_view maximum offered pending b \<Longrightarrow> maximum \<le> usize_max \<Longrightarrow>
   queue_run buffer_push buffer_pull input_close ops b = (accepted, delivered, b') \<Longrightarrow>
   expected_input maximum offered pending ops = (accepted, delivered, if closed b' then None else Some (queue b'))"
proof (induction ops arbitrary: offered pending b accepted delivered)
  case Nil
  then show ?case by (simp add: buffer_view_def)
next
  case (Cons op ops)
  show ?case
  proof (cases op)
    case (Push seq payload)
    obtain ok b1 a d where p: "buffer_push seq payload b = (ok, b1)"
      and r: "queue_run buffer_push buffer_pull input_close ops b1 = (a, d, b')"
      and a: "accepted = (if ok then [(seq, payload)] else []) @ a" "delivered = d"
      using Cons.prems(3) Push by (auto split: prod.splits)
    note view = push_view [OF Cons.prems(1,2), of seq payload] and IH = Cons.IH [OF _ Cons.prems(2) r]
    consider (late) "late_input offered seq"
      | (full) "\<not> late_input offered seq" "maximum < length (concat pending) + length payload"
      | (taken) "\<not> late_input offered seq" "\<not> maximum < length (concat pending) + length payload" by blast
    then show ?thesis
    proof cases
      case late
      then have "\<not> ok" "buffer_view maximum (seq # offered) pending b1" using view p by auto
      then show ?thesis using IH late a Push by simp
    next
      case full
      then have "closed b1" "queue b1 = []" "\<not> ok" using view p by auto
      then show ?thesis using input_buffer.ended_run [OF r] full a Push by simp
    next
      case taken
      then have "ok" "buffer_view maximum (seq # offered) (pending @ [payload]) b1" using view p by auto
      then show ?thesis using IH taken a Push by simp
    qed
  next
    case Pull
    obtain out b1 a d where p: "buffer_pull b = (out, b1)"
      and r: "queue_run buffer_push buffer_pull input_close ops b1 = (a, d, b')"
      and a: "accepted = a" "delivered = (case out of None \<Rightarrow> [] | Some x \<Rightarrow> [x]) @ d"
      using Cons.prems(3) Pull by (auto split: prod.splits)
    show ?thesis using pull_view [OF Cons.prems(1)] Cons.IH [OF _ Cons.prems(2) r] p a Pull
      by (cases pending) auto
  next
    case End
    then have "queue_run buffer_push buffer_pull input_close ops (input_close b) = (accepted, delivered, b')"
      using Cons.prems(3) by simp
    from input_buffer.ended_run [OF this] show ?thesis using End by (simp add: input_close_def close_locked_def)
  qed
qed

lemma buffer_view_new: "buffer_view maximum [] [] (input_buffer_new maximum)"
  by (simp add: buffer_view_def input_buffer_new_def late_input_def)

text \<open>A sender that counts up, stays within the limit and is not closed loses nothing.\<close>

lemma well_behaved_input:
  "\<forall>n \<in> set offered. \<forall>k \<in> set (map fst (offered_input ops)). n < k \<Longrightarrow>
   sorted_wrt (<) (map fst (offered_input ops)) \<Longrightarrow> End \<notin> set ops \<Longrightarrow>
   length (concat pending) + length (concat (map snd (offered_input ops))) \<le> maximum \<Longrightarrow>
   \<exists>received left. expected_input maximum offered pending ops = (offered_input ops, received, Some left) \<and>
     received @ left = pending @ map snd (offered_input ops)"
proof (induction maximum offered pending ops rule: expected_input.induct)
  case (2 maximum offered pending seq payload ops)
  have late: "\<not> late_input offered seq" using 2(3) by (force simp: late_input_def)
  have room: "\<not> maximum < length (concat pending) + length payload" using 2(6) by simp
  obtain received left where "expected_input maximum (seq # offered) (pending @ [payload]) ops
      = (offered_input ops, received, Some left)"
    "received @ left = (pending @ [payload]) @ map snd (offered_input ops)"
    using 2(2) [OF late room] 2(3-6) by auto
  then show ?case using late room by simp
next
  case (3 maximum offered pending ops)
  show ?case
  proof (cases pending)
    case Nil
    then show ?thesis using 3 by simp
  next
    case (Cons payload rest)
    then obtain received left where "expected_input maximum offered rest ops = (offered_input ops, received, Some left)"
      "received @ left = rest @ map snd (offered_input ops)" using 3 by auto
    then show ?thesis using Cons by simp
  qed
qed simp_all

text \<open>
  C27. Ordered input: over any interleaving of pushes by the session, reads by the handler and closings, the payloads
  taken and the payloads the handler receives are exactly those of the view above, which has no counters. So what was
  received is a prefix of what was taken, in order, and the rest is still in the buffer unless it was closed; the
  numbers taken strictly increase, where only \<open>u64::MAX\<close> may repeat. And if the session counts up, in all
  pushes no more bytes than the limit, and nobody closes the buffer, then everything pushed is taken and is
  received or still in the buffer.
\<close>

lemma input_is_ordered:
  assumes "maximum \<le> usize_max"
    and "queue_run buffer_push buffer_pull input_close ops (input_buffer_new maximum) = (accepted, delivered, b)"
  shows "(accepted, delivered, if closed b then None else Some (queue b)) = expected_input maximum [] [] ops \<and>
    (\<exists>lost. map snd accepted = delivered @ queue b @ lost \<and> (closed b \<or> lost = [])) \<and>
    sorted_wrt (\<lambda>m n. m < n \<or> m = - 1 \<and> n = - 1) (map fst accepted) \<and>
    (sorted_wrt (<) (map fst (offered_input ops)) \<and> End \<notin> set ops \<and>
       length (concat (map snd (offered_input ops))) \<le> maximum \<longrightarrow>
     accepted = offered_input ops \<and> delivered @ queue b = map snd (offered_input ops))"
proof (intro conjI impI)
  show ref: "(accepted, delivered, if closed b then None else Some (queue b)) = expected_input maximum [] [] ops"
    using buffer_run_view [OF buffer_view_new assms] by simp
  show "\<exists>lost. map snd accepted = delivered @ queue b @ lost \<and> (closed b \<or> lost = [])"
    using input_buffer.fifo [OF assms(2)] by (auto simp: input_buffer_new_def)
  show "sorted_wrt (\<lambda>m n. m < n \<or> m = - 1 \<and> n = - 1) (map fst accepted)"
    using input_buffer.keys_increase [OF assms(2)] by (simp add: input_buffer.key_order_def [abs_def])
  assume "sorted_wrt (<) (map fst (offered_input ops)) \<and> End \<notin> set ops \<and>
    length (concat (map snd (offered_input ops))) \<le> maximum"
  then obtain received left where "expected_input maximum [] [] ops = (offered_input ops, received, Some left)"
    "received @ left = map snd (offered_input ops)"
    using well_behaved_input [of "[]" ops "[]" maximum] by auto
  then show "accepted = offered_input ops" "delivered @ queue b = map snd (offered_input ops)"
    using ref by (simp_all split: if_splits)
qed

lemma input_is_ordered_witness:
  "\<exists>b. queue_run buffer_push buffer_pull input_close [Push 0 ''a'', Pull, Push 3 ''b''] (input_buffer_new 10)
      = ([(0, ''a''), (3, ''b'')], [''a''], b) \<and> queue b = [''b'']"
proof -
  obtain accepted delivered b where run: "queue_run buffer_push buffer_pull input_close
      [Push 0 ''a'', Pull, Push 3 ''b''] (input_buffer_new 10) = (accepted, delivered, b)" by (metis prod.exhaust)
  have "(10 :: nat) \<le> usize_max" by (simp add: usize_max_def)
  from input_is_ordered [OF this run] run show ?thesis by (simp add: late_input_def split: if_splits)
qed

text \<open>
  Bounded input: at every moment of such a run the buffer holds no more than its limit, its
  byte count is the sum of the payloads it holds, and once closed it is empty; a push that would
  exceed the limit closes it.
\<close>

lemma input_is_bounded:
  assumes "queue_run buffer_push buffer_pull input_close ops (input_buffer_new maximum)
      = (accepted, delivered, b)"
  shows "total_len (map as_bytes (queue b)) \<le> maximum \<and>
    buffered_bytes b = total_len (map as_bytes (queue b)) \<and> (closed b \<longrightarrow> queue b = []) \<and>
    (\<forall>seq payload. \<not> closed b \<and> next_seq b \<le> seq \<and> maximum < buffered_bytes b + length payload \<longrightarrow>
      (case input_push seq payload b of (d, b') \<Rightarrow> d = Overflow \<and> closed b'))"
proof -
  have "maximum_bytes (input_buffer_new maximum) = maximum" by (simp add: input_buffer_new_def)
  then have "buffer_invar b \<and> maximum_bytes b = maximum"
    using buffer_run_invar [OF assms input_buffer_new_invar] by simp
  then show ?thesis
    by (auto simp: buffer_invar_def input_push_def Let_def close_locked_def not_less
        split: option.splits prod.splits if_splits)
qed

lemma input_is_bounded_witness:
  "fst (input_push 0 ''abc'' (input_buffer_new 2)) = Overflow"
proof -
  have "queue_run buffer_push buffer_pull input_close [] (input_buffer_new 2) = ([], [], input_buffer_new 2)"
    by simp
  from input_is_bounded [OF this, THEN conjunct2, THEN conjunct2, THEN conjunct2, rule_format,
      of 0 "''abc''"] show ?thesis
    by (simp add: input_buffer_new_def split: prod.splits)
qed

text \<open>The frames that carry \<open>parts\<close> from the sequence number \<open>seq\<close> on.\<close>

fun numbered :: "u64 \<Rightarrow> string list \<Rightarrow> (u64 \<times> string) list" where
  "numbered seq [] = []"
| "numbered seq (chunk # parts) = (seq, chunk) # numbered (seq + 1) parts"

lemma progress_write_run:
  "utf8 message \<Longrightarrow>
   \<exists>r st' parts. progress_write env i message st = Some (r, st') \<and>
     sent_frames st' = sent_frames st @ numbered (progress_seq st) parts \<and>
     (\<forall>c \<in> set parts. c \<noteq> [] \<and> utf8 c \<and> length c \<le> PROGRESS_CHUNK_BYTES) \<and>
     (if is_ok r then concat parts = message else prefix (concat parts) message)"
proof (induction message arbitrary: i st rule: length_induct)
  case (1 message)
  show ?case
  proof (cases "message = []")
    case True
    then show ?thesis by (intro exI [of _ "Inr ()"] exI [of _ st] exI [of _ "[]"])
        (simp add: progress_write.simps)
  next
    case False
    define k where "k = utf8_prefix_len message PROGRESS_CHUNK_BYTES"
    have k: "0 < k" "k \<le> PROGRESS_CHUNK_BYTES" "k \<le> length message" "utf8 (take k message)" "utf8 (drop k message)"
      using utf8_prefix_len_props [OF 1(2) False] by (simp_all add: k_def PROGRESS_CHUNK_BYTES_def)
    have step: "progress_write env i message st =
      (case progress_send (env i) (take k message) st of
         (Inl error, st') \<Rightarrow> Some (Inl error, st')
       | (Inr _, st') \<Rightarrow> progress_write env (Suc i) (drop k message) st')"
      unfolding k_def using False by (simp add: progress_write.simps [of env i message] Let_def)
    consider (inactive) "env i = Inactive" | (failed) e where "env i = Answered (Inl e)"
      | (sent) "env i = Answered (Inr ())" by (metis old.unit.exhaust send_event.exhaust sum.exhaust)
    then show ?thesis
    proof cases
      case inactive
      then show ?thesis unfolding step
        by (intro exI [of _ "Inl (Closed ''invocation is no longer active'')"] exI [of _ st] exI [of _ "[]"])
          (simp add: progress_send_def)
    next
      case failed
      then show ?thesis unfolding step using k
        by (intro exI [of _ "Inl e"] exI [of _ "snd (progress_send (env i) (take k message) st)"]
            exI [of _ "[take k message]"])
          (auto simp: progress_send_def Let_def take_is_prefix)
    next
      case sent
      let ?st = "snd (progress_send (env i) (take k message) st)"
      from 1(1) [rule_format, of "drop k message" "Suc i" ?st] k False obtain r st' parts where
        r: "progress_write env (Suc i) (drop k message) ?st = Some (r, st')"
          "sent_frames st' = sent_frames ?st @ numbered (progress_seq ?st) parts"
          "\<forall>c \<in> set parts. c \<noteq> [] \<and> utf8 c \<and> length c \<le> PROGRESS_CHUNK_BYTES"
          "if is_ok r then concat parts = drop k message else prefix (concat parts) (drop k message)" by auto
      then show ?thesis unfolding step using sent k False
        by (intro exI [of _ r] exI [of _ st'] exI [of _ "take k message # parts"])
          (auto simp: progress_send_def Let_def split: if_splits
            dest: same_prefix_prefix [THEN iffD2, of _ _ "take k message"])
    qed
  qed
qed

text \<open>
  Progress output: for every text in UTF-8 and whatever happens during the sends,
  \<open>progress_write\<close> returns; it sends non-empty frames of whole characters and at most 16 KiB with
  consecutive sequence numbers, which together are the text if it succeeds and the beginning of
  the text if it fails.
\<close>

lemma progress_write_delivers:
  assumes "utf8 message"
  shows "\<exists>r st' parts. progress_write env i message st = Some (r, st') \<and>
     sent_frames st' = sent_frames st @ numbered (progress_seq st) parts \<and>
     (\<forall>c \<in> set parts. c \<noteq> [] \<and> utf8 c \<and> length c \<le> 16 * 1024) \<and>
     (if is_ok r then concat parts = message else prefix (concat parts) message)"
  using progress_write_run [OF assms, of env i st] by (simp add: PROGRESS_CHUNK_BYTES_def)

lemma progress_write_delivers_witness:
  "\<exists>r st' parts. progress_write (\<lambda>_. Answered (Inr ())) 0 ''hi'' \<lparr>progress_seq = 0, sent_frames = []\<rparr>
      = Some (r, st') \<and> sent_frames st' = numbered 0 parts"
proof -
  have "utf8 ''hi''" by (simp add: utf8.simps char_bytes_def char_code_def Let_def)
  from progress_write_delivers [OF this, of "\<lambda>_. Answered (Inr ())" 0 "\<lparr>progress_seq = 0, sent_frames = []\<rparr>"]
  show ?thesis by auto
qed

end
