(* ===== verification/ActiveInvocations.thy ===== *)
theory ActiveInvocations
  imports DuplexInput "HOL-Library.AList"
begin

text \<open>
  The table of running invocations of one session (\<open>ActiveInvocations\<close> and its guard
  \<open>ActiveInvocation\<close> in \<open>runtime.rs\<close>), with the routing of input and cancellation events to it.

  Cancellation tokens and input buffers are shared objects (\<open>Arc\<close>) that the table, the guard
  and the handler all hold. The world is therefore a store: a token is the number of a cell that
  says whether it is cancelled, a buffer the number of an \<open>input_buffer\<close>. The hash map is an
  association list without duplicate keys; the one place that iterates over it, \<open>cancel_all\<close>,
  does the same to every entry.
\<close>

section \<open>The store\<close>

record active_state =
  as_node_id :: string
  as_cancellation :: nat
  as_input :: "nat option"
  as_input_overflow :: nat

record world =
  tokens :: "nat \<Rightarrow> bool"
  next_token :: nat
  buffers :: "nat \<Rightarrow> input_buffer"
  next_buffer :: nat
  active :: "(string \<times> active_state) list"

definition empty_world :: world where
  "empty_world = \<lparr>tokens = (\<lambda>_. False), next_token = 0, buffers = (\<lambda>_. input_buffer_new 0),
     next_buffer = 0, active = []\<rparr>"

definition token_new :: "world \<Rightarrow> nat \<times> world" where
  "token_new w = (next_token w,
     w\<lparr>tokens := (tokens w)(next_token w := False), next_token := Suc (next_token w)\<rparr>)"

definition token_cancel :: "nat \<Rightarrow> world \<Rightarrow> world" where
  "token_cancel t w = w\<lparr>tokens := (tokens w)(t := True)\<rparr>"

definition is_cancelled :: "nat \<Rightarrow> world \<Rightarrow> bool" where
  "is_cancelled t w = tokens w t"

definition buffer_new :: "nat \<Rightarrow> world \<Rightarrow> nat \<times> world" where
  "buffer_new maximum w = (next_buffer w,
     w\<lparr>buffers := (buffers w)(next_buffer w := input_buffer_new maximum), next_buffer := Suc (next_buffer w)\<rparr>)"

definition buffer_close :: "nat \<Rightarrow> world \<Rightarrow> world" where
  "buffer_close b w = w\<lparr>buffers := (buffers w)(b := input_close (buffers w b))\<rparr>"

definition close_input :: "nat option \<Rightarrow> world \<Rightarrow> world" where
  "close_input input w = (case input of None \<Rightarrow> w | Some b \<Rightarrow> buffer_close b w)"

section \<open>The table\<close>

record active_invocation =
  ai_id :: string
  ai_cancellation :: nat
  ai_input :: "nat option"
  ai_input_overflow :: nat
  ai_cancel_on_drop :: bool

definition track ::
  "string \<Rightarrow> string \<Rightarrow> nat \<Rightarrow> bool \<Rightarrow> world \<Rightarrow> active_invocation option \<times> world" where
  "track call_id node_id cancellation duplex w =
     (case map_of (active w) call_id of
        Some _ \<Rightarrow> (None, w)
      | None \<Rightarrow>
        (let (input, w) =
           (if duplex then (case buffer_new DEFAULT_PENDING_INPUT_BYTES w of (b, w') \<Rightarrow> (Some b, w'))
            else (None, w));
             (input_overflow, w) = token_new w in
         (Some \<lparr>ai_id = call_id, ai_cancellation = cancellation, ai_input = input,
                ai_input_overflow = input_overflow, ai_cancel_on_drop = True\<rparr>,
          w\<lparr>active := (call_id, \<lparr>as_node_id = node_id, as_cancellation = cancellation,
                               as_input = input, as_input_overflow = input_overflow\<rparr>) # active w\<rparr>)))"

definition untrack :: "string \<Rightarrow> world \<Rightarrow> world" where
  "untrack call_id w =
     (let removed = map_of (active w) call_id;
          w = w\<lparr>active := AList.delete call_id (active w)\<rparr> in
      case Option.bind removed as_input of None \<Rightarrow> w | Some b \<Rightarrow> buffer_close b w)"

definition cancel :: "string \<Rightarrow> world \<Rightarrow> world" where
  "cancel call_id w =
     (case map_of (active w) call_id of
        None \<Rightarrow> w
      | Some st \<Rightarrow> close_input (as_input st) (token_cancel (as_cancellation st) w))"

definition active_input ::
  "string \<Rightarrow> string \<Rightarrow> u64 \<Rightarrow> string \<Rightarrow> world \<Rightarrow> input_disposition \<times> world" where
  "active_input call_id node_id seq payload w =
     (case map_of (active w) call_id of
        None \<Rightarrow> (Ignored, w)
      | Some st \<Rightarrow>
          if as_node_id st \<noteq> node_id then (Ignored, w)
          else
            (let (disposition, w) =
               (case as_input st of
                  None \<Rightarrow> (Ignored, w)
                | Some b \<Rightarrow>
                    (case input_push seq payload (buffers w b) of
                       (d, buf) \<Rightarrow> (d, w\<lparr>buffers := (buffers w)(b := buf)\<rparr>))) in
             if disposition = Overflow then (disposition, token_cancel (as_input_overflow st) w)
             else (disposition, w)))"

definition stop_entry :: "string \<times> active_state \<Rightarrow> world \<Rightarrow> world" where
  "stop_entry e w = close_input (as_input (snd e)) (token_cancel (as_cancellation (snd e)) w)"

definition cancel_all :: "world \<Rightarrow> world" where
  "cancel_all w = fold stop_entry (active w) (w\<lparr>active := []\<rparr>)"

text \<open>The guard: cancelling it, disarming it after the result was delivered, dropping it.\<close>

definition guard_cancel :: "active_invocation \<Rightarrow> world \<Rightarrow> world" where
  "guard_cancel guard w = token_cancel (ai_cancellation guard) w"

definition disarm :: "active_invocation \<Rightarrow> active_invocation" where
  "disarm guard = guard\<lparr>ai_cancel_on_drop := False\<rparr>"

definition guard_drop :: "active_invocation \<Rightarrow> world \<Rightarrow> world" where
  "guard_drop guard w =
     untrack (ai_id guard)
       (if ai_cancel_on_drop guard then token_cancel (ai_cancellation guard) w else w)"

text \<open>\<open>None\<close> is the \<open>unreachable!\<close> branch.\<close>

definition route_invocation_control :: "node_session_event \<Rightarrow> world \<Rightarrow> world option" where
  "route_invocation_control event w =
     (case event of
        InvocationInput invoke_id node_id seq payload_json \<Rightarrow>
          (case active_input invoke_id node_id seq payload_json w of
             (disposition, w') \<Rightarrow>
               Some (if disposition = Overflow then cancel invoke_id w' else w'))
      | InvocationCancelled invoke_id _ \<Rightarrow> Some (cancel invoke_id w)
      | Invocation _ \<Rightarrow> None)"

text \<open>What a new invocation does first: a fresh token, then \<open>track\<close>.\<close>

definition begin_invocation ::
  "string \<Rightarrow> string \<Rightarrow> bool \<Rightarrow> world \<Rightarrow> (nat \<times> active_invocation option) \<times> world" where
  "begin_invocation call_id node_id duplex w =
     (case token_new w of (t, w1) \<Rightarrow>
      case track call_id node_id t duplex w1 of (guard, w2) \<Rightarrow> ((t, guard), w2))"

section \<open>Invariant\<close>

text \<open>
  No two entries share an object: the keys are distinct, so are all tokens of all entries and all
  buffers, and every reference is to an allocated object.
\<close>

definition entry_tokens :: "active_state \<Rightarrow> nat list" where
  "entry_tokens st = [as_cancellation st, as_input_overflow st]"

definition entry_buffers :: "active_state \<Rightarrow> nat list" where
  "entry_buffers st = (case as_input st of None \<Rightarrow> [] | Some b \<Rightarrow> [b])"

definition all_tokens :: "world \<Rightarrow> nat list" where
  "all_tokens w = concat (map (entry_tokens \<circ> snd) (active w))"

definition all_buffers :: "world \<Rightarrow> nat list" where
  "all_buffers w = concat (map (entry_buffers \<circ> snd) (active w))"

definition world_invar :: "world \<Rightarrow> bool" where
  "world_invar w \<longleftrightarrow>
     distinct (map fst (active w)) \<and> distinct (all_tokens w) \<and> distinct (all_buffers w) \<and>
     (\<forall>t \<in> set (all_tokens w). t < next_token w) \<and> (\<forall>b \<in> set (all_buffers w). b < next_buffer w)"

lemma store_frame [frame_laws, simp]:
  "active (token_cancel t w) = active w" "next_token (token_cancel t w) = next_token w"
  "next_buffer (token_cancel t w) = next_buffer w" "buffers (token_cancel t w) = buffers w"
  "active (buffer_close b w) = active w" "next_token (buffer_close b w) = next_token w"
  "next_buffer (buffer_close b w) = next_buffer w" "tokens (buffer_close b w) = tokens w"
  "active (close_input i w) = active w" "next_token (close_input i w) = next_token w"
  "next_buffer (close_input i w) = next_buffer w" "tokens (close_input i w) = tokens w"
  by (simp_all add: token_cancel_def buffer_close_def close_input_def split: option.splits)

lemma all_refs_cong:
  "active w' = active w \<Longrightarrow> all_tokens w' = all_tokens w \<and> all_buffers w' = all_buffers w"
  by (simp add: all_tokens_def all_buffers_def)

lemma world_invar_cong:
  "active w' = active w \<Longrightarrow> next_token w \<le> next_token w' \<Longrightarrow> next_buffer w \<le> next_buffer w' \<Longrightarrow>
   world_invar w \<Longrightarrow> world_invar w'"
  using all_refs_cong [of w' w] by (auto simp: world_invar_def)

lemma distinct_concat_filter:
  "distinct (concat (map f xs)) \<Longrightarrow> distinct (concat (map f (filter P xs)))"
  by (induction xs) auto

lemma entries_disjoint:
  assumes "distinct (concat (map f xs))" and "x \<in> set xs" and "y \<in> set xs" and "x \<noteq> y"
  shows "set (f x) \<inter> set (f y) = {}"
  using assms by (induction xs) auto

lemma map_option_upd [simp]: "Some b \<noteq> x \<Longrightarrow> map_option (f(b := y)) x = map_option f x"
  by (cases x) auto

lemma begin_invocation_invar [step_intros]:
  assumes "world_invar w"
  shows "world_invar (snd (begin_invocation i n duplex w))"
proof -
  have t: "t < next_token w" if "t \<in> set (all_tokens w)" for t
    using assms that by (simp add: world_invar_def)
  have b: "b < next_buffer w" if "b \<in> set (all_buffers w)" for b
    using assms that by (simp add: world_invar_def)
  have nt: "next_token w \<notin> set (all_tokens w)" "Suc (next_token w) \<notin> set (all_tokens w)"
    "next_buffer w \<notin> set (all_buffers w)" using t b by fastforce+
  have up: "\<forall>t \<in> set (all_tokens w). t < Suc (next_token w)" "\<forall>t \<in> set (all_tokens w). t < Suc (Suc (next_token w))"
    "\<forall>b \<in> set (all_buffers w). b < Suc (next_buffer w)"
    using t b by (auto intro: less_SucI)
  show ?thesis
  proof (cases "map_of (active w) i")
    case None
    then have "i \<notin> fst ` set (active w)" by (simp add: map_of_eq_None_iff)
    then show ?thesis using assms nt up None
      by (cases duplex) (simp_all add: begin_invocation_def token_new_def track_def buffer_new_def
          world_invar_def all_tokens_def all_buffers_def entry_tokens_def entry_buffers_def)
  next
    case (Some st)
    then show ?thesis using assms up
      by (simp add: begin_invocation_def token_new_def track_def world_invar_def all_tokens_def
          all_buffers_def)
  qed
qed

lemma untrack_invar [step_intros]:
  assumes "world_invar w"
  shows "world_invar (untrack i w)"
proof -
  have a: "active (untrack i w) = filter (\<lambda>x. fst x \<noteq> i) (active w)"
    "next_token (untrack i w) = next_token w" "next_buffer (untrack i w) = next_buffer w"
    by (simp_all add: untrack_def Let_def AList.delete_eq split: option.split)
      (auto intro: filter_cong)
  show ?thesis
    using assms distinct_concat_filter [of "entry_tokens \<circ> snd" "active w"]
      distinct_concat_filter [of "entry_buffers \<circ> snd" "active w"]
    by (auto simp: world_invar_def all_tokens_def all_buffers_def a distinct_map_filter)
qed

lemma cancel_frame [frame_laws, simp]:
  "active (cancel i w) = active w" "next_token (cancel i w) = next_token w"
  "next_buffer (cancel i w) = next_buffer w"
  by (simp_all add: cancel_def split: option.split)

lemma active_input_frame [frame_laws, simp]:
  "active (snd (active_input i n seq p w)) = active w"
  "next_token (snd (active_input i n seq p w)) = next_token w"
  "next_buffer (snd (active_input i n seq p w)) = next_buffer w"
  by (auto simp: active_input_def Let_def split: option.split prod.split)

lemma route_frame:
  "route_invocation_control ev w = Some w' \<Longrightarrow>
   active w' = active w \<and> next_token w' = next_token w \<and> next_buffer w' = next_buffer w"
  using active_input_frame
proof (cases ev)
  case (InvocationInput i n seq p)
  obtain d w1 where d: "active_input i n seq p w = (d, w1)" by (cases "active_input i n seq p w")
  then show "route_invocation_control ev w = Some w' \<Longrightarrow> ?thesis"
    using active_input_frame [of i n seq p w]
    by (auto simp: route_invocation_control_def InvocationInput split: if_splits)
qed (auto simp: route_invocation_control_def)

lemma guard_drop_invar [step_intros]: "world_invar w \<Longrightarrow> world_invar (guard_drop g w)"
  by (auto simp: guard_drop_def intro!: untrack_invar world_invar_cong [of "token_cancel (ai_cancellation g) w" w])

lemma fold_frame: "active (fold stop_entry es w) = active w"
  by (induction es arbitrary: w) (auto simp: stop_entry_def)

lemma cancel_all_active [simp]: "active (cancel_all w) = []"
  by (simp add: cancel_all_def fold_frame)

lemma cancel_all_invar [step_intros]: "world_invar (cancel_all w)"
  by (simp add: world_invar_def all_tokens_def all_buffers_def)

section \<open>Steps\<close>

inductive world_step :: "world \<Rightarrow> world \<Rightarrow> bool" where
  "world_step w (snd (begin_invocation i n duplex w))"
| "route_invocation_control ev w = Some w' \<Longrightarrow> world_step w w'"
| "world_step w (guard_cancel g w)"
| "world_step w (guard_drop g w)"
| "world_step w (cancel_all w)"
| "world_step w (w\<lparr>buffers := (buffers w)(b := snd (input_recv (buffers w b)))\<rparr>)"

lemma world_step_invar: "world_step w w' \<Longrightarrow> world_invar w \<Longrightarrow> world_invar w'"
proof (induction rule: world_step.induct)
  case (2 ev w w')
  from route_frame [OF this(1)] show ?case using world_invar_cong [of w' w] 2(2) by simp
next
  case (3 w g)
  then show ?case by (auto simp: guard_cancel_def intro: world_invar_cong [of _ w])
next
  case (6 w b)
  then show ?case by (auto intro: world_invar_cong [of _ w])
qed (auto intro: step_intros)

lemma world_steps_invar: "world_step\<^sup>*\<^sup>* empty_world w \<Longrightarrow> world_invar w"
proof (induction rule: rtranclp_induct)
  case base
  show ?case by (simp add: world_invar_def empty_world_def all_tokens_def all_buffers_def)
next
  case (step y z)
  then show ?case by (blast intro: world_step_invar)
qed

text \<open>A token stays cancelled, a buffer stays closed.\<close>

lemma input_push_closed: "closed b \<Longrightarrow> input_push seq p b = (Ignored, b)"
  by (simp add: input_push_def)

section \<open>Isolation\<close>

text \<open>What an entry sees: its two tokens and its buffer.\<close>

definition view :: "world \<Rightarrow> active_state \<Rightarrow> bool \<times> bool \<times> input_buffer option" where
  "view w st = (tokens w (as_cancellation st), tokens w (as_input_overflow st),
     map_option (buffers w) (as_input st))"

lemma other_entry:
  assumes "world_invar w" and "map_of (active w) i = Some st" and "map_of (active w) j = Some other"
    and "i \<noteq> j"
  shows "set (entry_tokens st) \<inter> set (entry_tokens other) = {}"
    and "set (entry_buffers st) \<inter> set (entry_buffers other) = {}"
  using assms
    entries_disjoint [of "entry_tokens \<circ> snd" "active w" "(i, st)" "(j, other)"]
    entries_disjoint [of "entry_buffers \<circ> snd" "active w" "(i, st)" "(j, other)"]
  by (auto simp: world_invar_def all_tokens_def all_buffers_def dest: map_of_SomeD)

lemma cancel_view:
  assumes "world_invar w" and "map_of (active w) j = Some other" and "i \<noteq> j"
  shows "view (cancel i w) other = view w other"
proof (cases "map_of (active w) i")
  case (Some st)
  from other_entry [OF assms(1) Some assms(2,3)] show ?thesis
    by (auto simp: view_def cancel_def Some close_input_def buffer_close_def token_cancel_def
        entry_tokens_def entry_buffers_def split: option.splits)
qed (simp add: cancel_def view_def)

lemma active_input_view:
  assumes "world_invar w" and "map_of (active w) j = Some other" and "i \<noteq> j"
  shows "view (snd (active_input i n seq p w)) other = view w other"
proof (cases "map_of (active w) i")
  case (Some st)
  from other_entry [OF assms(1) Some assms(2,3)] show ?thesis
    by (auto simp: view_def active_input_def Some Let_def token_cancel_def
        entry_tokens_def entry_buffers_def split: option.splits prod.splits)
qed (simp add: active_input_def view_def)

text \<open>A stopped invocation: its token is cancelled and its buffer, if any, is closed.\<close>

definition stopped :: "world \<Rightarrow> active_state \<Rightarrow> bool" where
  "stopped w st \<longleftrightarrow> tokens w (as_cancellation st) \<and>
     (case as_input st of None \<Rightarrow> True | Some b \<Rightarrow> closed (buffers w b))"

lemma stop_entry_stops [simp]: "stopped (stop_entry e w) (snd e)"
  by (simp add: stopped_def stop_entry_def close_input_def buffer_close_def token_cancel_def
      input_close_def close_locked_def split: option.split)

lemma stop_entry_mono: "stopped w st \<Longrightarrow> stopped (stop_entry e w) st"
  by (auto simp: stopped_def stop_entry_def close_input_def buffer_close_def token_cancel_def
      input_close_def close_locked_def split: option.splits)

lemma fold_stop_mono: "stopped w st \<Longrightarrow> stopped (fold stop_entry es w) st"
  by (induction es arbitrary: w) (auto intro: stop_entry_mono)

lemma fold_stops: "e \<in> set es \<Longrightarrow> stopped (fold stop_entry es w) (snd e)"
proof (induction es arbitrary: w)
  case (Cons a es)
  then show ?case using fold_stop_mono [OF stop_entry_stops, of es a w] by auto
qed simp

lemma cancel_eq: "cancel i w = (case map_of (active w) i of None \<Rightarrow> w | Some st \<Rightarrow> stop_entry (i, st) w)"
  by (simp add: cancel_def stop_entry_def split: option.split)

lemma cancel_entry: "map_of (active w) i = Some st \<Longrightarrow> stopped (cancel i w) st"
  using stop_entry_stops [of "(i, st)" w] by (simp add: cancel_eq)

lemma cancel_tokens_mono: "tokens w t \<Longrightarrow> tokens (cancel i w) t"
  by (simp add: cancel_def close_input_def buffer_close_def token_cancel_def split: option.split)

section \<open>Properties\<close>

fun event_id :: "node_session_event \<Rightarrow> string" where
  "event_id (Invocation call) = inv_id call"
| "event_id (InvocationInput i _ _ _) = i"
| "event_id (InvocationCancelled i _) = i"

text \<open>
  Isolation: in every world the runtime can reach, an input or cancellation event for one
  invocation leaves every other invocation of the session tracked, with its cancellation and
  overflow tokens and its input buffer as they were.
\<close>

lemma control_isolated:
  assumes "world_step\<^sup>*\<^sup>* empty_world w" and "route_invocation_control event w = Some w'"
    and "map_of (active w) j = Some other" and "event_id event \<noteq> j"
  shows "map_of (active w') j = Some other \<and> view w' other = view w other"
proof -
  note invar = world_steps_invar [OF assms(1)]
  have "view w' other = view w other"
  proof (cases event)
    case (Invocation call)
    then show ?thesis using assms(2) by (simp add: route_invocation_control_def)
  next
    case (InvocationInput i n seq p)
    obtain d w1 where d: "active_input i n seq p w = (d, w1)" by (cases "active_input i n seq p w")
    have i: "i \<noteq> j" using assms(4) InvocationInput by simp
    have a1: "active w1 = active w" "next_token w1 = next_token w" "next_buffer w1 = next_buffer w"
      using active_input_frame [of i n seq p w] d by simp_all
    have v1: "view w1 other = view w other" using active_input_view [OF invar assms(3) i, of n seq p] d by simp
    have "view (cancel i w1) other = view w1 other"
      using cancel_view [of w1 j other i] world_invar_cong [of w1 w] invar a1 assms(3) i by simp
    then show ?thesis using assms(2) d v1
      by (auto simp: InvocationInput route_invocation_control_def split: if_splits)
  next
    case (InvocationCancelled i n)
    then show ?thesis using assms(2,4) cancel_view [OF invar assms(3), of i]
      by (simp add: route_invocation_control_def)
  qed
  then show ?thesis using route_frame [OF assms(2)] assms(3) by simp
qed

definition demo_world :: world where
  "demo_world = snd (begin_invocation ''b'' ''n'' True (snd (begin_invocation ''a'' ''n'' True empty_world)))"

lemma demo_world_reachable: "world_step\<^sup>*\<^sup>* empty_world demo_world"
proof -
  have "world_step empty_world (snd (begin_invocation ''a'' ''n'' True empty_world))"
    by (rule world_step.intros)
  moreover have "world_step (snd (begin_invocation ''a'' ''n'' True empty_world)) demo_world"
    unfolding demo_world_def by (rule world_step.intros)
  ultimately show ?thesis by auto
qed

lemmas begin_simps = begin_invocation_def token_new_def track_def buffer_new_def empty_world_def

lemma demo_world_entries:
  "map_of (active demo_world) ''a'' = Some \<lparr>as_node_id = ''n'', as_cancellation = 0, as_input = Some 0,
     as_input_overflow = 1\<rparr>"
  "map_of (active demo_world) ''b'' = Some \<lparr>as_node_id = ''n'', as_cancellation = 2, as_input = Some 1,
     as_input_overflow = 3\<rparr>"
  by (simp_all add: demo_world_def begin_simps)

lemma control_isolated_witness:
  "\<exists>w'. route_invocation_control (InvocationCancelled ''a'' ''n'') demo_world = Some w' \<and>
     map_of (active w') ''b'' = map_of (active demo_world) ''b''"
proof -
  obtain w' where w': "route_invocation_control (InvocationCancelled ''a'' ''n'') demo_world = Some w'"
    by (simp add: route_invocation_control_def)
  from control_isolated [OF demo_world_reachable w' demo_world_entries(2)] w' show ?thesis
    by (simp add: demo_world_entries)
qed

text \<open>
  Overflow stops the invocation: an input that does not fit the buffer of its invocation
  cancels that invocation, raises its overflow token and closes its buffer; an input for a
  running invocation that names another node changes nothing.
\<close>

lemma overflow_cancels:
  assumes "map_of (active w) i = Some st" and "as_input st = Some b"
    and "fst (input_push seq payload (buffers w b)) = Overflow"
  shows "\<exists>w'. route_invocation_control (InvocationInput i (as_node_id st) seq payload) w = Some w' \<and>
      stopped w' st \<and> tokens w' (as_input_overflow st) \<and>
      (\<forall>n. n = as_node_id st \<or>
        route_invocation_control (InvocationInput i n seq payload) w = Some w)"
proof -
  obtain d w1 where d: "active_input i (as_node_id st) seq payload w = (d, w1)"
    by (cases "active_input i (as_node_id st) seq payload w")
  then have "d = Overflow" "tokens w1 (as_input_overflow st)" "active w1 = active w"
    using assms by (auto simp: active_input_def token_cancel_def Let_def split: prod.splits if_splits)
  then show ?thesis
    using assms d cancel_entry [of w1 i st] cancel_tokens_mono [of w1 "as_input_overflow st" i]
    by (auto simp: route_invocation_control_def active_input_def)
qed

lemma overflow_cancels_witness:
  "\<exists>payload w'. route_invocation_control (InvocationInput ''a'' ''n'' 0 payload) demo_world = Some w' \<and>
     tokens w' 0 \<and> tokens w' 1"
proof -
  define payload where "payload = replicate 65537 (CHR ''x'')"
  have "length payload = 65537" unfolding payload_def by (rule length_replicate)
  then have "fst (input_push 0 payload (buffers demo_world 0)) = Overflow"
    by (simp add: demo_world_def begin_simps input_push_def input_buffer_new_def
        DEFAULT_PENDING_INPUT_BYTES_def Let_def checked_add_usize_def usize_max_def)
  from overflow_cancels [OF demo_world_entries(1) _ this] show ?thesis
    by (auto simp: stopped_def)
qed

text \<open>
  Retiring a session: \<open>cancel_all\<close> cancels the token and closes the buffer of every invocation
  that was running, and leaves none tracked.
\<close>

lemma cancel_all_cancels:
  "active (cancel_all w) = [] \<and> (\<forall>e \<in> set (active w). stopped (cancel_all w) (snd e))"
  by (simp add: cancel_all_def fold_frame fold_stops)

lemma cancel_all_cancels_witness: "tokens (cancel_all demo_world) 0 \<and> tokens (cancel_all demo_world) 2"
  using cancel_all_cancels [of demo_world] map_of_SomeD [OF demo_world_entries(1)]
    map_of_SomeD [OF demo_world_entries(2)] by (fastforce simp: stopped_def)

text \<open>
  One execution per identifier: an invocation whose identifier is already tracked gets no
  guard, and the running one is not disturbed; any other gets an entry of its own with fresh,
  uncancelled tokens and, if it is duplex, an empty open buffer.
\<close>

lemma one_execution_per_id:
  assumes "world_step\<^sup>*\<^sup>* empty_world w" and "begin_invocation i n duplex w = ((t, guard), w')"
  shows "case map_of (active w) i of
      Some st \<Rightarrow> guard = None \<and> active w' = active w \<and> view w' st = view w st
    | None \<Rightarrow> (\<exists>st g. guard = Some g \<and> ai_id g = i \<and> ai_cancellation g = t \<and> as_cancellation st = t \<and>
        active w' = (i, st) # active w \<and>
        view w' st = (False, False, if duplex then Some (input_buffer_new (64 * 1024)) else None))"
proof (cases "map_of (active w) i")
  case None
  then show ?thesis using assms(2)
    by (auto simp: begin_invocation_def token_new_def track_def buffer_new_def view_def Let_def
        DEFAULT_PENDING_INPUT_BYTES_def split: if_splits)
next
  case (Some st)
  have "(i, st) \<in> set (active w)" using Some by (rule map_of_SomeD)
  then have "as_cancellation st \<in> set (all_tokens w)" "as_input_overflow st \<in> set (all_tokens w)"
    by (force simp: all_tokens_def entry_tokens_def)+
  then have "as_cancellation st \<noteq> next_token w" "as_input_overflow st \<noteq> next_token w"
    using world_steps_invar [OF assms(1)] by (auto simp: world_invar_def)
  then show ?thesis using Some assms(2)
    by (auto simp: begin_invocation_def token_new_def track_def view_def)
qed

lemma one_execution_per_id_witness:
  "snd (fst (begin_invocation ''a'' ''n'' False demo_world)) = None"
  using one_execution_per_id [OF demo_world_reachable, of "''a''" "''n''" False]
  by (cases "begin_invocation ''a'' ''n'' False demo_world") (auto simp: demo_world_entries)

end
