(* ===== verification/CommandRuntime.thy ===== *)
theory CommandRuntime
  imports ActiveInvocations
begin

text \<open>
  The bounded command runtime of \<open>runtime.rs\<close>: its builder, and the evaluation of one invocation
  from the checks before the handler to the result.

  Handlers and the admission policy are code of the embedding: the type variables \<open>'h\<close> and \<open>'p\<close>
  stand for them, and what they do in one evaluation is given by the environment \<open>eval_env\<close>: when
  (in nanoseconds after the start) a future is ready and with what, when a token is cancelled.
  \<open>tokio::time::timeout\<close> polls the future before the timer, and \<open>select!\<close> with \<open>biased\<close> its first
  branch first; so a future that is ready at the deadline still counts, and a cancellation at the
  instant of another event wins. An evaluation that waits for ever has the value \<open>None\<close>.
\<close>

section \<open>Durations\<close>

definition from_millis :: "nat \<Rightarrow> duration" where "from_millis ms = ms * 1000000"
definition from_secs :: "nat \<Rightarrow> duration" where "from_secs s = s * 1000000000"

definition DEFAULT_MAX_CONCURRENCY :: nat where "DEFAULT_MAX_CONCURRENCY = 8"
definition DEFAULT_MAX_INPUT_BYTES :: nat where "DEFAULT_MAX_INPUT_BYTES = 256 * 1024"
definition DEFAULT_MAX_OUTPUT_BYTES :: nat where "DEFAULT_MAX_OUTPUT_BYTES = 256 * 1024"
definition DEFAULT_HANDLER_TIMEOUT :: duration where "DEFAULT_HANDLER_TIMEOUT = from_secs 30"
definition DEFAULT_MAX_HANDLER_TIMEOUT :: duration where "DEFAULT_MAX_HANDLER_TIMEOUT = from_secs (5 * 60)"
definition DEFAULT_RESULT_GRACE :: duration where "DEFAULT_RESULT_GRACE = from_millis 100"

definition nonzero_duration :: "duration \<Rightarrow> duration" where
  "nonzero_duration value = max value (from_millis 1)"

section \<open>The builder\<close>

datatype handler_error = HandlerError (he_code: string) (he_message: string)

datatype runtime_build_error =
    EmptyCapability | EmptyCommand | ReservedCommand string | DuplicateCommand string

record 'h registration =
  reg_command :: string
  reg_handler :: 'h
  reg_duplex :: bool

record 'h registered_handler =
  rh_handler :: 'h
  rh_duplex :: bool

record ('h, 'p) command_runtime_builder =
  bu_registrations :: "'h registration list"
  bu_capabilities :: "string list"
  bu_admission_policy :: "'p option"
  bu_max_concurrency :: nat
  bu_max_input_bytes :: nat
  bu_max_output_bytes :: nat
  bu_default_timeout :: duration
  bu_max_timeout :: duration
  bu_result_grace :: duration

definition builder_default :: "('h, 'p) command_runtime_builder" where
  "builder_default =
     \<lparr>bu_registrations = [], bu_capabilities = [], bu_admission_policy = None,
      bu_max_concurrency = DEFAULT_MAX_CONCURRENCY, bu_max_input_bytes = DEFAULT_MAX_INPUT_BYTES,
      bu_max_output_bytes = DEFAULT_MAX_OUTPUT_BYTES, bu_default_timeout = DEFAULT_HANDLER_TIMEOUT,
      bu_max_timeout = DEFAULT_MAX_HANDLER_TIMEOUT, bu_result_grace = DEFAULT_RESULT_GRACE\<rparr>"

definition bu_capability where
  "bu_capability capability b = b\<lparr>bu_capabilities := bu_capabilities b @ [capability]\<rparr>"

definition bu_register where
  "bu_register command handler duplex b = b\<lparr>bu_registrations := bu_registrations b @
     [\<lparr>reg_command = command, reg_handler = handler, reg_duplex = duplex\<rparr>]\<rparr>"

definition bu_command where "bu_command command handler b = bu_register command handler False b"
definition bu_duplex_command where "bu_duplex_command command handler b = bu_register command handler True b"
definition bu_policy where "bu_policy policy b = b\<lparr>bu_admission_policy := Some policy\<rparr>"
definition bu_set_concurrency where "bu_set_concurrency maximum b = b\<lparr>bu_max_concurrency := max maximum 1\<rparr>"
definition bu_set_input where "bu_set_input maximum b = b\<lparr>bu_max_input_bytes := max maximum 1\<rparr>"
definition bu_set_output where "bu_set_output maximum b = b\<lparr>bu_max_output_bytes := max maximum 1\<rparr>"
definition bu_set_default_timeout where
  "bu_set_default_timeout timeout b = b\<lparr>bu_default_timeout := nonzero_duration timeout\<rparr>"
definition bu_set_max_timeout where
  "bu_set_max_timeout timeout b = b\<lparr>bu_max_timeout := nonzero_duration timeout\<rparr>"
definition bu_set_grace where "bu_set_grace grace b = b\<lparr>bu_result_grace := grace\<rparr>"

text \<open>A \<open>BTreeMap\<close> as the list of its entries in the order of the keys; \<open>insert\<close> tells the old value.\<close>

fun btree_insert :: "'k::linorder \<Rightarrow> 'v \<Rightarrow> ('k \<times> 'v) list \<Rightarrow> 'v option \<times> ('k \<times> 'v) list" where
  "btree_insert k v [] = (None, [(k, v)])"
| "btree_insert k v ((k', v') # es) =
     (if k < k' then (None, (k, v) # (k', v') # es)
      else if k = k' then (Some v', (k, v) # es)
      else (case btree_insert k v es of (old, es') \<Rightarrow> (old, (k', v') # es')))"

record ('h, 'p) command_runtime =
  handlers :: "(string \<times> 'h registered_handler) list"
  capabilities :: "string list"
  admission_policy :: "'p option"
  max_permits :: nat
  delivery_capacity :: nat
  max_input_bytes :: nat
  max_output_bytes :: nat
  default_timeout :: duration
  max_timeout :: duration
  result_grace :: duration

text \<open>The set of capabilities is a \<open>BTreeSet\<close>: a map to units.\<close>

fun build_capabilities :: "string list \<Rightarrow> (string \<times> unit) list \<Rightarrow> runtime_build_error + (string \<times> unit) list" where
  "build_capabilities [] acc = Inr acc"
| "build_capabilities (c # cs) acc =
     (let capability = trim c in
      if capability = [] then Inl EmptyCapability
      else build_capabilities cs (snd (btree_insert capability () acc)))"

definition reserved :: "string \<Rightarrow> bool" where
  "reserved cmd = (cmd = ''system'' \<or> starts_with cmd ''system.'')"

fun build_handlers ::
  "'h registration list \<Rightarrow> (string \<times> 'h registered_handler) list \<Rightarrow>
   runtime_build_error + (string \<times> 'h registered_handler) list" where
  "build_handlers [] acc = Inr acc"
| "build_handlers (r # rs) acc =
     (let cmd = trim (reg_command r) in
      if cmd = [] then Inl EmptyCommand
      else if reserved cmd then Inl (ReservedCommand cmd)
      else case btree_insert cmd \<lparr>rh_handler = reg_handler r, rh_duplex = reg_duplex r\<rparr> acc of
        (Some _, _) \<Rightarrow> Inl (DuplicateCommand cmd)
      | (None, acc') \<Rightarrow> build_handlers rs acc')"

definition build :: "('h, 'p) command_runtime_builder \<Rightarrow> runtime_build_error + ('h, 'p) command_runtime" where
  "build b =
     bind_result (build_capabilities (bu_capabilities b) []) (\<lambda>capabilities.
     bind_result (build_handlers (bu_registrations b) []) (\<lambda>handlers.
     let max_timeout = nonzero_duration (bu_max_timeout b) in
     Inr \<lparr>handlers = handlers, capabilities = map fst capabilities,
          admission_policy = bu_admission_policy b,
          max_permits = max (bu_max_concurrency b) 1, delivery_capacity = max (bu_max_concurrency b) 1,
          max_input_bytes = max (bu_max_input_bytes b) 1, max_output_bytes = max (bu_max_output_bytes b) 1,
          default_timeout = min (nonzero_duration (bu_default_timeout b)) max_timeout,
          max_timeout = max_timeout, result_grace = bu_result_grace b\<rparr>))"

definition command_names :: "('h, 'p) command_runtime \<Rightarrow> string list" where
  "command_names rt = map fst (handlers rt)"

definition runtime_activate :: "('h, 'p) command_runtime \<Rightarrow> node_connect_options \<Rightarrow> node_connect_options" where
  "runtime_activate rt opts =
     activate_options (fold with_command (command_names rt) (fold with_capability (capabilities rt) opts))"

section \<open>Evaluation\<close>

definition failure :: "string \<Rightarrow> string \<Rightarrow> invocation_result" where
  "failure code message = Failure code message"

definition handler_failure ::
  "(json \<Rightarrow> serialized) \<Rightarrow> handler_error \<Rightarrow> string \<Rightarrow> string \<Rightarrow> nat \<Rightarrow> invocation_result" where
  "handler_failure ser error fallback_code fallback_message maximum =
     (let code = (if he_code error = [] then fallback_code else he_code error);
          message = (if he_message error = [] then fallback_message else he_message error);
          payload = JObject [(''code'', JString code), (''message'', JString message)] in
      if serialized_json_within_limit (ser payload) maximum then Failure code message
      else failure ''OUTPUT_TOO_LARGE'' ''command error exceeds the runtime limit'')"

text \<open>What a future does: it panics or returns, at some time, or never.\<close>

datatype 'a outcome = Panics | Returns 'a

record eval_env =
  session_commands :: "string list option"
  session_retired :: bool
  elapsed_since_receipt :: "nat option"
  policy_panics :: bool
  policy_ready :: "(duration \<times> (handler_error + unit) outcome) option"
  cancelled_at :: "duration option"
  overflowed_before :: bool
  cancelled_before :: bool
  handler_panics :: bool
  handler_ready :: "(duration \<times> (handler_error + json) outcome) option"
  overflow_at :: "duration option"

text \<open>\<open>advertises_command\<close> of the session, where there is one.\<close>

definition resolve_session_handler ::
  "('h, 'p) command_runtime \<Rightarrow> node_invocation \<Rightarrow> string list option \<Rightarrow>
   invocation_result + 'h registered_handler" where
  "resolve_session_handler rt call session =
     (if (case session of None \<Rightarrow> False | Some commands \<Rightarrow> inv_command call \<notin> set commands)
        then Inl (failure ''COMMAND_NOT_ADVERTISED'' ''command is outside the active connection manifest'')
      else case map_of (handlers rt) (inv_command call) of
        None \<Rightarrow> Inl (failure ''COMMAND_NOT_FOUND'' ''no handler registered for command'')
      | Some registration \<Rightarrow> Inr registration)"

definition resolve_timeout ::
  "('h, 'p) command_runtime \<Rightarrow> node_invocation \<Rightarrow> nat option \<Rightarrow> unit + duration option" where
  "resolve_timeout rt call elapsed =
     (if inv_timeout_ms call = Some 0 then Inr None
      else
        let total = (case inv_timeout_ms call of
              None \<Rightarrow> default_timeout rt
            | Some milliseconds \<Rightarrow>
                min (from_millis (unat milliseconds)) (max_timeout rt) - result_grace rt);
            waited = (case elapsed of None \<Rightarrow> 0 | Some e \<Rightarrow> e) in
        if waited \<le> total \<and> total - waited \<noteq> 0 then Inr (Some (total - waited)) else Inl ())"

text \<open>
  \<open>timeout(d, f)\<close> for an optional deadline \<open>d\<close> and a future that is ready as \<open>ready\<close> says: the time
  and, unless the deadline passed, the outcome. \<open>first_of\<close> is the biased \<open>select!\<close> with a
  cancellation at \<open>at\<close>.
\<close>

definition await :: "duration option \<Rightarrow> (duration \<times> 'a) option \<Rightarrow> (duration \<times> 'a option) option" where
  "await deadline ready =
     (case (deadline, ready) of
        (None, None) \<Rightarrow> None
      | (None, Some (t, x)) \<Rightarrow> Some (t, Some x)
      | (Some d, None) \<Rightarrow> Some (d, None)
      | (Some d, Some (t, x)) \<Rightarrow> if t \<le> d then Some (t, Some x) else Some (d, None))"

definition first_of :: "duration option \<Rightarrow> (duration \<times> 'a) option \<Rightarrow> (duration \<times> 'a option) option" where
  "first_of at ready =
     (case (at, ready) of
        (None, None) \<Rightarrow> None
      | (Some c, None) \<Rightarrow> Some (c, None)
      | (None, Some (t, x)) \<Rightarrow> Some (t, Some x)
      | (Some c, Some (t, x)) \<Rightarrow> if c \<le> t then Some (c, None) else Some (t, Some x))"

text \<open>
  \<open>evaluate_admission\<close>: when it ends and with what remaining deadline or result, and whether it
  cancelled the invocation's token itself.
\<close>

definition evaluate_admission ::
  "(json \<Rightarrow> serialized) \<Rightarrow> ('h, 'p) command_runtime \<Rightarrow> eval_env \<Rightarrow> duration option \<Rightarrow>
   (duration \<times> (invocation_result + duration option) \<times> bool) option" where
  "evaluate_admission ser rt env timeout =
     (case admission_policy rt of
        None \<Rightarrow> Some (0, Inr timeout, False)
      | Some _ \<Rightarrow>
     if policy_panics env
       then Some (0, Inl (failure ''ADMISSION_PANIC'' ''command admission policy panicked''), False)
     else case first_of (cancelled_at env) (await timeout (policy_ready env)) of
       None \<Rightarrow> None
     | Some (t, None) \<Rightarrow> Some (t, Inl (failure ''INVOCATION_CANCELLED''
         ''command invocation was cancelled during admission''), False)
     | Some (t, Some None) \<Rightarrow>
         Some (t, Inl (failure ''HANDLER_TIMEOUT'' ''command admission exceeded its deadline''), True)
     | Some (t, Some (Some Panics)) \<Rightarrow>
         Some (t, Inl (failure ''ADMISSION_PANIC'' ''command admission policy panicked''), False)
     | Some (t, Some (Some (Returns (Inl error)))) \<Rightarrow>
         Some (t, Inl (handler_failure ser error ''ADMISSION_DENIED'' ''command denied by admission policy''
           (max_output_bytes rt)), False)
     | Some (t, Some (Some (Returns (Inr _)))) \<Rightarrow>
         (case timeout of
            Some remaining \<Rightarrow>
              if remaining - t = 0
                then Some (t, Inl (failure ''HANDLER_TIMEOUT'' ''command handler deadline already elapsed''), True)
              else Some (t, Inr (Some (remaining - t)), False)
          | None \<Rightarrow> Some (t, Inr None, False)))"

definition handler_entry_rejection :: "eval_env \<Rightarrow> (invocation_result \<times> bool) option" where
  "handler_entry_rejection env =
     (if cancelled_before env
        then Some (failure ''INVOCATION_CANCELLED''
          ''command invocation was cancelled before handler execution'', False)
      else if session_commands env \<noteq> None \<and> session_retired env
        then Some (failure ''SESSION_RETIRED'' ''command invocation belongs to a retired session'', True)
      else None)"

text \<open>The result of a handler whose wait ended so, and whether the token is cancelled with it.\<close>

fun handler_outcome ::
  "(json \<Rightarrow> serialized) \<Rightarrow> nat \<Rightarrow> (handler_error + json) outcome option \<Rightarrow> invocation_result \<times> bool" where
  "handler_outcome ser maximum None = (failure ''HANDLER_TIMEOUT'' ''command handler exceeded its deadline'', True)"
| "handler_outcome ser maximum (Some Panics) = (failure ''HANDLER_PANIC'' ''command handler panicked'', True)"
| "handler_outcome ser maximum (Some (Returns (Inl error))) =
     (handler_failure ser error ''HANDLER_ERROR'' ''command handler failed'' maximum, False)"
| "handler_outcome ser maximum (Some (Returns (Inr result))) =
     (if serialized_json_within_limit (ser result) maximum then (Success result, False)
      else (failure ''OUTPUT_TOO_LARGE'' ''command result exceeds the runtime limit'', False))"

definition execute_handler ::
  "(json \<Rightarrow> serialized) \<Rightarrow> ('h, 'p) command_runtime \<Rightarrow> eval_env \<Rightarrow> duration option \<Rightarrow> bool \<Rightarrow>
   (duration \<times> invocation_result \<times> bool) option" where
  "execute_handler ser rt env timeout duplex =
     (let handler_result = map_option (\<lambda>(t, outcome). (t, handler_outcome ser (max_output_bytes rt) outcome))
          (await timeout (handler_ready env)) in
      if duplex
      then map_option (\<lambda>(t, r).
             (t, case r of
                None \<Rightarrow> (failure ''INPUT_BUFFER_OVERFLOW''
                  ''duplex command input exceeded the pending-byte limit'', True)
              | Some result \<Rightarrow> result))
           (first_of (overflow_at env) handler_result)
      else handler_result)"

text \<open>
  \<open>evaluate_tracked\<close>. Besides the result the evaluation says when it ended, whether the handler was
  started and whether the evaluation cancelled the invocation's token.
\<close>

record evaluation =
  ev_result :: invocation_result
  ev_at :: duration
  ev_handler_started :: bool
  ev_cancelled :: bool

definition evaluation :: "invocation_result \<Rightarrow> duration \<Rightarrow> bool \<Rightarrow> bool \<Rightarrow> evaluation" where
  "evaluation result t started was_cancelled =
     \<lparr>ev_result = result, ev_at = t, ev_handler_started = started, ev_cancelled = was_cancelled\<rparr>"

definition evaluate_tracked ::
  "(json \<Rightarrow> serialized) \<Rightarrow> ('h, 'p) command_runtime \<Rightarrow> eval_env \<Rightarrow> node_invocation \<Rightarrow> evaluation option" where
  "evaluate_tracked ser rt env call =
     (case resolve_session_handler rt call (session_commands env) of
        Inl result \<Rightarrow> Some (evaluation result 0 False False)
      | Inr registration \<Rightarrow>
     if \<not> ((case received_params_bytes call of None \<Rightarrow> True | Some received \<Rightarrow> received \<le> max_input_bytes rt)
           \<and> serialized_json_within_limit (ser (inv_params call)) (max_input_bytes rt))
       then Some (evaluation (failure ''INPUT_TOO_LARGE'' ''command parameters exceed the runtime limit'')
         0 False False)
     else case resolve_timeout rt call (elapsed_since_receipt env) of
       Inl _ \<Rightarrow> Some (evaluation (failure ''HANDLER_TIMEOUT'' ''command handler deadline already elapsed'')
         0 False True)
     | Inr timeout0 \<Rightarrow>
     (case evaluate_admission ser rt env timeout0 of
       None \<Rightarrow> None
     | Some (t, Inl result, _) \<Rightarrow> Some (evaluation result t False True)
     | Some (t, Inr timeout, _) \<Rightarrow>
     if overflowed_before env
       then Some (evaluation (failure ''INPUT_BUFFER_OVERFLOW''
         ''duplex command input exceeded the pending-byte limit'') t False True)
     else case handler_entry_rejection env of
       Some (result, cancels) \<Rightarrow> Some (evaluation result t False cancels)
     | None \<Rightarrow>
     if handler_panics env
       then Some (evaluation (failure ''HANDLER_PANIC'' ''command handler panicked'') t True True)
     else map_option (\<lambda>(t', result, cancels). evaluation result (t + t') True cancels)
       (execute_handler ser rt env timeout (rh_duplex registration \<and> session_commands env \<noteq> None))))"

section \<open>The map of the handlers\<close>

definition keys_ok :: "('k::linorder \<times> 'v) list \<Rightarrow> bool" where
  "keys_ok es = sorted_wrt (<) (map fst es)"

lemma btree_insert_keys: "fst ` set (snd (btree_insert k v es)) = insert k (fst ` set es)"
proof (induction k v es rule: btree_insert.induct)
  case (2 k v k' v' es)
  then show ?case by (cases "btree_insert k v es") auto
qed simp

lemma btree_insert_keys_ok [step_intros]: "keys_ok es \<Longrightarrow> keys_ok (snd (btree_insert k v es))"
proof (induction k v es rule: btree_insert.induct)
  case (2 k v k' v' es)
  obtain old es' where r: "btree_insert k v es = (old, es')" by (cases "btree_insert k v es")
  show ?case
    using 2 btree_insert_keys [of k v es] r
    by (auto simp: keys_ok_def intro: less_trans)
qed (simp add: keys_ok_def)

lemma btree_insert_old: "keys_ok es \<Longrightarrow> fst (btree_insert k v es) = map_of es k"
proof (induction k v es rule: btree_insert.induct)
  case (2 k v k' v' es)
  have "map_of es k = None" if "k < k'"
    using 2(2) that by (auto simp: keys_ok_def map_of_eq_None_iff dest: less_trans)
  then show ?case using 2 by (cases "btree_insert k v es") (auto simp: keys_ok_def)
qed simp

lemma btree_insert_lookup: "map_of (snd (btree_insert k v es)) = (map_of es)(k \<mapsto> v)"
proof (induction k v es rule: btree_insert.induct)
  case (2 k v k' v' es)
  then show ?case by (cases "btree_insert k v es") (auto simp: fun_upd_twist)
qed simp

lemma keys_ok_unique:
  "keys_ok es \<Longrightarrow> map fst es = sorted_list_of_set (fst ` set es)"
  unfolding keys_ok_def
  by (metis image_set sorted_list_of_set.idem_if_sorted_distinct strict_sorted_iff)

lemma keys_ok_Nil [simp, step_intros]: "keys_ok []"
  by (simp add: keys_ok_def)

section \<open>What the builder accepts\<close>

lemma build_capabilities_spec:
  "keys_ok acc \<Longrightarrow>
   case build_capabilities cs acc of
     Inl e \<Rightarrow> e = EmptyCapability \<and> (\<exists>c \<in> set cs. trim c = [])
   | Inr acc' \<Rightarrow> (\<forall>c \<in> set cs. trim c \<noteq> []) \<and> keys_ok acc' \<and>
       fst ` set acc' = trim ` set cs \<union> fst ` set acc"
proof (induction cs arbitrary: acc)
  case (Cons c cs)
  show ?case
    using Cons.IH [of "snd (btree_insert (trim c) () acc)"] Cons.prems
    by (auto simp: step_intros btree_insert_keys Let_def split: sum.splits)
qed simp

definition reg_name :: "'h registration \<Rightarrow> string" where
  "reg_name r = trim (reg_command r)"

definition reg_entry :: "'h registration \<Rightarrow> 'h registered_handler" where
  "reg_entry r = \<lparr>rh_handler = reg_handler r, rh_duplex = reg_duplex r\<rparr>"

text \<open>Why the registration \<open>r\<close> is refused after those of \<open>names\<close> were accepted, if it is.\<close>

definition registration_error :: "string set \<Rightarrow> 'h registration \<Rightarrow> runtime_build_error option" where
  "registration_error names r =
     (if reg_name r = [] then Some EmptyCommand
      else if reserved (reg_name r) then Some (ReservedCommand (reg_name r))
      else if reg_name r \<in> names then Some (DuplicateCommand (reg_name r))
      else None)"

lemma build_handlers_Cons:
  assumes "keys_ok acc"
  shows "build_handlers (r # rs) acc =
    (case registration_error (fst ` set acc) r of
       Some e \<Rightarrow> Inl e
     | None \<Rightarrow> build_handlers rs (snd (btree_insert (reg_name r) (reg_entry r) acc)))"
proof -
  have "reg_name r \<in> fst ` set acc \<longleftrightarrow> fst (btree_insert (reg_name r) (reg_entry r) acc) \<noteq> None"
    by (simp add: btree_insert_old [OF assms] map_of_eq_None_iff)
  then show ?thesis
    by (cases "btree_insert (reg_name r) (reg_entry r) acc")
      (auto simp: registration_error_def reg_name_def reg_entry_def Let_def split: option.splits)
qed

lemma build_handlers_spec:
  "keys_ok acc \<Longrightarrow>
   case build_handlers rs acc of
     Inl e \<Rightarrow> (\<exists>before r rest. rs = before @ r # rest \<and>
       registration_error (fst ` set acc \<union> reg_name ` set before) r = Some e \<and>
       (\<forall>k < length before. registration_error (fst ` set acc \<union> reg_name ` set (take k before)) (before ! k) = None))
   | Inr acc' \<Rightarrow> keys_ok acc' \<and>
       (\<forall>k < length rs. registration_error (fst ` set acc \<union> reg_name ` set (take k rs)) (rs ! k) = None) \<and>
       fst ` set acc' = fst ` set acc \<union> reg_name ` set rs \<and>
       map_of acc' = fold (\<lambda>r m. m(reg_name r \<mapsto> reg_entry r)) rs (map_of acc)"
proof (induction rs arbitrary: acc)
  case (Cons r rs)
  show ?case
  proof (cases "registration_error (fst ` set acc) r")
    case None
    let ?acc = "snd (btree_insert (reg_name r) (reg_entry r) acc)"
    have names: "fst ` set ?acc \<union> reg_name ` set (take k rs) = fst ` set acc \<union> reg_name ` set (take (Suc k) (r # rs))" for k
      by (auto simp: btree_insert_keys)
    have step: "(\<forall>k < length (r # xs). registration_error (fst ` set acc \<union> reg_name ` set (take k (r # xs))) ((r # xs) ! k) = None)
      \<longleftrightarrow> (\<forall>k < length xs. registration_error (fst ` set ?acc \<union> reg_name ` set (take k xs)) (xs ! k) = None)" for xs
      using None by (auto simp: less_Suc_eq_0_disj btree_insert_keys)
    note IH = Cons.IH [of ?acc, OF btree_insert_keys_ok [OF Cons.prems]]
    show ?thesis
    proof (cases "build_handlers rs ?acc")
      case (Inl e)
      with IH obtain before r' rest where "rs = before @ r' # rest"
        "registration_error (fst ` set ?acc \<union> reg_name ` set before) r' = Some e"
        "\<forall>k < length before. registration_error (fst ` set ?acc \<union> reg_name ` set (take k before)) (before ! k) = None"
        by auto
      then have "r # rs = (r # before) @ r' # rest \<and>
        registration_error (fst ` set acc \<union> reg_name ` set (r # before)) r' = Some e \<and>
        (\<forall>k < length (r # before). registration_error (fst ` set acc \<union> reg_name ` set (take k (r # before))) ((r # before) ! k) = None)"
        unfolding step by (auto simp: btree_insert_keys)
      then show ?thesis unfolding build_handlers_Cons [OF Cons.prems] None option.case Inl sum.case by blast
    next
      case (Inr acc')
      then show ?thesis using IH
        unfolding build_handlers_Cons [OF Cons.prems] None option.case Inr sum.case step
        by (auto simp: btree_insert_keys btree_insert_lookup)
    qed
  next
    case (Some e)
    have "r # rs = [] @ r # rs \<and> registration_error (fst ` set acc \<union> reg_name ` set []) r = Some e" using Some by simp
    then show ?thesis unfolding build_handlers_Cons [OF Cons.prems] Some option.case sum.case by fastforce
  qed
qed simp

definition registrations_ok :: "'h registration list \<Rightarrow> bool" where
  "registrations_ok rs \<longleftrightarrow>
     (\<forall>r \<in> set rs. reg_name r \<noteq> [] \<and> \<not> reserved (reg_name r)) \<and> distinct (map reg_name rs)"

lemma no_registration_error:
  "registration_error names r = None \<longleftrightarrow>
   reg_name r \<noteq> [] \<and> \<not> reserved (reg_name r) \<and> reg_name r \<notin> names"
  by (simp add: registration_error_def)

lemma registrations_ok_iff:
  "(\<forall>k < length rs. registration_error (reg_name ` set (take k rs)) (rs ! k) = None) \<longleftrightarrow>
   registrations_ok rs"
proof (induction rs rule: rev_induct)
  case (snoc r rs)
  have step: "(\<forall>k < length (rs @ [r]). registration_error (reg_name ` set (take k (rs @ [r]))) ((rs @ [r]) ! k) = None)
    \<longleftrightarrow> (\<forall>k < length rs. registration_error (reg_name ` set (take k rs)) (rs ! k) = None) \<and>
      registration_error (reg_name ` set rs) r = None"
    by (simp add: less_Suc_eq nth_append all_conj_distrib)
  show ?case unfolding step snoc.IH
    by (simp add: no_registration_error registrations_ok_def ball_Un) blast
qed (simp add: registrations_ok_def)

lemma fold_entries:
  "distinct (map reg_name rs) \<Longrightarrow> r \<in> set rs \<Longrightarrow>
   fold (\<lambda>r m. m(reg_name r \<mapsto> reg_entry r)) rs m (reg_name r) = Some (reg_entry r)"
proof (induction rs arbitrary: r rule: rev_induct)
  case (snoc x rs)
  then show ?case by (cases "r = x") (auto simp: image_iff)
qed simp

text \<open>A small runtime, a call to it and what happens during it, for the witnesses.\<close>

definition demo_builder :: "(nat, unit) command_runtime_builder" where
  "demo_builder = bu_policy () (bu_duplex_command ''cam'' 7 (bu_command ''a.b'' 5
     (bu_capability ''cam'' builder_default)))"

definition demo_rt :: "(nat, unit) command_runtime" where
  "demo_rt = \<lparr>handlers = [(''a.b'', \<lparr>rh_handler = 5, rh_duplex = False\<rparr>),
     (''cam'', \<lparr>rh_handler = 7, rh_duplex = True\<rparr>)],
     capabilities = [''cam''], admission_policy = Some (), max_permits = 8, delivery_capacity = 8,
     max_input_bytes = 262144, max_output_bytes = 262144, default_timeout = 30000000000,
     max_timeout = 300000000000, result_grace = 100000000\<rparr>"

lemmas builder_defs = bu_policy_def bu_duplex_command_def bu_command_def bu_register_def bu_capability_def
  builder_default_def DEFAULT_MAX_CONCURRENCY_def DEFAULT_MAX_INPUT_BYTES_def DEFAULT_MAX_OUTPUT_BYTES_def
  DEFAULT_HANDLER_TIMEOUT_def DEFAULT_MAX_HANDLER_TIMEOUT_def DEFAULT_RESULT_GRACE_def from_secs_def from_millis_def

lemma demo_build: "build demo_builder = Inr demo_rt"
  by (simp add: demo_builder_def builder_defs build_def demo_rt_def trim_def reserved_def starts_with_def
      nonzero_duration_def Let_def is_ws1_def is_ws2_def is_ws3_def char_code_def less_char_def)

text \<open>
  The builder accepts exactly the surfaces that are well formed: every capability and command
  name non-empty after trimming, no command in the reserved \<open>system\<close> namespace, no command
  twice. The runtime it builds lists the trimmed names in order without repetition and routes each
  name to the handler registered for it; otherwise the error names the first offence.
\<close>

lemma build_exact:
  "case build b of
     Inl e \<Rightarrow>
       (if \<exists>c \<in> set (bu_capabilities b). trim c = [] then e = EmptyCapability
        else \<exists>before r rest. bu_registrations b = before @ r # rest \<and> registrations_ok before \<and>
          registration_error (reg_name ` set before) r = Some e)
   | Inr rt \<Rightarrow>
       (\<forall>c \<in> set (bu_capabilities b). trim c \<noteq> []) \<and> registrations_ok (bu_registrations b) \<and>
       capabilities rt = sorted_list_of_set (trim ` set (bu_capabilities b)) \<and>
       command_names rt = sorted_list_of_set (reg_name ` set (bu_registrations b)) \<and>
       (\<forall>r \<in> set (bu_registrations b). map_of (handlers rt) (reg_name r) = Some (reg_entry r))"
proof -
  note caps = build_capabilities_spec [OF keys_ok_Nil, of "bu_capabilities b"]
  note hs = build_handlers_spec [OF keys_ok_Nil, of "bu_registrations b"]
  show ?thesis
  proof (cases "build_capabilities (bu_capabilities b) []")
    case (Inl e)
    then show ?thesis using caps by (simp add: build_def)
  next
    case cs: (Inr cs)
    show ?thesis
    proof (cases "build_handlers (bu_registrations b) []")
      case (Inl e)
      with hs obtain before r rest where "bu_registrations b = before @ r # rest"
        "registration_error (reg_name ` set before) r = Some e" "registrations_ok before"
        by (simp add: registrations_ok_iff) blast
      moreover have "build b = Inl e" using cs Inl by (simp add: build_def)
      moreover have "\<not> (\<exists>c \<in> set (bu_capabilities b). trim c = [])" using caps cs by simp
      ultimately show ?thesis by simp blast
    next
      case h: (Inr es)
      obtain rt where rt: "build b = Inr rt" "handlers rt = es" "capabilities rt = map fst cs"
        using cs h by (simp add: build_def Let_def)
      have ok: "registrations_ok (bu_registrations b)" "keys_ok es"
        "fst ` set es = reg_name ` set (bu_registrations b)"
        "map_of es = fold (\<lambda>r m. m(reg_name r \<mapsto> reg_entry r)) (bu_registrations b) Map.empty"
        using hs h by (simp_all add: registrations_ok_iff)
      have "\<forall>r \<in> set (bu_registrations b). map_of es (reg_name r) = Some (reg_entry r)"
        using ok(1) by (simp add: ok(4) fold_entries registrations_ok_def)
      then show ?thesis using caps cs rt ok by (simp add: command_names_def keys_ok_unique)
    qed
  qed
qed

lemma build_exact_witness:
  "command_names demo_rt = [''a.b'', ''cam''] \<and>
   map_of (handlers demo_rt) ''cam'' = Some \<lparr>rh_handler = 7, rh_duplex = True\<rparr>"
  using build_exact [of demo_builder] unfolding demo_build sum.case
  by (simp add: demo_builder_def builder_defs reg_name_def reg_entry_def trim_def is_ws1_def is_ws2_def
      is_ws3_def char_code_def less_char_def insort_insert_key_def)

text \<open>
  A runtime is always built within its bounds, whatever the builder was told: at least one
  permit, room for at least one byte of input and of output, timeouts of at least a millisecond
  and the default timeout not above the maximum.
\<close>

definition runtime_bounds :: "('h, 'p) command_runtime \<Rightarrow> bool" where
  "runtime_bounds rt \<longleftrightarrow> 1 \<le> max_permits rt \<and> delivery_capacity rt = max_permits rt \<and>
     1 \<le> max_input_bytes rt \<and> 1 \<le> max_output_bytes rt \<and>
     from_millis 1 \<le> default_timeout rt \<and> default_timeout rt \<le> max_timeout rt"

lemma build_bounds: "build b = Inr rt \<Longrightarrow> runtime_bounds rt"
  by (auto simp: build_def runtime_bounds_def Let_def nonzero_duration_def bind_result_Inr)

lemma build_bounds_witness: "runtime_bounds demo_rt"
  by (rule build_bounds [OF demo_build])

section \<open>Activation\<close>

lemma build_names:
  assumes "build b = Inr rt"
  shows "command_names rt = sorted_list_of_set (reg_name ` set (bu_registrations b)) \<and>
    capabilities rt = sorted_list_of_set (trim ` set (bu_capabilities b))"
proof -
  obtain cs es where "build_capabilities (bu_capabilities b) [] = Inr cs" "capabilities rt = map fst cs"
    "build_handlers (bu_registrations b) [] = Inr es" "handlers rt = es"
    using assms by (auto simp: build_def bind_result_Inr Let_def)
  then show ?thesis
    using build_capabilities_spec [OF keys_ok_Nil, of "bu_capabilities b"]
      build_handlers_spec [OF keys_ok_Nil, of "bu_registrations b"]
    by (simp add: command_names_def keys_ok_unique)
qed

lemma declare_all:
  "fold with_capability cs opts = opts\<lparr>declared_caps := declared_caps opts @ cs\<rparr>"
  "fold with_command cs opts = opts\<lparr>declared_commands := declared_commands opts @ cs\<rparr>"
  by (induction cs arbitrary: opts) (simp_all add: with_capability_def with_command_def)

text \<open>
  What a runtime advertises is what it can route: connect options activated by a built runtime
  make, for either protocol version, an envelope that advertises exactly the sorted trimmed names
  of the registered commands and of the capabilities, so every advertised command has a handler.
\<close>

lemma advertised_commands_have_handlers:
  assumes "build b = Inr rt"
    and "finalize_identity nonce issued_at
      (for_protocol protocol (runtime_activate rt (options_new version platform))) = Inr opts"
  shows "advertised_commands opts = sorted_list_of_set (reg_name ` set (bu_registrations b)) \<and>
    advertised_caps opts = sorted_list_of_set (trim ` set (bu_capabilities b)) \<and>
    (\<forall>c \<in> set (advertised_commands opts). \<exists>h. map_of (handlers rt) c = Some h)"
proof -
  have adv: "advertised_commands opts = command_names rt" "advertised_caps opts = capabilities rt"
    using assms(2)
    by (auto simp: runtime_activate_def declare_all activate_options_def options_new_def finalize_identity_def
        for_protocol_def Let_def bind_result_Inr split: if_splits option.splits)
  have "\<forall>c \<in> set (command_names rt). \<exists>h. map_of (handlers rt) c = Some h"
    by (simp add: command_names_def) (metis map_of_eq_None_iff not_None_eq image_eqI fst_conv)
  then show ?thesis using adv build_names [OF assms(1)] by simp
qed

lemma advertised_commands_have_handlers_witness:
  "\<exists>opts. finalize_identity ''n'' 7 (for_protocol V3 (runtime_activate demo_rt (options_new ''1'' ''macos''))) = Inr opts \<and>
     advertised_commands opts = [''a.b'', ''cam'']"
proof -
  obtain opts where opts: "finalize_identity ''n'' 7
      (for_protocol V3 (runtime_activate demo_rt (options_new ''1'' ''macos''))) = Inr opts"
    by (simp add: finalize_identity_def Let_def runtime_activate_def declare_all activate_options_def
        options_new_def for_protocol_def)
  from advertised_commands_have_handlers [OF demo_build opts] opts show ?thesis
    by (simp add: demo_builder_def builder_defs reg_name_def trim_def is_ws1_def is_ws2_def is_ws3_def
        char_code_def less_char_def insort_insert_key_def)
qed

section \<open>A call to the small runtime\<close>

definition demo_call :: node_invocation where
  "demo_call = invocation_new ''i1'' ''n1'' ''a.b'' JNull"

definition demo_ser :: "json \<Rightarrow> serialized" where
  "demo_ser j = \<lparr>chunks = [as_bytes ''null''], refused = False\<rparr>"

definition demo_env :: eval_env where
  "demo_env = \<lparr>session_commands = Some [''a.b''], session_retired = False, elapsed_since_receipt = Some 3,
     policy_panics = False, policy_ready = Some (4, Returns (Inr ())), cancelled_at = None,
     overflowed_before = False, cancelled_before = False, handler_panics = False,
     handler_ready = Some (5, Returns (Inr JNull)), overflow_at = None\<rparr>"

lemmas demo_eval_simps = demo_call_def demo_env_def demo_rt_def demo_ser_def invocation_new_def

lemma demo_evaluation:
  "evaluate_tracked demo_ser demo_rt demo_env demo_call = Some (evaluation (Success JNull) 9 True False)"
proof -
  have fit: "serialized_json_within_limit (demo_ser JNull) 262144"
    by (simp add: serialized_json_within_limit_iff usize_max_def demo_ser_def)
  have "resolve_session_handler demo_rt demo_call (session_commands demo_env) =
      Inr \<lparr>rh_handler = 5, rh_duplex = False\<rparr>"
    by (simp add: resolve_session_handler_def demo_eval_simps)
  moreover have "resolve_timeout demo_rt demo_call (elapsed_since_receipt demo_env) = Inr (Some 29999999997)"
    by (simp add: resolve_timeout_def demo_eval_simps)
  moreover have "evaluate_admission demo_ser demo_rt demo_env (Some 29999999997) = Some (4, Inr (Some 29999999993), False)"
    by (simp add: evaluate_admission_def await_def first_of_def demo_eval_simps)
  moreover have "execute_handler demo_ser demo_rt demo_env (Some 29999999993) False = Some (5, Success JNull, False)"
    using fit by (simp add: execute_handler_def await_def demo_env_def demo_rt_def)
  ultimately show ?thesis using fit
    by (simp add: evaluate_tracked_def handler_entry_rejection_def demo_env_def demo_rt_def
        demo_call_def invocation_new_def)
qed

section \<open>When the handler starts\<close>

lemmas admission_defs = evaluate_admission_def first_of_def await_def

lemma admission_Inr:
  "evaluate_admission ser rt env timeout = Some (t, Inr d, b) \<longleftrightarrow>
     \<not> b \<and> d = map_option (\<lambda>r. r - t) timeout \<and>
     (if admission_policy rt = None then t = 0
      else \<not> policy_panics env \<and> policy_ready env = Some (t, Returns (Inr ())) \<and>
        (\<forall>c. cancelled_at env = Some c \<longrightarrow> t < c) \<and> (\<forall>r. timeout = Some r \<longrightarrow> t < r))"
proof (cases "admission_policy rt = None \<or> policy_panics env")
  case True
  then show ?thesis by (cases timeout) (auto simp: evaluate_admission_def split: option.split)
next
  case False
  then obtain p where p: "admission_policy rt = Some p" "\<not> policy_panics env" by auto
  show ?thesis
    by (cases "cancelled_at env"; cases timeout; cases "policy_ready env")
      (auto simp: p admission_defs not_le split: outcome.splits sum.splits if_splits option.splits)
qed

lemma admission_Inl_failure:
  "evaluate_admission ser rt env timeout = Some (t, Inl r, b) \<Longrightarrow> \<exists>code message. r = Failure code message"
  by (auto simp: evaluate_admission_def failure_def handler_failure_def Let_def
      split: outcome.splits sum.splits if_splits option.splits)

text \<open>What has to hold before the handler is entered.\<close>

definition gates_open ::
  "(json \<Rightarrow> serialized) \<Rightarrow> ('h, 'p) command_runtime \<Rightarrow> eval_env \<Rightarrow> node_invocation \<Rightarrow> bool" where
  "gates_open ser rt env call \<longleftrightarrow>
     inv_command call \<in> set (command_names rt) \<and>
     (\<forall>commands. session_commands env = Some commands \<longrightarrow>
        inv_command call \<in> set commands \<and> \<not> session_retired env) \<and>
     (\<forall>received. received_params_bytes call = Some received \<longrightarrow> received \<le> max_input_bytes rt) \<and>
     \<not> refused (ser (inv_params call)) \<and>
     total_len (chunks (ser (inv_params call))) \<le> max_input_bytes rt \<and>
     (\<exists>deadline. resolve_timeout rt call (elapsed_since_receipt env) = Inr deadline \<and>
        (admission_policy rt \<noteq> None \<longrightarrow>
           \<not> policy_panics env \<and>
           (\<exists>t. policy_ready env = Some (t, Returns (Inr ())) \<and>
              (\<forall>c. cancelled_at env = Some c \<longrightarrow> t < c) \<and> (\<forall>d. deadline = Some d \<longrightarrow> t < d)))) \<and>
     \<not> overflowed_before env \<and> \<not> cancelled_before env"

lemma resolve_session_handler_Inr:
  "resolve_session_handler rt call session = Inr r \<longleftrightarrow>
   map_of (handlers rt) (inv_command call) = Some r \<and>
   (\<forall>commands. session = Some commands \<longrightarrow> inv_command call \<in> set commands)"
  by (auto simp: resolve_session_handler_def split: option.splits)

lemma resolve_session_handler_Inl:
  "resolve_session_handler rt call session = Inl r \<Longrightarrow> \<exists>code message. r = Failure code message"
  by (auto simp: resolve_session_handler_def failure_def split: option.splits if_splits)

lemma command_names_iff: "c \<in> set (command_names rt) \<longleftrightarrow> (\<exists>r. map_of (handlers rt) c = Some r)"
  by (simp add: command_names_def) (metis map_of_eq_None_iff not_None_eq)

definition input_fits :: "(json \<Rightarrow> serialized) \<Rightarrow> ('h, 'p) command_runtime \<Rightarrow> node_invocation \<Rightarrow> bool" where
  "input_fits ser rt call \<longleftrightarrow>
     (case received_params_bytes call of None \<Rightarrow> True | Some received \<Rightarrow> received \<le> max_input_bytes rt) \<and>
     serialized_json_within_limit (ser (inv_params call)) (max_input_bytes rt)"

text \<open>The evaluation after its three synchronous checks.\<close>

lemma evaluate_tracked_past_checks:
  assumes "resolve_session_handler rt call (session_commands env) = Inr registration"
    and "input_fits ser rt call"
    and "resolve_timeout rt call (elapsed_since_receipt env) = Inr timeout0"
  shows "evaluate_tracked ser rt env call =
    (case evaluate_admission ser rt env timeout0 of
       None \<Rightarrow> None
     | Some (t, Inl result, _) \<Rightarrow> Some (evaluation result t False True)
     | Some (t, Inr timeout, _) \<Rightarrow>
     if overflowed_before env
       then Some (evaluation (failure ''INPUT_BUFFER_OVERFLOW''
         ''duplex command input exceeded the pending-byte limit'') t False True)
     else case handler_entry_rejection env of
       Some (result, cancels) \<Rightarrow> Some (evaluation result t False cancels)
     | None \<Rightarrow>
     if handler_panics env
       then Some (evaluation (failure ''HANDLER_PANIC'' ''command handler panicked'') t True True)
     else map_option (\<lambda>(t', result, cancels). evaluation result (t + t') True cancels)
       (execute_handler ser rt env timeout (rh_duplex registration \<and> session_commands env \<noteq> None)))"
  using assms unfolding evaluate_tracked_def input_fits_def by (simp only: sum.case if_False simp_thms)

lemma evaluate_tracked_checks_fail:
  assumes "\<not> (\<exists>registration timeout0.
      resolve_session_handler rt call (session_commands env) = Inr registration \<and>
      input_fits ser rt call \<and> resolve_timeout rt call (elapsed_since_receipt env) = Inr timeout0)"
  shows "\<exists>code message cancels.
    evaluate_tracked ser rt env call = Some (evaluation (Failure code message) 0 False cancels)"
proof (cases "resolve_session_handler rt call (session_commands env)")
  case (Inl r)
  then show ?thesis using resolve_session_handler_Inl [OF Inl] by (auto simp: evaluate_tracked_def)
next
  case (Inr r)
  show ?thesis
  proof (cases "input_fits ser rt call")
    case True
    then obtain u where "resolve_timeout rt call (elapsed_since_receipt env) = Inl u"
      using assms Inr by (cases "resolve_timeout rt call (elapsed_since_receipt env)") auto
    then show ?thesis using Inr True unfolding evaluate_tracked_def input_fits_def failure_def
      by (simp only: sum.case if_False simp_thms) blast
  next
    case False
    then show ?thesis using Inr unfolding evaluate_tracked_def input_fits_def failure_def
      by (simp only: sum.case if_True simp_thms) blast
  qed
qed

lemma evaluation_sel [simp]:
  "ev_result (evaluation r t h c) = r" "ev_at (evaluation r t h c) = t"
  "ev_handler_started (evaluation r t h c) = h" "ev_cancelled (evaluation r t h c) = c"
  by (simp_all add: evaluation_def)

lemma handler_entry_rejection_None:
  "handler_entry_rejection env = None \<longleftrightarrow>
   \<not> cancelled_before env \<and> (\<forall>cs. session_commands env = Some cs \<longrightarrow> \<not> session_retired env)"
  by (auto simp: handler_entry_rejection_def)

lemma handler_entry_rejection_Some:
  "handler_entry_rejection env = Some (r, c) \<Longrightarrow> \<exists>code message. r = Failure code message"
  by (auto simp: handler_entry_rejection_def failure_def split: if_splits)

text \<open>The handler is entered exactly when admission ends well and nothing stopped the call since.\<close>

lemma started_after_checks:
  assumes "resolve_session_handler rt call (session_commands env) = Inr registration"
    and "input_fits ser rt call"
    and "resolve_timeout rt call (elapsed_since_receipt env) = Inr timeout0"
    and "evaluate_tracked ser rt env call = Some ev"
  shows "ev_handler_started ev \<longleftrightarrow>
      (\<exists>t d b. evaluate_admission ser rt env timeout0 = Some (t, Inr d, b)) \<and>
      \<not> overflowed_before env \<and> handler_entry_rejection env = None"
    and "\<not> ev_handler_started ev \<Longrightarrow> \<exists>code message. ev_result ev = Failure code message"
proof -
  note ev = evaluate_tracked_past_checks [OF assms(1-3)]
  show "ev_handler_started ev \<longleftrightarrow>
      (\<exists>t d b. evaluate_admission ser rt env timeout0 = Some (t, Inr d, b)) \<and>
      \<not> overflowed_before env \<and> handler_entry_rejection env = None"
    using assms(4) unfolding ev
    by (auto split: option.splits sum.splits prod.splits if_splits)
  show "\<not> ev_handler_started ev \<Longrightarrow> \<exists>code message. ev_result ev = Failure code message"
    using assms(4) unfolding ev
    by (auto simp: failure_def dest: admission_Inl_failure handler_entry_rejection_Some
        split: option.splits sum.splits prod.splits if_splits)
qed

lemma input_fits_iff:
  "max_input_bytes rt \<le> usize_max \<Longrightarrow> input_fits ser rt call \<longleftrightarrow>
     (\<forall>received. received_params_bytes call = Some received \<longrightarrow> received \<le> max_input_bytes rt) \<and>
     \<not> refused (ser (inv_params call)) \<and>
     total_len (chunks (ser (inv_params call))) \<le> max_input_bytes rt"
  by (auto simp: input_fits_def serialized_json_within_limit_iff split: option.splits)

lemma admitted_iff:
  "(\<exists>t d b. evaluate_admission ser rt env timeout = Some (t, Inr d, b)) \<longleftrightarrow>
   (admission_policy rt \<noteq> None \<longrightarrow>
      \<not> policy_panics env \<and>
      (\<exists>t. policy_ready env = Some (t, Returns (Inr ())) \<and>
        (\<forall>c. cancelled_at env = Some c \<longrightarrow> t < c) \<and> (\<forall>r. timeout = Some r \<longrightarrow> t < r)))"
  by (cases "admission_policy rt = None") (auto simp: admission_Inr)

text \<open>
  C14. Evaluation fails closed: the handler is entered if and only if the command is registered and
  advertised by a session that is not retired, the parameters fit the input limit both as received
  and as they serialize again, the deadline has not passed, the admission policy (if there is one)
  returned its approval before the deadline and before any cancellation, and by then the call was
  neither cancelled nor out of input space. In every other case the result is a failure.
\<close>

lemma handler_started_iff:
  assumes "max_input_bytes rt \<le> usize_max"
    and "evaluate_tracked ser rt env call = Some ev"
  shows "(ev_handler_started ev \<longleftrightarrow> gates_open ser rt env call) \<and>
    (\<not> gates_open ser rt env call \<longrightarrow> (\<exists>code message. ev_result ev = Failure code message))"
proof (cases "\<exists>registration timeout0.
      resolve_session_handler rt call (session_commands env) = Inr registration \<and>
      input_fits ser rt call \<and> resolve_timeout rt call (elapsed_since_receipt env) = Inr timeout0")
  case True
  then obtain registration timeout0 where
    c: "resolve_session_handler rt call (session_commands env) = Inr registration"
      "input_fits ser rt call" "resolve_timeout rt call (elapsed_since_receipt env) = Inr timeout0"
    by blast
  have "gates_open ser rt env call \<longleftrightarrow>
      (\<exists>t d b. evaluate_admission ser rt env timeout0 = Some (t, Inr d, b)) \<and>
      \<not> overflowed_before env \<and> handler_entry_rejection env = None"
    using c input_fits_iff [OF assms(1), of ser call]
    unfolding gates_open_def admitted_iff handler_entry_rejection_None command_names_iff resolve_session_handler_Inr
    by auto
  then show ?thesis using started_after_checks [OF c assms(2)] by blast
next
  case False
  then have "\<not> gates_open ser rt env call"
    using input_fits_iff [OF assms(1), of ser call]
    unfolding gates_open_def command_names_iff resolve_session_handler_Inr by blast
  then show ?thesis using evaluate_tracked_checks_fail [OF False] assms(2) by auto
qed

lemma handler_started_iff_witness: "gates_open demo_ser demo_rt demo_env demo_call"
  using handler_started_iff [OF _ demo_evaluation] by (simp add: demo_rt_def usize_max_def)

section \<open>What a result may carry\<close>

lemma handler_failure_bounded:
  assumes "handler_failure ser e fc fm maximum = Failure code message" and "maximum \<le> usize_max"
    and "code \<noteq> ''OUTPUT_TOO_LARGE''"
  shows "total_len (chunks (ser (JObject [(''code'', JString code), (''message'', JString message)]))) \<le> maximum"
  using assms
  by (auto simp: handler_failure_def failure_def Let_def serialized_json_within_limit_iff split: if_splits)

lemma handler_failure_not_Success [simp]: "handler_failure ser e fc fm maximum \<noteq> Success v"
  by (simp add: handler_failure_def failure_def Let_def)

lemma handler_outcome_Success:
  "(Success v, c) = handler_outcome ser maximum x \<longleftrightarrow>
   x = Some (Returns (Inr v)) \<and> \<not> c \<and> serialized_json_within_limit (ser v) maximum"
proof (cases x)
  case (Some y)
  then show ?thesis
  proof (cases y)
    case (Returns z)
    with Some show ?thesis
      by (cases z) (auto simp: failure_def handler_failure_def Let_def)
  qed (simp add: failure_def)
qed (simp add: failure_def)

lemma await_Some:
  "await deadline ready = Some (t, x) \<longleftrightarrow>
     (case x of
        Some y \<Rightarrow> ready = Some (t, y) \<and> (\<forall>d. deadline = Some d \<longrightarrow> t \<le> d)
      | None \<Rightarrow> deadline = Some t \<and> (\<forall>t' y. ready = Some (t', y) \<longrightarrow> t < t'))"
  by (cases deadline; cases ready; cases x) (auto simp: await_def split: if_splits)

lemma first_of_Some:
  "first_of at ready = Some (t, x) \<longleftrightarrow>
     (case x of
        Some y \<Rightarrow> ready = Some (t, y) \<and> (\<forall>c. at = Some c \<longrightarrow> t < c)
      | None \<Rightarrow> at = Some t \<and> (\<forall>t' y. ready = Some (t', y) \<longrightarrow> t \<le> t'))"
  by (cases at; cases ready; cases x) (auto simp: first_of_def split: if_splits)

text \<open>
  How a handler's execution can end: by an overflow of its input, or by its own outcome, which is
  a panic, a return or the deadline.
\<close>

lemma execute_handler_Some:
  assumes "execute_handler ser rt env timeout duplex = Some (t, r, c)"
  obtains (overflow) "duplex" "overflow_at env = Some t" "c" "\<exists>code message. r = Failure code message"
  | (ended) x where "(r, c) = handler_outcome ser (max_output_bytes rt) x"
      "await timeout (handler_ready env) = Some (t, x)"
      "duplex \<longrightarrow> (\<forall>o'. overflow_at env = Some o' \<longrightarrow> t < o')"
proof -
  let ?f = "\<lambda>(t, outcome). (t, handler_outcome ser (max_output_bytes rt) outcome)"
  show thesis
  proof (cases duplex)
    case True
    then obtain y where y: "first_of (overflow_at env) (map_option ?f (await timeout (handler_ready env))) = Some (t, y)"
      "(r, c) = (case y of None \<Rightarrow> (failure ''INPUT_BUFFER_OVERFLOW''
                  ''duplex command input exceeded the pending-byte limit'', True) | Some result \<Rightarrow> result)"
      using assms unfolding execute_handler_def Let_def by auto
    with True show ?thesis
    proof (cases y)
      case None
      with y True show ?thesis by (intro overflow) (auto simp: first_of_Some failure_def)
    next
      case (Some z)
      with y True show ?thesis by (auto simp: first_of_Some intro!: ended)
    qed
  next
    case False
    then show ?thesis using assms unfolding execute_handler_def Let_def by (auto intro!: ended)
  qed
qed

text \<open>How an evaluation that entered the handler got there and ended.\<close>

lemma started_result:
  assumes "evaluate_tracked ser rt env call = Some ev" and "ev_handler_started ev"
  obtains (panicked) t timeout0 timeout b where
      "resolve_timeout rt call (elapsed_since_receipt env) = Inr timeout0"
      "evaluate_admission ser rt env timeout0 = Some (t, Inr timeout, b)"
      "handler_panics env" "ev = evaluation (failure ''HANDLER_PANIC'' ''command handler panicked'') t True True"
    | (ran) registration timeout0 t timeout b t' r c where
      "resolve_timeout rt call (elapsed_since_receipt env) = Inr timeout0"
      "evaluate_admission ser rt env timeout0 = Some (t, Inr timeout, b)" "\<not> handler_panics env"
      "resolve_session_handler rt call (session_commands env) = Inr registration"
      "execute_handler ser rt env timeout (rh_duplex registration \<and> session_commands env \<noteq> None) = Some (t', r, c)"
      "ev = evaluation r (t + t') True c"
proof -
  have "\<exists>registration timeout0.
      resolve_session_handler rt call (session_commands env) = Inr registration \<and>
      input_fits ser rt call \<and> resolve_timeout rt call (elapsed_since_receipt env) = Inr timeout0"
    using evaluate_tracked_checks_fail [of rt call env ser] assms by force
  then obtain registration timeout0 where
    c: "resolve_session_handler rt call (session_commands env) = Inr registration"
      "input_fits ser rt call" "resolve_timeout rt call (elapsed_since_receipt env) = Inr timeout0"
    by blast
  have st: "\<not> overflowed_before env" "handler_entry_rejection env = None"
    and "\<exists>t d b. evaluate_admission ser rt env timeout0 = Some (t, Inr d, b)"
    using started_after_checks(1) [OF c assms(1)] assms(2) by blast+
  then obtain t d b where adm: "evaluate_admission ser rt env timeout0 = Some (t, Inr d, b)" by blast
  have ev: "evaluate_tracked ser rt env call =
    (if handler_panics env
       then Some (evaluation (failure ''HANDLER_PANIC'' ''command handler panicked'') t True True)
     else map_option (\<lambda>(t', result, cancels). evaluation result (t + t') True cancels)
       (execute_handler ser rt env d (rh_duplex registration \<and> session_commands env \<noteq> None)))"
    unfolding evaluate_tracked_past_checks [OF c] adm using st by simp
  show thesis
  proof (cases "handler_panics env")
    case True
    then show ?thesis using ev assms(1) adm c(3) by (intro panicked) auto
  next
    case False
    then have "map_option (\<lambda>(t', result, cancels). evaluation result (t + t') True cancels)
       (execute_handler ser rt env d (rh_duplex registration \<and> session_commands env \<noteq> None)) = Some ev"
      using ev assms(1) by simp
    then obtain t' r k where ex: "execute_handler ser rt env d (rh_duplex registration \<and> session_commands env \<noteq> None)
      = Some (t', r, k)" and "ev = evaluation r (t + t') True k"
      by (auto simp del: not_None_eq)
    then show ?thesis using ran [OF c(3) adm False c(1)] by blast
  qed
qed

text \<open>How an evaluation with a success got there.\<close>

lemma success_execution:
  assumes "evaluate_tracked ser rt env call = Some ev" and "ev_result ev = Success v"
  obtains timeout0 t timeout b t' where "ev_handler_started ev" and "\<not> ev_cancelled ev"
    and "evaluate_admission ser rt env timeout0 = Some (t, Inr timeout, b)"
    and "handler_ready env = Some (t', Returns (Inr v))" and "t' \<le> ev_at ev"
    and "serialized_json_within_limit (ser v) (max_output_bytes rt)"
proof -
  have started: "ev_handler_started ev"
  proof (rule ccontr)
    assume ns: "\<not> ev_handler_started ev"
    show False
    proof (cases "\<exists>registration timeout0.
      resolve_session_handler rt call (session_commands env) = Inr registration \<and>
      input_fits ser rt call \<and> resolve_timeout rt call (elapsed_since_receipt env) = Inr timeout0")
      case True
      then show False using started_after_checks(2) [OF _ _ _ assms(1) ns] assms(2) by fastforce
    next
      case False
      then show False using evaluate_tracked_checks_fail [OF False] assms by auto
    qed
  qed
  show ?thesis
    using assms(1) started
  proof (cases rule: started_result)
    case (ran registration timeout0 t timeout b t' r c)
    from ran(5) show ?thesis
    proof (cases rule: execute_handler_Some)
      case (ended x)
      then have x: "x = Some (Returns (Inr v))" "\<not> c" "serialized_json_within_limit (ser v) (max_output_bytes rt)"
        using assms(2) ran(6) by (simp_all add: handler_outcome_Success)
      then show ?thesis using started ran(6) ended(2)
        by (intro that [OF _ _ ran(2) _ _ x(3), of t']) (simp_all add: await_Some)
    qed (use assms(2) ran(6) in auto)
  qed (use assms(2) in \<open>simp add: failure_def\<close>)
qed

text \<open>
  Results stay within the output limit: a success is exactly the value the handler returned,
  no later than the evaluation ended, and that value serializes within the limit; the token of a
  call that succeeded was not cancelled by its evaluation.
\<close>

lemma success_is_handler_value:
  assumes "max_output_bytes rt \<le> usize_max" and "evaluate_tracked ser rt env call = Some ev"
    and "ev_result ev = Success v"
  shows "ev_handler_started ev \<and> \<not> ev_cancelled ev \<and> \<not> refused (ser v) \<and>
    total_len (chunks (ser v)) \<le> max_output_bytes rt \<and>
    (\<exists>t \<le> ev_at ev. handler_ready env = Some (t, Returns (Inr v)))"
  using success_execution [OF assms(2,3)] serialized_json_within_limit_iff [OF assms(1), of "ser v"] by metis

lemma success_is_handler_value_witness:
  "\<exists>t \<le> 9. handler_ready demo_env = Some (t, Returns (Inr JNull))"
  using success_is_handler_value [OF _ demo_evaluation] by (simp add: demo_rt_def usize_max_def)

text \<open>
  No handler is abandoned silently: when an evaluation that entered its handler ends without
  having cancelled the invocation's token, the handler itself returned, no later than that.
\<close>

lemma abandoned_handler_is_cancelled:
  assumes "evaluate_tracked ser rt env call = Some ev" and "ev_handler_started ev" and "\<not> ev_cancelled ev"
  shows "\<exists>t x. handler_ready env = Some (t, Returns x) \<and> t \<le> ev_at ev"
  using assms(1,2)
proof (cases rule: started_result)
  case (ran registration timeout0 t timeout b t' r c)
  from ran(5) show ?thesis
  proof (cases rule: execute_handler_Some)
    case (ended x)
    then have "\<exists>y. x = Some (Returns y)"
      using assms(3) ran(6) by (cases x rule: option.exhaust; cases "the x") auto
    then show ?thesis using ended ran(6) by (auto simp: await_Some)
  qed (use assms(3) ran(6) in auto)
qed (use assms(3) in simp)

lemma abandoned_handler_is_cancelled_witness:
  "\<exists>t x. handler_ready demo_env = Some (t, Returns x) \<and> t \<le> 9"
  using abandoned_handler_is_cancelled [OF demo_evaluation] by simp

section \<open>Deadlines\<close>

text \<open>How long a call may take from its receipt until its result: its own deadline or the default.\<close>

definition time_budget :: "('h, 'p) command_runtime \<Rightarrow> node_invocation \<Rightarrow> duration" where
  "time_budget rt call =
     (case inv_timeout_ms call of
        None \<Rightarrow> default_timeout rt
      | Some ms \<Rightarrow> min (unat ms * 1000000) (max_timeout rt) - result_grace rt)"

definition waited :: "eval_env \<Rightarrow> duration" where
  "waited env = (case elapsed_since_receipt env of None \<Rightarrow> 0 | Some e \<Rightarrow> e)"

lemma resolve_timeout_cases:
  assumes "inv_timeout_ms call \<noteq> Some 0"
  shows "resolve_timeout rt call (elapsed_since_receipt env) =
    (if waited env < time_budget rt call then Inr (Some (time_budget rt call - waited env)) else Inl ())"
  using assms
  by (auto simp: resolve_timeout_def time_budget_def waited_def from_millis_def Let_def split: option.splits)

lemma await_in_time: "\<exists>t x. await (Some d) ready = Some (t, x) \<and> t \<le> d"
  by (cases ready) (auto simp: await_def)

lemma first_of_in_time: "ready = Some (t, x) \<Longrightarrow> \<exists>t' y. first_of at ready = Some (t', y) \<and> t' \<le> t"
  by (cases at) (auto simp: first_of_def)

lemma admission_in_time:
  "\<exists>t r b. evaluate_admission ser rt env (Some d) = Some (t, r, b) \<and> t \<le> d \<and>
     (\<forall>d'. r = Inr d' \<longrightarrow> d' = Some (d - t))"
proof (cases "admission_policy rt = None \<or> policy_panics env")
  case True
  then show ?thesis by (auto simp: evaluate_admission_def split: option.split)
next
  case False
  obtain t1 x1 where aw: "await (Some d) (policy_ready env) = Some (t1, x1)" "t1 \<le> d"
    using await_in_time by blast
  obtain t x where fo: "first_of (cancelled_at env) (await (Some d) (policy_ready env)) = Some (t, x)" "t \<le> d"
    using first_of_in_time [OF aw(1)] aw(2) le_trans by blast
  then show ?thesis using False
    by (auto simp: evaluate_admission_def split: option.split outcome.split sum.split)
qed

lemma handler_in_time:
  "\<exists>t r c. execute_handler ser rt env (Some d) duplex = Some (t, r, c) \<and> t \<le> d"
proof -
  obtain t1 x1 where aw: "await (Some d) (handler_ready env) = Some (t1, x1)" "t1 \<le> d"
    using await_in_time by blast
  obtain r c where o1: "handler_outcome ser (max_output_bytes rt) x1 = (r, c)"
    by (cases "handler_outcome ser (max_output_bytes rt) x1")
  show ?thesis
    using aw o1 by (cases "overflow_at env") (auto simp: execute_handler_def first_of_def Let_def)
qed

text \<open>
  C23. Every call with a deadline is answered in time: unless the Gateway asked for no deadline
  (\<open>timeoutMs\<close> 0), the evaluation ends whatever the policy and the handler do, within the budget of
  the call counted from its receipt (or at once, if the budget was already spent). The budget is
  never above the runtime's maximum, and leaves the result grace inside the Gateway's deadline.
\<close>

lemma evaluation_ends_in_time:
  assumes "inv_timeout_ms call \<noteq> Some 0" and "runtime_bounds rt"
  shows "(\<exists>ev. evaluate_tracked ser rt env call = Some ev \<and>
      (ev_at ev = 0 \<or> waited env + ev_at ev \<le> time_budget rt call)) \<and>
    time_budget rt call \<le> max_timeout rt \<and>
    (\<forall>ms. inv_timeout_ms call = Some ms \<and> 0 < time_budget rt call \<longrightarrow>
       time_budget rt call + result_grace rt \<le> from_millis (unat ms))"
proof -
  have "\<exists>ev. evaluate_tracked ser rt env call = Some ev \<and>
      (ev_at ev = 0 \<or> waited env + ev_at ev \<le> time_budget rt call)"
  proof (cases "\<exists>registration timeout0.
      resolve_session_handler rt call (session_commands env) = Inr registration \<and>
      input_fits ser rt call \<and> resolve_timeout rt call (elapsed_since_receipt env) = Inr timeout0")
    case True
    then obtain registration timeout0 where
      c: "resolve_session_handler rt call (session_commands env) = Inr registration"
        "input_fits ser rt call" "resolve_timeout rt call (elapsed_since_receipt env) = Inr timeout0"
      by blast
    define d where "d = time_budget rt call - waited env"
    have d: "timeout0 = Some d" "waited env + d \<le> time_budget rt call"
      using c(3) resolve_timeout_cases [OF assms(1), of rt env] by (auto simp: d_def split: if_splits)
    obtain t r b where adm: "evaluate_admission ser rt env (Some d) = Some (t, r, b)" "t \<le> d"
      "\<And>d'. r = Inr d' \<Longrightarrow> d' = Some (d - t)" using admission_in_time by blast
    obtain t' r' k where ex: "execute_handler ser rt env (Some (d - t))
        (rh_duplex registration \<and> session_commands env \<noteq> None) = Some (t', r', k)" "t' \<le> d - t"
      using handler_in_time by blast
    have "\<exists>ev. evaluate_tracked ser rt env call = Some ev \<and> ev_at ev \<le> d"
      unfolding evaluate_tracked_past_checks [OF c] d(1) adm(1)
      using adm(2,3) ex by (cases r) (auto simp del: not_None_eq split: option.split)
    then show ?thesis using d(2) by (meson add_left_mono le_trans)
  next
    case False
    then show ?thesis using evaluate_tracked_checks_fail [OF False] by fastforce
  qed
  then show ?thesis using assms(2)
    by (auto simp: time_budget_def runtime_bounds_def from_millis_def split: option.splits)
qed

lemma evaluation_ends_in_time_witness:
  "\<exists>ev. evaluate_tracked demo_ser demo_rt (demo_env\<lparr>handler_ready := None\<rparr>) demo_call = Some ev \<and>
     (ev_at ev = 0 \<or> 3 + ev_at ev \<le> 30000000000)"
  using evaluation_ends_in_time [of demo_call demo_rt demo_ser "demo_env\<lparr>handler_ready := None\<rparr>"]
  by (simp add: demo_call_def invocation_new_def runtime_bounds_def demo_rt_def time_budget_def waited_def
      demo_env_def from_millis_def)

end
