(* ===== verification/Reconnect.thy ===== *)
theory Reconnect
  imports ConnectPolicy CommandRuntime
begin

text \<open>
  The reconnect policy (\<open>reconnect.rs\<close>): how a failure of a connection is classified, when
  reconnecting pauses, and the exponential delays in between. A \<open>&str\<close> pattern is compared with
  the trimmed text, as in the code; a \<open>Duration\<close> holds less than \<open>2 ^ 64\<close> seconds.
\<close>

section \<open>Data\<close>

definition DEFAULT_INITIAL_DELAY :: duration where "DEFAULT_INITIAL_DELAY = from_secs 1"
definition DEFAULT_MAXIMUM_DELAY :: duration where "DEFAULT_MAXIMUM_DELAY = from_secs 30"
definition DEVICE_TOKEN_RETRY_DELAY :: duration where "DEVICE_TOKEN_RETRY_DELAY = from_millis 250"

datatype device_pairing_reason = NotPaired | RoleUpgrade | ScopeUpgrade | MetadataUpgrade

datatype recovery_step =
    RetryWithDeviceToken | UpdateAuthConfiguration | UpdateAuthCredentials | WaitThenRetry
  | ReviewAuthConfiguration

record device_pairing_request =
  dpr_reason :: "device_pairing_reason option"
  dpr_request_id :: "string option"
  dpr_remediation_hint :: "string option"
  dpr_recommended_next_step :: "recovery_step option"
  dpr_retryable :: "bool option"
  dpr_pause_reconnect :: "bool option"
  dpr_device_id :: "string option"
  dpr_requested_role :: "string option"
  dpr_requested_scopes :: "string list option"
  dpr_approved_roles :: "string list option"
  dpr_approved_scopes :: "string list option"

datatype reconnect_pause =
    DevicePairing device_pairing_request
  | Authentication string
  | Protocol "string option"
  | Configuration
  | LocalIdentity

datatype reconnect_action =
    KeepSession
  | RetryAfter duration
  | RetryWithStoredDeviceTokenAfter duration
  | Pause reconnect_pause

datatype stored_device_token_retry = Unavailable | AvailableForTrustedEndpoint

record reconnect_policy =
  rp_initial_delay :: duration
  rp_maximum_delay :: duration
  rp_next_delay :: duration
  rp_device_token_retry_used :: bool

definition policy_new :: "duration \<Rightarrow> duration \<Rightarrow> reconnect_policy" where
  "policy_new initial_delay maximum_delay =
     \<lparr>rp_initial_delay = initial_delay, rp_maximum_delay = max maximum_delay initial_delay,
      rp_next_delay = initial_delay, rp_device_token_retry_used = False\<rparr>"

definition policy_default :: reconnect_policy where
  "policy_default = policy_new DEFAULT_INITIAL_DELAY DEFAULT_MAXIMUM_DELAY"

text \<open>\<open>Duration::checked_mul(2)\<close>.\<close>

definition DURATION_LIMIT :: nat where "DURATION_LIMIT = 2 ^ 64 * 1000000000"

definition checked_double :: "duration \<Rightarrow> duration option" where
  "checked_double d = (if d * 2 < DURATION_LIMIT then Some (d * 2) else None)"

section \<open>Reading the details of an error\<close>

definition non_empty :: "string \<Rightarrow> string option" where
  "non_empty s = (if s = [] then None else Some s)"

definition parse_pairing_reason :: "string \<Rightarrow> device_pairing_reason option" where
  "parse_pairing_reason text =
     (let v = trim text in
      if v = ''not-paired'' then Some NotPaired
      else if v = ''role-upgrade'' then Some RoleUpgrade
      else if v = ''scope-upgrade'' then Some ScopeUpgrade
      else if v = ''metadata-upgrade'' then Some MetadataUpgrade
      else None)"

definition parse_recovery_step :: "string \<Rightarrow> recovery_step option" where
  "parse_recovery_step text =
     (let v = trim text in
      if v = ''retry_with_device_token'' then Some RetryWithDeviceToken
      else if v = ''update_auth_configuration'' then Some UpdateAuthConfiguration
      else if v = ''update_auth_credentials'' then Some UpdateAuthCredentials
      else if v = ''wait_then_retry'' then Some WaitThenRetry
      else if v = ''review_auth_configuration'' then Some ReviewAuthConfiguration
      else None)"

text \<open>\<open>Value::get\<close> with a key gives \<open>None\<close> for anything but an object.\<close>

definition get_str :: "string \<Rightarrow> json option \<Rightarrow> string option" where
  "get_str key details = Option.bind (Option.bind details (json_get key)) as_str"

definition recovery_step_of :: "json option \<Rightarrow> recovery_step option" where
  "recovery_step_of details = Option.bind (get_str ''recommendedNextStep'' details) parse_recovery_step"

definition connect_detail_code :: "string \<Rightarrow> json option \<Rightarrow> string" where
  "connect_detail_code gw_code details =
     (case Option.bind (map_option trim (get_str ''code'' details)) non_empty of
        Some detail_code \<Rightarrow> detail_code
      | None \<Rightarrow> if gw_code = ''NOT_PAIRED'' then ''PAIRING_REQUIRED'' else gw_code)"

definition optional_string :: "json option \<Rightarrow> string \<Rightarrow> string option" where
  "optional_string details key = Option.bind (map_option trim (get_str key details)) non_empty"

definition optional_bool :: "json option \<Rightarrow> string \<Rightarrow> bool option" where
  "optional_bool details key = Option.bind (Option.bind details (json_get key)) as_bool"

definition string_array :: "json option \<Rightarrow> string \<Rightarrow> string list option" where
  "string_array details key =
     Option.bind (Option.bind (Option.bind details (json_get key)) as_array) (\<lambda>values.
       let values = filter (\<lambda>v. v \<noteq> []) (map trim (List.map_filter as_str values)) in
       if values \<noteq> [] then Some values else None)"

text \<open>The first character of a string that starts with a byte above 127 is not alphanumeric.\<close>

definition request_id_char :: "char \<Rightarrow> bool" where
  "request_id_char c = (is_ascii_alphanumeric c \<or> c = CHR ''.'' \<or> c = CHR ''_'' \<or> c = CHR '':'' \<or> c = CHR ''-'')"

definition normalize_request_id :: "string \<Rightarrow> string option" where
  "normalize_request_id text =
     (let v = trim text in
      if v = [] \<or> length v > 128 then None
      else if \<not> is_ascii_alphanumeric (hd v) \<or> \<not> list_all request_id_char (tl v) then None
      else Some v)"

definition parse_pairing_request :: "json option \<Rightarrow> device_pairing_request" where
  "parse_pairing_request details =
     \<lparr>dpr_reason = Option.bind (get_str ''reason'' details) parse_pairing_reason,
      dpr_request_id = Option.bind (get_str ''requestId'' details) normalize_request_id,
      dpr_remediation_hint = optional_string details ''remediationHint'',
      dpr_recommended_next_step = Option.bind (get_str ''recommendedNextStep'' details) parse_recovery_step,
      dpr_retryable = optional_bool details ''retryable'',
      dpr_pause_reconnect = optional_bool details ''pauseReconnect'',
      dpr_device_id = optional_string details ''deviceId'',
      dpr_requested_role = optional_string details ''requestedRole'',
      dpr_requested_scopes = string_array details ''requestedScopes'',
      dpr_approved_roles = string_array details ''approvedRoles'',
      dpr_approved_scopes = string_array details ''approvedScopes''\<rparr>"

section \<open>Classification\<close>

definition is_tls_configuration_error :: "string \<Rightarrow> bool" where
  "is_tls_configuration_error reason =
     (contains reason TLS_PIN_MISMATCH_ERROR
      \<or> contains reason ''Gateway TLS fingerprint requires a wss:// URL'')"

definition auth_pause_codes :: "string list" where
  "auth_pause_codes =
     [''AUTH_TOKEN_MISSING'', ''AUTH_TOKEN_NOT_CONFIGURED'', ''AUTH_BOOTSTRAP_TOKEN_INVALID'',
      ''AUTH_PASSWORD_MISSING'', ''AUTH_PASSWORD_MISMATCH'', ''AUTH_PASSWORD_NOT_CONFIGURED'',
      ''AUTH_RATE_LIMITED'', ''AUTH_DEVICE_TOKEN_MISMATCH'', ''AUTH_SCOPE_MISMATCH'', ''AUTH_TOKEN_MISMATCH'',
      ''CONTROL_UI_DEVICE_IDENTITY_REQUIRED'', ''DEVICE_IDENTITY_REQUIRED'']"

definition is_auth_pause_code :: "string \<Rightarrow> bool" where
  "is_auth_pause_code c = (c \<in> set auth_pause_codes)"

definition classify_gateway :: "string \<Rightarrow> json option \<Rightarrow> bool option \<Rightarrow> reconnect_pause option" where
  "classify_gateway gw_code details retryable =
     (let detail_code = connect_detail_code gw_code details in
      if detail_code = ''PAIRING_REQUIRED'' then
        (let pairing = parse_pairing_request details in
         if dpr_pause_reconnect pairing = Some False \<or> dpr_recommended_next_step pairing = Some WaitThenRetry
           then None
         else Some (DevicePairing pairing))
      else if detail_code = ''PROTOCOL_MISMATCH'' \<or> detail_code = ''CLIENT_VERSION_MISMATCH''
        then Some (Protocol (Some detail_code))
      else if retryable = Some False \<or> should_pause_reconnect (details_from_value details)
        then Some (Authentication detail_code)
      else if detail_code = ''AUTH_RATE_LIMITED'' then Some (Authentication detail_code)
      else case recovery_step_of details of
        Some WaitThenRetry \<Rightarrow> None
      | Some _ \<Rightarrow> Some (Authentication detail_code)
      | None \<Rightarrow> if is_auth_pause_code detail_code then Some (Authentication detail_code) else None)"

fun classify_pause :: "client_error \<Rightarrow> reconnect_pause option" where
  "classify_pause (InvalidUrl _) = Some Configuration"
| "classify_pause InsecureRemoteGateway = Some Configuration"
| "classify_pause (Tls reason) = (if is_tls_configuration_error reason then Some Configuration else None)"
| "classify_pause (ConnectParams _) = Some LocalIdentity"
| "classify_pause (Identity _) = Some LocalIdentity"
| "classify_pause (InvalidChallenge _) = Some (Protocol None)"
| "classify_pause (InvalidFrame _) = Some (Protocol None)"
| "classify_pause (Gateway _ gw_code _ details retryable _) = classify_gateway gw_code details retryable"
| "classify_pause (Transport _) = None"
| "classify_pause ConnectTimeout = None"
| "classify_pause ChallengeTimeout = None"
| "classify_pause (RequestTimeout _) = None"
| "classify_pause (WriteTimeout _) = None"
| "classify_pause (Closed _) = None"
| "classify_pause (EventLagged _) = None"
| "classify_pause NotActivated = None"

fun gateway_retry_after :: "client_error \<Rightarrow> duration option" where
  "gateway_retry_after (Gateway _ _ _ _ _ retry_after_ms) = map_option (\<lambda>ms. from_millis (unat ms)) retry_after_ms"
| "gateway_retry_after _ = None"

fun gateway_requests_device_token_retry :: "client_error \<Rightarrow> bool" where
  "gateway_requests_device_token_retry (Gateway method gw_code _ details _ _) =
     (method = ''connect'' \<and>
      (connect_detail_code gw_code details = ''AUTH_TOKEN_MISMATCH''
       \<or> recovery_step_of details = Some RetryWithDeviceToken))"
| "gateway_requests_device_token_retry _ = False"

fun is_session_request_error :: "client_error \<Rightarrow> bool" where
  "is_session_request_error (Gateway method _ _ _ _ _) = (method \<noteq> ''connect'')"
| "is_session_request_error (RequestTimeout method) = (method \<noteq> ''connect'')"
| "is_session_request_error (EventLagged _) = True"
| "is_session_request_error NotActivated = True"
| "is_session_request_error _ = False"

section \<open>The policy\<close>

definition after_failure_with_device_token ::
  "client_error \<Rightarrow> stored_device_token_retry \<Rightarrow> reconnect_policy \<Rightarrow> reconnect_action \<times> reconnect_policy" where
  "after_failure_with_device_token error stored_token p =
     (if is_session_request_error error then (KeepSession, p)
      else if \<not> rp_device_token_retry_used p \<and> stored_token = AvailableForTrustedEndpoint
              \<and> gateway_requests_device_token_retry error
        then (RetryWithStoredDeviceTokenAfter DEVICE_TOKEN_RETRY_DELAY, p\<lparr>rp_device_token_retry_used := True\<rparr>)
      else case classify_pause error of
        Some pause \<Rightarrow> (Pause pause, p)
      | None \<Rightarrow>
     (case gateway_retry_after error of
        Some delay \<Rightarrow> (RetryAfter (min delay (rp_maximum_delay p)), p)
      | None \<Rightarrow>
          (RetryAfter (rp_next_delay p),
           p\<lparr>rp_next_delay :=
             min (case checked_double (rp_next_delay p) of Some d \<Rightarrow> d | None \<Rightarrow> rp_maximum_delay p)
               (rp_maximum_delay p)\<rparr>)))"

definition after_failure :: "client_error \<Rightarrow> reconnect_policy \<Rightarrow> reconnect_action \<times> reconnect_policy" where
  "after_failure error p = after_failure_with_device_token error Unavailable p"

definition connected :: "reconnect_policy \<Rightarrow> reconnect_policy" where
  "connected p = p\<lparr>rp_next_delay := rp_initial_delay p, rp_device_token_retry_used := False\<rparr>"

section \<open>The contract of a retry policy\<close>

text \<open>
  What a driver that retries relies on: the policy stays within a bound it keeps, through failures
  and resets. \<open>policy_trace\<close> runs a policy over failures (\<open>Some\<close>) and successful connections (\<open>None\<close>)
  and collects its actions.
\<close>

fun policy_trace ::
  "('e \<Rightarrow> 'p \<Rightarrow> reconnect_action \<times> 'p) \<Rightarrow> ('p \<Rightarrow> 'p) \<Rightarrow> 'e option list \<Rightarrow> 'p \<Rightarrow> reconnect_action list \<times> 'p" where
  "policy_trace failed reset [] p = ([], p)"
| "policy_trace failed reset (None # es) p = policy_trace failed reset es (reset p)"
| "policy_trace failed reset (Some e # es) p =
     (case failed e p of (a, p1) \<Rightarrow> case policy_trace failed reset es p1 of (as, p2) \<Rightarrow> (a # as, p2))"

lemma policy_trace_append:
  "policy_trace failed reset (xs @ ys) p =
   (fst (policy_trace failed reset xs p) @ fst (policy_trace failed reset ys (snd (policy_trace failed reset xs p))),
    snd (policy_trace failed reset ys (snd (policy_trace failed reset xs p))))"
  by (induction failed reset xs p rule: policy_trace.induct) (auto split: prod.splits)

locale retry_policy =
  fixes failed :: "'e \<Rightarrow> 'p \<Rightarrow> reconnect_action \<times> 'p"
    and reset :: "'p \<Rightarrow> 'p"
    and ok :: "'p \<Rightarrow> bool"
    and bound :: "'p \<Rightarrow> duration"
  assumes failed_ok: "ok p \<Longrightarrow> ok (snd (failed e p))"
    and failed_bound: "bound (snd (failed e p)) = bound p"
    and reset_ok: "ok p \<Longrightarrow> ok (reset p)"
    and reset_bound: "bound (reset p) = bound p"
    and retry_bounded: "ok p \<Longrightarrow> fst (failed e p) = RetryAfter d \<Longrightarrow> d \<le> bound p"
begin

lemma trace_keeps: "ok p \<Longrightarrow> ok (snd (policy_trace failed reset es p)) \<and> bound (snd (policy_trace failed reset es p)) = bound p"
proof (induction es arbitrary: p)
  case (Cons x es)
  show ?case
  proof (cases x)
    case None
    then show ?thesis using Cons reset_ok [of p] reset_bound [of p] by simp
  next
    case (Some e)
    obtain a p1 where f: "failed e p = (a, p1)" by (cases "failed e p")
    then have "ok p1" "bound p1 = bound p" using failed_ok [OF Cons.prems(1), of e] failed_bound [of e p] by simp_all
    then show ?thesis using Cons.IH [of p1] Some f by (auto split: prod.split)
  qed
qed simp

lemma trace_bounded: "ok p \<Longrightarrow> RetryAfter d \<in> set (fst (policy_trace failed reset es p)) \<Longrightarrow> d \<le> bound p"
proof (induction es arbitrary: p)
  case (Cons x es)
  show ?case
  proof (cases x)
    case None
    then show ?thesis using Cons reset_ok [of p] reset_bound [of p] by force
  next
    case (Some e)
    obtain a p1 where f: "failed e p = (a, p1)" by (cases "failed e p")
    then have "ok p1" "bound p1 = bound p" using failed_ok [OF Cons.prems(1), of e] failed_bound [of e p] by simp_all
    then show ?thesis using Cons Some f retry_bounded [OF Cons.prems(1), of e d]
      by (auto split: prod.splits) fastforce
  qed
qed simp

end

section \<open>The policy keeps it\<close>

definition policy_ok :: "reconnect_policy \<Rightarrow> bool" where
  "policy_ok p \<longleftrightarrow> rp_initial_delay p \<le> rp_next_delay p \<and> rp_next_delay p \<le> rp_maximum_delay p"

definition failed_with :: "client_error \<times> stored_device_token_retry \<Rightarrow> reconnect_policy \<Rightarrow>
  reconnect_action \<times> reconnect_policy" where
  "failed_with e p = after_failure_with_device_token (fst e) (snd e) p"

lemma after_failure_keeps:
  assumes "policy_ok p" and "after_failure_with_device_token e t p = (a, p')"
  shows "policy_ok p'" "rp_initial_delay p' = rp_initial_delay p" "rp_maximum_delay p' = rp_maximum_delay p"
    "a = RetryAfter d \<Longrightarrow> d \<le> rp_maximum_delay p"
  using assms
  by (auto simp: after_failure_with_device_token_def policy_ok_def checked_double_def min_def
      split: if_splits option.splits)

lemma after_failure_maximum: "rp_maximum_delay (snd (after_failure_with_device_token e t p)) = rp_maximum_delay p"
  by (simp add: after_failure_with_device_token_def split: option.split)

interpretation retry: retry_policy failed_with connected policy_ok rp_maximum_delay
proof
  fix p e d
  show "policy_ok p \<Longrightarrow> policy_ok (snd (failed_with e p))"
    using after_failure_keeps(1) by (metis failed_with_def prod.collapse)
  show "policy_ok p \<Longrightarrow> fst (failed_with e p) = RetryAfter d \<Longrightarrow> d \<le> rp_maximum_delay p"
    using after_failure_keeps(4) by (metis failed_with_def prod.collapse)
qed (auto simp: failed_with_def after_failure_maximum connected_def policy_ok_def)

lemma policy_new_ok: "policy_ok (policy_new i m)"
  by (simp add: policy_ok_def policy_new_def)

text \<open>A plain failure: the policy falls back to its own exponential delay.\<close>

definition plain_failure :: "client_error \<Rightarrow> bool" where
  "plain_failure e \<longleftrightarrow> \<not> is_session_request_error e \<and> classify_pause e = None \<and> gateway_retry_after e = None"

lemma plain_failure_step:
  assumes "plain_failure e" and "rp_maximum_delay p < DURATION_LIMIT"
  shows "after_failure e p =
    (RetryAfter (rp_next_delay p), p\<lparr>rp_next_delay := min (rp_next_delay p * 2) (rp_maximum_delay p)\<rparr>)"
  using assms
  by (auto simp: after_failure_def after_failure_with_device_token_def plain_failure_def checked_double_def min_def)

lemma plain_failures:
  assumes "\<forall>e \<in> set es. plain_failure e" and "m < DURATION_LIMIT"
    and "rp_maximum_delay p = m" and "rp_next_delay p = min (i * 2 ^ k) m"
  shows "fst (policy_trace after_failure connected (map Some es) p) =
    map (\<lambda>j. RetryAfter (min (i * 2 ^ j) m)) [k ..< k + length es]"
  using assms
proof (induction es arbitrary: p k)
  case (Cons e es)
  define p1 where "p1 = p\<lparr>rp_next_delay := min (rp_next_delay p * 2) (rp_maximum_delay p)\<rparr>"
  have "min (min (i * 2 ^ k) m * 2) m = min (i * 2 ^ Suc k) m" by (simp add: min_def)
  then have "fst (policy_trace after_failure connected (map Some es) p1) =
      map (\<lambda>j. RetryAfter (min (i * 2 ^ j) m)) [Suc k ..< Suc k + length es]"
    using Cons.prems by (intro Cons.IH) (simp_all add: p1_def)
  moreover have "[k ..< k + length (e # es)] = k # [Suc k ..< Suc k + length es]"
    by (simp add: upt_conv_Cons del: upt_Suc)
  moreover have "after_failure e p = (RetryAfter (min (i * 2 ^ k) m), p1)"
    using plain_failure_step [of e p] Cons.prems by (simp add: p1_def)
  then have "fst (policy_trace after_failure connected (map Some (e # es)) p) =
      RetryAfter (min (i * 2 ^ k) m) # fst (policy_trace after_failure connected (map Some es) p1)"
    by (simp split: prod.split)
  ultimately show ?case by (simp only: list.map)
qed simp

lemma trace_maximum:
  "rp_maximum_delay (snd (policy_trace after_failure connected es p)) = rp_maximum_delay p \<and>
   rp_initial_delay (snd (policy_trace after_failure connected es p)) = rp_initial_delay p"
proof (induction es arbitrary: p)
  case (Cons x es)
  show ?case
  proof (cases x)
    case (Some e)
    obtain a p1 where f: "after_failure e p = (a, p1)" by (cases "after_failure e p")
    have "rp_initial_delay (snd (after_failure e p)) = rp_initial_delay p"
      by (simp add: after_failure_def after_failure_with_device_token_def split: option.split)
    then have "rp_initial_delay p1 = rp_initial_delay p" "rp_maximum_delay p1 = rp_maximum_delay p"
      using f after_failure_maximum [of e Unavailable p] by (simp_all add: after_failure_def)
    then show ?thesis using Cons.IH [of p1] Some f by (auto split: prod.split)
  qed (use Cons in \<open>simp add: connected_def\<close>)
qed simp

section \<open>Properties\<close>

text \<open>
  Delays are bounded: whatever sequence of failures (with or without a stored token) and
  connections the policy sees, it never asks to wait longer than its maximum delay, not even when
  the Gateway's \<open>retryAfterMs\<close> says so.
\<close>

lemma retry_delay_bounded:
  assumes "RetryAfter d \<in> set (fst (policy_trace failed_with connected events (policy_new initial_delay maximum_delay)))"
  shows "d \<le> max maximum_delay initial_delay"
  using retry.trace_bounded [OF policy_new_ok assms] by (simp add: policy_new_def)

lemma retry_delay_bounded_witness:
  "min (from_millis 99999) 5 \<le> max 5 (3 :: nat)"
  using retry_delay_bounded [of "min (from_millis 99999) 5"
      "[Some (Gateway ''connect'' ''X'' ''m'' None None (Some 99999), Unavailable)]" 3 5]
  by (simp add: failed_with_def after_failure_with_device_token_def policy_new_def classify_gateway_def
      connect_detail_code_def get_str_def recovery_step_of_def details_from_value_def should_pause_reconnect_def
      is_auth_pause_code_def auth_pause_codes_def)

text \<open>
  Exponential backoff, exactly: after any history, a successful connection followed by failures
  that leave the delay to the policy gives the delays \<open>initial * 2 ^ j\<close> capped at the maximum, for
  \<open>j = 0, 1, 2, \<dots>\<close>; so a connection always resets the backoff, and overflow of the duration never
  shows.
\<close>

lemma backoff_is_exponential:
  assumes "\<forall>e \<in> set errors. plain_failure e" and "max maximum_delay initial_delay < DURATION_LIMIT"
  shows "fst (policy_trace after_failure connected (history @ None # map Some errors) (policy_new initial_delay maximum_delay)) =
    fst (policy_trace after_failure connected history (policy_new initial_delay maximum_delay)) @
    map (\<lambda>j. RetryAfter (min (initial_delay * 2 ^ j) (max maximum_delay initial_delay))) [0 ..< length errors]"
proof -
  let ?p = "snd (policy_trace after_failure connected history (policy_new initial_delay maximum_delay))"
  have "rp_maximum_delay (connected ?p) = max maximum_delay initial_delay"
    "rp_next_delay (connected ?p) = min (initial_delay * 2 ^ 0) (max maximum_delay initial_delay)"
    using trace_maximum [of history "policy_new initial_delay maximum_delay"]
    by (simp_all add: connected_def policy_new_def)
  from plain_failures [OF assms this] show ?thesis by (simp add: policy_trace_append)
qed

lemma backoff_is_exponential_witness:
  "fst (policy_trace after_failure connected [Some ConnectTimeout, None, Some ConnectTimeout, Some (Transport ''x''), Some ConnectTimeout]
     (policy_new 10 30)) = [RetryAfter 10, RetryAfter 10, RetryAfter 20, RetryAfter 30]"
proof -
  have "after_failure ConnectTimeout (policy_new 10 30) =
      (RetryAfter 10, (policy_new 10 30)\<lparr>rp_next_delay := 20\<rparr>)"
    by (subst plain_failure_step) (simp_all add: plain_failure_def policy_new_def DURATION_LIMIT_def)
  then show ?thesis
    using backoff_is_exponential [of "[ConnectTimeout, Transport ''x'', ConnectTimeout]" 30 10 "[Some ConnectTimeout]"]
    by (simp add: plain_failure_def DURATION_LIMIT_def upt_rec split: prod.splits)
qed

text \<open>
  A stored device token is offered at most once per connection: between two successful
  connections at most one failure is answered with the stored-token retry, and only where the
  application said that it has a token for a trusted endpoint and the Gateway refused \<open>connect\<close>.
\<close>

lemma device_token_retried_once:
  "length (filter (\<lambda>a. \<exists>d. a = RetryWithStoredDeviceTokenAfter d)
     (fst (policy_trace failed_with connected (map Some failures) p))) \<le> 1 \<and>
   (fst (after_failure_with_device_token e t p) = RetryWithStoredDeviceTokenAfter d \<longrightarrow>
      t = AvailableForTrustedEndpoint \<and> d = DEVICE_TOKEN_RETRY_DELAY \<and> gateway_method e = ''connect'' \<and>
      rp_device_token_retry_used (snd (after_failure_with_device_token e t p)))"
proof
  let ?retry = "\<lambda>a. \<exists>d. a = RetryWithStoredDeviceTokenAfter d"
  have step: "(?retry (fst (failed_with f p)) \<longrightarrow> \<not> rp_device_token_retry_used p \<and> rp_device_token_retry_used (snd (failed_with f p))) \<and>
      (rp_device_token_retry_used p \<longrightarrow> rp_device_token_retry_used (snd (failed_with f p)))" for f p
    by (auto simp: failed_with_def after_failure_with_device_token_def split: option.splits)
  have "length (filter ?retry (fst (policy_trace failed_with connected (map Some failures) p)))
      \<le> (if rp_device_token_retry_used p then 0 else 1)"
  proof (induction failures arbitrary: p)
    case (Cons f fs)
    obtain a p1 where f: "failed_with f p = (a, p1)" by (cases "failed_with f p")
    obtain as p2 where g: "policy_trace failed_with connected (map Some fs) p1 = (as, p2)"
      by (cases "policy_trace failed_with connected (map Some fs) p1")
    show ?case using step [of f p] Cons.IH [of p1] f g by (auto split: if_splits)
  qed simp
  then show "length (filter ?retry (fst (policy_trace failed_with connected (map Some failures) p))) \<le> 1"
    by (meson le_trans le_numeral_extra(4) zero_le_one order.refl if_split)
next
  show "fst (after_failure_with_device_token e t p) = RetryWithStoredDeviceTokenAfter d \<longrightarrow>
      t = AvailableForTrustedEndpoint \<and> d = DEVICE_TOKEN_RETRY_DELAY \<and> gateway_method e = ''connect'' \<and>
      rp_device_token_retry_used (snd (after_failure_with_device_token e t p))"
    by (cases e) (auto simp: after_failure_with_device_token_def split: option.splits if_splits)
qed

lemma device_token_retried_once_witness:
  "fst (after_failure_with_device_token
      (Gateway ''connect'' ''AUTH_TOKEN_MISMATCH'' ''m'' None None None) AvailableForTrustedEndpoint policy_default) =
     RetryWithStoredDeviceTokenAfter DEVICE_TOKEN_RETRY_DELAY \<and>
   rp_device_token_retry_used (snd (after_failure_with_device_token
      (Gateway ''connect'' ''AUTH_TOKEN_MISMATCH'' ''m'' None None None) AvailableForTrustedEndpoint policy_default))"
proof -
  have "fst (after_failure_with_device_token
      (Gateway ''connect'' ''AUTH_TOKEN_MISMATCH'' ''m'' None None None) AvailableForTrustedEndpoint policy_default) =
     RetryWithStoredDeviceTokenAfter DEVICE_TOKEN_RETRY_DELAY"
    by (simp add: after_failure_with_device_token_def policy_default_def policy_new_def connect_detail_code_def get_str_def)
  then show ?thesis using device_token_retried_once by blast
qed

text \<open>
  The Gateway's word to stop is obeyed: when it refuses \<open>connect\<close> and says not to retry, in the
  error itself or as \<open>retryable: false\<close> or \<open>pauseReconnect: true\<close> in its details, reconnecting pauses
  whatever retry hint or delay comes with it; the only exception is a pairing request, which pauses
  unless its details say \<open>pauseReconnect: false\<close> or \<open>wait_then_retry\<close>.
\<close>

lemma gateway_stop_is_obeyed:
  assumes "retryable = Some False \<or> optional_bool details ''retryable'' = Some False \<or>
      optional_bool details ''pauseReconnect'' = Some True"
  shows "if connect_detail_code gw_code details = ''PAIRING_REQUIRED'' \<and>
          (optional_bool details ''pauseReconnect'' = Some False \<or> recovery_step_of details = Some WaitThenRetry)
       then \<exists>d. fst (after_failure (Gateway ''connect'' gw_code message details retryable retry_after) p) = RetryAfter d
       else \<exists>pause. after_failure (Gateway ''connect'' gw_code message details retryable retry_after) p = (Pause pause, p)"
proof -
  have "should_pause_reconnect (details_from_value details) \<longleftrightarrow>
      optional_bool details ''retryable'' = Some False \<or> optional_bool details ''pauseReconnect'' = Some True"
    by (cases details) (auto simp: should_pause_reconnect_def details_from_value_def optional_bool_def)
  then have stop: "retryable = Some False \<or> should_pause_reconnect (details_from_value details)" using assms by blast
  have cls: "classify_gateway gw_code details retryable = None \<longleftrightarrow>
      connect_detail_code gw_code details = ''PAIRING_REQUIRED'' \<and>
      (optional_bool details ''pauseReconnect'' = Some False \<or> recovery_step_of details = Some WaitThenRetry)"
  proof (cases "connect_detail_code gw_code details = ''PAIRING_REQUIRED''")
    case True
    then show ?thesis by (simp add: classify_gateway_def parse_pairing_request_def recovery_step_of_def)
  next
    case False
    then show ?thesis using stop by (simp add: classify_gateway_def Let_def)
  qed
  have "after_failure (Gateway ''connect'' gw_code message details retryable retry_after) p = (Pause pause, p)"
    if "classify_gateway gw_code details retryable = Some pause" for pause
    using that by (simp add: after_failure_def after_failure_with_device_token_def)
  moreover have "\<exists>d. fst (after_failure (Gateway ''connect'' gw_code message details retryable retry_after) p) = RetryAfter d"
    if "classify_gateway gw_code details retryable = None"
    using that by (simp add: after_failure_def after_failure_with_device_token_def split: option.split)
  ultimately show ?thesis unfolding cls [symmetric] by (cases "classify_gateway gw_code details retryable") auto
qed

lemma gateway_stop_is_obeyed_witness:
  "\<exists>pause. after_failure (Gateway ''connect'' ''BUSY'' ''m'' None (Some False) (Some 5)) policy_default = (Pause pause, policy_default)"
  using gateway_stop_is_obeyed [of "Some False" None "''BUSY''" "''m''" "Some 5" policy_default]
  by (simp add: connect_detail_code_def get_str_def)

text \<open>
  Pairing diagnostics are sanitized: the request identifier kept of an untrusted pairing response
  has between 1 and 128 characters, starts with a letter or digit and consists of letters, digits
  and \<open>. _ : -\<close> only, so it is safe to show in a command line; and no text or list kept is empty.
\<close>

lemma pairing_request_sanitized:
  assumes "pairing = parse_pairing_request details"
  shows "(\<forall>r. dpr_request_id pairing = Some r \<longrightarrow> 1 \<le> length r \<and> length r \<le> 128 \<and>
      is_ascii_alphanumeric (hd r) \<and>
      (\<forall>c \<in> set r. is_ascii_alphanumeric c \<or> c \<in> set ''._:-'')) \<and>
    dpr_remediation_hint pairing \<noteq> Some [] \<and> dpr_device_id pairing \<noteq> Some [] \<and>
    dpr_requested_role pairing \<noteq> Some [] \<and>
    (\<forall>scopes. dpr_requested_scopes pairing = Some scopes \<longrightarrow> scopes \<noteq> [] \<and> [] \<notin> set scopes)"
proof -
  have "1 \<le> length r \<and> length r \<le> 128 \<and> is_ascii_alphanumeric (hd r) \<and>
      (\<forall>c \<in> set r. is_ascii_alphanumeric c \<or> c \<in> set ''._:-'')"
    if "normalize_request_id raw = Some r" for raw r
    using that by (cases r) (auto simp: normalize_request_id_def Let_def list_all_iff request_id_char_def split: if_splits)
  then show ?thesis unfolding assms
    by (auto simp: parse_pairing_request_def optional_string_def non_empty_def string_array_def bind_eq_Some_conv
        Let_def split: if_splits)
qed

lemma pairing_request_sanitized_witness:
  "dpr_request_id (parse_pairing_request (Some (JObject [(''requestId'', JString ''r-1'')]))) = Some ''r-1'' \<and>
   length ''r-1'' \<le> 128"
proof -
  have "dpr_request_id (parse_pairing_request (Some (JObject [(''requestId'', JString ''r-1'')]))) = Some ''r-1''"
    by (simp add: parse_pairing_request_def get_str_def json_get_def normalize_request_id_def trim_def is_ws1_def
        is_ws2_def is_ws3_def char_code_def is_ascii_alphanumeric_def request_id_char_def)
  then show ?thesis using pairing_request_sanitized [OF refl] by blast
qed

end
