(* ===== verification/RuntimeLoop.thy ===== *)
theory RuntimeLoop
  imports CommandRuntime "HOL-Library.Multiset"
begin

text \<open>
  The session loop of the command runtime (\<open>CommandRuntime::run\<close> in \<open>runtime.rs\<close>), its one-shot
  sibling \<open>dispatch\<close>, and the functions that stop their tasks.

  \<open>run\<close> selects over the session's events, the handler tasks it joins and the worker that delivers
  overload results. One turn of the loop is the function \<open>loop_step\<close> of the event that won the
  \<open>select!\<close>; what happens concurrently (a handler task runs to its end, the worker takes its next
  delivery, a handler reads input) is an event as well, so a run is any list of events. What the
  session does with a completed invocation is part of the event.
\<close>

section \<open>State\<close>

datatype runtime_error = Client client_error | DeliverySaturated | ResultTask string

text \<open>
  A handler task: its invocation, the token and guard it was given, and once it has ended its
  outcome, which the loop has not joined yet. It owns a permit until it is joined. The outer error
  of \<open>'a joined\<close> is a \<open>JoinError\<close> as \<open>to_string\<close> shows it.
\<close>

type_synonym 'a joined = "string + client_error + 'a"

record handler_task =
  tk_call :: node_invocation
  tk_token :: nat
  tk_guard :: "active_invocation option"
  tk_ended :: "unit joined option"

record run_loop =
  rl_world :: world
  rl_permits :: nat
  rl_tasks :: "handler_task list"
  rl_overload :: "(node_invocation \<times> invocation_result) list"
  rl_worker_ended :: "unit joined option"
  rl_delivered :: "(node_invocation \<times> invocation_result) list"
  rl_session_closed :: bool
  rl_exit :: "runtime_error option"

definition run_start :: "('h, 'p) command_runtime \<Rightarrow> world \<Rightarrow> run_loop" where
  "run_start rt w = \<lparr>rl_world = w, rl_permits = max_permits rt, rl_tasks = [], rl_overload = [],
     rl_worker_ended = None, rl_delivered = [], rl_session_closed = False, rl_exit = None\<rparr>"

section \<open>Tasks\<close>

definition is_duplex :: "('h, 'p) command_runtime \<Rightarrow> node_invocation \<Rightarrow> bool" where
  "is_duplex rt call =
     (case map_of (handlers rt) (inv_command call) of None \<Rightarrow> False | Some handler \<Rightarrow> rh_duplex handler)"

text \<open>The permit was taken from \<open>rl_permits\<close> by the caller.\<close>

definition spawn_handler_task :: "('h, 'p) command_runtime \<Rightarrow> node_invocation \<Rightarrow> run_loop \<Rightarrow> run_loop" where
  "spawn_handler_task rt call s =
     (case begin_invocation (inv_id call) (inv_node_id call) (is_duplex rt call) (rl_world s) of
        ((t, guard), w) \<Rightarrow>
          s\<lparr>rl_world := w,
            rl_tasks := rl_tasks s @ [\<lparr>tk_call = call, tk_token = t, tk_guard = guard, tk_ended = None\<rparr>]\<rparr>)"

text \<open>The result a task delivers, and whether its evaluation cancels the token. \<open>None\<close>: it does not end.\<close>

definition task_evaluation ::
  "(json \<Rightarrow> serialized) \<Rightarrow> ('h, 'p) command_runtime \<Rightarrow> handler_task \<Rightarrow> eval_env \<Rightarrow>
   (invocation_result \<times> bool) option" where
  "task_evaluation ser rt task env =
     (case tk_guard task of
        None \<Rightarrow> Some (failure ''DUPLICATE_INVOCATION'' ''invocation id is already executing'', False)
      | Some _ \<Rightarrow> map_option (\<lambda>ev. (ev_result ev, ev_cancelled ev)) (evaluate_tracked ser rt env (tk_call task)))"

text \<open>\<open>drop(tracking)\<close>, where there is a guard.\<close>

definition drop_tracking :: "active_invocation option \<Rightarrow> world \<Rightarrow> world" where
  "drop_tracking guard w = (case guard of None \<Rightarrow> w | Some g \<Rightarrow> guard_drop g w)"

text \<open>
  The rest of a task once its evaluation ended: cancel the token if the evaluation did, complete
  the invocation, disarm the guard if that succeeded, drop the guard.
\<close>

definition finish_task ::
  "invocation_result \<Rightarrow> bool \<Rightarrow> client_error + unit \<Rightarrow> handler_task \<Rightarrow> world \<Rightarrow> handler_task \<times> world" where
  "finish_task result cancels completion task w =
     (let w = (if cancels then token_cancel (tk_token task) w else w);
          tracking = (if is_ok completion then map_option disarm (tk_guard task) else tk_guard task) in
      (task\<lparr>tk_ended := Some (Inr completion)\<rparr>, drop_tracking tracking w))"

text \<open>A task that panics or is aborted drops its guard as it is.\<close>

definition unwind_task :: "string \<Rightarrow> handler_task \<Rightarrow> world \<Rightarrow> handler_task \<times> world" where
  "unwind_task message task w =
     (task\<lparr>tk_ended := Some (Inl message)\<rparr>, drop_tracking (tk_guard task) w)"

definition abort_task :: "handler_task \<Rightarrow> world \<Rightarrow> world" where
  "abort_task task w = (if tk_ended task = None then drop_tracking (tk_guard task) w else w)"

text \<open>\<open>stop_handler_tasks\<close>: cancel everything, abort and join every task; each returns its permit.\<close>

definition stop_handler_tasks :: "run_loop \<Rightarrow> run_loop" where
  "stop_handler_tasks s =
     s\<lparr>rl_world := fold abort_task (rl_tasks s) (cancel_all (rl_world s)),
       rl_permits := rl_permits s + length (rl_tasks s), rl_tasks := []\<rparr>"

text \<open>\<open>stop_runtime_tasks\<close> also aborts the delivery worker; what was queued for it is lost.\<close>

definition stop_runtime_tasks :: "run_loop \<Rightarrow> run_loop" where
  "stop_runtime_tasks s =
     stop_handler_tasks
       (s\<lparr>rl_worker_ended := (if rl_worker_ended s = None then Some (Inl ''aborted'') else rl_worker_ended s),
         rl_overload := []\<rparr>)"

definition runtime_task_failure :: "unit joined \<Rightarrow> string \<Rightarrow> runtime_error" where
  "runtime_task_failure completed unexpected =
     (case completed of
        Inr (Inl error) \<Rightarrow> Client error
      | Inl error \<Rightarrow> ResultTask error
      | Inr (Inr _) \<Rightarrow> ResultTask unexpected)"

text \<open>Leaving the loop with an error: \<open>session.close()\<close> and \<open>return Err\<close>.\<close>

definition leave :: "runtime_error \<Rightarrow> run_loop \<Rightarrow> run_loop" where
  "leave error s = s\<lparr>rl_session_closed := True, rl_exit := Some error\<rparr>"

section \<open>The loop\<close>

datatype loop_event =
    NodeEvent "client_error + node_session_event"
  | TaskJoined nat
  | WorkerJoined
  | TaskEnds nat eval_env "client_error + unit"
  | TaskPanics nat string
  | TaskReads nat
  | WorkerDelivers "client_error + unit"
  | WorkerPanics string

text \<open>
  \<open>try_send\<close> on the overload channel fails with \<open>Closed\<close> once the worker and with it the receiver
  is gone, and with \<open>Full\<close> at the channel's capacity.
\<close>

definition offer_overload :: "('h, 'p) command_runtime \<Rightarrow> node_invocation \<Rightarrow> run_loop \<Rightarrow> run_loop" where
  "offer_overload rt call s =
     (case rl_worker_ended s of
        Some worker \<Rightarrow>
          leave (runtime_task_failure worker ''result delivery worker stopped'') (stop_handler_tasks s)
      | None \<Rightarrow>
      if length (rl_overload s) < delivery_capacity rt
        then s\<lparr>rl_overload := rl_overload s @
          [(call, failure ''OVERLOADED'' ''command runtime is at its concurrency limit'')]\<rparr>
      else leave DeliverySaturated (stop_runtime_tasks s))"

definition on_invocation :: "('h, 'p) command_runtime \<Rightarrow> node_invocation \<Rightarrow> run_loop \<Rightarrow> run_loop" where
  "on_invocation rt call s =
     (case rl_permits s of
        Suc permits \<Rightarrow> spawn_handler_task rt call (s\<lparr>rl_permits := permits\<rparr>)
      | 0 \<Rightarrow> offer_overload rt call s)"

definition on_node_event ::
  "('h, 'p) command_runtime \<Rightarrow> client_error + node_session_event \<Rightarrow> run_loop \<Rightarrow> run_loop" where
  "on_node_event rt event s =
     (case event of
        Inl error \<Rightarrow> leave (Client error) (stop_runtime_tasks s)
      | Inr (Invocation call) \<Rightarrow> on_invocation rt call s
      | Inr control \<Rightarrow>
          (case route_invocation_control control (rl_world s) of
             Some w \<Rightarrow> s\<lparr>rl_world := w\<rparr>
           | None \<Rightarrow> s))"

definition remove_nth :: "nat \<Rightarrow> 'a list \<Rightarrow> 'a list" where
  "remove_nth k xs = take k xs @ drop (Suc k) xs"

text \<open>\<open>join_next\<close> yields the \<open>k\<close>-th task; its permit is dropped with the tuple.\<close>

definition on_task_joined :: "nat \<Rightarrow> run_loop \<Rightarrow> run_loop" where
  "on_task_joined k s =
     (if k < length (rl_tasks s) then
        (case tk_ended (rl_tasks s ! k) of
           None \<Rightarrow> s
         | Some completed \<Rightarrow>
             (let s = s\<lparr>rl_tasks := remove_nth k (rl_tasks s), rl_permits := Suc (rl_permits s)\<rparr> in
              case completed of
                Inr (Inr _) \<Rightarrow> s
              | Inr (Inl error) \<Rightarrow> leave (Client error) (stop_runtime_tasks s)
              | Inl error \<Rightarrow> leave (ResultTask error) (stop_runtime_tasks s)))
      else s)"

definition on_worker_joined :: "run_loop \<Rightarrow> run_loop" where
  "on_worker_joined s =
     (case rl_worker_ended s of
        None \<Rightarrow> s
      | Some completed \<Rightarrow>
          leave (runtime_task_failure completed ''result delivery worker stopped unexpectedly'')
            (stop_handler_tasks s))"

text \<open>What a task does concurrently with the loop.\<close>

definition on_task_ends ::
  "(json \<Rightarrow> serialized) \<Rightarrow> ('h, 'p) command_runtime \<Rightarrow> nat \<Rightarrow> eval_env \<Rightarrow> client_error + unit \<Rightarrow>
   run_loop \<Rightarrow> run_loop" where
  "on_task_ends ser rt k env completion s =
     (if k < length (rl_tasks s) \<and> tk_ended (rl_tasks s ! k) = None then
        (case task_evaluation ser rt (rl_tasks s ! k) env of
           None \<Rightarrow> s
         | Some (result, cancels) \<Rightarrow>
             (case finish_task result cancels completion (rl_tasks s ! k) (rl_world s) of
                (task, w) \<Rightarrow>
                  s\<lparr>rl_world := w, rl_tasks := (rl_tasks s)[k := task],
                    rl_delivered := rl_delivered s @ [(tk_call task, result)]\<rparr>))
      else s)"

definition on_task_panics :: "nat \<Rightarrow> string \<Rightarrow> run_loop \<Rightarrow> run_loop" where
  "on_task_panics k message s =
     (if k < length (rl_tasks s) \<and> tk_ended (rl_tasks s ! k) = None then
        (case unwind_task message (rl_tasks s ! k) (rl_world s) of
           (task, w) \<Rightarrow> s\<lparr>rl_world := w, rl_tasks := (rl_tasks s)[k := task]\<rparr>)
      else s)"

text \<open>The worker delivers one queued result; its first failed delivery ends it.\<close>

definition worker_ends :: "unit joined \<Rightarrow> run_loop \<Rightarrow> run_loop" where
  "worker_ends completed s = s\<lparr>rl_worker_ended := Some completed, rl_overload := []\<rparr>"

definition on_worker_delivers :: "client_error + unit \<Rightarrow> run_loop \<Rightarrow> run_loop" where
  "on_worker_delivers completion s =
     (case (rl_worker_ended s, rl_overload s) of
        (None, d # ds) \<Rightarrow>
          (let s = s\<lparr>rl_overload := ds, rl_delivered := rl_delivered s @ [d]\<rparr> in
           case completion of Inl error \<Rightarrow> worker_ends (Inr (Inl error)) s | Inr _ \<Rightarrow> s)
      | _ \<Rightarrow> s)"

definition on_worker_panics :: "string \<Rightarrow> run_loop \<Rightarrow> run_loop" where
  "on_worker_panics message s =
     (if rl_worker_ended s = None then worker_ends (Inl message) s else s)"

text \<open>After the loop was left nothing happens any more.\<close>

definition loop_step ::
  "(json \<Rightarrow> serialized) \<Rightarrow> ('h, 'p) command_runtime \<Rightarrow> loop_event \<Rightarrow> run_loop \<Rightarrow> run_loop" where
  "loop_step ser rt event s =
     (if rl_exit s \<noteq> None then s
      else case event of
        NodeEvent e \<Rightarrow> on_node_event rt e s
      | TaskJoined k \<Rightarrow> on_task_joined k s
      | WorkerJoined \<Rightarrow> on_worker_joined s
      | TaskEnds k env completion \<Rightarrow> on_task_ends ser rt k env completion s
      | TaskPanics k message \<Rightarrow> on_task_panics k message s
      | TaskReads b \<Rightarrow> s\<lparr>rl_world := (rl_world s)\<lparr>buffers :=
          (buffers (rl_world s))(b := snd (input_recv (buffers (rl_world s) b)))\<rparr>\<rparr>
      | WorkerDelivers completion \<Rightarrow> on_worker_delivers completion s
      | WorkerPanics message \<Rightarrow> on_worker_panics message s)"

definition run_events ::
  "(json \<Rightarrow> serialized) \<Rightarrow> ('h, 'p) command_runtime \<Rightarrow> loop_event list \<Rightarrow> run_loop \<Rightarrow> run_loop" where
  "run_events ser rt events s = fold (loop_step ser rt) events s"

section \<open>Invariant\<close>

text \<open>The tasks that are still running an invocation of their own, and the table of invocations.\<close>

definition owns :: "handler_task \<Rightarrow> bool" where
  "owns task \<longleftrightarrow> tk_ended task = None \<and> tk_guard task \<noteq> None"

definition running :: "run_loop \<Rightarrow> handler_task list" where
  "running s = filter owns (rl_tasks s)"

definition task_id :: "handler_task \<Rightarrow> string" where
  "task_id task = ai_id (the (tk_guard task))"

definition task_key :: "handler_task \<Rightarrow> string \<times> nat" where
  "task_key task = (task_id task, tk_token task)"

definition entry_key :: "string \<times> active_state \<Rightarrow> string \<times> nat" where
  "entry_key e = (fst e, as_cancellation (snd e))"

definition tracks :: "run_loop \<Rightarrow> bool" where
  "tracks s \<longleftrightarrow> entry_key ` set (active (rl_world s)) = task_key ` set (running s) \<and>
     distinct (map task_id (running s))"

definition loop_invar :: "('h, 'p) command_runtime \<Rightarrow> run_loop \<Rightarrow> bool" where
  "loop_invar rt s \<longleftrightarrow>
     world_invar (rl_world s) \<and> tracks s \<and>
     rl_permits s + length (rl_tasks s) = max_permits rt \<and>
     length (rl_overload s) \<le> delivery_capacity rt \<and>
     (rl_exit s \<noteq> None \<longrightarrow> rl_tasks s = [] \<and> active (rl_world s) = [] \<and> rl_session_closed s)"

lemma active_untrack: "active (untrack i w) = filter (\<lambda>e. fst e \<noteq> i) (active w)"
  by (simp add: untrack_def Let_def AList.delete_eq split: option.split) (auto intro: filter_cong)

lemma drop_tracking_active:
  "active (drop_tracking guard w) =
     (case guard of None \<Rightarrow> active w | Some g \<Rightarrow> filter (\<lambda>e. fst e \<noteq> ai_id g) (active w))"
  by (simp add: drop_tracking_def guard_drop_def active_untrack split: option.split)

lemma drop_tracking_invar [step_intros]: "world_invar w \<Longrightarrow> world_invar (drop_tracking guard w)"
  by (cases guard) (simp_all add: drop_tracking_def guard_drop_invar)

lemma untrack_tokens: "tokens (untrack i w) = tokens w"
  by (simp add: untrack_def Let_def split: option.split)

lemma drop_tracking_tokens: "tokens w t \<Longrightarrow> tokens (drop_tracking guard w) t"
  by (simp add: drop_tracking_def guard_drop_def untrack_tokens token_cancel_def split: option.split)

lemma abort_task_mono: "tokens w t \<Longrightarrow> tokens (abort_task task w) t"
  by (simp add: abort_task_def drop_tracking_tokens)

lemma abort_tasks_mono: "tokens w t \<Longrightarrow> tokens (fold abort_task tasks w) t"
  by (induction tasks arbitrary: w) (simp_all add: abort_task_mono)

lemma abort_tasks_active: "active w = [] \<Longrightarrow> active (fold abort_task tasks w) = []"
  by (induction tasks arbitrary: w) (simp_all add: abort_task_def drop_tracking_active split: option.split)

lemma abort_tasks_invar: "world_invar w \<Longrightarrow> world_invar (fold abort_task tasks w)"
  by (induction tasks arbitrary: w) (simp_all add: abort_task_def drop_tracking_invar)

text \<open>Stopping the tasks: nothing is tracked or running, and every token of a running task is cancelled.\<close>

lemma stopped_loop [simp]:
  "rl_tasks (stop_handler_tasks s) = []" "active (rl_world (stop_handler_tasks s)) = []"
  "rl_permits (stop_handler_tasks s) = rl_permits s + length (rl_tasks s)"
  "rl_overload (stop_handler_tasks s) = rl_overload s"
  "world_invar (rl_world (stop_handler_tasks s))"
  by (simp_all add: stop_handler_tasks_def abort_tasks_active abort_tasks_invar cancel_all_invar)

lemma stop_cancels:
  assumes "tracks s" and "task \<in> set (running s)"
  shows "tokens (rl_world (stop_handler_tasks s)) (tk_token task)"
proof -
  have "task_key task \<in> entry_key ` set (active (rl_world s))" using assms by (simp add: tracks_def)
  then obtain e where "e \<in> set (active (rl_world s))" "entry_key e = task_key task" by auto
  then have "tokens (cancel_all (rl_world s)) (tk_token task)"
    using fold_stops [of e "active (rl_world s)" "(rl_world s)\<lparr>active := []\<rparr>"]
    by (simp add: cancel_all_def stopped_def entry_key_def task_key_def)
  then show ?thesis by (simp add: stop_handler_tasks_def abort_tasks_mono)
qed

lemma stopped_invar:
  assumes "loop_invar rt s"
  shows "loop_invar rt (leave error (stop_handler_tasks s))"
    and "loop_invar rt (leave error (stop_runtime_tasks s))"
  using assms by (simp_all add: loop_invar_def leave_def stop_runtime_tasks_def tracks_def running_def)

lemma nth_split:
  assumes "k < length xs"
  obtains before after where "xs = before @ xs ! k # after" "\<And>y. xs[k := y] = before @ y # after"
    "remove_nth k xs = before @ after"
  using assms by (metis id_take_nth_drop upd_conv_take_nth_drop remove_nth_def)

lemma begin_cases:
  assumes "begin_invocation i n duplex w = ((t, guard), w')"
  shows "case map_of (active w) i of
      Some st \<Rightarrow> guard = None \<and> active w' = active w
    | None \<Rightarrow> (\<exists>st g. guard = Some g \<and> ai_id g = i \<and> as_cancellation st = t \<and> active w' = (i, st) # active w)"
  using assms
  by (auto simp: begin_invocation_def token_new_def track_def buffer_new_def Let_def
      split: option.splits if_splits)

lemma tracks_ids:
  assumes "tracks s"
  shows "fst ` set (active (rl_world s)) = task_id ` set (running s)"
proof -
  have "fst ` entry_key ` set (active (rl_world s)) = fst ` task_key ` set (running s)"
    using assms by (simp add: tracks_def)
  then show ?thesis unfolding image_image entry_key_def task_key_def by simp
qed

lemma spawn_invar:
  assumes "world_invar (rl_world s)" and "tracks s"
  shows "world_invar (rl_world (spawn_handler_task rt call s)) \<and> tracks (spawn_handler_task rt call s)"
proof -
  obtain t guard w where b: "begin_invocation (inv_id call) (inv_node_id call) (is_duplex rt call) (rl_world s)
      = ((t, guard), w)" by (metis prod.exhaust)
  note entry = begin_cases [OF b]
  define task where "task = \<lparr>tk_call = call, tk_token = t, tk_guard = guard, tk_ended = None\<rparr>"
  have sp: "rl_world (spawn_handler_task rt call s) = w"
    "running (spawn_handler_task rt call s) = running s @ (if guard = None then [] else [task])"
    by (simp_all add: spawn_handler_task_def b running_def owns_def task_def)
  have "world_invar w" using begin_invocation_invar [OF assms(1)] b by (metis snd_conv)
  moreover have "tracks (spawn_handler_task rt call s)"
  proof (cases "map_of (active (rl_world s)) (inv_id call)")
    case None
    with entry obtain st g where g: "guard = Some g" "ai_id g = inv_id call" "as_cancellation st = t"
      "active w = (inv_id call, st) # active (rl_world s)" by auto
    have "inv_id call \<notin> task_id ` set (running s)"
      using None tracks_ids [OF assms(2)] by (simp add: map_of_eq_None_iff)
    then show ?thesis using assms(2) g
      by (simp add: tracks_def sp entry_key_def task_key_def task_id_def task_def)
  next
    case (Some st)
    then show ?thesis using assms(2) entry by (simp add: tracks_def sp)
  qed
  ultimately show ?thesis by (simp add: sp)
qed

lemma tracks_remove:
  assumes "entry_key ` E = task_key ` set (before @ task # after)"
    and "distinct (map task_id (before @ task # after))"
  shows "entry_key ` {e \<in> E. fst e \<noteq> task_id task} = task_key ` set (before @ after)"
proof -
  have "entry_key ` {e \<in> E. fst e \<noteq> task_id task} = {k \<in> entry_key ` E. fst k \<noteq> task_id task}"
    by (auto simp: entry_key_def)
  also have "\<dots> = task_key ` set (before @ after)"
    using assms(2) unfolding assms(1) by (auto simp: task_key_def) (metis imageI)+
  finally show ?thesis .
qed

text \<open>A task that ends drops out of the running ones, and its entry out of the table.\<close>

lemma ended_tracks:
  assumes "tracks s" and "k < length (rl_tasks s)" and "tk_ended (rl_tasks s ! k) = None"
    and "tk_ended task' \<noteq> None" and "rl_tasks s' = (rl_tasks s)[k := task']"
    and "active (rl_world s') =
      (case tk_guard (rl_tasks s ! k) of None \<Rightarrow> active (rl_world s)
       | Some g \<Rightarrow> filter (\<lambda>e. fst e \<noteq> ai_id g) (active (rl_world s)))"
  shows "tracks s'"
proof -
  obtain before after where sp: "rl_tasks s = before @ rl_tasks s ! k # after"
    "(rl_tasks s)[k := task'] = before @ task' # after"
    using nth_split [OF assms(2)] by metis
  have run': "running s' = filter owns before @ filter owns after"
    using assms(4) by (simp add: running_def assms(5) sp(2) owns_def)
  show ?thesis
  proof (cases "tk_guard (rl_tasks s ! k)")
    case None
    then have "running s = filter owns before @ filter owns after"
      by (subst running_def, subst sp(1)) (simp add: owns_def)
    then show ?thesis using assms(1,6) None run' by (simp add: tracks_def)
  next
    case (Some g)
    then have "running s = filter owns before @ rl_tasks s ! k # filter owns after"
      using assms(3) by (subst running_def, subst sp(1)) (simp add: owns_def)
    then show ?thesis
      using assms(1,6) Some run' tracks_remove [of "set (active (rl_world s))" "filter owns before" "rl_tasks s ! k" "filter owns after"]
      by (simp add: tracks_def task_id_def)
  qed
qed

lemma joined_running:
  assumes "k < length (rl_tasks s)" and "tk_ended (rl_tasks s ! k) \<noteq> None"
  shows "filter owns (remove_nth k (rl_tasks s)) = running s"
proof -
  obtain before after where "rl_tasks s = before @ rl_tasks s ! k # after"
    "remove_nth k (rl_tasks s) = before @ after"
    using nth_split [OF assms(1)] by metis
  then show ?thesis using assms(2) unfolding running_def by (metis filter.simps(2) filter_append owns_def)
qed

lemma length_remove_nth [simp]: "k < length xs \<Longrightarrow> length (remove_nth k xs) = length xs - 1"
  by (simp add: remove_nth_def)

text \<open>\<open>tracks\<close> reads only the tasks and the table.\<close>

lemma tracks_cong:
  "tracks s \<Longrightarrow> rl_tasks s' = rl_tasks s \<Longrightarrow> active (rl_world s') = active (rl_world s) \<Longrightarrow> tracks s'"
  by (simp add: tracks_def running_def)

lemma on_invocation_invar:
  assumes "loop_invar rt s" and "rl_exit s = None"
  shows "loop_invar rt (on_invocation rt call s)"
proof (cases "rl_permits s")
  case 0
  then show ?thesis
    using assms stopped_invar [OF assms(1)] tracks_cong [of s]
    by (auto simp: on_invocation_def offer_overload_def loop_invar_def split: option.split)
next
  case (Suc permits)
  define s1 where "s1 = s\<lparr>rl_permits := permits\<rparr>"
  have s1: "world_invar (rl_world s1)" "tracks s1"
    using assms tracks_cong [of s s1] by (simp_all add: s1_def loop_invar_def)
  have "rl_permits (spawn_handler_task rt call s1) = permits"
    "length (rl_tasks (spawn_handler_task rt call s1)) = Suc (length (rl_tasks s))"
    "rl_overload (spawn_handler_task rt call s1) = rl_overload s"
    "rl_exit (spawn_handler_task rt call s1) = rl_exit s"
    by (simp_all add: spawn_handler_task_def s1_def split: prod.split)
  then show ?thesis using spawn_invar [OF s1, of rt call] assms Suc
    by (simp add: on_invocation_def loop_invar_def flip: s1_def)
qed

lemma on_node_event_invar:
  assumes "loop_invar rt s" and "rl_exit s = None"
  shows "loop_invar rt (on_node_event rt event s)"
proof -
  have control: "loop_invar rt (case route_invocation_control control (rl_world s) of
      Some w \<Rightarrow> s\<lparr>rl_world := w\<rparr> | None \<Rightarrow> s)" for control
  proof (cases "route_invocation_control control (rl_world s)")
    case (Some w)
    from route_frame [OF this] Some show ?thesis
      using assms world_invar_cong [of w "rl_world s"] tracks_cong [of s "s\<lparr>rl_world := w\<rparr>"]
      by (simp add: loop_invar_def)
  qed (use assms in simp)
  show ?thesis
  proof (cases event)
    case (Inl error)
    then show ?thesis using stopped_invar [OF assms(1)] by (simp add: on_node_event_def)
  next
    case (Inr ev)
    then show ?thesis using on_invocation_invar [OF assms] control
      by (cases ev) (simp_all add: on_node_event_def)
  qed
qed

lemma on_task_joined_invar:
  assumes "loop_invar rt s" and "rl_exit s = None"
  shows "loop_invar rt (on_task_joined k s)"
proof (cases "k < length (rl_tasks s) \<and> tk_ended (rl_tasks s ! k) \<noteq> None")
  case True
  then obtain completed where c: "tk_ended (rl_tasks s ! k) = Some completed" by auto
  define s1 where "s1 = s\<lparr>rl_tasks := remove_nth k (rl_tasks s), rl_permits := Suc (rl_permits s)\<rparr>"
  have "running s1 = running s"
    using joined_running [of k s] True by (simp add: s1_def running_def)
  then have s1: "loop_invar rt s1" "rl_exit s1 = None"
    using assms True by (auto simp: loop_invar_def tracks_def s1_def)
  then show ?thesis using True c stopped_invar [OF s1(1)]
    by (auto simp: on_task_joined_def s1_def Let_def split: sum.split)
next
  case False
  then show ?thesis using assms(1) by (auto simp: on_task_joined_def split: option.split)
qed

lemma on_task_ends_invar:
  assumes "loop_invar rt s" and "rl_exit s = None"
  shows "loop_invar rt (on_task_ends ser rt k env completion s)"
proof (cases "k < length (rl_tasks s) \<and> tk_ended (rl_tasks s ! k) = None \<and>
    task_evaluation ser rt (rl_tasks s ! k) env \<noteq> None")
  case True
  then obtain result cancels where r: "task_evaluation ser rt (rl_tasks s ! k) env = Some (result, cancels)"
    by auto
  obtain task w where f: "finish_task result cancels completion (rl_tasks s ! k) (rl_world s) = (task, w)"
    by (metis prod.exhaust)
  define s1 where "s1 = on_task_ends ser rt k env completion s"
  have eq: "rl_world s1 = w" "rl_tasks s1 = (rl_tasks s)[k := task]" "rl_permits s1 = rl_permits s"
    "rl_overload s1 = rl_overload s" "rl_exit s1 = None"
    using True r f assms(2) by (simp_all add: s1_def on_task_ends_def)
  let ?w = "if cancels then token_cancel (tk_token (rl_tasks s ! k)) (rl_world s) else rl_world s"
  have f': "tk_ended task \<noteq> None" "w = drop_tracking (if is_ok completion then map_option disarm (tk_guard (rl_tasks s ! k))
      else tk_guard (rl_tasks s ! k)) ?w"
    using f by (auto simp: finish_task_def Let_def)
  have "active w = (case tk_guard (rl_tasks s ! k) of None \<Rightarrow> active (rl_world s)
       | Some g \<Rightarrow> filter (\<lambda>e. fst e \<noteq> ai_id g) (active (rl_world s)))"
    by (simp add: f'(2) drop_tracking_active disarm_def split: option.split)
  then have "tracks s1" using ended_tracks [of s k task s1] assms(1) True f'(1) eq by (simp add: loop_invar_def)
  moreover have "world_invar ?w"
    using assms(1) world_invar_cong [of ?w "rl_world s"] by (simp add: loop_invar_def)
  ultimately show ?thesis
    using assms eq f'(2) drop_tracking_invar unfolding s1_def [symmetric] by (simp add: loop_invar_def)
next
  case False
  then show ?thesis using assms(1) by (auto simp: on_task_ends_def split: option.split)
qed

lemma on_task_panics_invar:
  assumes "loop_invar rt s" and "rl_exit s = None"
  shows "loop_invar rt (on_task_panics k message s)"
proof (cases "k < length (rl_tasks s) \<and> tk_ended (rl_tasks s ! k) = None")
  case True
  define task where "task = (rl_tasks s ! k)\<lparr>tk_ended := Some (Inl message)\<rparr>"
  define s1 where "s1 = on_task_panics k message s"
  have eq: "rl_world s1 = drop_tracking (tk_guard (rl_tasks s ! k)) (rl_world s)"
    "rl_tasks s1 = (rl_tasks s)[k := task]" "rl_permits s1 = rl_permits s"
    "rl_overload s1 = rl_overload s" "rl_exit s1 = None"
    using True assms(2) by (simp_all add: s1_def on_task_panics_def unwind_task_def task_def)
  have "tracks s1" using ended_tracks [of s k task s1] assms(1) True eq
    by (simp add: loop_invar_def task_def drop_tracking_active)
  then show ?thesis using assms eq drop_tracking_invar unfolding s1_def [symmetric] by (simp add: loop_invar_def)
next
  case False
  then show ?thesis using assms(1) by (auto simp: on_task_panics_def)
qed

lemma worker_invar:
  assumes "loop_invar rt s" and "rl_exit s = None"
  shows "loop_invar rt (on_worker_joined s)" "loop_invar rt (on_worker_delivers completion s)"
    "loop_invar rt (on_worker_panics message s)"
  using assms stopped_invar [OF assms(1)] tracks_cong [of s]
  by (auto simp: on_worker_joined_def on_worker_delivers_def on_worker_panics_def worker_ends_def loop_invar_def
      Let_def split: option.split list.split sum.split)

lemma loop_step_invar:
  assumes "loop_invar rt s"
  shows "loop_invar rt (loop_step ser rt event s)"
proof (cases "rl_exit s")
  case None
  have "loop_invar rt (loop_step ser rt (TaskReads b) s)" for b
    using assms None world_invar_cong [of "(rl_world s)\<lparr>buffers := bs\<rparr>" "rl_world s" for bs]
      tracks_cong [of s "loop_step ser rt (TaskReads b) s"]
    by (simp add: loop_step_def loop_invar_def)
  then show ?thesis
    using None on_node_event_invar [OF assms None] on_task_joined_invar [OF assms None]
      on_task_ends_invar [OF assms None] on_task_panics_invar [OF assms None] worker_invar [OF assms None]
    by (cases event) (simp_all add: loop_step_def)
qed (use assms in \<open>simp add: loop_step_def\<close>)

lemma run_events_invar: "loop_invar rt s \<Longrightarrow> loop_invar rt (run_events ser rt events s)"
  unfolding run_events_def by (induction events arbitrary: s) (simp_all add: loop_step_invar)

lemma run_start_invar: "loop_invar rt (run_start rt empty_world)"
  by (simp add: loop_invar_def run_start_def tracks_def running_def empty_world_def world_invar_def
      all_tokens_def all_buffers_def)

section \<open>Properties\<close>

text \<open>
  The loop keeps its bounds: after any events, permits are neither lost nor made (every task
  the loop holds owns exactly one of the runtime's permits), so at most the maximum number of
  handlers are ever in flight, and at most as many overload results wait for delivery as the
  delivery queue has room for.
\<close>

lemma run_keeps_bounds:
  "rl_permits (run_events ser rt events (run_start rt empty_world)) +
     length (rl_tasks (run_events ser rt events (run_start rt empty_world))) = max_permits rt \<and>
   length (rl_overload (run_events ser rt events (run_start rt empty_world))) \<le> delivery_capacity rt"
  using run_events_invar [OF run_start_invar, of rt ser events] by (simp add: loop_invar_def)

text \<open>
  The table of active invocations is exact: after any events an invocation is tracked, under
  its cancellation token, exactly while a task of the loop that owns it is still running, and no
  two running tasks own the same identifier.
\<close>

lemma tracked_while_running:
  assumes "s = run_events ser rt events (run_start rt empty_world)"
  shows "((\<exists>st. map_of (active (rl_world s)) i = Some st \<and> as_cancellation st = t) \<longleftrightarrow>
      (\<exists>task \<in> set (rl_tasks s). tk_ended task = None \<and> tk_token task = t \<and>
        (\<exists>g. tk_guard task = Some g \<and> ai_id g = i))) \<and>
    distinct (map (\<lambda>task. ai_id (the (tk_guard task)))
      (filter (\<lambda>task. tk_ended task = None \<and> tk_guard task \<noteq> None) (rl_tasks s)))"
proof -
  have inv: "loop_invar rt s" unfolding assms by (rule run_events_invar [OF run_start_invar])
  then have "distinct (map fst (active (rl_world s)))" by (simp add: loop_invar_def world_invar_def)
  then have "(\<exists>st. map_of (active (rl_world s)) i = Some st \<and> as_cancellation st = t) \<longleftrightarrow>
      (i, t) \<in> entry_key ` set (active (rl_world s))"
    by (force simp: entry_key_def map_of_eq_Some_iff)
  also have "\<dots> \<longleftrightarrow> (i, t) \<in> task_key ` set (running s)"
    using inv by (simp add: loop_invar_def tracks_def)
  also have "\<dots> \<longleftrightarrow> (\<exists>task \<in> set (rl_tasks s). tk_ended task = None \<and> tk_token task = t \<and>
        (\<exists>g. tk_guard task = Some g \<and> ai_id g = i))"
    by (force simp: task_key_def task_id_def running_def owns_def)
  finally show ?thesis using inv
    by (simp add: loop_invar_def tracks_def running_def owns_def [abs_def] task_id_def [abs_def])
qed

lemmas demo_loop_simps = run_events_def run_start_def loop_step_def on_node_event_def on_invocation_def
  spawn_handler_task_def begin_simps

lemma tracked_while_running_witness:
  "\<exists>st. map_of (active (rl_world (run_events demo_ser demo_rt [NodeEvent (Inr (Invocation demo_call))]
     (run_start demo_rt empty_world)))) ''i1'' = Some st \<and> as_cancellation st = 0"
  using tracked_while_running [OF refl, where ser = demo_ser and rt = demo_rt
      and events = "[NodeEvent (Inr (Invocation demo_call))]" and i = "''i1''" and t = 0]
  by (simp add: demo_loop_simps demo_rt_def demo_call_def invocation_new_def is_duplex_def)

text \<open>
  C25. Leaving the loop is clean: the step that leaves it cancels the token of every invocation that
  was still running, and from then on no task and no tracked invocation is left, every permit is
  back and the session is closed.
\<close>

lemma run_exit_is_clean:
  assumes "s = run_events ser rt events (run_start rt empty_world)" and "rl_exit s = None"
    and "s' = loop_step ser rt event s" and "rl_exit s' = Some error"
  shows "(\<forall>task \<in> set (rl_tasks s). tk_ended task = None \<and> tk_guard task \<noteq> None \<longrightarrow>
      tokens (rl_world s') (tk_token task)) \<and>
    rl_tasks s' = [] \<and> active (rl_world s') = [] \<and> rl_permits s' = max_permits rt \<and> rl_session_closed s'"
proof -
  have inv: "loop_invar rt s" unfolding assms(1) by (rule run_events_invar [OF run_start_invar])
  have "loop_invar rt s'" unfolding assms(3) by (rule loop_step_invar [OF inv])
  moreover have "tokens (rl_world s') (tk_token task)" if run: "task \<in> set (running s)" for task
  proof -
    have tr: "tracks s" using inv by (simp add: loop_invar_def)
    have stop: "tokens (rl_world (stop_handler_tasks r)) (tk_token task)"
      if "rl_world r = rl_world s" "filter owns (rl_tasks r) = filter owns (rl_tasks s)" for r
      using stop_cancels [of r task] tr run that by (simp add: tracks_def running_def)
    have joined: "filter owns (remove_nth k (rl_tasks s)) = filter owns (rl_tasks s)"
      if "k < length (rl_tasks s)" "tk_ended (rl_tasks s ! k) = Some x" for k x
      using joined_running [OF that(1)] that(2) by (simp add: running_def)
    show ?thesis
      using assms(2,4) unfolding assms(3)
      by (auto simp: loop_step_def on_node_event_def on_invocation_def offer_overload_def on_task_joined_def
          on_worker_joined_def on_task_ends_def on_task_panics_def on_worker_delivers_def on_worker_panics_def
          worker_ends_def spawn_handler_task_def stop_runtime_tasks_def leave_def Let_def
          intro!: stop joined
          split: loop_event.splits sum.splits node_session_event.splits nat.splits option.splits if_splits
            prod.splits list.splits)
  qed
  ultimately show ?thesis using assms(4) by (auto simp: loop_invar_def running_def owns_def)
qed

lemma run_exit_is_clean_witness:
  "\<exists>s. rl_tasks s \<noteq> [] \<and> tokens (rl_world (loop_step demo_ser demo_rt (NodeEvent (Inl ConnectTimeout)) s)) 0"
proof -
  define s where "s = run_events demo_ser demo_rt [NodeEvent (Inr (Invocation demo_call))] (run_start demo_rt empty_world)"
  have s: "rl_exit s = None"
    "\<exists>task. rl_tasks s = [task] \<and> tk_ended task = None \<and> tk_guard task \<noteq> None \<and> tk_token task = 0"
    by (simp_all add: s_def demo_loop_simps demo_rt_def demo_call_def invocation_new_def is_duplex_def)
  have "rl_exit (loop_step demo_ser demo_rt (NodeEvent (Inl ConnectTimeout)) s) = Some (Client ConnectTimeout)"
    using s(1) by (simp add: loop_step_def on_node_event_def leave_def)
  from run_exit_is_clean [OF s_def s(1) refl this] s(2) show ?thesis by (intro exI [of _ s]) auto
qed

text \<open>The invocations the Gateway asked for in a list of events.\<close>

fun invocations :: "loop_event list \<Rightarrow> node_invocation list" where
  "invocations [] = []"
| "invocations (NodeEvent (Inr (Invocation call)) # events) = call # invocations events"
| "invocations (_ # events) = invocations events"

text \<open>The invocations that have no result yet: running, panicked and not yet noticed, or queued.\<close>

definition unanswered_task :: "handler_task \<Rightarrow> bool" where
  "unanswered_task task \<longleftrightarrow> (case tk_ended task of Some (Inr _) \<Rightarrow> False | _ \<Rightarrow> True)"

definition outstanding :: "run_loop \<Rightarrow> node_invocation multiset" where
  "outstanding s = mset (map tk_call (filter unanswered_task (rl_tasks s))) + mset (map fst (rl_overload s))"

definition live :: "run_loop \<Rightarrow> bool" where
  "live s \<longleftrightarrow> rl_exit s = None \<and> rl_worker_ended s = None"

definition accounted :: "run_loop \<Rightarrow> node_invocation multiset" where
  "accounted s = mset (map fst (rl_delivered s)) + outstanding s"

lemma invocations_append: "invocations (xs @ ys) = invocations xs @ invocations ys"
  by (induction xs rule: invocations.induct) simp_all

lemma stop_not_live [simp]:
  "\<not> live (leave e s)" "\<not> live (worker_ends c s)" "\<not> live (stop_runtime_tasks s)"
  by (simp_all add: live_def leave_def worker_ends_def stop_runtime_tasks_def stop_handler_tasks_def)

lemma step_stays_dead: "\<not> live s \<Longrightarrow> \<not> live (loop_step ser rt event s)"
  by (auto simp: live_def loop_step_def on_node_event_def on_invocation_def offer_overload_def on_task_joined_def
      on_worker_joined_def on_task_ends_def on_task_panics_def on_worker_delivers_def on_worker_panics_def
      worker_ends_def spawn_handler_task_def stop_runtime_tasks_def stop_handler_tasks_def leave_def Let_def
      split: loop_event.splits sum.splits node_session_event.splits nat.splits option.splits if_splits
        prod.splits list.splits)

lemma accounted_on_invocation:
  assumes "live (on_invocation rt call s)"
  shows "accounted (on_invocation rt call s) = add_mset call (accounted s)"
  using assms
  by (auto simp: on_invocation_def offer_overload_def spawn_handler_task_def accounted_def outstanding_def
      unanswered_task_def split: nat.splits option.splits prod.splits if_splits)

lemma accounted_joined:
  assumes "live (on_task_joined k s)"
  shows "accounted (on_task_joined k s) = accounted s"
proof (cases "k < length (rl_tasks s)")
  case True
  obtain before after where "rl_tasks s = before @ rl_tasks s ! k # after"
    "remove_nth k (rl_tasks s) = before @ after"
    using nth_split [OF True] by metis
  moreover have "\<not> unanswered_task (rl_tasks s ! k)" if "tk_ended (rl_tasks s ! k) = Some (Inr x)" for x
    using that by (simp add: unanswered_task_def)
  ultimately have "filter unanswered_task (remove_nth k (rl_tasks s)) = filter unanswered_task (rl_tasks s)"
    if "tk_ended (rl_tasks s ! k) = Some (Inr x)" for x
    using that by (metis filter.simps(2) filter_append)
  then show ?thesis using assms True
    by (auto simp: on_task_joined_def accounted_def outstanding_def Let_def simp del: mset_filter
        split: option.splits sum.splits)
qed (simp add: on_task_joined_def)

lemma accounted_update:
  assumes "k < length (rl_tasks s)" and "tk_call task = tk_call (rl_tasks s ! k)"
    and "unanswered_task (rl_tasks s ! k)"
  shows "mset (map tk_call (filter unanswered_task (rl_tasks s))) =
    mset (map tk_call (filter unanswered_task ((rl_tasks s)[k := task]))) +
    (if unanswered_task task then {#} else {#tk_call task#})"
proof -
  obtain before after where sp: "rl_tasks s = before @ rl_tasks s ! k # after"
    "(rl_tasks s)[k := task] = before @ task # after"
    using nth_split [OF assms(1)] by metis
  have "mset (map tk_call (filter unanswered_task (rl_tasks s))) =
      add_mset (tk_call (rl_tasks s ! k)) (mset (map tk_call (filter unanswered_task (before @ after))))"
    by (subst sp(1)) (simp add: assms(3))
  then show ?thesis unfolding sp(2) by (simp add: assms(2))
qed

lemma accounted_ends: "accounted (on_task_ends ser rt k env completion s) = accounted s"
proof (cases "k < length (rl_tasks s) \<and> tk_ended (rl_tasks s ! k) = None \<and>
    task_evaluation ser rt (rl_tasks s ! k) env \<noteq> None")
  case True
  then obtain result cancels where r: "task_evaluation ser rt (rl_tasks s ! k) env = Some (result, cancels)"
    by auto
  obtain task w where f: "finish_task result cancels completion (rl_tasks s ! k) (rl_world s) = (task, w)"
    by (metis prod.exhaust)
  then have "tk_call task = tk_call (rl_tasks s ! k)" "\<not> unanswered_task task" "unanswered_task (rl_tasks s ! k)"
    using True by (auto simp: finish_task_def Let_def unanswered_task_def)
  then show ?thesis using True r f accounted_update [of k s task]
    by (simp add: on_task_ends_def accounted_def outstanding_def)
qed (auto simp: on_task_ends_def split: option.split)

lemma accounted_panics: "accounted (on_task_panics k message s) = accounted s"
proof (cases "k < length (rl_tasks s) \<and> tk_ended (rl_tasks s ! k) = None")
  case True
  define task where "task = (rl_tasks s ! k)\<lparr>tk_ended := Some (Inl message)\<rparr>"
  have "tk_call task = tk_call (rl_tasks s ! k)" "unanswered_task task" "unanswered_task (rl_tasks s ! k)"
    using True by (auto simp: task_def unanswered_task_def)
  then show ?thesis using True accounted_update [of k s task]
    by (simp add: on_task_panics_def accounted_def outstanding_def unwind_task_def flip: task_def)
qed (auto simp: on_task_panics_def)

lemma accounted_step:
  assumes "live (loop_step ser rt event s)"
  shows "accounted (loop_step ser rt event s) = accounted s + mset (invocations [event])"
proof -
  have alive: "live s" using assms step_stays_dead by blast
  have route: "accounted (case route_invocation_control c (rl_world s) of Some w \<Rightarrow> s\<lparr>rl_world := w\<rparr> | None \<Rightarrow> s) = accounted s" for c
    by (simp add: accounted_def outstanding_def split: option.split)
  show ?thesis
  proof (cases event)
    case (NodeEvent e)
    show ?thesis
    proof (cases e)
      case (Inr ev)
      then show ?thesis using alive assms NodeEvent route accounted_on_invocation [of rt _ s]
        by (cases ev) (simp_all add: loop_step_def live_def on_node_event_def)
    qed (use alive assms NodeEvent in \<open>simp add: loop_step_def on_node_event_def live_def leave_def\<close>)
  next
    case (TaskJoined k)
    then show ?thesis using alive assms accounted_joined [of k s] by (simp add: loop_step_def live_def)
  next
    case (WorkerDelivers completion)
    then show ?thesis using alive assms
      by (auto simp: loop_step_def live_def on_worker_delivers_def accounted_def outstanding_def worker_ends_def
          Let_def split: list.splits sum.splits option.splits)
  next
    case (WorkerPanics m)
    then show ?thesis using alive assms
      by (auto simp: loop_step_def live_def on_worker_panics_def worker_ends_def)
  next
    case (TaskReads b)
    then show ?thesis using alive by (simp add: loop_step_def live_def accounted_def outstanding_def)
  qed (use alive accounted_ends accounted_panics in \<open>simp_all add: loop_step_def live_def on_worker_joined_def\<close>)
qed

text \<open>
  C24. Every invocation is answered once: as long as the loop and its delivery worker have not
  failed, the invocations received are, each as often as it was received, those a result was
  delivered for together with those still running or queued; none is dropped and none is answered
  twice.
\<close>

lemma each_invocation_answered_once:
  assumes "s = run_events ser rt events (run_start rt empty_world)"
    and "rl_exit s = None" and "rl_worker_ended s = None"
  shows "mset (invocations events) = mset (map fst (rl_delivered s)) + outstanding s"
proof -
  have "live (run_events ser rt events (run_start rt empty_world)) \<Longrightarrow>
    accounted (run_events ser rt events (run_start rt empty_world)) = mset (invocations events)"
  proof (induction events rule: rev_induct)
    case Nil
    then show ?case by (simp add: run_events_def accounted_def outstanding_def run_start_def)
  next
    case (snoc event events)
    then have l: "live (loop_step ser rt event (run_events ser rt events (run_start rt empty_world)))"
      by (simp add: run_events_def)
    then have "live (run_events ser rt events (run_start rt empty_world))" using step_stays_dead by blast
    then show ?case using snoc.IH accounted_step [OF l]
      by (simp add: run_events_def invocations_append)
  qed
  then show ?thesis using assms by (simp add: live_def accounted_def)
qed

lemma each_invocation_answered_once_witness:
  "mset (invocations [NodeEvent (Inr (Invocation demo_call)), TaskEnds 0 demo_env (Inr ())]) = {#demo_call#}"
proof -
  define s where "s = run_events demo_ser demo_rt
    [NodeEvent (Inr (Invocation demo_call)), TaskEnds 0 demo_env (Inr ())] (run_start demo_rt empty_world)"
  have s: "rl_exit s = None" "rl_worker_ended s = None" "map fst (rl_delivered s) = [demo_call]" "outstanding s = {#}"
    using demo_evaluation
    by (simp_all add: s_def demo_loop_simps demo_rt_def is_duplex_def on_task_ends_def
        task_evaluation_def finish_task_def outstanding_def unanswered_task_def Let_def demo_call_def invocation_new_def
        split: prod.split)
  show ?thesis using each_invocation_answered_once [OF s_def s(1,2)] s(3,4) by simp
qed

text \<open>
  Overload is rejected, never queued as work: an invocation that finds no free permit starts no
  task and leaves the table of invocations alone; it is answered \<open>OVERLOADED\<close> if the delivery queue
  has room, and otherwise the loop gives up with \<open>DeliverySaturated\<close> and closes the session.
\<close>

lemma overload_rejects:
  assumes "rl_exit s = None" and "rl_permits s = 0" and "rl_worker_ended s = None"
    and "s' = loop_step ser rt (NodeEvent (Inr (Invocation call))) s"
  shows "if length (rl_overload s) < delivery_capacity rt
    then rl_tasks s' = rl_tasks s \<and> rl_world s' = rl_world s \<and> rl_exit s' = None \<and>
      rl_overload s' = rl_overload s @
        [(call, Failure ''OVERLOADED'' ''command runtime is at its concurrency limit'')]
    else rl_exit s' = Some DeliverySaturated \<and> rl_session_closed s' \<and> rl_tasks s' = [] \<and>
      active (rl_world s') = []"
  using assms
  by (simp add: loop_step_def on_node_event_def on_invocation_def offer_overload_def leave_def
      stop_runtime_tasks_def failure_def)

lemma overload_rejects_witness:
  "rl_overload (loop_step demo_ser demo_rt (NodeEvent (Inr (Invocation demo_call)))
     ((run_start demo_rt empty_world)\<lparr>rl_permits := 0\<rparr>)) =
   [(demo_call, Failure ''OVERLOADED'' ''command runtime is at its concurrency limit'')]"
proof -
  let ?s = "(run_start demo_rt empty_world)\<lparr>rl_permits := 0\<rparr>"
  have "rl_exit ?s = None" "rl_permits ?s = 0" "rl_worker_ended ?s = None" "rl_overload ?s = []"
    "0 < delivery_capacity demo_rt"
    by (simp_all add: run_start_def demo_rt_def)
  then show ?thesis
    using overload_rejects [of ?s "loop_step demo_ser demo_rt (NodeEvent (Inr (Invocation demo_call))) ?s"
        demo_ser demo_rt demo_call] by simp
qed

section \<open>Dispatch\<close>

text \<open>
  The one-shot \<open>dispatch\<close>. The arguments are what it finds: the free permits and overload permits,
  whether the session closes before the evaluation ends (and with what), what happens during the
  evaluation and what completing the invocation returns. The value is its result, the result it
  handed to the session, the world afterwards and whether it closed the session; \<open>None\<close> is an
  evaluation that never ends. The permits it takes are back when it returns.
\<close>

record dispatched =
  dp_result :: "runtime_error + unit"
  dp_delivered :: "invocation_result option"
  dp_world :: world
  dp_closed_session :: bool

definition completed_as :: "client_error + unit \<Rightarrow> runtime_error + unit" where
  "completed_as completion = map_err Client completion"

definition dispatch ::
  "(json \<Rightarrow> serialized) \<Rightarrow> ('h, 'p) command_runtime \<Rightarrow> nat \<Rightarrow> nat \<Rightarrow> (client_error + unit) option \<Rightarrow>
   eval_env \<Rightarrow> client_error + unit \<Rightarrow> node_invocation \<Rightarrow> world \<Rightarrow> dispatched option" where
  "dispatch ser rt permits overload_permits session_end env completion call w =
     (if is_duplex rt call
        then Some \<lparr>dp_result = completed_as completion,
          dp_delivered = Some (failure ''DUPLEX_REQUIRES_RUN'' ''duplex commands require CommandRuntime::run''),
          dp_world = w, dp_closed_session = False\<rparr>
      else if permits = 0 then
        (if overload_permits = 0
           then Some \<lparr>dp_result = Inl DeliverySaturated, dp_delivered = None, dp_world = w, dp_closed_session = True\<rparr>
         else Some \<lparr>dp_result = completed_as completion,
           dp_delivered = Some (failure ''OVERLOADED'' ''command runtime is at its concurrency limit''),
           dp_world = w, dp_closed_session = False\<rparr>)
      else
        (case begin_invocation (inv_id call) (inv_node_id call) (is_duplex rt call) w of
           ((t, guard), w1) \<Rightarrow>
             (let task = \<lparr>tk_call = call, tk_token = t, tk_guard = guard, tk_ended = None\<rparr> in
              case session_end of
                Some c \<Rightarrow> Some \<lparr>dp_result = completed_as c, dp_delivered = None,
                  dp_world = cancel_all (drop_tracking guard w1), dp_closed_session = False\<rparr>
              | None \<Rightarrow>
                  map_option (\<lambda>(result, cancels).
                    \<lparr>dp_result = completed_as completion, dp_delivered = Some result,
                     dp_world = snd (finish_task result cancels completion task w1), dp_closed_session = False\<rparr>)
                  (task_evaluation ser rt task env))))"

lemma finish_task_active:
  "active (snd (finish_task result cancels completion task w)) =
     (case tk_guard task of None \<Rightarrow> active w | Some g \<Rightarrow> filter (\<lambda>e. fst e \<noteq> ai_id g) (active w))"
  by (simp add: finish_task_def Let_def drop_tracking_active disarm_def split: option.split)

lemma filter_own_entry: "map_of es i = None \<Longrightarrow> filter (\<lambda>e. fst e \<noteq> i) es = es"
  by (auto simp: map_of_eq_None_iff intro!: filter_True)

text \<open>
  A dispatch leaves no trace in the session: if it returns while the session is open, the table
  of active invocations is the one it found (its own entry is gone, a running invocation with the
  same identifier is still there), and it handed the session exactly one result; if the session
  closed meanwhile, or it gave up because deliveries are saturated, it delivered nothing, and in the
  first case everything that was running is cancelled.
\<close>

lemma dispatch_leaves_table:
  assumes "dispatch ser rt permits overload_permits session_end env completion call w = Some d"
  shows "if dp_delivered d = None
    then (if dp_closed_session d then dp_world d = w
          else active (dp_world d) = [] \<and>
            (\<forall>e \<in> set (active w). fst e \<noteq> inv_id call \<longrightarrow> stopped (dp_world d) (snd e)))
    else active (dp_world d) = active w \<and> \<not> dp_closed_session d \<and> dp_result d = map_err Client completion"
proof (cases "is_duplex rt call \<or> permits = 0")
  case True
  then show ?thesis using assms by (auto simp: dispatch_def completed_as_def split: if_splits)
next
  case False
  obtain t guard w1 where b: "begin_invocation (inv_id call) (inv_node_id call) (is_duplex rt call) w
      = ((t, guard), w1)" by (metis prod.exhaust)
  note entry = begin_cases [OF b]
  show ?thesis
  proof (cases session_end)
    case None
    have "filter (\<lambda>e. fst e \<noteq> inv_id call) (active w) = active w" if "map_of (active w) (inv_id call) = None"
      using that by (rule filter_own_entry)
    then show ?thesis using assms False entry None b
      by (auto simp: dispatch_def finish_task_active completed_as_def Let_def split: option.splits)
  next
    case (Some c)
    have "stopped (cancel_all (drop_tracking guard w1)) (snd e)"
      if "e \<in> set (active w)" "fst e \<noteq> inv_id call" for e
    proof -
      have "e \<in> set (active (drop_tracking guard w1))"
        using that entry by (auto simp: drop_tracking_active split: option.splits)
      then show ?thesis by (simp add: cancel_all_def fold_stops)
    qed
    then show ?thesis using assms False Some b by (auto simp: dispatch_def completed_as_def Let_def)
  qed
qed

lemma dispatch_leaves_table_witness:
  "\<exists>d. dispatch demo_ser demo_rt 1 1 None demo_env (Inr ()) demo_call demo_world = Some d \<and>
     dp_delivered d = Some (Success JNull) \<and> active (dp_world d) = active demo_world"
proof -
  have names: "inv_id demo_call = ''i1''" "inv_node_id demo_call = ''n1''" "\<not> is_duplex demo_rt demo_call"
    by (simp_all add: demo_call_def invocation_new_def is_duplex_def demo_rt_def)
  obtain t g w1 where b: "begin_invocation ''i1'' ''n1'' False demo_world = ((t, Some g), w1)"
    by (simp add: demo_world_def begin_simps)
  obtain d where d: "dispatch demo_ser demo_rt 1 1 None demo_env (Inr ()) demo_call demo_world = Some d"
    "dp_delivered d = Some (Success JNull)"
    using demo_evaluation by (simp add: dispatch_def names b task_evaluation_def Let_def)
  from dispatch_leaves_table [OF d(1)] d show ?thesis by auto
qed

end
