(* ===== verification/Lifecycle.thy ===== *)
theory Lifecycle
  imports Reconnect RuntimeLoop
begin

text \<open>
  The connection driver of a node (\<open>lifecycle.rs\<close>): connect, run the command runtime, classify how
  the session ended, back off or stop.

  What the driver waits for is the environment's: one \<open>attempt\<close> says whether the shutdown future
  resolved while connecting, how connecting ended, how the session ended and whether shutdown
  resolved during the wait that follows. The events, the issued tokens and the result are outputs
  of the driver, in the order of its calls.
\<close>

section \<open>Data\<close>

definition DEFAULT_SHUTDOWN_GRACE :: duration where "DEFAULT_SHUTDOWN_GRACE = from_secs 5"
definition DEFAULT_RUNTIME_RESTART_DELAY :: duration where "DEFAULT_RUNTIME_RESTART_DELAY = from_secs 1"
definition RETIRED_SESSION_RETRY_DELAY :: duration where "RETIRED_SESSION_RETRY_DELAY = from_secs 1"

datatype client_error_class =
    ClassConfiguration | ClassTransport | ClassProtocol | ClassIdentity | ClassGateway | ClassRequestTimeout
  | ClassEventLagged | ClassActivation

fun client_error_class_of :: "client_error \<Rightarrow> client_error_class" where
  "client_error_class_of (InvalidUrl _) = ClassConfiguration"
| "client_error_class_of InsecureRemoteGateway = ClassConfiguration"
| "client_error_class_of (Tls reason) =
     (if is_tls_configuration_error reason then ClassConfiguration else ClassTransport)"
| "client_error_class_of (Transport _) = ClassTransport"
| "client_error_class_of ConnectTimeout = ClassTransport"
| "client_error_class_of ChallengeTimeout = ClassTransport"
| "client_error_class_of (WriteTimeout _) = ClassTransport"
| "client_error_class_of (Closed _) = ClassTransport"
| "client_error_class_of (InvalidChallenge _) = ClassProtocol"
| "client_error_class_of (InvalidFrame _) = ClassProtocol"
| "client_error_class_of (ConnectParams _) = ClassIdentity"
| "client_error_class_of (Identity _) = ClassIdentity"
| "client_error_class_of (Gateway _ _ _ _ _ _) = ClassGateway"
| "client_error_class_of (RequestTimeout _) = ClassRequestTimeout"
| "client_error_class_of (EventLagged _) = ClassEventLagged"
| "client_error_class_of NotActivated = ClassActivation"

datatype runtime_error_class = RtDeliverySaturated | RtResultTask

datatype lifecycle_disconnect_reason =
    ByClient client_error_class | ByRuntime runtime_error_class | RuntimeEnded | Shutdown

datatype lifecycle_event =
    Connecting u64
  | Connected u64 "u64 option" "string option"
  | Ready u64
  | Disconnected u64 lifecycle_disconnect_reason
  | BackingOff u64 duration lifecycle_disconnect_reason
  | Paused u64 reconnect_pause
  | Stopped u64 bool

record issued_device_token =
  idt_attempt :: u64
  idt_token :: string

record node_lifecycle =
  lc_reconnect :: reconnect_policy
  lc_shutdown_grace :: duration
  lc_runtime_restart_delay :: duration

definition lifecycle_new :: "reconnect_policy \<Rightarrow> node_lifecycle" where
  "lifecycle_new reconnect =
     \<lparr>lc_reconnect = reconnect, lc_shutdown_grace = DEFAULT_SHUTDOWN_GRACE,
      lc_runtime_restart_delay = DEFAULT_RUNTIME_RESTART_DELAY\<rparr>"

definition lifecycle_default :: node_lifecycle where
  "lifecycle_default = lifecycle_new policy_default"

definition with_shutdown_grace :: "duration \<Rightarrow> node_lifecycle \<Rightarrow> node_lifecycle" where
  "with_shutdown_grace grace l = l\<lparr>lc_shutdown_grace := grace\<rparr>"

definition with_runtime_restart_delay :: "duration \<Rightarrow> node_lifecycle \<Rightarrow> node_lifecycle" where
  "with_runtime_restart_delay delay l = l\<lparr>lc_runtime_restart_delay := delay\<rparr>"

section \<open>What happens to the driver\<close>

record node_session =
  ns_hello :: json
  ns_issued_device_token :: "string option"

text \<open>
  \<open>ShutdownWhileRunning\<close> carries the time the session took to close and drain, if it ever did.
\<close>

datatype session_end = ShutdownWhileRunning "duration option" | RuntimeReturned "runtime_error + unit"

datatype connect_outcome =
    ShutdownWhileConnecting | ConnectFailed client_error | ConnectSucceeded node_session session_end

record attempt =
  at_outcome :: connect_outcome
  at_shutdown_in_backoff :: bool

record lifecycle_run =
  lr_lifecycle :: node_lifecycle
  lr_attempt :: u64
  lr_events :: "lifecycle_event list"
  lr_tokens :: "issued_device_token list"
  lr_result :: "(reconnect_pause + unit) option"

definition lifecycle_start :: "node_lifecycle \<Rightarrow> lifecycle_run" where
  "lifecycle_start l = \<lparr>lr_lifecycle = l, lr_attempt = 0, lr_events = [], lr_tokens = [], lr_result = None\<rparr>"

definition emit :: "lifecycle_event \<Rightarrow> lifecycle_run \<Rightarrow> lifecycle_run" where
  "emit e s = s\<lparr>lr_events := lr_events s @ [e]\<rparr>"

definition return :: "reconnect_pause + unit \<Rightarrow> lifecycle_run \<Rightarrow> lifecycle_run" where
  "return r s = s\<lparr>lr_result := Some r\<rparr>"

section \<open>The driver\<close>

definition connected_event :: "u64 \<Rightarrow> node_session \<Rightarrow> lifecycle_event" where
  "connected_event attempt session =
     Connected attempt (json_as_u64 (json_index (ns_hello session) ''protocol''))
       (as_str (json_index (json_index (ns_hello session) ''server'') ''version''))"

text \<open>\<open>backoff_or_stop\<close> tells whether the driver has to stop.\<close>

definition backoff_or_stop ::
  "u64 \<Rightarrow> duration \<Rightarrow> lifecycle_disconnect_reason \<Rightarrow> bool \<Rightarrow> lifecycle_run \<Rightarrow> bool \<times> lifecycle_run" where
  "backoff_or_stop attempt delay reason shutdown s =
     (let s = emit (BackingOff attempt delay reason) s in
      if shutdown then (True, emit (Stopped attempt True) s) else (False, s))"

definition handle_client_failure ::
  "u64 \<Rightarrow> client_error \<Rightarrow> bool \<Rightarrow> lifecycle_run \<Rightarrow> (reconnect_pause + bool) \<times> lifecycle_run" where
  "handle_client_failure attempt error shutdown s =
     (let reason = ByClient (client_error_class_of error);
          s = emit (Disconnected attempt reason) s in
      case after_failure error (lc_reconnect (lr_lifecycle s)) of
        (action, reconnect) \<Rightarrow>
          (let s = s\<lparr>lr_lifecycle := (lr_lifecycle s)\<lparr>lc_reconnect := reconnect\<rparr>\<rparr>;
               wait = (\<lambda>delay. case backoff_or_stop attempt delay reason shutdown s of (b, s) \<Rightarrow> (Inr b, s)) in
           case action of
             RetryAfter delay \<Rightarrow> wait delay
           | RetryWithStoredDeviceTokenAfter delay \<Rightarrow> wait delay
           | Pause pause \<Rightarrow> (Inl pause, emit (Paused attempt pause) s)
           | KeepSession \<Rightarrow> wait RETIRED_SESSION_RETRY_DELAY))"

definition handle_runtime_failure ::
  "u64 \<Rightarrow> runtime_error_class \<Rightarrow> bool \<Rightarrow> lifecycle_run \<Rightarrow> bool \<times> lifecycle_run" where
  "handle_runtime_failure attempt error shutdown s =
     (let reason = ByRuntime error;
          s = emit (Disconnected attempt reason) s in
      backoff_or_stop attempt (lc_runtime_restart_delay (lr_lifecycle s)) reason shutdown s)"

text \<open>\<open>?\<close> on the result of a failure handler: an error returns; \<open>Ok(true)\<close> returns \<open>Ok(())\<close>.\<close>

definition finish_failure :: "(reconnect_pause + bool) \<times> lifecycle_run \<Rightarrow> lifecycle_run" where
  "finish_failure r =
     (case r of
        (Inl pause, s) \<Rightarrow> return (Inl pause) s
      | (Inr must_stop, s) \<Rightarrow> if must_stop then return (Inr ()) s else s)"

definition session_ended :: "u64 \<Rightarrow> session_end \<Rightarrow> bool \<Rightarrow> lifecycle_run \<Rightarrow> lifecycle_run" where
  "session_ended attempt session_end shutdown s =
     (case session_end of
        ShutdownWhileRunning drain \<Rightarrow>
          (let s = emit (Disconnected attempt Shutdown) s;
               drained = (case drain of None \<Rightarrow> False | Some t \<Rightarrow> t \<le> lc_shutdown_grace (lr_lifecycle s)) in
           return (Inr ()) (emit (Stopped attempt drained) s))
      | RuntimeReturned (Inl (Client error)) \<Rightarrow> finish_failure (handle_client_failure attempt error shutdown s)
      | RuntimeReturned (Inl DeliverySaturated) \<Rightarrow>
          (case handle_runtime_failure attempt RtDeliverySaturated shutdown s of
             (must_stop, s) \<Rightarrow> if must_stop then return (Inr ()) s else s)
      | RuntimeReturned (Inl (ResultTask _)) \<Rightarrow>
          (case handle_runtime_failure attempt RtResultTask shutdown s of
             (must_stop, s) \<Rightarrow> if must_stop then return (Inr ()) s else s)
      | RuntimeReturned (Inr _) \<Rightarrow> emit (Disconnected attempt RuntimeEnded) s)"

text \<open>One turn of the loop of \<open>run\<close>; after it returned nothing happens any more.\<close>

definition run_attempt :: "attempt \<Rightarrow> lifecycle_run \<Rightarrow> lifecycle_run" where
  "run_attempt a s =
     (if lr_result s \<noteq> None then s
      else
        let attempt = saturating_add (lr_attempt s) 1;
            s = emit (Connecting attempt) (s\<lparr>lr_attempt := attempt\<rparr>) in
        case at_outcome a of
          ShutdownWhileConnecting \<Rightarrow> return (Inr ()) (emit (Stopped attempt True) s)
        | ConnectFailed error \<Rightarrow>
            finish_failure (handle_client_failure attempt error (at_shutdown_in_backoff a) s)
        | ConnectSucceeded session session_end \<Rightarrow>
            (let s = s\<lparr>lr_lifecycle := (lr_lifecycle s)\<lparr>lc_reconnect := connected (lc_reconnect (lr_lifecycle s))\<rparr>\<rparr>;
                 s = emit (connected_event attempt session) s;
                 s = (case ns_issued_device_token session of
                        None \<Rightarrow> s
                      | Some device_token \<Rightarrow>
                          s\<lparr>lr_tokens := lr_tokens s @ [\<lparr>idt_attempt = attempt, idt_token = device_token\<rparr>]\<rparr>);
                 s = emit (Ready attempt) s in
             session_ended attempt session_end (at_shutdown_in_backoff a) s))"

definition lifecycle_runs :: "attempt list \<Rightarrow> lifecycle_run \<Rightarrow> lifecycle_run" where
  "lifecycle_runs attempts s = fold run_attempt attempts s"

section \<open>The promised event protocol\<close>

text \<open>
  What an observer may rely on, as an automaton over the events: attempts are numbered in order;
  each connects and then either fails or becomes connected and ready and later disconnected; a
  disconnection is followed by a wait for the same reason, a pause, a stop or the next attempt;
  nothing follows a stop or a pause.
\<close>

datatype phase =
    Idle u64
  | InConnect u64
  | InConnected u64
  | InReady u64
  | InDisconnected u64 lifecycle_disconnect_reason
  | InBackOff u64
  | Over "reconnect_pause + unit"

fun next_attempt :: "phase \<Rightarrow> u64 option" where
  "next_attempt (Idle n) = Some (saturating_add n 1)"
| "next_attempt (InBackOff n) = Some (saturating_add n 1)"
| "next_attempt (InDisconnected n RuntimeEnded) = Some (saturating_add n 1)"
| "next_attempt _ = None"

fun by_client :: "lifecycle_disconnect_reason \<Rightarrow> bool" where
  "by_client (ByClient _) = True"
| "by_client _ = False"

fun phase_step :: "lifecycle_event \<Rightarrow> phase \<Rightarrow> phase option" where
  "phase_step (Connecting n) ph = (if next_attempt ph = Some n then Some (InConnect n) else None)"
| "phase_step (Connected n _ _) ph = (if ph = InConnect n then Some (InConnected n) else None)"
| "phase_step (Ready n) ph = (if ph = InConnected n then Some (InReady n) else None)"
| "phase_step (Disconnected n reason) ph =
     (if ph = InReady n \<or> ph = InConnect n \<and> by_client reason then Some (InDisconnected n reason) else None)"
| "phase_step (BackingOff n _ reason) ph =
     (if ph = InDisconnected n reason \<and> reason \<noteq> RuntimeEnded \<and> reason \<noteq> Shutdown then Some (InBackOff n) else None)"
| "phase_step (Paused n p) ph =
     (case ph of InDisconnected m (ByClient _) \<Rightarrow> if m = n then Some (Over (Inl p)) else None | _ \<Rightarrow> None)"
| "phase_step (Stopped n drained) ph =
     (if ph = InDisconnected n Shutdown \<or> drained \<and> (ph = InConnect n \<or> ph = InBackOff n)
        then Some (Over (Inr ())) else None)"

fun phases :: "lifecycle_event list \<Rightarrow> phase \<Rightarrow> phase option" where
  "phases [] ph = Some ph"
| "phases (e # es) ph = Option.bind (phase_step e ph) (phases es)"

lemma phases_append: "phases (xs @ ys) ph = Option.bind (phases xs ph) (phases ys)"
  by (induction xs arbitrary: ph) (simp_all split: Option.bind_split)

text \<open>A run conforms: its events are accepted, and the phase says whether and how it returned.\<close>

definition conforms :: "lifecycle_run \<Rightarrow> phase \<Rightarrow> bool" where
  "conforms s ph \<longleftrightarrow> phases (lr_events s) (Idle 0) = Some ph"

lemma conforms_emit: "conforms s ph \<Longrightarrow> phase_step e ph = Some ph' \<Longrightarrow> conforms (emit e s) ph'"
  by (simp add: conforms_def emit_def phases_append)

lemma conforms_frame [simp]:
  "conforms (s\<lparr>lr_lifecycle := l\<rparr>) ph = conforms s ph" "conforms (s\<lparr>lr_attempt := n\<rparr>) ph = conforms s ph"
  "conforms (s\<lparr>lr_tokens := ts\<rparr>) ph = conforms s ph" "conforms (return r s) ph = conforms s ph"
  by (simp_all add: conforms_def return_def)

definition run_ok :: "lifecycle_run \<Rightarrow> bool" where
  "run_ok s \<longleftrightarrow>
     (case lr_result s of
        Some r \<Rightarrow> conforms s (Over r)
      | None \<Rightarrow> \<exists>ph. conforms s ph \<and> next_attempt ph = Some (saturating_add (lr_attempt s) 1))"

lemma emit_sel [simp]:
  "lr_result (emit e s) = lr_result s" "lr_attempt (emit e s) = lr_attempt s"
  "lr_lifecycle (emit e s) = lr_lifecycle s" "lr_tokens (emit e s) = lr_tokens s"
  "lr_events (emit e s) = lr_events s @ [e]"
  by (simp_all add: emit_def)

lemma return_sel [simp]:
  "lr_result (return r s) = Some r" "lr_attempt (return r s) = lr_attempt s"
  "lr_lifecycle (return r s) = lr_lifecycle s" "lr_tokens (return r s) = lr_tokens s"
  "lr_events (return r s) = lr_events s"
  by (simp_all add: return_def)

text \<open>A wait for \<open>reason\<close> after a disconnection for it.\<close>

lemma backoff_conforms:
  assumes "conforms s (InDisconnected n reason)" and "reason \<noteq> RuntimeEnded" and "reason \<noteq> Shutdown"
    and "backoff_or_stop n delay reason shutdown s = (b, s')"
  shows "b = shutdown \<and> lr_result s' = lr_result s \<and> lr_attempt s' = lr_attempt s \<and>
    conforms s' (if shutdown then Over (Inr ()) else InBackOff n)"
proof -
  have "conforms (emit (BackingOff n delay reason) s) (InBackOff n)"
    using assms(1-3) by (intro conforms_emit) auto
  moreover from conforms_emit [OF this, of "Stopped n True"]
  have "conforms (emit (Stopped n True) (emit (BackingOff n delay reason) s)) (Over (Inr ()))" by simp
  ultimately show ?thesis using assms(4)
    by (auto simp: backoff_or_stop_def Let_def split: if_splits)
qed

lemma finish_ok:
  assumes "conforms s' (if b then Over (Inr ()) else InBackOff (lr_attempt s'))" and "lr_result s' = None"
  shows "run_ok (if b then return (Inr ()) s' else s')"
  using assms by (cases b) (auto simp: run_ok_def intro!: exI [of _ "InBackOff (lr_attempt s')"])

lemma client_failure_ok:
  assumes "conforms s (InConnect n) \<or> conforms s (InReady n)" and "lr_result s = None" and "lr_attempt s = n"
  shows "run_ok (finish_failure (handle_client_failure n error shutdown s))"
proof -
  let ?reason = "ByClient (client_error_class_of error)"
  obtain action p where a: "after_failure error (lc_reconnect (lr_lifecycle s)) = (action, p)"
    by (metis prod.exhaust)
  define s1 where "s1 = (emit (Disconnected n ?reason) s)\<lparr>lr_lifecycle := (lr_lifecycle s)\<lparr>lc_reconnect := p\<rparr>\<rparr>"
  have c1: "conforms s1 (InDisconnected n ?reason)" and s1: "lr_result s1 = None" "lr_attempt s1 = n"
    using assms conforms_emit [of s "InConnect n" "Disconnected n ?reason"] conforms_emit [of s "InReady n" "Disconnected n ?reason"]
    by (auto simp: s1_def)
  have wait: "run_ok (finish_failure (case backoff_or_stop n delay ?reason shutdown s1 of (b, s) \<Rightarrow> (Inr b, s)))" for delay
  proof -
    obtain b s2 where b: "backoff_or_stop n delay ?reason shutdown s1 = (b, s2)" by (metis prod.exhaust)
    from backoff_conforms [OF c1 _ _ b] s1 finish_ok [of s2 b] show ?thesis
      unfolding b by (cases shutdown) (simp_all add: finish_failure_def)
  qed
  have "run_ok (finish_failure (Inl pause, emit (Paused n pause) s1))" for pause
    using conforms_emit [OF c1, of "Paused n pause"] by (simp add: finish_failure_def run_ok_def)
  then show ?thesis using wait
    by (cases action) (simp_all add: handle_client_failure_def a Let_def s1_def [symmetric])
qed

lemma runtime_failure_ok:
  assumes "conforms s (InReady n)" and "lr_result s = None" and "lr_attempt s = n"
  shows "run_ok (case handle_runtime_failure n c shutdown s of (must_stop, s) \<Rightarrow> if must_stop then return (Inr ()) s else s)"
proof -
  define s1 where "s1 = emit (Disconnected n (ByRuntime c)) s"
  have c1: "conforms s1 (InDisconnected n (ByRuntime c))" and s1: "lr_result s1 = None" "lr_attempt s1 = n"
    unfolding s1_def using assms by (auto intro!: conforms_emit)
  obtain b s2 where b: "handle_runtime_failure n c shutdown s = (b, s2)" by (metis prod.exhaust)
  then have "backoff_or_stop n (lc_runtime_restart_delay (lr_lifecycle s1)) (ByRuntime c) shutdown s1 = (b, s2)"
    by (simp add: handle_runtime_failure_def s1_def Let_def)
  from backoff_conforms [OF c1 _ _ this] s1 finish_ok [of s2 b] b show ?thesis
    by (cases shutdown) simp_all
qed

lemma run_attempt_ok:
  assumes "run_ok s"
  shows "run_ok (run_attempt a s)"
proof (cases "lr_result s")
  case None
  define n where "n = saturating_add (lr_attempt s) 1"
  define s1 where "s1 = emit (Connecting n) (s\<lparr>lr_attempt := n\<rparr>)"
  have c1: "conforms s1 (InConnect n)" and s1: "lr_result s1 = None" "lr_attempt s1 = n"
    using assms None by (auto simp: run_ok_def s1_def n_def [symmetric] intro!: conforms_emit)
  show ?thesis
  proof (cases "at_outcome a")
    case ShutdownWhileConnecting
    then show ?thesis using None conforms_emit [OF c1, of "Stopped n True"]
      by (simp add: run_attempt_def Let_def n_def [symmetric] s1_def [symmetric] run_ok_def)
  next
    case (ConnectFailed e)
    then show ?thesis using None client_failure_ok [of s1 n] c1 s1
      by (simp add: run_attempt_def Let_def n_def [symmetric] s1_def [symmetric])
  next
    case (ConnectSucceeded session session_end)
    define s2 where "s2 = emit (Ready n) ((\<lambda>s. case ns_issued_device_token session of None \<Rightarrow> s
        | Some t \<Rightarrow> s\<lparr>lr_tokens := lr_tokens s @ [\<lparr>idt_attempt = n, idt_token = t\<rparr>]\<rparr>)
      (emit (connected_event n session)
        (s1\<lparr>lr_lifecycle := (lr_lifecycle s1)\<lparr>lc_reconnect := connected (lc_reconnect (lr_lifecycle s1))\<rparr>\<rparr>)))"
    have c2: "conforms s2 (InReady n)" and s2: "lr_result s2 = None" "lr_attempt s2 = n"
      unfolding s2_def using c1 s1
      by (auto simp: connected_event_def split: option.split intro!: conforms_emit)
    have shut: "run_ok (return (Inr ()) (emit (Stopped n d) (emit (Disconnected n Shutdown) s2)))" for d
    proof -
      have "conforms (emit (Disconnected n Shutdown) s2) (InDisconnected n Shutdown)"
        using c2 by (intro conforms_emit) auto
      from conforms_emit [OF this, of "Stopped n d"] show ?thesis by (simp add: run_ok_def)
    qed
    have ended: "run_ok (emit (Disconnected n RuntimeEnded) s2)"
      using conforms_emit [OF c2, of "Disconnected n RuntimeEnded"] s2
      by (auto simp: run_ok_def intro!: exI [of _ "InDisconnected n RuntimeEnded"])
    have "run_ok (session_ended n session_end (at_shutdown_in_backoff a) s2)"
      using client_failure_ok [of s2 n] runtime_failure_ok [of s2 n] c2 s2 shut ended
      by (auto simp: session_ended_def Let_def split: session_end.split sum.split runtime_error.split)
    moreover have "run_attempt a s = session_ended n session_end (at_shutdown_in_backoff a) s2"
      using None ConnectSucceeded
      by (cases "ns_issued_device_token session") (simp_all add: run_attempt_def Let_def n_def s1_def s2_def)
    ultimately show ?thesis by simp
  qed
qed (use assms in \<open>simp add: run_attempt_def\<close>)

lemma lifecycle_runs_ok: "run_ok s \<Longrightarrow> run_ok (lifecycle_runs attempts s)"
  unfolding lifecycle_runs_def by (induction attempts arbitrary: s) (simp_all add: run_attempt_ok)

lemma lifecycle_start_ok: "run_ok (lifecycle_start l)"
  by (simp add: run_ok_def lifecycle_start_def conforms_def)

section \<open>Delays\<close>

text \<open>The policy the driver calls, with no stored token, keeps the contract of a retry policy as well.\<close>

lemma after_failure_failed_with: "after_failure e p = failed_with (e, Unavailable) p"
  by (simp add: after_failure_def failed_with_def)

interpretation driver_retry: retry_policy after_failure connected policy_ok rp_maximum_delay
  by unfold_locales
    (simp_all add: after_failure_failed_with retry.failed_ok retry.failed_bound retry.reset_ok
      retry.reset_bound retry.retry_bounded)

lemma after_failure_no_token: "fst (after_failure e p) \<noteq> RetryWithStoredDeviceTokenAfter d"
  by (auto simp: after_failure_def after_failure_with_device_token_def split: option.split)

text \<open>The longest delay a driver with this configuration may ask for.\<close>

definition delay_bound :: "node_lifecycle \<Rightarrow> duration" where
  "delay_bound l = max (rp_maximum_delay (lc_reconnect l))
     (max (lc_runtime_restart_delay l) RETIRED_SESSION_RETRY_DELAY)"

definition delays_ok :: "node_lifecycle \<Rightarrow> lifecycle_run \<Rightarrow> bool" where
  "delays_ok l s \<longleftrightarrow>
     policy_ok (lc_reconnect (lr_lifecycle s)) \<and>
     lc_runtime_restart_delay (lr_lifecycle s) = lc_runtime_restart_delay l \<and>
     rp_maximum_delay (lc_reconnect (lr_lifecycle s)) = rp_maximum_delay (lc_reconnect l) \<and>
     (\<forall>n d r. BackingOff n d r \<in> set (lr_events s) \<longrightarrow> d \<le> delay_bound l)"

lemma delays_ok_emit:
  "delays_ok l (emit e s) \<longleftrightarrow> delays_ok l s \<and> (\<forall>n d r. e = BackingOff n d r \<longrightarrow> d \<le> delay_bound l)"
  by (auto simp: delays_ok_def)

lemma delays_ok_frame [simp]:
  "delays_ok l (return r s) = delays_ok l s" "delays_ok l (s\<lparr>lr_attempt := n\<rparr>) = delays_ok l s"
  "delays_ok l (s\<lparr>lr_tokens := ts\<rparr>) = delays_ok l s"
  by (simp_all add: delays_ok_def return_def)

lemma backoff_delays:
  assumes "delays_ok l s" and "d \<le> delay_bound l" and "backoff_or_stop n d r shutdown s = (b, s')"
  shows "delays_ok l s'"
  using assms by (auto simp: backoff_or_stop_def Let_def delays_ok_emit split: if_splits)

lemma client_failure_delays:
  assumes "delays_ok l s"
  shows "delays_ok l (finish_failure (handle_client_failure n error shutdown s))"
proof -
  obtain action p where a: "after_failure error (lc_reconnect (lr_lifecycle s)) = (action, p)"
    by (metis prod.exhaust)
  let ?reason = "ByClient (client_error_class_of error)"
  define s1 where "s1 = (emit (Disconnected n ?reason) s)\<lparr>lr_lifecycle := (lr_lifecycle s)\<lparr>lc_reconnect := p\<rparr>\<rparr>"
  have ok: "policy_ok (lc_reconnect (lr_lifecycle s))" using assms by (simp add: delays_ok_def)
  have p: "policy_ok p" "rp_maximum_delay p = rp_maximum_delay (lc_reconnect (lr_lifecycle s))"
    using driver_retry.failed_ok [OF ok, of error] driver_retry.failed_bound [of error "lc_reconnect (lr_lifecycle s)"] a
    by simp_all
  then have s1: "delays_ok l s1" using assms by (simp add: s1_def delays_ok_def delay_bound_def)
  have wait: "delays_ok l (finish_failure (case backoff_or_stop n d ?reason shutdown s1 of (b, s) \<Rightarrow> (Inr b, s)))"
    if "d \<le> delay_bound l" for d
  proof -
    obtain b s2 where b: "backoff_or_stop n d ?reason shutdown s1 = (b, s2)" by (metis prod.exhaust)
    from backoff_delays [OF s1 that b] show ?thesis unfolding b by (simp add: finish_failure_def)
  qed
  have retry: "d \<le> delay_bound l" if "action = RetryAfter d" for d
    using driver_retry.retry_bounded [OF ok, of error d] a that assms
    by (simp add: delays_ok_def delay_bound_def)
  have "RETIRED_SESSION_RETRY_DELAY \<le> delay_bound l" by (simp add: delay_bound_def)
  then show ?thesis
    using wait retry s1 after_failure_no_token [of error "lc_reconnect (lr_lifecycle s)"] a
    by (cases action)
      (auto simp: handle_client_failure_def Let_def s1_def [symmetric] finish_failure_def delays_ok_emit)
qed

lemma runtime_failure_delays:
  assumes "delays_ok l s"
  shows "delays_ok l (case handle_runtime_failure n c shutdown s of (must_stop, s) \<Rightarrow> if must_stop then return (Inr ()) s else s)"
proof -
  obtain b s2 where b: "handle_runtime_failure n c shutdown s = (b, s2)" by (metis prod.exhaust)
  have "lc_runtime_restart_delay (lr_lifecycle s) \<le> delay_bound l"
    using assms by (auto simp: delays_ok_def delay_bound_def)
  then have "delays_ok l s2"
    using backoff_delays [of l "emit (Disconnected n (ByRuntime c)) s"] b assms
    by (fastforce simp: handle_runtime_failure_def Let_def delays_ok_emit)
  then show ?thesis unfolding b by simp
qed

lemma run_attempt_delays:
  assumes "delays_ok l s"
  shows "delays_ok l (run_attempt a s)"
proof -
  have reset: "delays_ok l (r\<lparr>lr_lifecycle := (lr_lifecycle r)\<lparr>lc_reconnect := connected (lc_reconnect (lr_lifecycle r))\<rparr>\<rparr>)"
    if "delays_ok l r" for r
    using that driver_retry.reset_ok driver_retry.reset_bound by (simp add: delays_ok_def delay_bound_def)
  have "delays_ok l (session_ended n session_end shutdown r)" if "delays_ok l r" for n session_end shutdown r
    using client_failure_delays [OF that] runtime_failure_delays [OF that] that
    by (auto simp: session_ended_def Let_def delays_ok_emit split: session_end.split sum.split runtime_error.split)
  note ended = this
  define n where "n = saturating_add (lr_attempt s) 1"
  define s1 where "s1 = emit (Connecting n) (s\<lparr>lr_attempt := n\<rparr>)"
  have s1: "delays_ok l s1" using assms by (simp add: s1_def delays_ok_emit)
  show ?thesis
  proof (cases "at_outcome a")
    case (ConnectSucceeded session session_end)
    define s2 where "s2 = s1\<lparr>lr_lifecycle := (lr_lifecycle s1)\<lparr>lc_reconnect := connected (lc_reconnect (lr_lifecycle s1))\<rparr>\<rparr>"
    define s3 where "s3 = emit (connected_event n session) s2"
    have "delays_ok l s3" using reset [OF s1] by (simp add: s2_def s3_def delays_ok_emit connected_event_def)
    then have "delays_ok l (emit (Ready n) (case ns_issued_device_token session of None \<Rightarrow> s3
        | Some t \<Rightarrow> s3\<lparr>lr_tokens := lr_tokens s3 @ [\<lparr>idt_attempt = n, idt_token = t\<rparr>]\<rparr>))"
      by (simp add: delays_ok_emit split: option.split)
    from ended [OF this, of n session_end "at_shutdown_in_backoff a"] show ?thesis using assms ConnectSucceeded
      by (cases "ns_issued_device_token session")
        (simp_all add: run_attempt_def Let_def n_def s1_def s2_def s3_def)
  qed (use s1 assms client_failure_delays [OF s1] in
      \<open>simp_all add: run_attempt_def Let_def n_def [symmetric] s1_def [symmetric] delays_ok_emit\<close>)
qed

section \<open>Properties\<close>

text \<open>
  C26. The driver keeps its event protocol: over any sequence of attempts its events are accepted by
  the automaton of the protocol, and it has returned exactly if the automaton has ended, with the
  same result: a pause after \<open>Paused\<close>, success after \<open>Stopped\<close>.
\<close>

lemma lifecycle_follows_protocol:
  "\<exists>ph. phases (lr_events (lifecycle_runs attempts (lifecycle_start l))) (Idle 0) = Some ph \<and>
     (case lr_result (lifecycle_runs attempts (lifecycle_start l)) of
        Some r \<Rightarrow> ph = Over r
      | None \<Rightarrow> next_attempt ph = Some (saturating_add (lr_attempt (lifecycle_runs attempts (lifecycle_start l))) 1))"
  using lifecycle_runs_ok [OF lifecycle_start_ok, of attempts l]
  by (auto simp: run_ok_def conforms_def split: option.splits)

text \<open>
  Delays of the driver are bounded: whatever happens, no wait it announces is longer than the
  largest of the policy's maximum, the runtime restart delay and the delay for a retired session.
\<close>

lemma lifecycle_delay_bounded:
  assumes "BackingOff n delay reason \<in> set (lr_events (lifecycle_runs attempts (lifecycle_start l)))"
    and "lc_reconnect l = policy_new initial_delay maximum_delay"
  shows "delay \<le> max (max maximum_delay initial_delay) (max (lc_runtime_restart_delay l) (from_secs 1))"
proof -
  have "delays_ok l (lifecycle_runs attempts s)" if "delays_ok l s" for s
    using that unfolding lifecycle_runs_def by (induction attempts arbitrary: s) (simp_all add: run_attempt_delays)
  moreover have "delays_ok l (lifecycle_start l)"
    using policy_new_ok assms(2) by (simp add: delays_ok_def lifecycle_start_def)
  ultimately have "delays_ok l (lifecycle_runs attempts (lifecycle_start l))" by blast
  then have "delay \<le> delay_bound l" using assms(1) unfolding delays_ok_def by blast
  then show ?thesis using assms(2)
    by (simp add: delay_bound_def policy_new_def RETIRED_SESSION_RETRY_DELAY_def)
qed

lemma lifecycle_delay_bounded_witness:
  "\<exists>reason. BackingOff 1 1000000000 reason \<in> set (lr_events (lifecycle_runs
      [\<lparr>at_outcome = ConnectFailed ConnectTimeout, at_shutdown_in_backoff = True\<rparr>] (lifecycle_start lifecycle_default))) \<and>
    1000000000 \<le> max (max (from_secs 30) (from_secs 1)) (max (from_secs 1) (from_secs 1))"
proof -
  have ev: "BackingOff 1 1000000000 (ByClient ClassTransport) \<in> set (lr_events (lifecycle_runs
      [\<lparr>at_outcome = ConnectFailed ConnectTimeout, at_shutdown_in_backoff = True\<rparr>] (lifecycle_start lifecycle_default)))"
    by (simp add: lifecycle_runs_def run_attempt_def lifecycle_start_def saturating_add_def handle_client_failure_def
        after_failure_def after_failure_with_device_token_def lifecycle_default_def lifecycle_new_def policy_default_def
        policy_new_def DEFAULT_INITIAL_DELAY_def from_secs_def backoff_or_stop_def finish_failure_def Let_def
        checked_add_def)
  have "lc_reconnect lifecycle_default = policy_new (from_secs 1) (from_secs 30)"
    "lc_runtime_restart_delay lifecycle_default = from_secs 1"
    by (simp_all add: lifecycle_default_def lifecycle_new_def policy_default_def DEFAULT_INITIAL_DELAY_def
        DEFAULT_MAXIMUM_DELAY_def DEFAULT_RUNTIME_RESTART_DELAY_def)
  from lifecycle_delay_bounded [OF ev this(1)] this(2) ev show ?thesis by auto
qed

text \<open>
  Shutdown ends the driver and a terminal failure is final: an attempt during which shutdown is
  requested, at any of its waits, makes \<open>run\<close> return; a refusal to connect for which reconnecting
  pauses makes it return that pause; and after it returned, further attempts change nothing, so it
  never connects again.
\<close>

lemma lifecycle_ends:
  assumes "lr_result s = None" and "\<not> is_session_request_error error"
  shows "lr_result (run_attempt \<lparr>at_outcome = ShutdownWhileConnecting, at_shutdown_in_backoff = b\<rparr> s) = Some (Inr ()) \<and>
    lr_result (run_attempt \<lparr>at_outcome = ConnectSucceeded session (ShutdownWhileRunning drain), at_shutdown_in_backoff = b\<rparr> s) =
      Some (Inr ()) \<and>
    lr_result (run_attempt \<lparr>at_outcome = ConnectFailed error, at_shutdown_in_backoff = True\<rparr> s) =
      Some (case classify_pause error of Some pause \<Rightarrow> Inl pause | None \<Rightarrow> Inr ()) \<and>
    (lr_result s' \<noteq> None \<longrightarrow> lifecycle_runs attempts s' = s')"
proof -
  have "lifecycle_runs attempts s' = s'" if "lr_result s' \<noteq> None"
    using that unfolding lifecycle_runs_def by (induction attempts) (simp_all add: run_attempt_def)
  moreover have "lr_result (run_attempt \<lparr>at_outcome = ConnectFailed error, at_shutdown_in_backoff = True\<rparr> s) =
      Some (case classify_pause error of Some pause \<Rightarrow> Inl pause | None \<Rightarrow> Inr ())"
    using assms
    by (auto simp: run_attempt_def Let_def handle_client_failure_def after_failure_def after_failure_with_device_token_def
        backoff_or_stop_def finish_failure_def split: option.split)
  ultimately show ?thesis using assms
    by (simp add: run_attempt_def Let_def session_ended_def split: option.split)
qed

lemma lifecycle_ends_witness:
  "lr_result (run_attempt \<lparr>at_outcome = ConnectFailed InsecureRemoteGateway, at_shutdown_in_backoff = True\<rparr>
     (lifecycle_start lifecycle_default)) = Some (Inl Configuration)"
  using lifecycle_ends [of "lifecycle_start lifecycle_default" InsecureRemoteGateway]
  by (simp add: lifecycle_start_def)

text \<open>
  Diagnostics and decisions agree: the secret-free class reported for an error decides whether
  reconnecting pauses. Configuration, identity and protocol errors always pause, with a pause of
  that kind; transport errors, request timeouts and lagged events never do; only for refusals by
  the Gateway does it depend on what the Gateway said.
\<close>

lemma class_decides_pause:
  "case client_error_class_of error of
     ClassConfiguration \<Rightarrow> classify_pause error = Some Configuration
   | ClassIdentity \<Rightarrow> classify_pause error = Some LocalIdentity
   | ClassProtocol \<Rightarrow> classify_pause error = Some (Protocol None)
   | ClassGateway \<Rightarrow>
       (\<exists>method gw_code message details retryable retry_after.
          error = Gateway method gw_code message details retryable retry_after \<and>
          classify_pause error = classify_gateway gw_code details retryable)
   | _ \<Rightarrow> classify_pause error = None"
  by (cases error) auto

end
