(* ===== verification/SidecarConfiguration.thy ===== *)
theory SidecarConfiguration
  imports SidecarHandshake Lifecycle
begin

text \<open>
  The messages of the sidecar runtime and the one-time configuration exchange of
  \<open>sidecar_runtime.rs\<close>: right after the handshake the supervisor sends the configuration of the
  command runtime, the runtime validates it and acknowledges the manifest it derived from it.

  The derived serializer and deserializer of \<open>SidecarRuntimeMessage\<close> are the parameters \<open>ser\<close> and
  \<open>de\<close>; what the \<open>serialize_with\<close> and \<open>deserialize_with\<close> functions of its fields add to them is
  \<open>message_portable\<close>. For a message with a refused field \<open>ser\<close> gives the chunks before that field.
  \<open>js\<close> is the serializer of \<open>serde_json::Value\<close>.
\<close>

section \<open>Messages\<close>

record sidecar_command_registration =
  command_name :: string

record sidecar_runtime_configuration =
  cf_manifest_generation :: u64
  cf_capabilities :: "string list"
  cf_commands :: "sidecar_command_registration list"
  cf_max_concurrency :: u16
  cf_max_input_bytes :: u32
  cf_max_output_bytes :: u32
  cf_default_timeout_ms :: u32
  cf_max_timeout_ms :: u32
  cf_result_grace_ms :: u32

record sidecar_runtime_manifest =
  mf_manifest_generation :: u64
  mf_capabilities :: "string list"
  mf_commands :: "string list"

record sidecar_invocation =
  si_id :: string
  si_node_id :: string
  si_command :: string
  si_params :: json
  si_timeout_ms :: "u64 option"
  si_idempotency_key :: "string option"
  si_session_key :: "string option"

definition sidecar_invocation_from :: "node_invocation \<Rightarrow> sidecar_invocation" where
  "sidecar_invocation_from invocation =
     \<lparr>si_id = inv_id invocation, si_node_id = inv_node_id invocation,
      si_command = inv_command invocation, si_params = inv_params invocation,
      si_timeout_ms = inv_timeout_ms invocation, si_idempotency_key = inv_idempotency_key invocation,
      si_session_key = inv_session_key invocation\<rparr>"

datatype sidecar_admission_decision = Allow | Deny string string

datatype sidecar_invocation_result = SidecarSuccess json | SidecarFailure string string

fun handler_result_from :: "sidecar_invocation_result \<Rightarrow> handler_error + json" where
  "handler_result_from (SidecarSuccess payload) = Inr payload"
| "handler_result_from (SidecarFailure code message) = Inl (HandlerError code message)"

fun sidecar_result_from :: "invocation_result \<Rightarrow> sidecar_invocation_result" where
  "sidecar_result_from (Success payload) = SidecarSuccess payload"
| "sidecar_result_from (Failure code message) = SidecarFailure code message"

datatype sidecar_runtime_state =
  StateConfigured | StateConnecting | StateReady | StateBackingOff | StatePaused | StateDraining | StateStopped

datatype sidecar_runtime_reason =
    ReasonTransport | ReasonGateway | ReasonRequestTimeout | ReasonEventLagged | ReasonActivation
  | ReasonDeliverySaturated | ReasonResultTask | ReasonRuntimeEnded | ReasonShutdown | ReasonPairing
  | ReasonAuthentication | ReasonProtocol | ReasonConfiguration | ReasonIdentity

record sidecar_runtime_status =
  st_state :: sidecar_runtime_state
  st_manifest_generation :: u64
  st_runtime_version :: string
  st_attempt :: u64
  st_reason :: "sidecar_runtime_reason option"

datatype sidecar_runtime_message =
    MsgConfigure sidecar_runtime_configuration
  | MsgConfigured sidecar_runtime_manifest
  | MsgAdmissionRequest sidecar_invocation
  | MsgAdmissionDecision string sidecar_admission_decision
  | MsgInvoke sidecar_invocation
  | MsgResult string sidecar_invocation_result
  | MsgCancel string
  | MsgStatus sidecar_runtime_status

text \<open>Which messages the field serializers and deserializers let through.\<close>

fun invocation_result_is_portable :: "sidecar_invocation_result \<Rightarrow> bool" where
  "invocation_result_is_portable (SidecarSuccess payload) = portable_json_value payload"
| "invocation_result_is_portable (SidecarFailure code message) = True"

definition sidecar_invocation_portable :: "sidecar_invocation \<Rightarrow> bool" where
  "sidecar_invocation_portable invocation =
     (portable_json_value (si_params invocation) \<and> portable_optional_u64 (si_timeout_ms invocation))"

fun message_portable :: "sidecar_runtime_message \<Rightarrow> bool" where
  "message_portable (MsgConfigure configuration) = portable_u64 (cf_manifest_generation configuration)"
| "message_portable (MsgConfigured manifest) = portable_u64 (mf_manifest_generation manifest)"
| "message_portable (MsgAdmissionRequest invocation) = sidecar_invocation_portable invocation"
| "message_portable (MsgAdmissionDecision invocation_id decision) = True"
| "message_portable (MsgInvoke invocation) = sidecar_invocation_portable invocation"
| "message_portable (MsgResult invocation_id result) = invocation_result_is_portable result"
| "message_portable (MsgCancel invocation_id) = True"
| "message_portable (MsgStatus status) =
     (portable_u64 (st_manifest_generation status) \<and> portable_u64 (st_attempt status))"

definition runtime_ser :: "(sidecar_runtime_message \<Rightarrow> serialized) \<Rightarrow> sidecar_runtime_message \<Rightarrow> serialized" where
  "runtime_ser ser m = (ser m)\<lparr>refused := refused (ser m) \<or> \<not> message_portable m\<rparr>"

definition runtime_de ::
  "(bytes \<Rightarrow> sidecar_runtime_message option) \<Rightarrow> bytes \<Rightarrow> sidecar_runtime_message option" where
  "runtime_de de bs =
     (case de bs of Some m \<Rightarrow> if message_portable m then Some m else None | None \<Rightarrow> None)"

section \<open>Validation\<close>

datatype sidecar_runtime_bridge_error =
    ConfigurationNotValidated
  | BridgeChannelInstanceMismatch
  | BridgeChannelRetired
  | StatusMessageTooLarge
  | RuntimeRoleRequired
  | InvalidManifestGeneration
  | InvalidRuntimeLimit string
  | InvalidRuntimeName string
  | DuplicateRuntimeName string
  | ReservedRuntimeCommand string
  | RuntimeBuild runtime_build_error

definition message_too_large :: handler_error where
  "message_too_large = HandlerError ''SIDECAR_MESSAGE_TOO_LARGE''
     ''complete sidecar message exceeds the authenticated payload limit''"

definition nonportable_json :: handler_error where
  "nonportable_json = HandlerError ''SIDECAR_NON_PORTABLE_JSON''
     ''sidecar message contains an integer outside the exact JSON range''"

definition channel_retired_error :: handler_error where
  "channel_retired_error = HandlerError ''SIDECAR_CHANNEL_RETIRED''
     ''authenticated sidecar channel is no longer live''"

definition minimum_bridge_failure_bytes :: "(json \<Rightarrow> serialized) \<Rightarrow> nat" where
  "minimum_bridge_failure_bytes js =
     (let sizes = map (\<lambda>error. total_len (chunks (js
            (JObject [(''code'', JString (he_code error)), (''message'', JString (he_message error))]))))
          [message_too_large, nonportable_json, channel_retired_error] in
      fold max (tl sizes) (hd sizes))"

definition name_char :: "char \<Rightarrow> bool" where
  "name_char c = (is_ascii_alphanumeric c \<or> c \<in> {CHR ''.'', CHR ''_'', CHR ''-''})"

text \<open>\<open>validate_names\<close>, with the set of the names seen so far.\<close>

fun validate_names_from :: "string set \<Rightarrow> string list \<Rightarrow> bool \<Rightarrow> sidecar_runtime_bridge_error + unit" where
  "validate_names_from unique [] commands = Inr ()"
| "validate_names_from unique (name # names) commands =
     (if name = [] \<or> length name > 128 \<or> \<not> list_all name_char name then Inl (InvalidRuntimeName name)
      else if commands \<and> (name = ''system'' \<or> starts_with name ''system.'')
        then Inl (ReservedRuntimeCommand name)
      else if name \<in> unique then Inl (DuplicateRuntimeName name)
      else validate_names_from (insert name unique) names commands)"

definition validate_names :: "string list \<Rightarrow> bool \<Rightarrow> sidecar_runtime_bridge_error + unit" where
  "validate_names names commands = validate_names_from {} names commands"

definition validate_configuration ::
  "(json \<Rightarrow> serialized) \<Rightarrow> sidecar_runtime_configuration \<Rightarrow> sidecar_protocol_selection \<Rightarrow>
   sidecar_runtime_bridge_error + unit" where
  "validate_configuration js configuration negotiated =
     (if cf_manifest_generation configuration = 0
         \<or> cf_manifest_generation configuration > MAX_PORTABLE_JSON_INTEGER
        then Inl InvalidManifestGeneration
      else if cf_max_concurrency configuration = 0
         \<or> cf_max_concurrency configuration > max_in_flight (sel_limits negotiated)
        then Inl (InvalidRuntimeLimit ''maxConcurrency'')
      else if cf_max_input_bytes configuration = 0
         \<or> cf_max_input_bytes configuration > max_frame_bytes (sel_limits negotiated)
        then Inl (InvalidRuntimeLimit ''maxInputBytes'')
      else if cf_max_output_bytes configuration = 0
         \<or> unat (cf_max_output_bytes configuration) < minimum_bridge_failure_bytes js
         \<or> cf_max_output_bytes configuration > max_frame_bytes (sel_limits negotiated)
        then Inl (InvalidRuntimeLimit ''maxOutputBytes'')
      else if cf_default_timeout_ms configuration = 0 \<or> cf_max_timeout_ms configuration = 0
         \<or> cf_default_timeout_ms configuration > cf_max_timeout_ms configuration
         \<or> cf_result_grace_ms configuration \<ge> cf_default_timeout_ms configuration
        then Inl (InvalidRuntimeLimit ''timeouts'')
      else case validate_names (cf_capabilities configuration) False of
        Inl e \<Rightarrow> Inl e
      | Inr _ \<Rightarrow> validate_names (map command_name (cf_commands configuration)) True)"

definition validate_status_budget ::
  "(sidecar_runtime_message \<Rightarrow> serialized) \<Rightarrow> string \<Rightarrow> u64 \<Rightarrow> nat \<Rightarrow> sidecar_runtime_bridge_error + unit" where
  "validate_status_budget ser runtime_version manifest_generation max_payload =
     (let worst_case = MsgStatus \<lparr>st_state = StateBackingOff, st_manifest_generation = manifest_generation,
            st_runtime_version = runtime_version, st_attempt = MAX_PORTABLE_JSON_INTEGER,
            st_reason = Some ReasonDeliverySaturated\<rparr> in
      if runtime_message_within_limit (runtime_ser ser worst_case) max_payload then Inr ()
      else Inl StatusMessageTooLarge)"

definition manifest_from_configuration :: "sidecar_runtime_configuration \<Rightarrow> sidecar_runtime_manifest" where
  "manifest_from_configuration configuration =
     \<lparr>mf_manifest_generation = cf_manifest_generation configuration,
      mf_capabilities = sorted_strings (cf_capabilities configuration),
      mf_commands = sorted_strings (map command_name (cf_commands configuration))\<rparr>"

section \<open>The exchange\<close>

datatype sidecar_configuration_state =
    CfgStarting | AwaitingConfiguration | AwaitingAcknowledgement | AcknowledgementPending
  | CfgConfigured | CfgActivated | CfgFailed

datatype sidecar_configuration_error =
    HandshakeNotAuthenticated
  | CfgFrame sidecar_frame_error
  | CfgConfiguration sidecar_runtime_bridge_error
  | CfgSupervisorMustInitiate
  | RuntimeMustAcknowledge
  | CfgChannelRoleMismatch
  | CfgChannelInstanceMismatch
  | ManifestMismatch
  | CfgUnexpectedMessage

record sidecar_configuration_exchange =
  ex_role :: sidecar_peer_role
  ex_channel_instance_id :: u64
  ex_selection :: sidecar_protocol_selection
  ex_runtime_version :: string
  ex_state :: sidecar_configuration_state
  ex_configuration :: "sidecar_runtime_configuration option"
  ex_expected_manifest :: "sidecar_runtime_manifest option"
  ex_max_payload_bytes :: "nat option"

definition exchange_new ::
  "sidecar_handshake \<Rightarrow> sidecar_configuration_error + sidecar_configuration_exchange" where
  "exchange_new hs =
     (if hs_state hs \<noteq> Authenticated then Inl HandshakeNotAuthenticated
      else case hs_negotiated hs of
        None \<Rightarrow> Inl HandshakeNotAuthenticated
      | Some negotiated \<Rightarrow>
      (case hs_channel_instance_id hs of
        None \<Rightarrow> Inl HandshakeNotAuthenticated
      | Some instance_id \<Rightarrow>
        let role = local_role hs;
            runtime_version = (case role of
              Runtime \<Rightarrow> peer_version (offer_peer (hs_local_offer hs))
            | Supervisor \<Rightarrow> peer_version (neg_remote_peer negotiated)) in
        Inr \<lparr>ex_role = role, ex_channel_instance_id = instance_id,
             ex_selection = selection_from negotiated, ex_runtime_version = runtime_version,
             ex_state = (case role of Supervisor \<Rightarrow> CfgStarting | Runtime \<Rightarrow> AwaitingConfiguration),
             ex_configuration = None, ex_expected_manifest = None, ex_max_payload_bytes = None\<rparr>))"

definition ensure_channel ::
  "sidecar_configuration_exchange \<Rightarrow> channel \<Rightarrow> (sidecar_configuration_error + unit) \<times> channel" where
  "ensure_channel ex ch =
     (if ch_instance_id ch = ex_channel_instance_id ex then (Inr (), ch)
      else (Inl CfgChannelInstanceMismatch, retire ch))"

definition exchange_fail ::
  "sidecar_configuration_exchange \<Rightarrow> channel \<Rightarrow> sidecar_configuration_error \<Rightarrow>
   (sidecar_configuration_error + 'a) \<times> sidecar_configuration_exchange \<times> channel" where
  "exchange_fail ex ch error =
     (Inl error,
      ex\<lparr>ex_configuration := None, ex_expected_manifest := None, ex_max_payload_bytes := None,
         ex_state := CfgFailed\<rparr>,
      retire ch)"

text \<open>What both sides store of a valid configuration.\<close>

definition store_configuration ::
  "sidecar_runtime_configuration \<Rightarrow> channel \<Rightarrow> sidecar_configuration_exchange \<Rightarrow>
   sidecar_configuration_exchange" where
  "store_configuration configuration ch ex =
     ex\<lparr>ex_configuration := Some configuration,
        ex_expected_manifest := Some (manifest_from_configuration configuration),
        ex_max_payload_bytes := Some (max_payload_bytes ch),
        ex_state := AwaitingAcknowledgement\<rparr>"

definition exchange_start ::
  "hmac \<Rightarrow> (json \<Rightarrow> serialized) \<Rightarrow> (sidecar_runtime_message \<Rightarrow> serialized) \<Rightarrow> sidecar_runtime_configuration \<Rightarrow>
   sidecar_configuration_exchange \<Rightarrow> channel \<Rightarrow>
   (sidecar_configuration_error + bytes) \<times> sidecar_configuration_exchange \<times> channel" where
  "exchange_start hm js ser configuration ex ch0 =
     (case ensure_channel ex ch0 of
        (Inl error, ch) \<Rightarrow> (Inl error, ex, ch)
      | (Inr _, ch) \<Rightarrow>
        if ex_role ex \<noteq> Supervisor then exchange_fail ex ch CfgSupervisorMustInitiate
        else if ch_role ch \<noteq> ex_role ex then exchange_fail ex ch CfgChannelRoleMismatch
        else if ex_state ex \<noteq> CfgStarting then exchange_fail ex ch CfgUnexpectedMessage
        else let ch = lock_frame_limit ch in
          case validate_configuration js configuration (ex_selection ex) of
            Inl error \<Rightarrow> exchange_fail ex ch (CfgConfiguration error)
          | Inr _ \<Rightarrow>
          (case validate_status_budget ser (ex_runtime_version ex)
                  (cf_manifest_generation configuration) (max_payload_bytes ch) of
            Inl error \<Rightarrow> exchange_fail ex ch (CfgConfiguration error)
          | Inr _ \<Rightarrow>
          (case seal hm (runtime_ser ser) (MsgConfigure configuration) ch of
            (Inl error, ch) \<Rightarrow> exchange_fail ex ch (CfgFrame error)
          | (Inr frame, ch) \<Rightarrow> (Inr frame, store_configuration configuration ch ex, ch))))"

definition exchange_receive ::
  "hmac \<Rightarrow> (json \<Rightarrow> serialized) \<Rightarrow> (sidecar_runtime_message \<Rightarrow> serialized) \<Rightarrow>
   (bytes \<Rightarrow> sidecar_runtime_message option) \<Rightarrow> bytes \<Rightarrow> sidecar_configuration_exchange \<Rightarrow> channel \<Rightarrow>
   (sidecar_configuration_error + sidecar_runtime_configuration option)
     \<times> sidecar_configuration_exchange \<times> channel" where
  "exchange_receive hm js ser de frame ex ch0 =
     (case ensure_channel ex ch0 of
        (Inl error, ch) \<Rightarrow> (Inl error, ex, ch)
      | (Inr _, ch) \<Rightarrow>
        if ch_role ch \<noteq> ex_role ex then exchange_fail ex ch CfgChannelRoleMismatch
        else case open_frame hm (runtime_de de) frame (lock_frame_limit ch) of
          (Inl error, ch) \<Rightarrow> exchange_fail ex ch (CfgFrame error)
        | (Inr message, ch) \<Rightarrow>
          (case (ex_role ex, ex_state ex, message) of
             (Runtime, AwaitingConfiguration, MsgConfigure configuration) \<Rightarrow>
               (case validate_configuration js configuration (ex_selection ex) of
                  Inl error \<Rightarrow> exchange_fail ex ch (CfgConfiguration error)
                | Inr _ \<Rightarrow>
                (case validate_status_budget ser (ex_runtime_version ex)
                        (cf_manifest_generation configuration) (max_payload_bytes ch) of
                  Inl error \<Rightarrow> exchange_fail ex ch (CfgConfiguration error)
                | Inr _ \<Rightarrow> (Inr (Some configuration), store_configuration configuration ch ex, ch)))
           | (Supervisor, AwaitingAcknowledgement, MsgConfigured manifest) \<Rightarrow>
               if ex_expected_manifest ex \<noteq> Some manifest then exchange_fail ex ch ManifestMismatch
               else (Inr None, ex\<lparr>ex_state := CfgConfigured\<rparr>, ch)
           | _ \<Rightarrow> exchange_fail ex ch CfgUnexpectedMessage))"

definition exchange_acknowledge ::
  "hmac \<Rightarrow> (sidecar_runtime_message \<Rightarrow> serialized) \<Rightarrow> sidecar_runtime_manifest \<Rightarrow>
   sidecar_configuration_exchange \<Rightarrow> channel \<Rightarrow>
   (sidecar_configuration_error + bytes) \<times> sidecar_configuration_exchange \<times> channel" where
  "exchange_acknowledge hm ser manifest ex ch0 =
     (case ensure_channel ex ch0 of
        (Inl error, ch) \<Rightarrow> (Inl error, ex, ch)
      | (Inr _, ch) \<Rightarrow>
        if ex_role ex \<noteq> Runtime then exchange_fail ex ch RuntimeMustAcknowledge
        else if ch_role ch \<noteq> ex_role ex then exchange_fail ex ch CfgChannelRoleMismatch
        else if ex_state ex \<noteq> AwaitingAcknowledgement then exchange_fail ex ch CfgUnexpectedMessage
        else if ex_expected_manifest ex \<noteq> Some manifest then exchange_fail ex ch ManifestMismatch
        else case seal hm (runtime_ser ser) (MsgConfigured manifest) ch of
          (Inl error, ch) \<Rightarrow> exchange_fail ex ch (CfgFrame error)
        | (Inr frame, ch) \<Rightarrow> (Inr frame, ex\<lparr>ex_state := AcknowledgementPending\<rparr>, ch))"

definition exchange_complete_acknowledgement ::
  "sidecar_configuration_exchange \<Rightarrow> channel \<Rightarrow>
   (sidecar_configuration_error + unit) \<times> sidecar_configuration_exchange \<times> channel" where
  "exchange_complete_acknowledgement ex ch0 =
     (case ensure_channel ex ch0 of
        (Inl error, ch) \<Rightarrow> (Inl error, ex, ch)
      | (Inr _, ch) \<Rightarrow>
        if ex_role ex \<noteq> Runtime then exchange_fail ex ch RuntimeMustAcknowledge
        else if ch_retired ch then exchange_fail ex ch (CfgFrame ChannelRetired)
        else if ex_state ex \<noteq> AcknowledgementPending then exchange_fail ex ch CfgUnexpectedMessage
        else (Inr (), ex\<lparr>ex_state := CfgConfigured\<rparr>, ch))"

end
