(* ===== verification/ConfigurationExchange.thy ===== *)
theory ConfigurationExchange
  imports SidecarConfiguration
begin

text \<open>
  What the configuration exchange promises. Like the handshake it is a machine bound to one
  channel: the locale \<open>bound_exchange\<close> is interpreted for its operations. The invariant says that
  a side past the configuration holds a valid one with the manifest derived from it, whose
  status reports fit the payload limit it remembers.
\<close>

section \<open>Validation\<close>

text \<open>The names \<open>validate_names\<close> accepts, and its verdict.\<close>

definition name_ok :: "bool \<Rightarrow> string \<Rightarrow> bool" where
  "name_ok commands name \<longleftrightarrow> name \<noteq> [] \<and> length name \<le> 128 \<and> list_all name_char name \<and>
     \<not> (commands \<and> reserved name)"

lemma validate_names_from_ok:
  "validate_names_from unique names commands = Inr () \<longleftrightarrow>
   (\<forall>name \<in> set names. name_ok commands name) \<and> distinct names \<and> set names \<inter> unique = {}"
  by (induction unique names commands rule: validate_names_from.induct)
    (auto simp: name_ok_def reserved_def)

lemma validate_names_ok:
  "validate_names names commands = Inr () \<longleftrightarrow>
   (\<forall>name \<in> set names. name_ok commands name) \<and> distinct names"
  by (simp add: validate_names_def validate_names_from_ok)

text \<open>The configurations a selection admits.\<close>

definition limits_ok ::
  "(json \<Rightarrow> serialized) \<Rightarrow> sidecar_runtime_configuration \<Rightarrow> sidecar_limits \<Rightarrow> bool" where
  "limits_ok js c l \<longleftrightarrow>
     1 \<le> unat (cf_max_concurrency c) \<and> unat (cf_max_concurrency c) \<le> unat (max_in_flight l) \<and>
     1 \<le> unat (cf_max_input_bytes c) \<and> unat (cf_max_input_bytes c) \<le> unat (max_frame_bytes l) \<and>
     1 \<le> unat (cf_max_output_bytes c) \<and> minimum_bridge_failure_bytes js \<le> unat (cf_max_output_bytes c) \<and>
     unat (cf_max_output_bytes c) \<le> unat (max_frame_bytes l) \<and>
     unat (cf_result_grace_ms c) < unat (cf_default_timeout_ms c) \<and>
     unat (cf_default_timeout_ms c) \<le> unat (cf_max_timeout_ms c)"

definition configuration_ok ::
  "(json \<Rightarrow> serialized) \<Rightarrow> sidecar_runtime_configuration \<Rightarrow> sidecar_limits \<Rightarrow> bool" where
  "configuration_ok js c l \<longleftrightarrow>
     1 \<le> unat (cf_manifest_generation c) \<and> unat (cf_manifest_generation c) \<le> 2 ^ 53 - 1 \<and>
     limits_ok js c l \<and>
     (\<forall>name \<in> set (cf_capabilities c). name_ok False name) \<and> distinct (cf_capabilities c) \<and>
     (\<forall>command \<in> set (cf_commands c). name_ok True (command_name command)) \<and>
     distinct (map command_name (cf_commands c))"

lemma unat_pos: "1 \<le> unat (w :: 'a::len word) \<longleftrightarrow> w \<noteq> 0"
  by (metis One_nat_def Suc_le_eq unat_gt_0)

lemma validate_configuration_ok:
  "validate_configuration js c sel = Inr () \<longleftrightarrow> configuration_ok js c (sel_limits sel)"
proof -
  have timeouts: "\<not> (cf_default_timeout_ms c = 0 \<or> cf_max_timeout_ms c = 0 \<or>
      cf_default_timeout_ms c > cf_max_timeout_ms c \<or> cf_result_grace_ms c \<ge> cf_default_timeout_ms c) \<longleftrightarrow>
    cf_result_grace_ms c < cf_default_timeout_ms c \<and> cf_default_timeout_ms c \<le> cf_max_timeout_ms c"
    by (auto simp: not_less not_le word_le_nat_alt word_less_nat_alt)
  have gen: "cf_manifest_generation c > MAX_PORTABLE_JSON_INTEGER \<longleftrightarrow>
      unat (cf_manifest_generation c) > 2 ^ 53 - 1"
    by (simp add: word_less_nat_alt unat_max_portable)
  have names: "(case validate_names (cf_capabilities c) False of Inl e \<Rightarrow> Inl e
      | Inr _ \<Rightarrow> validate_names (map command_name (cf_commands c)) True) = Inr () \<longleftrightarrow>
    (\<forall>name \<in> set (cf_capabilities c). name_ok False name) \<and> distinct (cf_capabilities c) \<and>
    (\<forall>command \<in> set (cf_commands c). name_ok True (command_name command)) \<and>
    distinct (map command_name (cf_commands c))"
    using validate_names_ok [of "cf_capabilities c" False]
      validate_names_ok [of "map command_name (cf_commands c)" True]
    by (cases "validate_names (cf_capabilities c) False") auto
  show ?thesis
    unfolding validate_configuration_def configuration_ok_def limits_ok_def unat_pos names [symmetric]
    using timeouts gen by (auto simp: not_less not_le word_le_nat_alt word_less_nat_alt)
qed

text \<open>The largest status report there can be, and the verdict on it.\<close>

definition worst_status :: "string \<Rightarrow> u64 \<Rightarrow> sidecar_runtime_status" where
  "worst_status version gen =
     \<lparr>st_state = StateBackingOff, st_manifest_generation = gen, st_runtime_version = version,
      st_attempt = MAX_PORTABLE_JSON_INTEGER, st_reason = Some ReasonDeliverySaturated\<rparr>"

lemma status_budget_ok:
  "validate_status_budget ser version gen limit = Inr () \<longleftrightarrow>
   runtime_message_within_limit (runtime_ser ser (MsgStatus (worst_status version gen))) limit"
  by (simp add: validate_status_budget_def worst_status_def Let_def)

section \<open>The operations on the bound channel\<close>

definition failed_exchange :: "sidecar_configuration_exchange \<Rightarrow> sidecar_configuration_exchange" where
  "failed_exchange ex =
     ex\<lparr>ex_configuration := None, ex_expected_manifest := None, ex_max_payload_bytes := None,
        ex_state := CfgFailed\<rparr>"

lemma exchange_fail_eq: "exchange_fail ex ch e = (Inl e, failed_exchange ex, retire ch)"
  by (simp add: exchange_fail_def failed_exchange_def)

lemma failed_exchange_simps [simp]:
  "ex_role (failed_exchange ex) = ex_role ex" "ex_selection (failed_exchange ex) = ex_selection ex"
  "ex_channel_instance_id (failed_exchange ex) = ex_channel_instance_id ex"
  "ex_runtime_version (failed_exchange ex) = ex_runtime_version ex"
  "ex_state (failed_exchange ex) = CfgFailed" "ex_configuration (failed_exchange ex) = None"
  "ex_expected_manifest (failed_exchange ex) = None" "ex_max_payload_bytes (failed_exchange ex) = None"
  by (simp_all add: failed_exchange_def)

lemma store_configuration_simps [simp]:
  "ex_role (store_configuration c ch ex) = ex_role ex"
  "ex_selection (store_configuration c ch ex) = ex_selection ex"
  "ex_channel_instance_id (store_configuration c ch ex) = ex_channel_instance_id ex"
  "ex_runtime_version (store_configuration c ch ex) = ex_runtime_version ex"
  "ex_state (store_configuration c ch ex) = AwaitingAcknowledgement"
  "ex_configuration (store_configuration c ch ex) = Some c"
  "ex_expected_manifest (store_configuration c ch ex) = Some (manifest_from_configuration c)"
  "ex_max_payload_bytes (store_configuration c ch ex) = Some (max_payload_bytes ch)"
  by (simp_all add: store_configuration_def)

definition configures ::
  "(json \<Rightarrow> serialized) \<Rightarrow> (sidecar_runtime_message \<Rightarrow> serialized) \<Rightarrow> sidecar_runtime_configuration \<Rightarrow>
   nat \<Rightarrow> sidecar_configuration_exchange \<Rightarrow> bool" where
  "configures js ser c payload ex \<longleftrightarrow>
     validate_configuration js c (ex_selection ex) = Inr () \<and>
     validate_status_budget ser (ex_runtime_version ex) (cf_manifest_generation c) payload = Inr ()"

definition own_channel :: "sidecar_configuration_exchange \<Rightarrow> channel \<Rightarrow> bool" where
  "own_channel ex ch \<longleftrightarrow> ch_instance_id ch = ex_channel_instance_id ex"

lemma exchange_stray:
  "\<not> own_channel ex ch \<Longrightarrow> exchange_start hm js ser c ex ch = (Inl CfgChannelInstanceMismatch, ex, retire ch)"
  "\<not> own_channel ex ch \<Longrightarrow>
   exchange_receive hm js ser de frame ex ch = (Inl CfgChannelInstanceMismatch, ex, retire ch)"
  "\<not> own_channel ex ch \<Longrightarrow> exchange_acknowledge hm ser m ex ch = (Inl CfgChannelInstanceMismatch, ex, retire ch)"
  "\<not> own_channel ex ch \<Longrightarrow>
   exchange_complete_acknowledgement ex ch = (Inl CfgChannelInstanceMismatch, ex, retire ch)"
  by (simp_all add: own_channel_def exchange_start_def exchange_receive_def exchange_acknowledge_def
      exchange_complete_acknowledgement_def ensure_channel_def)

lemma max_payload_seal: "seal hm ser m ch = (Inr f, ch') \<Longrightarrow> max_payload_bytes ch' = max_payload_bytes ch"
  by (drule seal_Inr_state) (auto simp: max_payload_bytes_def)

lemma max_payload_lock [simp]: "max_payload_bytes (lock_frame_limit ch) = max_payload_bytes ch"
  by (simp add: max_payload_bytes_def)

lemma exchange_start_cases:
  assumes "own_channel ex ch" and "exchange_start hm js ser c ex ch = (r, ex', ch')"
  shows "(\<exists>e. r = Inl e) \<and> ex' = failed_exchange ex \<and> ch_retired ch' \<or>
    (\<exists>frame. r = Inr frame \<and> ex_role ex = Supervisor \<and> ch_role ch = Supervisor \<and>
      ex_state ex = CfgStarting \<and> configures js ser c (max_payload_bytes ch') ex \<and>
      seal hm (runtime_ser ser) (MsgConfigure c) (lock_frame_limit ch) = (Inr frame, ch') \<and>
      ex' = store_configuration c ch' ex)"
  using assms
  by (auto simp: exchange_start_def own_channel_def ensure_channel_def exchange_fail_eq Let_def configures_def
      max_payload_seal split: if_splits prod.splits sum.splits)

definition runtime_configured where
  "runtime_configured hm js ser de frame ex ch c ex' ch' \<longleftrightarrow>
     ex_role ex = Runtime \<and> ex_state ex = AwaitingConfiguration \<and>
     open_frame hm (runtime_de de) frame (lock_frame_limit ch) = (Inr (MsgConfigure c), ch') \<and>
     configures js ser c (max_payload_bytes ch') ex \<and> ex' = store_configuration c ch' ex"

definition supervisor_configured where
  "supervisor_configured hm de frame ex ch ex' ch' \<longleftrightarrow>
     (\<exists>manifest. ex_role ex = Supervisor \<and> ex_state ex = AwaitingAcknowledgement \<and>
     open_frame hm (runtime_de de) frame (lock_frame_limit ch) = (Inr (MsgConfigured manifest), ch') \<and>
     ex_expected_manifest ex = Some manifest \<and> ex' = ex\<lparr>ex_state := CfgConfigured\<rparr>)"

lemma exchange_receive_cases:
  assumes "own_channel ex ch" and "exchange_receive hm js ser de frame ex ch = (r, ex', ch')"
  shows "(\<exists>e. r = Inl e) \<and> ex' = failed_exchange ex \<and> ch_retired ch' \<or>
    ch_role ch = ex_role ex \<and>
    ((\<exists>c. r = Inr (Some c) \<and> runtime_configured hm js ser de frame ex ch c ex' ch') \<or>
     r = Inr None \<and> supervisor_configured hm de frame ex ch ex' ch')"
proof (cases "ch_role ch = ex_role ex")
  case False
  then show ?thesis using assms
    by (simp add: exchange_receive_def own_channel_def ensure_channel_def exchange_fail_eq) auto
next
  case role: True
  obtain r1 ch1 where o: "open_frame hm (runtime_de de) frame (lock_frame_limit ch) = (r1, ch1)"
    by (cases "open_frame hm (runtime_de de) frame (lock_frame_limit ch)")
  note unfold = exchange_receive_def own_channel_def ensure_channel_def exchange_fail_eq
  show ?thesis
  proof (cases r1)
    case (Inl e)
    then show ?thesis using assms role o by (auto simp: unfold)
  next
    case (Inr m)
    consider (configure) c where "ex_role ex = Runtime" "ex_state ex = AwaitingConfiguration" "m = MsgConfigure c"
      | (ack) x where "ex_role ex = Supervisor" "ex_state ex = AwaitingAcknowledgement" "m = MsgConfigured x"
      | (other) "exchange_receive hm js ser de frame ex ch = exchange_fail ex ch1 CfgUnexpectedMessage"
      using o Inr role assms(1)
      by (cases "ex_role ex"; cases "ex_state ex"; cases m) (auto simp: unfold)
    then show ?thesis
    proof cases
      case configure
      then show ?thesis using assms role o Inr
        by (auto simp: unfold runtime_configured_def configures_def split: sum.splits)
    next
      case ack
      then show ?thesis using assms role o Inr
        by (auto simp: unfold supervisor_configured_def split: if_splits)
    next
      case other
      then show ?thesis using assms by (auto simp: exchange_fail_eq)
    qed
  qed
qed

lemma exchange_acknowledge_cases:
  assumes "own_channel ex ch" and "exchange_acknowledge hm ser m ex ch = (r, ex', ch')"
  shows "(\<exists>e. r = Inl e) \<and> ex' = failed_exchange ex \<and> ch_retired ch' \<or>
    (\<exists>frame. r = Inr frame \<and> ex_role ex = Runtime \<and> ch_role ch = Runtime \<and>
      ex_state ex = AwaitingAcknowledgement \<and> ex_expected_manifest ex = Some m \<and>
      seal hm (runtime_ser ser) (MsgConfigured m) ch = (Inr frame, ch') \<and>
      ex' = ex\<lparr>ex_state := AcknowledgementPending\<rparr>)"
  using assms
  by (auto simp: exchange_acknowledge_def own_channel_def ensure_channel_def exchange_fail_eq
      split: if_splits prod.splits sum.splits)

lemma exchange_complete_cases:
  assumes "own_channel ex ch" and "exchange_complete_acknowledgement ex ch = (r, ex', ch')"
  shows "(\<exists>e. r = Inl e) \<and> ex' = failed_exchange ex \<and> ch_retired ch' \<or>
    r = Inr () \<and> ex_role ex = Runtime \<and> \<not> ch_retired ch \<and> ex_state ex = AcknowledgementPending \<and>
      ch' = ch \<and> ex' = ex\<lparr>ex_state := CfgConfigured\<rparr>"
  using assms
  by (auto simp: exchange_complete_acknowledgement_def own_channel_def ensure_channel_def exchange_fail_eq
      split: if_splits)

section \<open>The order of the states\<close>

fun configuration_rank :: "sidecar_configuration_state \<Rightarrow> nat" where
  "configuration_rank CfgStarting = 0"
| "configuration_rank AwaitingConfiguration = 1"
| "configuration_rank AwaitingAcknowledgement = 2"
| "configuration_rank AcknowledgementPending = 3"
| "configuration_rank CfgConfigured = 4"
| "configuration_rank CfgActivated = 5"
| "configuration_rank CfgFailed = 6"

lemma configuration_rank_inject: "configuration_rank s = configuration_rank t \<Longrightarrow> s = t"
  by (cases s; cases t) simp_all

instantiation sidecar_configuration_state :: linorder
begin

definition less_eq_sidecar_configuration_state where
  "(s :: sidecar_configuration_state) \<le> t \<longleftrightarrow> configuration_rank s \<le> configuration_rank t"

definition less_sidecar_configuration_state where
  "(s :: sidecar_configuration_state) < t \<longleftrightarrow> configuration_rank s < configuration_rank t"

instance
  by standard
    (auto simp: less_eq_sidecar_configuration_state_def less_sidecar_configuration_state_def
      intro: configuration_rank_inject)

end

lemma configuration_state_le_Failed [simp]: "(s :: sidecar_configuration_state) \<le> CfgFailed"
  by (cases s) (simp_all add: less_eq_sidecar_configuration_state_def)

section \<open>The contract\<close>

datatype exchange_op =
    ExStart sidecar_runtime_configuration
  | ExReceive bytes
  | ExAcknowledge sidecar_runtime_manifest
  | ExComplete

definition exchange_act ::
  "hmac \<Rightarrow> (json \<Rightarrow> serialized) \<Rightarrow> (sidecar_runtime_message \<Rightarrow> serialized) \<Rightarrow>
   (bytes \<Rightarrow> sidecar_runtime_message option) \<Rightarrow> exchange_op \<Rightarrow> sidecar_configuration_exchange \<Rightarrow> channel \<Rightarrow>
   bool \<times> sidecar_configuration_exchange \<times> channel" where
  "exchange_act hm js ser de op ex ch =
     (case op of
        ExStart c \<Rightarrow> apfst is_ok (exchange_start hm js ser c ex ch)
      | ExReceive frame \<Rightarrow> apfst is_ok (exchange_receive hm js ser de frame ex ch)
      | ExAcknowledge m \<Rightarrow> apfst is_ok (exchange_acknowledge hm ser m ex ch)
      | ExComplete \<Rightarrow> apfst is_ok (exchange_complete_acknowledgement ex ch))"

definition bound_channel :: "sidecar_configuration_exchange \<Rightarrow> u64 option" where
  "bound_channel ex = Some (ex_channel_instance_id ex)"

lemma may_use_bound [simp]: "may_use (bound_channel ex) ch \<longleftrightarrow> own_channel ex ch"
  by (auto simp: bound_channel_def own_channel_def)

lemma exchange_act_cases:
  assumes "exchange_act hm js ser de op ex ch = (ok, ex', ch')"
  obtains (start) c r where "op = ExStart c" "exchange_start hm js ser c ex ch = (r, ex', ch')" "ok = is_ok r"
    | (receive) frame r where "op = ExReceive frame"
        "exchange_receive hm js ser de frame ex ch = (r, ex', ch')" "ok = is_ok r"
    | (acknowledge) m r where "op = ExAcknowledge m"
        "exchange_acknowledge hm ser m ex ch = (r, ex', ch')" "ok = is_ok r"
    | (complete) r where "op = ExComplete"
        "exchange_complete_acknowledgement ex ch = (r, ex', ch')" "ok = is_ok r"
  using assms by (cases op) (auto simp: exchange_act_def apfst_def map_prod_def split: prod.splits)

text \<open>
  What one operation on the bound channel does: it fails the exchange, or stores a valid
  configuration, or advances past it; nothing else changes.
\<close>

definition same_binding :: "sidecar_configuration_exchange \<Rightarrow> sidecar_configuration_exchange \<Rightarrow> bool" where
  "same_binding ex ex' \<longleftrightarrow> ex_role ex' = ex_role ex \<and> ex_selection ex' = ex_selection ex \<and>
     ex_channel_instance_id ex' = ex_channel_instance_id ex \<and> ex_runtime_version ex' = ex_runtime_version ex"

lemma same_binding_trans: "same_binding a b \<Longrightarrow> same_binding b c \<Longrightarrow> same_binding a c"
  by (simp add: same_binding_def)

definition exchange_advance where
  "exchange_advance js ser ex ex' \<longleftrightarrow>
     (\<exists>c ch. (ex_role ex = Supervisor \<and> ex_state ex = CfgStarting \<or>
              ex_role ex = Runtime \<and> ex_state ex = AwaitingConfiguration) \<and>
        configures js ser c (max_payload_bytes ch) ex \<and> ex' = store_configuration c ch ex) \<or>
     ex_role ex = Supervisor \<and> ex_state ex = AwaitingAcknowledgement \<and> ex' = ex\<lparr>ex_state := CfgConfigured\<rparr> \<or>
     ex_role ex = Runtime \<and> ex_state ex = AwaitingAcknowledgement \<and>
       ex' = ex\<lparr>ex_state := AcknowledgementPending\<rparr> \<or>
     ex_role ex = Runtime \<and> ex_state ex = AcknowledgementPending \<and> ex' = ex\<lparr>ex_state := CfgConfigured\<rparr>"

lemma exchange_advanceI:
  "ex_role ex = Supervisor \<Longrightarrow> ex_state ex = CfgStarting \<Longrightarrow>
   configures js ser c (max_payload_bytes ch) ex \<Longrightarrow> exchange_advance js ser ex (store_configuration c ch ex)"
  "ex_role ex = Runtime \<Longrightarrow> ex_state ex = AwaitingConfiguration \<Longrightarrow>
   configures js ser c (max_payload_bytes ch) ex \<Longrightarrow> exchange_advance js ser ex (store_configuration c ch ex)"
  "ex_role ex = Supervisor \<Longrightarrow> ex_state ex = AwaitingAcknowledgement \<Longrightarrow>
   exchange_advance js ser ex (ex\<lparr>ex_state := CfgConfigured\<rparr>)"
  "ex_role ex = Runtime \<Longrightarrow> ex_state ex = AwaitingAcknowledgement \<Longrightarrow>
   exchange_advance js ser ex (ex\<lparr>ex_state := AcknowledgementPending\<rparr>)"
  "ex_role ex = Runtime \<Longrightarrow> ex_state ex = AcknowledgementPending \<Longrightarrow>
   exchange_advance js ser ex (ex\<lparr>ex_state := CfgConfigured\<rparr>)"
  unfolding exchange_advance_def by blast+

lemma exchange_act_outcome:
  assumes "own_channel ex ch" and "exchange_act hm js ser de op ex ch = (ok, ex', ch')"
  shows "\<not> ok \<and> ex' = failed_exchange ex \<and> ch_retired ch' \<or> ok \<and> exchange_advance js ser ex ex'"
  using assms(2)
proof (cases rule: exchange_act_cases)
  case (start c r)
  from exchange_start_cases [OF assms(1) start(2)] show ?thesis
    by (elim disjE exE conjE) (simp_all add: start(3) exchange_advanceI)
next
  case (receive frame r)
  from exchange_receive_cases [OF assms(1) receive(2)] show ?thesis
    by (elim disjE exE conjE)
      (auto simp: receive(3) runtime_configured_def supervisor_configured_def exchange_advanceI)
next
  case (acknowledge m r)
  from exchange_acknowledge_cases [OF assms(1) acknowledge(2)] show ?thesis
    by (elim disjE exE conjE) (simp_all add: acknowledge(3) exchange_advanceI)
next
  case (complete r)
  from exchange_complete_cases [OF assms(1) complete(2)] show ?thesis
    by (elim disjE exE conjE) (simp_all add: complete(3) exchange_advanceI)
qed

lemma exchange_act_stray:
  "\<not> own_channel ex ch \<Longrightarrow> exchange_act hm js ser de op ex ch = (False, ex, retire ch)"
  by (cases op) (simp_all add: exchange_act_def exchange_stray)

lemma exchange_advance_state:
  "exchange_advance js ser ex ex' \<Longrightarrow> ex_state ex < ex_state ex' \<and> ex_state ex' < CfgFailed \<and> same_binding ex ex'"
  by (auto simp: exchange_advance_def less_sidecar_configuration_state_def same_binding_def)

lemma failed_binding [simp]: "same_binding ex (failed_exchange ex)"
  by (simp add: same_binding_def)

interpretation exchange: bound_exchange "exchange_act hm js ser de" bound_channel ex_state CfgFailed
  for hm js ser de
proof
  fix op ex ch ok ex' ch'
  show "exchange_act hm js ser de op ex ch = (False, ex, retire ch)" if "\<not> may_use (bound_channel ex) ch"
    using that by (simp add: exchange_act_stray)
  show "bound_channel ex' = Some (ch_instance_id ch)"
    if "may_use (bound_channel ex) ch" "exchange_act hm js ser de op ex ch = (ok, ex', ch')"
    using that exchange_act_outcome [of ex ch hm js ser de op ok ex' ch'] exchange_advance_state [of js ser ex ex']
    by (auto simp: bound_channel_def own_channel_def same_binding_def)
  show "ex_state ex' = CfgFailed \<and> ch_retired ch'"
    if "may_use (bound_channel ex) ch" "exchange_act hm js ser de op ex ch = (False, ex', ch')"
    using that exchange_act_outcome [of ex ch hm js ser de op False ex' ch'] by auto
  show "ex_state ex \<le> ex_state ex'" if a: "exchange_act hm js ser de op ex ch = (ok, ex', ch')"
    using exchange_act_outcome [OF _ a] exchange_act_stray [of ex ch hm js ser de op] a
      exchange_advance_state [of js ser ex ex']
    by (cases "own_channel ex ch") auto
  show "\<not> ok" if "ex_state ex = CfgFailed" and a: "exchange_act hm js ser de op ex ch = (ok, ex', ch')"
    using that exchange_act_outcome [OF _ a] exchange_act_stray [of ex ch hm js ser de op]
    by (cases "own_channel ex ch") (auto simp: exchange_advance_def)
  show "ex_state ex \<le> CfgFailed" by simp
qed

section \<open>Invariant\<close>

definition holds_configuration :: "sidecar_configuration_state \<Rightarrow> bool" where
  "holds_configuration st \<longleftrightarrow> AwaitingAcknowledgement \<le> st \<and> st < CfgFailed"

lemma holds_configuration_simps [simp]:
  "\<not> holds_configuration CfgStarting" "\<not> holds_configuration AwaitingConfiguration"
  "holds_configuration AwaitingAcknowledgement" "holds_configuration AcknowledgementPending"
  "holds_configuration CfgConfigured" "holds_configuration CfgActivated" "\<not> holds_configuration CfgFailed"
  by (simp_all add: holds_configuration_def less_eq_sidecar_configuration_state_def
      less_sidecar_configuration_state_def)

definition role_states :: "sidecar_peer_role \<Rightarrow> sidecar_configuration_state set" where
  "role_states role = (case role of
     Supervisor \<Rightarrow> {CfgStarting, AwaitingAcknowledgement, CfgConfigured, CfgFailed}
   | Runtime \<Rightarrow> {AwaitingConfiguration, AwaitingAcknowledgement, AcknowledgementPending, CfgConfigured,
       CfgActivated, CfgFailed})"

definition exchange_invar ::
  "(json \<Rightarrow> serialized) \<Rightarrow> (sidecar_runtime_message \<Rightarrow> serialized) \<Rightarrow> sidecar_configuration_exchange \<Rightarrow> bool" where
  "exchange_invar js ser ex \<longleftrightarrow> ex_state ex \<in> role_states (ex_role ex) \<and>
     (if holds_configuration (ex_state ex)
      then \<exists>c payload. ex_configuration ex = Some c \<and>
        ex_expected_manifest ex = Some (manifest_from_configuration c) \<and>
        ex_max_payload_bytes ex = Some payload \<and> configures js ser c payload ex
      else ex_configuration ex = None \<and> ex_expected_manifest ex = None \<and> ex_max_payload_bytes ex = None)"

lemma configures_frame [simp]:
  "configures js ser c payload (store_configuration d ch ex) = configures js ser c payload ex"
  "configures js ser c payload (ex\<lparr>ex_state := st\<rparr>) = configures js ser c payload ex"
  by (simp_all add: configures_def)

lemma exchange_advance_invar:
  "exchange_advance js ser ex ex' \<Longrightarrow> exchange_invar js ser ex \<Longrightarrow> exchange_invar js ser ex'"
  by (auto simp: exchange_advance_def exchange_invar_def holds_configuration_def role_states_def
      less_eq_sidecar_configuration_state_def less_sidecar_configuration_state_def)

lemma failed_exchange_invar [simp]: "exchange_invar js ser (failed_exchange ex)"
  by (cases "ex_role ex") (simp_all add: exchange_invar_def holds_configuration_def role_states_def)

lemma exchange_act_invar:
  assumes "exchange_act hm js ser de op ex ch = (ok, ex', ch')" and "exchange_invar js ser ex"
  shows "exchange_invar js ser ex'"
  using exchange_act_outcome [OF _ assms(1)] exchange_act_stray [of ex ch hm js ser de op] assms
    exchange_advance_invar [of js ser ex ex']
  by (cases "own_channel ex ch") auto

lemma exchange_act_binding:
  assumes "exchange_act hm js ser de op ex ch = (ok, ex', ch')"
  shows "same_binding ex ex'"
  using exchange_act_outcome [OF _ assms] exchange_act_stray [of ex ch hm js ser de op] assms
    exchange_advance_state [of js ser ex ex']
  by (cases "own_channel ex ch") (auto simp: same_binding_def)

lemma exchange_new_cases:
  "exchange_new hs = Inr ex \<longleftrightarrow>
   (\<exists>n i. hs_state hs = Authenticated \<and> hs_negotiated hs = Some n \<and> hs_channel_instance_id hs = Some i \<and>
     ex = \<lparr>ex_role = local_role hs, ex_channel_instance_id = i, ex_selection = selection_from n,
       ex_runtime_version = peer_version (case local_role hs of
         Runtime \<Rightarrow> offer_peer (hs_local_offer hs) | Supervisor \<Rightarrow> neg_remote_peer n),
       ex_state = (case local_role hs of Supervisor \<Rightarrow> CfgStarting | Runtime \<Rightarrow> AwaitingConfiguration),
       ex_configuration = None, ex_expected_manifest = None, ex_max_payload_bytes = None\<rparr>)"
  by (cases "local_role hs") (auto simp: exchange_new_def Let_def split: option.splits)

lemma exchange_new_invar: "exchange_new hs = Inr ex \<Longrightarrow> exchange_invar js ser ex"
  by (cases "local_role hs")
    (auto simp: exchange_new_cases exchange_invar_def holds_configuration_def role_states_def
      less_eq_sidecar_configuration_state_def)

lemma exchange_run_invar:
  "(acts_step (exchange_act hm js ser de))\<^sup>*\<^sup>* ex ex' \<Longrightarrow> exchange_invar js ser ex \<Longrightarrow>
   exchange_invar js ser ex' \<and> same_binding ex ex'"
  by (induction rule: rtranclp_induct)
    (auto elim!: acts_stepE dest: exchange_act_invar exchange_act_binding intro: same_binding_trans
      simp: same_binding_def)

section \<open>Two peers\<close>

lemma lock_simps [simp]:
  "ch_instance_id (lock_frame_limit ch) = ch_instance_id ch" "ch_role (lock_frame_limit ch) = ch_role ch"
  "ch_send_sequence (lock_frame_limit ch) = ch_send_sequence ch"
  "ch_receive_sequence (lock_frame_limit ch) = ch_receive_sequence ch"
  "ch_retired (lock_frame_limit ch) = ch_retired ch"
  "fits ser (lock_frame_limit ch) m = fits ser ch m"
  by (simp_all add: lock_frame_limit_def fits_def max_payload_bytes_def)

lemma linked_lock: "linked (lock_frame_limit a) b = linked a b" "linked a (lock_frame_limit b) = linked a b"
  unfolding linked_def lock_frame_limit_def by simp_all

lemma paired_lock: "paired a b \<Longrightarrow> paired (lock_frame_limit a) b"
  unfolding paired_def linked_lock using lock_invar by blast

lemma paired_lock_right: "paired a b \<Longrightarrow> paired a (lock_frame_limit b)"
  by (meson paired_lock paired_sym)

lemma paired_payload:
  assumes "paired a b" shows "max_payload_bytes b = max_payload_bytes a"
proof -
  have "unat (ch_max_frame_bytes a) = unat (ch_max_frame_bytes b)" "ch_session_id a = ch_session_id b"
    using assms unfolding paired_def linked_def by linarith+
  then show ?thesis by (simp add: max_payload_bytes_def)
qed

text \<open>Portable messages pass the field serializers as the derived codec handles them.\<close>

lemma portable_codec:
  assumes "message_portable m"
  shows "fits (runtime_ser ser) ch m = fits ser ch m"
    and "reads_back ser de m \<Longrightarrow> reads_back (runtime_ser ser) (runtime_de de) m"
  using assms by (simp_all add: fits_def reads_back_def runtime_ser_def runtime_de_def)

lemma configuration_portable:
  assumes "configuration_ok js c l"
  shows "message_portable (MsgConfigure c)" and "message_portable (MsgConfigured (manifest_from_configuration c))"
  using assms
  by (simp_all add: configuration_ok_def manifest_from_configuration_def portable_u64_def word_le_nat_alt
      unat_max_portable)

text \<open>When each operation succeeds, and with what.\<close>

lemma exchange_start_succeeds:
  assumes "own_channel ex ch" and "ex_role ex = Supervisor" and "ch_role ch = Supervisor"
    and "ex_state ex = CfgStarting" and "configures js ser c (max_payload_bytes ch) ex"
    and "seal hm (runtime_ser ser) (MsgConfigure c) (lock_frame_limit ch) = (Inr frame, ch')"
  shows "exchange_start hm js ser c ex ch = (Inr frame, store_configuration c ch' ex, ch')"
  using assms by (simp add: exchange_start_def own_channel_def ensure_channel_def configures_def Let_def)

lemma exchange_receive_configures:
  assumes "own_channel ex ch" and "ex_role ex = Runtime" and "ch_role ch = Runtime"
    and "ex_state ex = AwaitingConfiguration"
    and "open_frame hm (runtime_de de) frame (lock_frame_limit ch) = (Inr (MsgConfigure c), ch')"
    and "configures js ser c (max_payload_bytes ch') ex"
  shows "exchange_receive hm js ser de frame ex ch = (Inr (Some c), store_configuration c ch' ex, ch')"
  using assms by (simp add: exchange_receive_def own_channel_def ensure_channel_def configures_def)

lemma exchange_receive_confirms:
  assumes "own_channel ex ch" and "ex_role ex = Supervisor" and "ch_role ch = Supervisor"
    and "ex_state ex = AwaitingAcknowledgement"
    and "open_frame hm (runtime_de de) frame (lock_frame_limit ch) = (Inr (MsgConfigured m), ch')"
    and "ex_expected_manifest ex = Some m"
  shows "exchange_receive hm js ser de frame ex ch = (Inr None, ex\<lparr>ex_state := CfgConfigured\<rparr>, ch')"
  using assms by (simp add: exchange_receive_def own_channel_def ensure_channel_def)

lemma exchange_acknowledge_succeeds:
  assumes "own_channel ex ch" and "ex_role ex = Runtime" and "ch_role ch = Runtime"
    and "ex_state ex = AwaitingAcknowledgement" and "ex_expected_manifest ex = Some m"
    and "seal hm (runtime_ser ser) (MsgConfigured m) ch = (Inr frame, ch')"
  shows "exchange_acknowledge hm ser m ex ch = (Inr frame, ex\<lparr>ex_state := AcknowledgementPending\<rparr>, ch')"
  using assms by (simp add: exchange_acknowledge_def own_channel_def ensure_channel_def)

lemma exchange_complete_succeeds:
  assumes "own_channel ex ch" and "ex_role ex = Runtime" and "\<not> ch_retired ch"
    and "ex_state ex = AcknowledgementPending"
  shows "exchange_complete_acknowledgement ex ch = (Inr (), ex\<lparr>ex_state := CfgConfigured\<rparr>, ch)"
  using assms by (simp add: exchange_complete_acknowledgement_def own_channel_def ensure_channel_def)

text \<open>The two frames of an exchange.\<close>

lemma exchange_frames:
  assumes p: "paired a b" and hm: "hmac_total hm"
    and fresh: "ch_send_sequence a \<noteq> - 1" "ch_send_sequence b \<noteq> - 1"
    and m1: "reads_back ser de m1" "fits ser a m1" and m2: "reads_back ser de m2" "fits ser b m2"
  shows "\<exists>f1 a1 b1 f2 b2 a2.
    seal hm ser m1 (lock_frame_limit a) = (Inr f1, a1) \<and>
    open_frame hm de f1 (lock_frame_limit b) = (Inr m1, b1) \<and>
    seal hm ser m2 b1 = (Inr f2, b2) \<and> open_frame hm de f2 (lock_frame_limit a1) = (Inr m2, a2) \<and>
    paired a2 b2 \<and> same_channel (lock_frame_limit a) a1 \<and> same_channel (lock_frame_limit b) b1 \<and>
    same_channel b1 b2"
proof -
  have p0: "paired (lock_frame_limit a) (lock_frame_limit b)"
    using p paired_lock paired_lock_right by blast
  obtain f1 a1 b1 where t1: "seal hm ser m1 (lock_frame_limit a) = (Inr f1, a1)"
      "open_frame hm de f1 (lock_frame_limit b) = (Inr m1, b1)" "paired a1 b1"
      "same_channel (lock_frame_limit a) a1" "same_channel (lock_frame_limit b) b1"
      "ch_send_sequence b1 = ch_send_sequence (lock_frame_limit b)"
    by (rule paired_transfer [OF p0 hm m1(1)]) (use m1(2) fresh(1) in simp_all)
  have ready: "paired b1 (lock_frame_limit a1)" "fits ser b1 m2" "ch_send_sequence b1 \<noteq> - 1"
    using paired_lock_right [OF paired_sym [OF t1(3)]] m2(2) fresh(2) t1(6)
    by (simp_all add: same_channel_fits [OF t1(5)])
  obtain f2 b2 a2 where t2: "seal hm ser m2 b1 = (Inr f2, b2)"
      "open_frame hm de f2 (lock_frame_limit a1) = (Inr m2, a2)" "paired b2 a2" "same_channel b1 b2"
    by (rule paired_transfer [OF ready(1) hm m2(1) ready(2,3)])
  show ?thesis using t1 t2 paired_sym [OF t2(3)] by blast
qed

section \<open>Properties\<close>

text \<open>
  C2. The configuration exchange succeeds: two authenticated peers with one selection, on the two
  ends of a connection, and a configuration that the selection admits and whose status reports,
  configure and configured messages fit the payload limit: supervisor and runtime complete the
  exchange in two frames. The runtime returns exactly the configuration that was sent, both are
  configured with the one manifest derived from it and with the same runtime version, and the
  channels are ready for traffic in both directions.
\<close>

lemma configuration_exchange_succeeds:
  assumes new: "exchange_new hs = Inr s" "exchange_new hr = Inr r"
    and roles: "local_role hs = Supervisor" "local_role hr = Runtime"
    and neg: "hs_negotiated hs = Some n" "hs_negotiated hr = Some m" "selection_from n = selection_from m"
      "neg_remote_peer n = offer_peer (hs_local_offer hr)"
    and bound: "hs_channel_instance_id hs = Some (ch_instance_id a)"
      "hs_channel_instance_id hr = Some (ch_instance_id b)"
    and ch: "paired a b" "ch_role a = Supervisor" "ch_send_sequence a \<noteq> - 1" "ch_send_sequence b \<noteq> - 1"
    and hm: "hmac_total hm"
    and ok: "configuration_ok js c (neg_limits n)"
    and status: "runtime_message_within_limit (runtime_ser ser (MsgStatus (worst_status
        (peer_version (offer_peer (hs_local_offer hr))) (cf_manifest_generation c)))) (max_payload_bytes a)"
    and m1: "reads_back ser de (MsgConfigure c)" "fits ser a (MsgConfigure c)"
    and m2: "reads_back ser de (MsgConfigured (manifest_from_configuration c))"
      "fits ser b (MsgConfigured (manifest_from_configuration c))"
  shows "\<exists>f1 s1 a1 r1 b1 f2 r2 b2 s2 a2 r3.
    exchange_start hm js ser c s a = (Inr f1, s1, a1) \<and>
    exchange_receive hm js ser de f1 r b = (Inr (Some c), r1, b1) \<and>
    exchange_acknowledge hm ser (manifest_from_configuration c) r1 b1 = (Inr f2, r2, b2) \<and>
    exchange_receive hm js ser de f2 s1 a1 = (Inr None, s2, a2) \<and>
    exchange_complete_acknowledgement r2 b2 = (Inr (), r3, b2) \<and>
    ex_state s2 = CfgConfigured \<and> ex_state r3 = CfgConfigured \<and>
    ex_expected_manifest s2 = Some (manifest_from_configuration c) \<and>
    ex_expected_manifest r3 = Some (manifest_from_configuration c) \<and>
    ex_configuration r3 = Some c \<and> ex_runtime_version s2 = ex_runtime_version r3 \<and> paired a2 b2"
proof -
  note port = configuration_portable [OF ok]
  have rb: "ch_role b = Runtime" using ch(1,2) by (simp add: paired_def linked_def)
  have s: "s = \<lparr>ex_role = Supervisor, ex_channel_instance_id = ch_instance_id a,
      ex_selection = selection_from n, ex_runtime_version = peer_version (offer_peer (hs_local_offer hr)),
      ex_state = CfgStarting, ex_configuration = None, ex_expected_manifest = None, ex_max_payload_bytes = None\<rparr>"
    and r: "r = \<lparr>ex_role = Runtime, ex_channel_instance_id = ch_instance_id b,
      ex_selection = selection_from n, ex_runtime_version = peer_version (offer_peer (hs_local_offer hr)),
      ex_state = AwaitingConfiguration, ex_configuration = None, ex_expected_manifest = None,
      ex_max_payload_bytes = None\<rparr>"
    using new by (simp_all add: exchange_new_cases roles neg bound)
  from exchange_frames [OF ch(1) hm ch(3,4) portable_codec(2) [OF port(1) m1(1)] _
      portable_codec(2) [OF port(2) m2(1)]] m1(2) m2(2) portable_codec(1) [OF port(1), of ser]
      portable_codec(1) [OF port(2), of ser]
  obtain f1 a1 b1 f2 b2 a2 where
      t: "seal hm (runtime_ser ser) (MsgConfigure c) (lock_frame_limit a) = (Inr f1, a1)"
        "open_frame hm (runtime_de de) f1 (lock_frame_limit b) = (Inr (MsgConfigure c), b1)"
        "seal hm (runtime_ser ser) (MsgConfigured (manifest_from_configuration c)) b1 = (Inr f2, b2)"
        "open_frame hm (runtime_de de) f2 (lock_frame_limit a1)
          = (Inr (MsgConfigured (manifest_from_configuration c)), a2)"
      and p: "paired a2 b2"
      and same: "same_channel (lock_frame_limit a) a1" "same_channel (lock_frame_limit b) b1" "same_channel b1 b2"
    by blast
  have pay: "max_payload_bytes b1 = max_payload_bytes a"
    using same_channel_simps [OF same(2)] paired_payload [OF ch(1)]
    by (simp add: max_payload_bytes_def lock_frame_limit_def)
  have lim: "sel_limits (selection_from n) = neg_limits n" by (simp add: selection_from_def)
  have cfg: "configures js ser c (max_payload_bytes a) s" "configures js ser c (max_payload_bytes b1) r"
    unfolding configures_def status_budget_ok validate_configuration_ok using ok status
    by (simp_all add: s r pay lim)
  note id = same_channel_simps [OF same(1)] same_channel_simps [OF same(2)] same_channel_simps [OF same(3)]
  define s1 where "s1 = store_configuration c a1 s"
  define r1 where "r1 = store_configuration c b1 r"
  have e1: "exchange_start hm js ser c s a = (Inr f1, s1, a1)"
    unfolding s1_def by (rule exchange_start_succeeds [OF _ _ _ _ cfg(1) t(1)])
      (simp_all add: s own_channel_def ch(2))
  have e2: "exchange_receive hm js ser de f1 r b = (Inr (Some c), r1, b1)"
    unfolding r1_def by (rule exchange_receive_configures [OF _ _ _ _ t(2) cfg(2)])
      (simp_all add: r own_channel_def rb)
  have e3: "exchange_acknowledge hm ser (manifest_from_configuration c) r1 b1
      = (Inr f2, r1\<lparr>ex_state := AcknowledgementPending\<rparr>, b2)"
    by (rule exchange_acknowledge_succeeds [OF _ _ _ _ _ t(3)])
      (use id rb in \<open>simp_all add: r1_def r own_channel_def\<close>)
  have e4: "exchange_receive hm js ser de f2 s1 a1 = (Inr None, s1\<lparr>ex_state := CfgConfigured\<rparr>, a2)"
    by (rule exchange_receive_confirms [OF _ _ _ _ t(4)])
      (use id ch(2) in \<open>simp_all add: s1_def s own_channel_def\<close>)
  have e5: "exchange_complete_acknowledgement (r1\<lparr>ex_state := AcknowledgementPending\<rparr>) b2
      = (Inr (), r1\<lparr>ex_state := CfgConfigured\<rparr>, b2)"
    using exchange_complete_succeeds [of "r1\<lparr>ex_state := AcknowledgementPending\<rparr>" b2] id paired_live [OF p]
    by (simp add: r1_def r own_channel_def)
  have fin: "ex_expected_manifest s1 = Some (manifest_from_configuration c)"
      "ex_expected_manifest r1 = Some (manifest_from_configuration c)" "ex_configuration r1 = Some c"
      "ex_runtime_version s1 = ex_runtime_version r1"
    by (simp_all add: s1_def r1_def s r)
  show ?thesis by (intro exI conjI) (rule e1 e2 e3 e4 e5 p | simp add: fin)+
qed

subsection \<open>Inputs of the witnesses\<close>

definition demo_js :: "json \<Rightarrow> serialized" where
  "demo_js j = \<lparr>chunks = [replicate 60 0], refused = False\<rparr>"

definition demo_config :: sidecar_runtime_configuration where
  "demo_config = \<lparr>cf_manifest_generation = 1, cf_capabilities = [''cam''],
     cf_commands = [\<lparr>command_name = ''b.x''\<rparr>, \<lparr>command_name = ''a''\<rparr>], cf_max_concurrency = 2,
     cf_max_input_bytes = 50, cf_max_output_bytes = 80, cf_default_timeout_ms = 10,
     cf_max_timeout_ms = 20, cf_result_grace_ms = 3\<rparr>"

definition demo_manifest :: sidecar_runtime_manifest where
  "demo_manifest = \<lparr>mf_manifest_generation = 1, mf_capabilities = [''cam''], mf_commands = [''a'', ''b.x'']\<rparr>"

definition demo_rt_ser :: "sidecar_runtime_message \<Rightarrow> serialized" where
  "demo_rt_ser m = \<lparr>chunks = [case m of MsgConfigure _ \<Rightarrow> [1] | _ \<Rightarrow> [2, 3]], refused = False\<rparr>"

definition demo_rt_de :: "bytes \<Rightarrow> sidecar_runtime_message option" where
  "demo_rt_de bs = (if bs = [1] then Some (MsgConfigure demo_config) else Some (MsgConfigured demo_manifest))"

definition demo_authenticated :: "sidecar_peer_role \<Rightarrow> sidecar_handshake" where
  "demo_authenticated role = (demo_handshake role 128)\<lparr>hs_state := Authenticated,
     hs_negotiated := Some (demo_negotiated role 128 128), hs_channel_instance_id := Some 1\<rparr>"

definition demo_exchange :: "sidecar_peer_role \<Rightarrow> sidecar_configuration_exchange" where
  "demo_exchange role = \<lparr>ex_role = role, ex_channel_instance_id = 1,
     ex_selection = selection_from (demo_negotiated role 128 128), ex_runtime_version = ''1'',
     ex_state = (case role of Supervisor \<Rightarrow> CfgStarting | Runtime \<Rightarrow> AwaitingConfiguration),
     ex_configuration = None, ex_expected_manifest = None, ex_max_payload_bytes = None\<rparr>"

lemma demo_manifest_from: "manifest_from_configuration demo_config = demo_manifest"
  by (simp add: manifest_from_configuration_def demo_config_def demo_manifest_def sorted_strings_def
      less_eq_char_def insort_insert_key_def)

lemma demo_config_ok: "configuration_ok demo_js demo_config (neg_limits (demo_negotiated role 128 128))"
  by (simp add: configuration_ok_def limits_ok_def demo_config_def demo_negotiated_def name_ok_def name_char_def
      is_ascii_alphanumeric_def char_code_def reserved_def starts_with_def minimum_bridge_failure_bytes_def
      demo_js_def Let_def)

lemma demo_exchange_new: "exchange_new (demo_authenticated role) = Inr (demo_exchange role)"
  by (cases role) (simp_all add: exchange_new_def demo_authenticated_def demo_handshake_def demo_exchange_def
      local_role_def demo_offer_def demo_negotiated_def)

lemma configuration_exchange_succeeds_witness:
  "\<exists>f1 s1 a1 r1 b1 f2 r2 b2 s2 a2 r3.
    exchange_start demo_hm demo_js demo_rt_ser demo_config (demo_exchange Supervisor) (demo_channel Supervisor)
      = (Inr f1, s1, a1) \<and>
    exchange_receive demo_hm demo_js demo_rt_ser demo_rt_de f1 (demo_exchange Runtime) (demo_channel Runtime)
      = (Inr (Some demo_config), r1, b1) \<and>
    exchange_acknowledge demo_hm demo_rt_ser demo_manifest r1 b1 = (Inr f2, r2, b2) \<and>
    exchange_receive demo_hm demo_js demo_rt_ser demo_rt_de f2 s1 a1 = (Inr None, s2, a2) \<and>
    exchange_complete_acknowledgement r2 b2 = (Inr (), r3, b2) \<and> ex_state r3 = CfgConfigured"
proof -
  have roles: "local_role (demo_authenticated role) = role" for role
    by (simp add: demo_authenticated_def demo_handshake_def local_role_def demo_offer_def)
  have neg: "hs_negotiated (demo_authenticated role) = Some (demo_negotiated role 128 128)"
      "hs_channel_instance_id (demo_authenticated role) = Some (ch_instance_id (demo_channel role'))"
    for role role' by (simp_all add: demo_authenticated_def demo_channel_def)
  have sel: "selection_from (demo_negotiated Supervisor 128 128) = selection_from (demo_negotiated Runtime 128 128)"
      "neg_remote_peer (demo_negotiated Supervisor 128 128)
        = offer_peer (hs_local_offer (demo_authenticated Runtime))"
    by (simp_all add: selection_from_def demo_negotiated_def demo_authenticated_def demo_handshake_def demo_offer_def)
  have "paired (demo_channel Supervisor) (demo_channel Runtime)"
    by (simp add: paired_def) (simp add: linked_def demo_channel_def)
  then have ch: "paired (demo_channel Supervisor) (demo_channel Runtime)" "ch_role (demo_channel Supervisor) = Supervisor"
    "ch_send_sequence (demo_channel Supervisor) \<noteq> - 1" "ch_send_sequence (demo_channel Runtime) \<noteq> - 1"
    by (simp_all add: demo_channel_def)
  have pay: "max_payload_bytes (demo_channel role) = 64" for role
    by (simp add: max_payload_bytes_def demo_channel_def)
  have status: "runtime_message_within_limit (runtime_ser demo_rt_ser (MsgStatus (worst_status
      (peer_version (offer_peer (hs_local_offer (demo_authenticated Runtime)))) (cf_manifest_generation demo_config))))
      (max_payload_bytes (demo_channel Supervisor))"
    by (simp add: runtime_message_within_limit_iff runtime_ser_def demo_rt_ser_def pay worst_status_def
        portable_u64_def demo_config_def) (simp add: MAX_PORTABLE_JSON_INTEGER_def SIDECAR_MAX_FEATURE_BITS_def)
  have codec: "reads_back demo_rt_ser demo_rt_de (MsgConfigure demo_config)"
      "fits demo_rt_ser (demo_channel Supervisor) (MsgConfigure demo_config)"
      "reads_back demo_rt_ser demo_rt_de (MsgConfigured (manifest_from_configuration demo_config))"
      "fits demo_rt_ser (demo_channel Runtime) (MsgConfigured (manifest_from_configuration demo_config))"
    by (simp_all add: reads_back_def demo_rt_ser_def demo_rt_de_def demo_manifest_from fits_def pay)
  from configuration_exchange_succeeds [OF demo_exchange_new demo_exchange_new roles roles neg(1) neg(1) sel
      neg(2) neg(2) ch demo_hm_total demo_config_ok status codec]
  show ?thesis unfolding demo_manifest_from by blast
qed

text \<open>
  C7. What a configuration state means: from \<open>exchange_new\<close> on, through any sequence of operations
  on any channels, a side holds a configuration exactly from its validation to a failure; what it
  holds passed validation against its own selection, the manifest is the one derived from it, and
  the largest status report fits the payload limit it remembers. Its role, selection, channel and
  runtime version never change and its state only advances.
\<close>

lemma configuration_state_meaning:
  assumes "exchange_new hs = Inr ex" and "(acts_step (exchange_act hm js ser de))\<^sup>*\<^sup>* ex ex1"
    and "(acts_step (exchange_act hm js ser de))\<^sup>*\<^sup>* ex1 ex2"
  shows "(case ex_configuration ex1 of
      Some c \<Rightarrow> AwaitingAcknowledgement \<le> ex_state ex1 \<and> ex_state ex1 < CfgFailed \<and>
        configuration_ok js c (sel_limits (ex_selection ex)) \<and>
        ex_expected_manifest ex1 = Some (manifest_from_configuration c) \<and>
        (\<exists>limit. ex_max_payload_bytes ex1 = Some limit \<and> runtime_message_within_limit (runtime_ser ser
          (MsgStatus (worst_status (ex_runtime_version ex) (cf_manifest_generation c)))) limit)
    | None \<Rightarrow> ex_state ex1 \<in> {CfgStarting, AwaitingConfiguration, CfgFailed} \<and>
        ex_expected_manifest ex1 = None \<and> ex_max_payload_bytes ex1 = None) \<and>
    same_binding ex ex1 \<and> ex_state ex1 \<le> ex_state ex2"
proof -
  have i: "exchange_invar js ser ex1" "same_binding ex ex1"
    using exchange_run_invar [OF assms(2) exchange_new_invar [OF assms(1)]] by simp_all
  have unheld: "\<not> holds_configuration st \<Longrightarrow> st \<in> {CfgStarting, AwaitingConfiguration, CfgFailed}" for st
    by (cases st) (simp_all add: holds_configuration_def less_eq_sidecar_configuration_state_def
        less_sidecar_configuration_state_def)
  have "case ex_configuration ex1 of
      Some c \<Rightarrow> holds_configuration (ex_state ex1) \<and> configures js ser c (the (ex_max_payload_bytes ex1)) ex \<and>
        ex_expected_manifest ex1 = Some (manifest_from_configuration c) \<and> ex_max_payload_bytes ex1 \<noteq> None
    | None \<Rightarrow> \<not> holds_configuration (ex_state ex1) \<and>
        ex_expected_manifest ex1 = None \<and> ex_max_payload_bytes ex1 = None"
    using i by (auto simp: exchange_invar_def configures_def same_binding_def split: if_splits)
  then show ?thesis
    using i(2) exchange.run_phase [OF assms(3)] unheld [of "ex_state ex1"]
    by (auto simp: configures_def validate_configuration_ok status_budget_ok holds_configuration_def
        split: option.splits)
qed

text \<open>
  A refused configuration ends the exchange: when an operation on the bound channel returns an
  error, the channel is retired and nothing of the configuration is kept; afterwards every
  operation, on this or any other channel and after any further operations, returns an error and
  retires the channel it was given. A channel other than the bound one is retired without touching
  the exchange.
\<close>

lemma configuration_refusal_terminal:
  assumes "exchange_act hm js ser de op ex ch = (False, ex1, ch1)"
    and "(acts_step (exchange_act hm js ser de))\<^sup>*\<^sup>* ex1 ex2"
    and "exchange_act hm js ser de op' ex2 ch2 = (ok, ex3, ch3)"
  shows "ch_retired ch1 \<and>
    (if ch_instance_id ch = ex_channel_instance_id ex
     then ex1 = failed_exchange ex \<and> \<not> ok \<and> ex_state ex3 = CfgFailed \<and> ch_retired ch3
     else ex1 = ex)"
proof (cases "own_channel ex ch")
  case True
  then have u: "may_use (bound_channel ex) ch" by simp
  show ?thesis
    using exchange.refusal_ends_run [OF u assms] exchange_act_outcome [OF True assms(1)] True
    by (simp add: own_channel_def)
next
  case False
  then show ?thesis using exchange_act_stray [OF False, of hm js ser de op] assms(1)
    by (auto simp: own_channel_def retire_def)
qed

lemma configuration_refusal_terminal_witness:
  "\<not> fst (exchange_act demo_hm demo_js demo_rt_ser demo_rt_de ExComplete
     (failed_exchange (demo_exchange Supervisor)) (demo_channel Runtime))"
proof -
  have r: "exchange_act demo_hm demo_js demo_rt_ser demo_rt_de ExComplete (demo_exchange Supervisor)
      (demo_channel Supervisor) = (False, failed_exchange (demo_exchange Supervisor), retire (demo_channel Supervisor))"
    by (simp add: exchange_act_def exchange_complete_acknowledgement_def ensure_channel_def exchange_fail_eq)
      (simp add: demo_exchange_def demo_channel_def exchange_fail_eq)
  obtain ok ex3 ch3 where a: "exchange_act demo_hm demo_js demo_rt_ser demo_rt_de ExComplete
      (failed_exchange (demo_exchange Supervisor)) (demo_channel Runtime) = (ok, ex3, ch3)"
    using prod_cases3 by blast
  from configuration_refusal_terminal [OF r rtranclp.rtrancl_refl a] a show ?thesis
    by (simp add: demo_exchange_def demo_channel_def)
qed

text \<open>
  A forged acknowledgement is refused: a supervisor that waits for the acknowledgement and opens
  one whose manifest is not the one it derived from its own configuration returns
  \<open>ManifestMismatch\<close>, drops the configuration and retires the channel; with exactly that manifest
  it is configured.
\<close>

lemma forged_manifest_refused:
  assumes "own_channel ex ch" and "ex_role ex = Supervisor" and "ch_role ch = Supervisor"
    and "ex_state ex = AwaitingAcknowledgement" and "exchange_invar js ser ex"
    and "open_frame hm (runtime_de de) frame (lock_frame_limit ch) = (Inr (MsgConfigured m), ch1)"
  shows "\<exists>c. ex_configuration ex = Some c \<and>
    exchange_receive hm js ser de frame ex ch =
      (if m = manifest_from_configuration c then (Inr None, ex\<lparr>ex_state := CfgConfigured\<rparr>, ch1)
       else (Inl ManifestMismatch, failed_exchange ex, retire ch1))"
proof -
  obtain c where c: "ex_configuration ex = Some c" "ex_expected_manifest ex = Some (manifest_from_configuration c)"
    using assms(4,5) by (auto simp: exchange_invar_def holds_configuration_def less_sidecar_configuration_state_def)
  then show ?thesis
    using assms by (auto simp: exchange_receive_def own_channel_def ensure_channel_def exchange_fail_eq)
qed

definition demo_waiting :: sidecar_configuration_exchange where
  "demo_waiting = store_configuration demo_config (demo_channel Supervisor) (demo_exchange Supervisor)"

definition demo_forged_rt_de :: "bytes \<Rightarrow> sidecar_runtime_message option" where
  "demo_forged_rt_de bs = Some (MsgConfigured (demo_manifest\<lparr>mf_commands := [''a'', ''evil'']\<rparr>))"

lemma demo_configures: "configures demo_js demo_rt_ser demo_config 64 (demo_exchange role)"
  unfolding configures_def validate_configuration_ok status_budget_ok
  using demo_config_ok [of role]
  by (simp add: demo_exchange_def selection_from_def runtime_message_within_limit_iff runtime_ser_def
      demo_rt_ser_def worst_status_def portable_u64_def demo_config_def)
    (simp add: MAX_PORTABLE_JSON_INTEGER_def SIDECAR_MAX_FEATURE_BITS_def)

lemma demo_waiting_invar: "exchange_invar demo_js demo_rt_ser demo_waiting"
proof -
  have "configures demo_js demo_rt_ser demo_config 64 (demo_exchange Supervisor)" by (rule demo_configures)
  moreover have "ex_role (demo_exchange Supervisor) = Supervisor" by (simp add: demo_exchange_def)
  moreover have "max_payload_bytes (demo_channel Supervisor) = 64"
    by (simp add: max_payload_bytes_def demo_channel_def)
  ultimately show ?thesis
    by (simp add: demo_waiting_def exchange_invar_def role_states_def)
qed

lemma configuration_state_meaning_witness:
  "\<exists>ex1. (acts_step (exchange_act demo_hm demo_js demo_rt_ser demo_rt_de))\<^sup>*\<^sup>* (demo_exchange Supervisor) ex1 \<and>
     ex_configuration ex1 = Some demo_config \<and> ex_expected_manifest ex1 = Some demo_manifest \<and>
     configuration_ok demo_js demo_config (sel_limits (ex_selection (demo_exchange Supervisor))) \<and>
     same_binding (demo_exchange Supervisor) ex1"
proof -
  let ?m = "MsgConfigure demo_config"
  have pay: "max_payload_bytes (demo_channel role) = 64" for role
    by (simp add: max_payload_bytes_def demo_channel_def)
  have port: "message_portable ?m" by (rule configuration_portable(1) [OF demo_config_ok])
  have "paired (demo_channel Supervisor) (demo_channel Runtime)"
    by (simp add: paired_def) (simp add: linked_def demo_channel_def)
  moreover have "reads_back (runtime_ser demo_rt_ser) (runtime_de demo_rt_de) ?m"
    by (rule portable_codec(2) [OF port]) (simp add: reads_back_def demo_rt_ser_def demo_rt_de_def)
  moreover have "fits (runtime_ser demo_rt_ser) (demo_channel role) ?m" for role
    unfolding portable_codec(1) [OF port] by (simp add: fits_def demo_rt_ser_def pay)
  moreover have "ch_send_sequence (demo_channel role) \<noteq> - 1" for role by (simp add: demo_channel_def)
  ultimately obtain frame ch where
    seal: "seal demo_hm (runtime_ser demo_rt_ser) ?m (lock_frame_limit (demo_channel Supervisor)) = (Inr frame, ch)"
    using exchange_frames [of "demo_channel Supervisor" "demo_channel Runtime" demo_hm "runtime_ser demo_rt_ser"
        "runtime_de demo_rt_de" ?m ?m] demo_hm_total by blast
  let ?ex1 = "store_configuration demo_config ch (demo_exchange Supervisor)"
  have "exchange_start demo_hm demo_js demo_rt_ser demo_config (demo_exchange Supervisor) (demo_channel Supervisor)
      = (Inr frame, ?ex1, ch)"
    using demo_configures [of Supervisor] pay [of Supervisor]
    by (intro exchange_start_succeeds [OF _ _ _ _ _ seal])
      (simp_all add: own_channel_def demo_exchange_def demo_channel_def)
  then have "exchange_act demo_hm demo_js demo_rt_ser demo_rt_de (ExStart demo_config) (demo_exchange Supervisor)
      (demo_channel Supervisor) = (True, ?ex1, ch)" by (simp add: exchange_act_def)
  then have run: "(acts_step (exchange_act demo_hm demo_js demo_rt_ser demo_rt_de))\<^sup>*\<^sup>* (demo_exchange Supervisor) ?ex1"
    by (blast intro: acts_step.acts)
  from configuration_state_meaning [OF demo_exchange_new run rtranclp.rtrancl_refl] run show ?thesis
    by (intro exI [of _ ?ex1]) (simp add: demo_manifest_from)
qed

lemma forged_manifest_refused_witness:
  "\<exists>frame ex' ch'. exchange_receive demo_hm demo_js demo_rt_ser demo_forged_rt_de frame demo_waiting
     (demo_channel Supervisor) = (Inl ManifestMismatch, ex', ch')"
proof -
  let ?evil = "demo_manifest\<lparr>mf_commands := [''a'', ''evil'']\<rparr>"
  have p: "paired (lock_frame_limit (demo_channel Supervisor)) (demo_channel Runtime)"
    by (rule paired_lock) (simp add: paired_def, simp add: linked_def demo_channel_def)
  have rb: "reads_back demo_rt_ser (runtime_de demo_forged_rt_de) (MsgConfigured ?evil)"
    by (simp add: reads_back_def runtime_de_def demo_forged_rt_de_def portable_u64_def demo_manifest_def)
      (simp add: MAX_PORTABLE_JSON_INTEGER_def SIDECAR_MAX_FEATURE_BITS_def)
  have ft: "fits demo_rt_ser (demo_channel Runtime) (MsgConfigured ?evil)"
    by (simp add: fits_def demo_rt_ser_def max_payload_bytes_def demo_channel_def)
  obtain f a b where f: "open_frame demo_hm (runtime_de demo_forged_rt_de) f (lock_frame_limit (demo_channel Supervisor))
      = (Inr (MsgConfigured ?evil), b)"
    by (rule paired_transfer [OF paired_sym [OF p] demo_hm_total rb ft]) (simp_all add: demo_channel_def)
  have side: "own_channel demo_waiting (demo_channel Supervisor)" "ex_role demo_waiting = Supervisor"
    "ch_role (demo_channel Supervisor) = Supervisor" "ex_state demo_waiting = AwaitingAcknowledgement"
    by (simp_all add: own_channel_def demo_waiting_def demo_exchange_def demo_channel_def)
  have c: "ex_configuration demo_waiting = Some demo_config" by (simp add: demo_waiting_def)
  have ne: "?evil \<noteq> manifest_from_configuration demo_config"
    by (simp add: demo_manifest_from demo_manifest_def)
  show ?thesis using forged_manifest_refused [OF side demo_waiting_invar f] c ne by auto
qed

text \<open>
  The runtime is configured last: only \<open>complete_acknowledgement\<close>, on the live bound channel
  after the acknowledgement of exactly the derived manifest was sealed, takes it to \<open>Configured\<close>;
  until then every other success of an operation leaves it in an earlier state.
\<close>

lemma runtime_configured_last:
  assumes "exchange_act hm js ser de op ex ch = (True, ex', ch')" and "ex_role ex = Runtime"
    and "exchange_invar js ser ex"
  shows "case op of
      ExComplete \<Rightarrow> ex_state ex = AcknowledgementPending \<and> ex_state ex' = CfgConfigured \<and>
        ch' = ch \<and> \<not> ch_retired ch
    | ExAcknowledge m \<Rightarrow> ex_state ex' = AcknowledgementPending \<and>
        (\<exists>c. ex_configuration ex = Some c \<and> m = manifest_from_configuration c)
    | ExReceive frame \<Rightarrow> ex_state ex' = AwaitingAcknowledgement
    | ExStart c \<Rightarrow> False"
proof (cases "own_channel ex ch")
  case False
  then show ?thesis using exchange_act_stray [OF False, of hm js ser de op] assms(1) by simp
next
  case True
  show ?thesis using assms(1)
  proof (cases rule: exchange_act_cases)
    case (start c r)
    then show ?thesis using exchange_start_cases [OF True start(2)] assms(2) by auto
  next
    case (receive frame r)
    then show ?thesis using exchange_receive_cases [OF True receive(2)] assms(2)
      by (auto simp: runtime_configured_def supervisor_configured_def)
  next
    case (acknowledge m r)
    then show ?thesis using exchange_acknowledge_cases [OF True acknowledge(2)] assms(3)
      by (auto simp: exchange_invar_def split: if_splits)
  next
    case (complete r)
    then show ?thesis using exchange_complete_cases [OF True complete(2)] by auto
  qed
qed

lemma runtime_configured_last_witness:
  "\<exists>ex. ex_role ex = Runtime \<and> fst (exchange_act demo_hm demo_js demo_rt_ser demo_rt_de ExComplete ex (demo_channel Runtime)) \<and>
     ex_state ex = AcknowledgementPending"
proof -
  let ?ex = "(store_configuration demo_config (demo_channel Runtime) (demo_exchange Runtime))
    \<lparr>ex_state := AcknowledgementPending\<rparr>"
  have side: "own_channel ?ex (demo_channel Runtime)" "ex_role ?ex = Runtime" "\<not> ch_retired (demo_channel Runtime)"
      "ex_state ?ex = AcknowledgementPending"
    by (simp_all add: own_channel_def demo_exchange_def demo_channel_def)
  have a: "exchange_act demo_hm demo_js demo_rt_ser demo_rt_de ExComplete ?ex (demo_channel Runtime)
      = (True, ?ex\<lparr>ex_state := CfgConfigured\<rparr>, demo_channel Runtime)"
    by (simp only: exchange_act_def exchange_op.case exchange_complete_succeeds [OF side] apfst_conv is_ok_simps)
  have i: "exchange_invar demo_js demo_rt_ser ?ex"
    using demo_configures [of Runtime]
    by (simp add: exchange_invar_def role_states_def demo_exchange_def max_payload_bytes_def demo_channel_def)
  from runtime_configured_last [OF a side(2) i] a side(2,4) show ?thesis by (metis fst_conv)
qed

text \<open>
  Exactly the configurations that can be run safely are accepted: a generation from 1 to
  \<open>2 ^ 53 - 1\<close>, positive limits within the negotiated ones, an output limit at which every failure
  the bridge reports itself fits, a grace below the default timeout and that not above the maximum,
  distinct well-formed names of at most 128 bytes and no command of the \<open>system\<close> namespace.
\<close>

lemma configuration_validated_exactly:
  "validate_configuration js c sel = Inr () \<longleftrightarrow>
   unat (cf_manifest_generation c) \<in> {1 .. 2 ^ 53 - 1} \<and>
   unat (cf_max_concurrency c) \<in> {1 .. unat (max_in_flight (sel_limits sel))} \<and>
   unat (cf_max_input_bytes c) \<in> {1 .. unat (max_frame_bytes (sel_limits sel))} \<and>
   unat (cf_max_output_bytes c)
     \<in> {max 1 (minimum_bridge_failure_bytes js) .. unat (max_frame_bytes (sel_limits sel))} \<and>
   unat (cf_result_grace_ms c) < unat (cf_default_timeout_ms c) \<and>
   unat (cf_default_timeout_ms c) \<le> unat (cf_max_timeout_ms c) \<and>
   list_all (name_ok False) (cf_capabilities c) \<and> distinct (cf_capabilities c) \<and>
   list_all (name_ok True) (map command_name (cf_commands c)) \<and> distinct (map command_name (cf_commands c))"
  by (auto simp: validate_configuration_ok configuration_ok_def limits_ok_def list_all_iff)

end
