(* ===== verification/SidecarBridge.thy ===== *)
theory SidecarBridge
  imports ConfigurationExchange
begin

text \<open>
  The bridge of \<open>sidecar_runtime.rs\<close> from a configured exchange to the command runtime: activation,
  the handlers that pass invocations on to the product adapter, and the status projected to the
  supervisor.

  The adapter is code of the product. What it does in one call is given by \<open>adapter_env\<close>: when its
  future is ready and with what. The two futures the bridge builds from it are values of the same
  shape as in \<open>CommandRuntime\<close>: a time and an outcome, or never.
\<close>

section \<open>The adapter\<close>

record sidecar_adapter_error =
  ae_code :: string
  ae_message :: string

definition adapter_failure :: "sidecar_adapter_error \<Rightarrow> handler_error" where
  "adapter_failure error =
     (let code = (if trim (ae_code error) = [] then ''SIDECAR_ADAPTER'' else ae_code error);
          message = (if trim (ae_message error) = [] then ''sidecar capability adapter failed''
            else ae_message error) in
      HandlerError code message)"

record adapter_env =
  retired_before :: bool
  retired_at :: "duration option"
  adapter_ready_admit :: "(duration \<times> (sidecar_adapter_error + sidecar_admission_decision) outcome) option"
  adapter_ready_invoke :: "(duration \<times> (sidecar_adapter_error + sidecar_invocation_result) outcome) option"

text \<open>The messages by reference, whose serializer is derived separately.\<close>

datatype sidecar_runtime_message_ref =
    RefAdmissionRequest sidecar_invocation
  | RefAdmissionDecision string sidecar_admission_decision
  | RefInvoke sidecar_invocation
  | RefResult string sidecar_invocation_result

fun message_ref_portable :: "sidecar_runtime_message_ref \<Rightarrow> bool" where
  "message_ref_portable (RefAdmissionRequest invocation) = sidecar_invocation_portable invocation"
| "message_ref_portable (RefAdmissionDecision invocation_id decision) = True"
| "message_ref_portable (RefInvoke invocation) = sidecar_invocation_portable invocation"
| "message_ref_portable (RefResult invocation_id result) = invocation_result_is_portable result"

definition ref_ser ::
  "(sidecar_runtime_message_ref \<Rightarrow> serialized) \<Rightarrow> sidecar_runtime_message_ref \<Rightarrow> serialized" where
  "ref_ser ser m = (ser m)\<lparr>refused := refused (ser m) \<or> \<not> message_ref_portable m\<rparr>"

definition node_invocation_is_portable :: "node_invocation \<Rightarrow> bool" where
  "node_invocation_is_portable invocation =
     ((case inv_timeout_ms invocation of None \<Rightarrow> True | Some value \<Rightarrow> value \<le> MAX_PORTABLE_JSON_INTEGER)
      \<and> portable_json_value (inv_params invocation))"

text \<open>
  \<open>evaluate_sidecar_admission\<close>: when it is ready, with what, and whether it cancelled the token of
  the invocation. A panic of the adapter unwinds through it.
\<close>

definition evaluate_sidecar_admission ::
  "(sidecar_runtime_message_ref \<Rightarrow> serialized) \<Rightarrow> nat \<Rightarrow> adapter_env \<Rightarrow> node_invocation \<Rightarrow>
   (duration \<times> (handler_error + unit) outcome \<times> bool) option" where
  "evaluate_sidecar_admission ser limit env call =
     (if retired_before env then Some (0, Returns (Inl channel_retired_error), True)
      else if \<not> node_invocation_is_portable call then Some (0, Returns (Inl nonportable_json), False)
      else if \<not> runtime_message_within_limit
             (ref_ser ser (RefAdmissionRequest (sidecar_invocation_from call))) limit
        then Some (0, Returns (Inl message_too_large), False)
      else case first_of (retired_at env) (adapter_ready_admit env) of
        None \<Rightarrow> None
      | Some (t, None) \<Rightarrow> Some (t, Returns (Inl channel_retired_error), True)
      | Some (t, Some Panics) \<Rightarrow> Some (t, Panics, False)
      | Some (t, Some (Returns r)) \<Rightarrow>
          (let decision = (case r of
                 Inr d \<Rightarrow> d
               | Inl error \<Rightarrow> Deny (he_code (adapter_failure error)) (he_message (adapter_failure error))) in
           Some (t,
             (if \<not> runtime_message_within_limit
                    (ref_ser ser (RefAdmissionDecision (inv_id call) decision)) limit
                then Returns (Inl message_too_large)
              else case decision of
                Allow \<Rightarrow> Returns (Inr ())
              | Deny code message \<Rightarrow> Returns (Inl (HandlerError code message))), False)))"

definition evaluate_sidecar_invocation ::
  "(sidecar_runtime_message_ref \<Rightarrow> serialized) \<Rightarrow> nat \<Rightarrow> adapter_env \<Rightarrow> node_invocation \<Rightarrow>
   (duration \<times> (handler_error + json) outcome \<times> bool) option" where
  "evaluate_sidecar_invocation ser limit env call =
     (if retired_before env then Some (0, Returns (Inl channel_retired_error), True)
      else if \<not> node_invocation_is_portable call then Some (0, Returns (Inl nonportable_json), False)
      else if \<not> runtime_message_within_limit
             (ref_ser ser (RefInvoke (sidecar_invocation_from call))) limit
        then Some (0, Returns (Inl message_too_large), False)
      else case first_of (retired_at env) (adapter_ready_invoke env) of
        None \<Rightarrow> None
      | Some (t, None) \<Rightarrow> Some (t, Returns (Inl channel_retired_error), True)
      | Some (t, Some Panics) \<Rightarrow> Some (t, Panics, False)
      | Some (t, Some (Returns r)) \<Rightarrow>
          (let result = (case r of
                 Inr x \<Rightarrow> x
               | Inl error \<Rightarrow> SidecarFailure (he_code (adapter_failure error)) (he_message (adapter_failure error))) in
           Some (t,
             (if \<not> invocation_result_is_portable result then Returns (Inl nonportable_json)
              else if \<not> runtime_message_within_limit
                    (ref_ser ser (RefResult (inv_id call) result)) limit
                then Returns (Inl message_too_large)
              else Returns (handler_result_from result)), False)))"

section \<open>Activation\<close>

text \<open>What the closures given to the builder hold: the payload limit and the channel's liveness.\<close>

record bridge_closure =
  bc_max_payload :: nat
  bc_liveness :: u64

type_synonym bridge_runtime = "(bridge_closure, bridge_closure) command_runtime"

definition sidecar_builder ::
  "sidecar_runtime_configuration \<Rightarrow> sidecar_runtime_manifest \<Rightarrow> bridge_closure \<Rightarrow>
   (bridge_closure, bridge_closure) command_runtime_builder" where
  "sidecar_builder configuration manifest closure =
     (let builder = bu_set_grace (from_millis (unat (cf_result_grace_ms configuration)))
            (bu_set_max_timeout (from_millis (unat (cf_max_timeout_ms configuration)))
            (bu_set_default_timeout (from_millis (unat (cf_default_timeout_ms configuration)))
            (bu_set_output (unat (cf_max_output_bytes configuration))
            (bu_set_input (unat (cf_max_input_bytes configuration))
            (bu_set_concurrency (unat (cf_max_concurrency configuration)) builder_default)))));
          builder = fold bu_capability (mf_capabilities manifest) builder;
          builder = bu_policy closure builder in
      fold (\<lambda>command. bu_command command closure) (mf_commands manifest) builder)"

definition build_command_runtime ::
  "sidecar_runtime_configuration \<Rightarrow> sidecar_runtime_manifest \<Rightarrow> nat \<Rightarrow> u64 \<Rightarrow>
   runtime_build_error + bridge_runtime" where
  "build_command_runtime configuration manifest max_payload liveness =
     build (sidecar_builder configuration manifest \<lparr>bc_max_payload = max_payload, bc_liveness = liveness\<rparr>)"

record sidecar_runtime_bridge =
  br_runtime :: bridge_runtime
  br_manifest :: sidecar_runtime_manifest
  br_status :: sidecar_runtime_status

definition bridge_activate ::
  "sidecar_configuration_exchange \<Rightarrow> channel \<Rightarrow>
   (sidecar_runtime_bridge_error + sidecar_runtime_bridge) \<times> sidecar_configuration_exchange \<times> channel" where
  "bridge_activate ex ch =
     (if ch_instance_id ch \<noteq> ex_channel_instance_id ex then (Inl BridgeChannelInstanceMismatch, ex, retire ch)
      else if ch_retired ch
        then (Inl BridgeChannelRetired,
              ex\<lparr>ex_configuration := None, ex_expected_manifest := None, ex_max_payload_bytes := None,
                 ex_state := CfgFailed\<rparr>, ch)
      else if ex_role ex \<noteq> Runtime then (Inl RuntimeRoleRequired, ex, ch)
      else case ex_configuration ex of
        None \<Rightarrow> (Inl ConfigurationNotValidated, ex, ch)
      | Some configuration \<Rightarrow>
        let manifest = manifest_from_configuration configuration in
        if ex_state ex \<noteq> CfgConfigured \<or> ex_expected_manifest ex \<noteq> Some manifest
          then (Inl ConfigurationNotValidated, ex, ch)
        else case ex_max_payload_bytes ex of
          None \<Rightarrow> (Inl ConfigurationNotValidated, ex, ch)
        | Some max_payload \<Rightarrow>
        (case build_command_runtime configuration manifest max_payload (ch_instance_id ch) of
          Inl error \<Rightarrow> (Inl (RuntimeBuild error), ex, ch)
        | Inr runtime \<Rightarrow>
            (Inr \<lparr>br_runtime = runtime, br_manifest = manifest,
                  br_status = \<lparr>st_state = StateConfigured,
                    st_manifest_generation = mf_manifest_generation manifest,
                    st_runtime_version = ex_runtime_version ex, st_attempt = 0, st_reason = None\<rparr>\<rparr>,
             ex\<lparr>ex_state := CfgActivated\<rparr>, ch)))"

definition configured_message :: "sidecar_runtime_bridge \<Rightarrow> sidecar_runtime_message" where
  "configured_message br = MsgConfigured (br_manifest br)"

definition status_message :: "sidecar_runtime_bridge \<Rightarrow> sidecar_runtime_message" where
  "status_message br = MsgStatus (br_status br)"

section \<open>Status\<close>

fun disconnect_reason :: "lifecycle_disconnect_reason \<Rightarrow> sidecar_runtime_reason" where
  "disconnect_reason (ByClient ClassConfiguration) = ReasonConfiguration"
| "disconnect_reason (ByClient ClassTransport) = ReasonTransport"
| "disconnect_reason (ByClient ClassProtocol) = ReasonProtocol"
| "disconnect_reason (ByClient ClassIdentity) = ReasonIdentity"
| "disconnect_reason (ByClient ClassGateway) = ReasonGateway"
| "disconnect_reason (ByClient ClassRequestTimeout) = ReasonRequestTimeout"
| "disconnect_reason (ByClient ClassEventLagged) = ReasonEventLagged"
| "disconnect_reason (ByClient ClassActivation) = ReasonActivation"
| "disconnect_reason (ByRuntime RtDeliverySaturated) = ReasonDeliverySaturated"
| "disconnect_reason (ByRuntime RtResultTask) = ReasonResultTask"
| "disconnect_reason RuntimeEnded = ReasonRuntimeEnded"
| "disconnect_reason Shutdown = ReasonShutdown"

fun pause_reason :: "reconnect_pause \<Rightarrow> sidecar_runtime_reason" where
  "pause_reason (DevicePairing _) = ReasonPairing"
| "pause_reason (Authentication _) = ReasonAuthentication"
| "pause_reason (Protocol _) = ReasonProtocol"
| "pause_reason Configuration = ReasonConfiguration"
| "pause_reason LocalIdentity = ReasonIdentity"

fun project_event :: "lifecycle_event \<Rightarrow> sidecar_runtime_state \<times> u64 \<times> sidecar_runtime_reason option" where
  "project_event (Connecting attempt) = (StateConnecting, attempt, None)"
| "project_event (Connected attempt _ _) = (StateConnecting, attempt, None)"
| "project_event (Ready attempt) = (StateReady, attempt, None)"
| "project_event (Disconnected attempt reason) =
     (if reason = Shutdown then StateDraining else StateConnecting, attempt, Some (disconnect_reason reason))"
| "project_event (BackingOff attempt _ reason) = (StateBackingOff, attempt, Some (disconnect_reason reason))"
| "project_event (Paused attempt reason) = (StatePaused, attempt, Some (pause_reason reason))"
| "project_event (Stopped attempt _) = (StateStopped, attempt, Some ReasonShutdown)"

definition observe_lifecycle :: "lifecycle_event \<Rightarrow> sidecar_runtime_bridge \<Rightarrow> sidecar_runtime_bridge" where
  "observe_lifecycle event br =
     (case project_event event of (state, attempt, reason) \<Rightarrow>
      br\<lparr>br_status := \<lparr>st_state = state,
         st_manifest_generation = mf_manifest_generation (br_manifest br),
         st_runtime_version = st_runtime_version (br_status br),
         st_attempt = min attempt MAX_PORTABLE_JSON_INTEGER, st_reason = reason\<rparr>\<rparr>)"

section \<open>What activation builds\<close>

lemma trim_start_plain: "list_all (\<lambda>c. \<not> is_ws1 c \<and> char_code c < 128) s \<Longrightarrow> trim_start s = s"
  by (induction s rule: trim_start.induct) (auto simp: is_ws2_def is_ws3_def)

lemma trim_end_rev_plain: "list_all (\<lambda>c. \<not> is_ws1 c \<and> char_code c < 128) s \<Longrightarrow> trim_end_rev s = s"
  by (induction s rule: trim_end_rev.induct) (auto simp: is_ws2_def is_ws3_def)

lemma name_char_plain: "name_char c \<Longrightarrow> \<not> is_ws1 c \<and> char_code c < 128"
  by (auto simp: name_char_def is_ascii_alphanumeric_def is_ws1_def char_code_def)

lemma trim_name_ok: "name_ok commands name \<Longrightarrow> trim name = name"
proof -
  assume "name_ok commands name"
  then have "list_all (\<lambda>c. \<not> is_ws1 c \<and> char_code c < 128) name"
    by (auto simp: name_ok_def list_all_iff dest: name_char_plain)
  then show ?thesis by (simp add: trim_def trim_start_plain trim_end_rev_plain)
qed

lemma fold_bu_capability: "fold bu_capability cs b = b\<lparr>bu_capabilities := bu_capabilities b @ cs\<rparr>"
  by (induction cs arbitrary: b) (simp_all add: bu_capability_def)

lemma fold_bu_command:
  "fold (\<lambda>c. bu_command c h) cs b = b\<lparr>bu_registrations := bu_registrations b @
     map (\<lambda>c. \<lparr>reg_command = c, reg_handler = h, reg_duplex = False\<rparr>) cs\<rparr>"
  by (induction cs arbitrary: b) (simp_all add: bu_command_def bu_register_def)

lemma build_succeeds:
  assumes "\<forall>c \<in> set (bu_capabilities b). trim c \<noteq> []" and "registrations_ok (bu_registrations b)"
  obtains rt where "build b = Inr rt"
    and "capabilities rt = sorted_list_of_set (trim ` set (bu_capabilities b))"
    and "command_names rt = sorted_list_of_set (reg_name ` set (bu_registrations b))"
    and "\<forall>r \<in> set (bu_registrations b). map_of (handlers rt) (reg_name r) = Some (reg_entry r)"
    and "admission_policy rt = bu_admission_policy b" and "max_permits rt = max (bu_max_concurrency b) 1"
    and "max_input_bytes rt = max (bu_max_input_bytes b) 1" and "max_output_bytes rt = max (bu_max_output_bytes b) 1"
    and "max_timeout rt = nonzero_duration (bu_max_timeout b)" and "result_grace rt = bu_result_grace b"
    and "default_timeout rt = min (nonzero_duration (bu_default_timeout b)) (nonzero_duration (bu_max_timeout b))"
proof -
  obtain cs where cs: "build_capabilities (bu_capabilities b) [] = Inr cs" "keys_ok cs"
    "fst ` set cs = trim ` set (bu_capabilities b)"
    using build_capabilities_spec [OF keys_ok_Nil, of "bu_capabilities b"] assms(1)
    by (auto split: sum.splits)
  have none: "registration_error (reg_name ` set before) r = None"
    if "bu_registrations b = before @ r # rest" for before r rest
    using assms(2) that by (auto simp: no_registration_error registrations_ok_def)
  obtain es where es: "build_handlers (bu_registrations b) [] = Inr es"
    using build_handlers_spec [OF keys_ok_Nil, of "bu_registrations b"] none
    by (cases "build_handlers (bu_registrations b) []") fastforce+
  have hs: "keys_ok es" "fst ` set es = reg_name ` set (bu_registrations b)"
    "map_of es = fold (\<lambda>r m. m(reg_name r \<mapsto> reg_entry r)) (bu_registrations b) Map.empty"
    using build_handlers_spec [OF keys_ok_Nil, of "bu_registrations b"] es by simp_all
  obtain rt where rt: "build b = Inr rt" using cs es by (simp add: build_def Let_def)
  show thesis
    by (rule that [OF rt])
      (use rt cs es hs assms(2) in \<open>auto simp: build_def Let_def keys_ok_unique command_names_def
        fold_entries registrations_ok_def\<close>)
qed

text \<open>The runtime built from a valid configuration: nothing is clamped, renamed or refused.\<close>

definition runs_configuration ::
  "sidecar_runtime_configuration \<Rightarrow> nat \<Rightarrow> u64 \<Rightarrow> bridge_runtime \<Rightarrow> bool" where
  "runs_configuration c limit liveness rt \<longleftrightarrow>
     (let closure = \<lparr>bc_max_payload = limit, bc_liveness = liveness\<rparr>; m = manifest_from_configuration c in
      command_names rt = mf_commands m \<and> capabilities rt = mf_capabilities m \<and>
      (\<forall>cmd \<in> set (mf_commands m). map_of (handlers rt) cmd = Some \<lparr>rh_handler = closure, rh_duplex = False\<rparr>) \<and>
      admission_policy rt = Some closure \<and>
      max_permits rt = unat (cf_max_concurrency c) \<and> max_input_bytes rt = unat (cf_max_input_bytes c) \<and>
      max_output_bytes rt = unat (cf_max_output_bytes c) \<and>
      default_timeout rt = from_millis (unat (cf_default_timeout_ms c)) \<and>
      max_timeout rt = from_millis (unat (cf_max_timeout_ms c)) \<and>
      result_grace rt = from_millis (unat (cf_result_grace_ms c)))"

lemma sort_distinct: "distinct xs \<Longrightarrow> sorted_list_of_set (set xs) = sort xs"
  by (simp add: sorted_list_of_set_sort_remdups distinct_remdups_id)

lemma nonzero_from_millis: "1 \<le> n \<Longrightarrow> nonzero_duration (from_millis n) = from_millis n"
  by (simp add: nonzero_duration_def from_millis_def)

lemma sort_idem: "sort (sort xs) = sort xs"
  by (rule sorted_sort_id) simp

lemma sidecar_builder_sel:
  "bu_capabilities (sidecar_builder c m cl) = mf_capabilities m"
  "bu_registrations (sidecar_builder c m cl)
    = map (\<lambda>cmd. \<lparr>reg_command = cmd, reg_handler = cl, reg_duplex = False\<rparr>) (mf_commands m)"
  "bu_admission_policy (sidecar_builder c m cl) = Some cl"
  "bu_max_concurrency (sidecar_builder c m cl) = max (unat (cf_max_concurrency c)) 1"
  "bu_max_input_bytes (sidecar_builder c m cl) = max (unat (cf_max_input_bytes c)) 1"
  "bu_max_output_bytes (sidecar_builder c m cl) = max (unat (cf_max_output_bytes c)) 1"
  "bu_default_timeout (sidecar_builder c m cl) = nonzero_duration (from_millis (unat (cf_default_timeout_ms c)))"
  "bu_max_timeout (sidecar_builder c m cl) = nonzero_duration (from_millis (unat (cf_max_timeout_ms c)))"
  "bu_result_grace (sidecar_builder c m cl) = from_millis (unat (cf_result_grace_ms c))"
  by (simp_all add: sidecar_builder_def fold_bu_capability fold_bu_command bu_policy_def bu_set_grace_def
      bu_set_max_timeout_def bu_set_default_timeout_def bu_set_output_def bu_set_input_def
      bu_set_concurrency_def builder_default_def Let_def)

lemma manifest_names:
  assumes "configuration_ok js c l" and "m = manifest_from_configuration c"
  shows "sort (mf_capabilities m) = mf_capabilities m" and "sort (mf_commands m) = mf_commands m"
    and "distinct (mf_capabilities m)" and "distinct (mf_commands m)"
    and "\<forall>x \<in> set (mf_capabilities m). trim x = x \<and> x \<noteq> []"
    and "\<forall>x \<in> set (mf_commands m). trim x = x \<and> x \<noteq> [] \<and> \<not> reserved x"
proof -
  have names: "\<forall>x \<in> set (mf_capabilities m). name_ok False x" "\<forall>x \<in> set (mf_commands m). name_ok True x"
    using assms by (auto simp: configuration_ok_def manifest_from_configuration_def)
  show "sort (mf_capabilities m) = mf_capabilities m" "sort (mf_commands m) = mf_commands m"
      "distinct (mf_capabilities m)" "distinct (mf_commands m)"
    using assms by (auto simp: configuration_ok_def manifest_from_configuration_def sorted_strings_def sort_idem)
  show "\<forall>x \<in> set (mf_capabilities m). trim x = x \<and> x \<noteq> []"
      "\<forall>x \<in> set (mf_commands m). trim x = x \<and> x \<noteq> [] \<and> \<not> reserved x"
    using names trim_name_ok [of False] trim_name_ok [of True] by (auto simp: name_ok_def)
qed

lemma build_command_runtime_succeeds:
  assumes "configuration_ok js c l"
  shows "\<exists>rt. build_command_runtime c (manifest_from_configuration c) limit liveness = Inr rt \<and>
    runs_configuration c limit liveness rt"
proof -
  define m where "m = manifest_from_configuration c"
  define cl where "cl = \<lparr>bc_max_payload = limit, bc_liveness = liveness\<rparr>"
  let ?reg = "\<lambda>cmd. \<lparr>reg_command = cmd, reg_handler = cl, reg_duplex = False\<rparr>"
  note b = sidecar_builder_sel [of c m cl]
  note names = manifest_names [OF assms m_def]
  have reg: "reg_name (?reg x) = trim x" "reg_entry (?reg x) = \<lparr>rh_handler = cl, rh_duplex = False\<rparr>" for x
    by (simp_all add: reg_name_def reg_entry_def)
  have "map reg_name (map ?reg (mf_commands m)) = mf_commands m"
    using names(6) by (simp add: reg comp_def map_idI)
  then have ok: "\<forall>x \<in> set (bu_capabilities (sidecar_builder c m cl)). trim x \<noteq> []"
      "registrations_ok (bu_registrations (sidecar_builder c m cl))"
    using names by (simp_all add: b registrations_ok_def reg)
  have pos: "1 \<le> unat (cf_max_concurrency c)" "1 \<le> unat (cf_max_input_bytes c)" "1 \<le> unat (cf_max_output_bytes c)"
      "1 \<le> unat (cf_default_timeout_ms c)" "1 \<le> unat (cf_max_timeout_ms c)"
      "from_millis (unat (cf_default_timeout_ms c)) \<le> from_millis (unat (cf_max_timeout_ms c))"
    using assms by (auto simp: configuration_ok_def limits_ok_def from_millis_def)
  have images: "trim ` set (mf_capabilities m) = set (mf_capabilities m)"
      "reg_name ` set (map ?reg (mf_commands m)) = set (mf_commands m)"
    using names(5,6) by (simp_all add: image_image reg)
  show ?thesis
  proof (rule build_succeeds [OF ok])
    fix rt assume "build (sidecar_builder c m cl) = Inr rt"
      and h: "\<forall>r \<in> set (bu_registrations (sidecar_builder c m cl)). map_of (handlers rt) (reg_name r) = Some (reg_entry r)"
      and *: "capabilities rt = sorted_list_of_set (trim ` set (bu_capabilities (sidecar_builder c m cl)))"
        "command_names rt = sorted_list_of_set (reg_name ` set (bu_registrations (sidecar_builder c m cl)))"
        "admission_policy rt = bu_admission_policy (sidecar_builder c m cl)"
        "max_permits rt = max (bu_max_concurrency (sidecar_builder c m cl)) 1"
        "max_input_bytes rt = max (bu_max_input_bytes (sidecar_builder c m cl)) 1"
        "max_output_bytes rt = max (bu_max_output_bytes (sidecar_builder c m cl)) 1"
        "max_timeout rt = nonzero_duration (bu_max_timeout (sidecar_builder c m cl))"
        "result_grace rt = bu_result_grace (sidecar_builder c m cl)"
        "default_timeout rt = min (nonzero_duration (bu_default_timeout (sidecar_builder c m cl)))
          (nonzero_duration (bu_max_timeout (sidecar_builder c m cl)))"
    have "\<forall>cmd \<in> set (mf_commands m). map_of (handlers rt) cmd = Some \<lparr>rh_handler = cl, rh_duplex = False\<rparr>"
      using h names(6) by (simp add: b reg)
    then have "runs_configuration c limit liveness rt"
      using pos names(1-4)
      by (simp add: runs_configuration_def m_def [symmetric] cl_def [symmetric] * b images [unfolded set_map]
          sort_distinct nonzero_from_millis)
    then show ?thesis using \<open>build _ = Inr rt\<close> by (simp add: build_command_runtime_def m_def cl_def)
  qed
qed

section \<open>Properties of activation\<close>

lemma activate_Inr:
  "bridge_activate ex ch = (Inr br, ex', ch') \<longleftrightarrow>
   own_channel ex ch \<and> \<not> ch_retired ch \<and> ex_role ex = Runtime \<and> ex_state ex = CfgConfigured \<and>
   ch' = ch \<and> ex' = ex\<lparr>ex_state := CfgActivated\<rparr> \<and>
   (\<exists>c limit rt. ex_configuration ex = Some c \<and> ex_expected_manifest ex = Some (manifest_from_configuration c) \<and>
     ex_max_payload_bytes ex = Some limit \<and>
     build_command_runtime c (manifest_from_configuration c) limit (ch_instance_id ch) = Inr rt \<and>
     br = \<lparr>br_runtime = rt, br_manifest = manifest_from_configuration c,
       br_status = \<lparr>st_state = StateConfigured, st_manifest_generation = cf_manifest_generation c,
         st_runtime_version = ex_runtime_version ex, st_attempt = 0, st_reason = None\<rparr>\<rparr>)"
  by (auto simp: bridge_activate_def own_channel_def Let_def manifest_from_configuration_def
      split: option.splits sum.splits)

text \<open>
  C3. Activation cannot fail once the exchange is configured, and enforces what was configured: on the
  live bound channel of a runtime whose exchange obeys the protocol, \<open>activate\<close> succeeds exactly in
  the state \<open>Configured\<close>; no registration error is possible. The runtime it builds advertises and
  routes exactly the commands and capabilities of the acknowledged manifest, admits through the
  bridge only, and has exactly the concurrency, byte limits and timeouts of the configuration.
\<close>

lemma activation_enforces_configuration:
  assumes "exchange_invar js ser ex" and "ex_role ex = Runtime"
    and "ch_instance_id ch = ex_channel_instance_id ex" and "\<not> ch_retired ch"
  shows "if ex_state ex = CfgConfigured
    then \<exists>br c limit. bridge_activate ex ch = (Inr br, ex\<lparr>ex_state := CfgActivated\<rparr>, ch) \<and>
      ex_configuration ex = Some c \<and> ex_max_payload_bytes ex = Some limit \<and>
      br_manifest br = manifest_from_configuration c \<and>
      runs_configuration c limit (ch_instance_id ch) (br_runtime br)
    else bridge_activate ex ch = (Inl ConfigurationNotValidated, ex, ch)"
proof (cases "ex_state ex = CfgConfigured")
  case True
  then obtain c limit where c: "ex_configuration ex = Some c" "ex_max_payload_bytes ex = Some limit"
      "ex_expected_manifest ex = Some (manifest_from_configuration c)" "configures js ser c limit ex"
    using assms(1) by (auto simp: exchange_invar_def)
  obtain rt where "build_command_runtime c (manifest_from_configuration c) limit (ch_instance_id ch) = Inr rt"
      "runs_configuration c limit (ch_instance_id ch) rt"
    using build_command_runtime_succeeds c(4) by (metis configures_def validate_configuration_ok)
  then show ?thesis using True assms c by (simp add: bridge_activate_def Let_def)
next
  case False
  then show ?thesis using assms
    by (simp add: bridge_activate_def Let_def split: option.splits)
qed

definition demo_configured :: sidecar_configuration_exchange where
  "demo_configured = (store_configuration demo_config (demo_channel Runtime) (demo_exchange Runtime))
    \<lparr>ex_state := CfgConfigured\<rparr>"

lemma demo_configured_invar:
  "exchange_invar demo_js demo_rt_ser demo_configured" "ex_role demo_configured = Runtime"
  "ch_instance_id (demo_channel Runtime) = ex_channel_instance_id demo_configured"
  "ex_state demo_configured = CfgConfigured"
  using demo_configures [of Runtime]
  by (simp_all add: demo_configured_def exchange_invar_def role_states_def demo_exchange_def max_payload_bytes_def
      demo_channel_def)

lemma activation_enforces_configuration_witness:
  "\<exists>br ex'. bridge_activate demo_configured (demo_channel Runtime) = (Inr br, ex', demo_channel Runtime) \<and>
     command_names (br_runtime br) = [''a'', ''b.x''] \<and> max_permits (br_runtime br) = 2"
proof -
  have "ex_configuration demo_configured = Some demo_config" by (simp add: demo_configured_def)
  then show ?thesis
    using activation_enforces_configuration [OF demo_configured_invar(1-3) demo_channel_simps(1)]
      demo_configured_invar(4)
    by (auto simp: runs_configuration_def Let_def demo_manifest_from demo_manifest_def)
      (simp add: demo_config_def)
qed

text \<open>
  A configuration is activated once, on its own live channel: an activation that succeeds had the
  bound channel, not retired; and after it, whatever operations of the exchange follow, on any
  channels, no activation succeeds any more.
\<close>

lemma activation_happens_once:
  assumes "bridge_activate ex ch = (Inr br, ex1, ch1)"
    and "(acts_step (exchange_act hm js ser de))\<^sup>*\<^sup>* ex1 ex2"
  shows "ch_instance_id ch = ex_channel_instance_id ex \<and> \<not> ch_retired ch \<and>
    (\<exists>e. fst (bridge_activate ex2 ch2) = Inl e)"
proof -
  have a: "own_channel ex ch" "\<not> ch_retired ch" "ex_state ex1 = CfgActivated"
    using assms(1) by (auto simp: activate_Inr)
  then have "ex_state ex2 \<noteq> CfgConfigured"
    using exchange.run_phase [OF assms(2)] by (auto simp: less_eq_sidecar_configuration_state_def)
  then have "\<nexists>br. fst (bridge_activate ex2 ch2) = Inr br"
    using activate_Inr by (metis prod.collapse)
  then show ?thesis using a(1,2) by (cases "fst (bridge_activate ex2 ch2)") (auto simp: own_channel_def)
qed

lemma demo_activation:
  "\<exists>br. bridge_activate demo_configured (demo_channel Runtime)
     = (Inr br, demo_configured\<lparr>ex_state := CfgActivated\<rparr>, demo_channel Runtime)"
proof -
  obtain rt where "build_command_runtime demo_config (manifest_from_configuration demo_config) 64 1 = Inr rt"
    using build_command_runtime_succeeds [OF demo_config_ok] by blast
  then show ?thesis
    by (simp add: bridge_activate_def demo_configured_def demo_exchange_def max_payload_bytes_def demo_channel_def
        Let_def)
qed

lemma activation_happens_once_witness:
  "\<exists>e. fst (bridge_activate (demo_configured\<lparr>ex_state := CfgActivated\<rparr>) (demo_channel Runtime)) = Inl e"
  using demo_activation activation_happens_once [OF _ rtranclp.rtrancl_refl] by blast

text \<open>
  The failures the bridge reports itself always reach the Gateway as they are: with the output
  limit of a validated configuration the runtime never replaces one of them by
  \<open>OUTPUT_TOO_LARGE\<close>.
\<close>

lemma bridge_failures_fit:
  assumes "exchange_invar js ser ex" and "bridge_activate ex ch = (Inr br, ex', ch')"
    and "e \<in> {message_too_large, nonportable_json, channel_retired_error}"
    and "\<not> refused (js (JObject [(''code'', JString (he_code e)), (''message'', JString (he_message e))]))"
  shows "handler_failure js e fallback_code fallback_message (max_output_bytes (br_runtime br))
    = Failure (he_code e) (he_message e)"
proof -
  obtain c limit rt where c: "ex_configuration ex = Some c" "ex_max_payload_bytes ex = Some limit"
      "ex_state ex = CfgConfigured" "br_runtime br = rt"
      "build_command_runtime c (manifest_from_configuration c) limit (ch_instance_id ch) = Inr rt"
    using assms(2) by (auto simp: activate_Inr)
  have ok: "configuration_ok js c (sel_limits (ex_selection ex))"
    using assms(1) c by (auto simp: exchange_invar_def configures_def validate_configuration_ok)
  have out: "max_output_bytes rt = unat (cf_max_output_bytes c)"
    using build_command_runtime_succeeds [OF ok, of limit "ch_instance_id ch"] c(5)
    by (auto simp: runs_configuration_def Let_def)
  have min: "minimum_bridge_failure_bytes js \<le> unat (cf_max_output_bytes c)"
    using ok by (simp add: configuration_ok_def limits_ok_def)
  have usize: "unat (cf_max_output_bytes c) \<le> usize_max"
    using unat_bounds(3) [of "cf_max_output_bytes c"] by (simp add: usize_max_def)
  have "total_len (chunks (js (JObject [(''code'', JString (he_code e)), (''message'', JString (he_message e))])))
      \<le> minimum_bridge_failure_bytes js"
    using assms(3) by (auto simp: minimum_bridge_failure_bytes_def Let_def)
  then have "serialized_json_within_limit
      (js (JObject [(''code'', JString (he_code e)), (''message'', JString (he_message e))])) (max_output_bytes rt)"
    using serialized_json_within_limit_iff [OF usize] min assms(4) by (simp add: out)
  moreover have "he_code e \<noteq> []" "he_message e \<noteq> []"
    using assms(3) by (auto simp: message_too_large_def nonportable_json_def channel_retired_error_def)
  ultimately show ?thesis by (simp add: handler_failure_def c(4))
qed

lemma bridge_failures_fit_witness:
  "\<exists>br :: sidecar_runtime_bridge. handler_failure demo_js channel_retired_error ''x'' ''y'' (max_output_bytes (br_runtime br))
     = Failure ''SIDECAR_CHANNEL_RETIRED'' ''authenticated sidecar channel is no longer live''"
proof -
  obtain br ex' ch' where a: "bridge_activate demo_configured (demo_channel Runtime) = (Inr br, ex', ch')"
    using demo_activation by blast
  note f = bridge_failures_fit [OF demo_configured_invar(1) a, of channel_retired_error "''x''" "''y''"]
  show ?thesis by (rule exI [of _ br]) (use f in \<open>simp add: demo_js_def channel_retired_error_def\<close>)
qed

section \<open>Invocations through the bridge\<close>

text \<open>What an invocation has to pass before the adapter sees it.\<close>

definition bridge_open ::
  "(sidecar_runtime_message_ref \<Rightarrow> serialized) \<Rightarrow> nat \<Rightarrow> adapter_env \<Rightarrow> node_invocation \<Rightarrow>
   sidecar_runtime_message_ref \<Rightarrow> bool" where
  "bridge_open ser limit env call m \<longleftrightarrow> \<not> retired_before env \<and> node_invocation_is_portable call \<and>
     runtime_message_within_limit (ref_ser ser m) limit"

lemma admission_open:
  "evaluate_sidecar_admission ser limit env call = Some (t, Returns (Inr ()), cancelled) \<longleftrightarrow>
     \<not> cancelled \<and> bridge_open ser limit env call (RefAdmissionRequest (sidecar_invocation_from call)) \<and>
     first_of (retired_at env) (adapter_ready_admit env) = Some (t, Some (Returns (Inr Allow))) \<and>
     runtime_message_within_limit (ref_ser ser (RefAdmissionDecision (inv_id call) Allow)) limit"
proof (cases "bridge_open ser limit env call (RefAdmissionRequest (sidecar_invocation_from call))")
  case True
  then show ?thesis
    by (cases "first_of (retired_at env) (adapter_ready_admit env)")
      (auto simp: evaluate_sidecar_admission_def bridge_open_def Let_def
        split: option.splits outcome.splits sum.splits sidecar_admission_decision.splits if_splits)
next
  case False
  then show ?thesis by (auto simp: evaluate_sidecar_admission_def bridge_open_def)
qed

lemma handler_result_Inr [simp]: "handler_result_from r = Inr v \<longleftrightarrow> r = SidecarSuccess v"
  by (cases r) simp_all

lemma invocation_open:
  "evaluate_sidecar_invocation ser limit env call = Some (t, Returns (Inr v), cancelled) \<longleftrightarrow>
     \<not> cancelled \<and> bridge_open ser limit env call (RefInvoke (sidecar_invocation_from call)) \<and>
     first_of (retired_at env) (adapter_ready_invoke env) = Some (t, Some (Returns (Inr (SidecarSuccess v)))) \<and>
     portable_json_value v \<and>
     runtime_message_within_limit (ref_ser ser (RefResult (inv_id call) (SidecarSuccess v))) limit"
proof (cases "bridge_open ser limit env call (RefInvoke (sidecar_invocation_from call))")
  case True
  then show ?thesis
    by (cases "first_of (retired_at env) (adapter_ready_invoke env)")
      (auto simp: evaluate_sidecar_invocation_def bridge_open_def Let_def
        split: option.splits outcome.splits sum.splits if_splits)
next
  case False
  then show ?thesis by (auto simp: evaluate_sidecar_invocation_def bridge_open_def)
qed

text \<open>
  What crosses the bridge: the adapter's value reaches the caller exactly when the channel was
  live until then, the invocation is portable, and invocation and result each fit the payload limit
  as messages; admission passes exactly when moreover the adapter allowed it. In every other case
  the outcome is an error, a panic of the adapter, or never.
\<close>

lemma bridge_passes_exactly:
  "(evaluate_sidecar_admission ser limit env call = Some (t, Returns (Inr ()), cancelled) \<longleftrightarrow>
     \<not> cancelled \<and> \<not> retired_before env \<and> (\<nexists>r. retired_at env = Some r \<and> r \<le> t) \<and>
     node_invocation_is_portable call \<and>
     runtime_message_within_limit (ref_ser ser (RefAdmissionRequest (sidecar_invocation_from call))) limit \<and>
     adapter_ready_admit env = Some (t, Returns (Inr Allow)) \<and>
     runtime_message_within_limit (ref_ser ser (RefAdmissionDecision (inv_id call) Allow)) limit) \<and>
   (evaluate_sidecar_invocation ser limit env call = Some (t, Returns (Inr v), cancelled) \<longleftrightarrow>
     \<not> cancelled \<and> \<not> retired_before env \<and> (\<nexists>r. retired_at env = Some r \<and> r \<le> t) \<and>
     node_invocation_is_portable call \<and>
     runtime_message_within_limit (ref_ser ser (RefInvoke (sidecar_invocation_from call))) limit \<and>
     adapter_ready_invoke env = Some (t, Returns (Inr (SidecarSuccess v))) \<and> portable_json_value v \<and>
     runtime_message_within_limit (ref_ser ser (RefResult (inv_id call) (SidecarSuccess v))) limit)"
  unfolding admission_open invocation_open bridge_open_def
  by (auto simp: first_of_Some not_le)

lemma first_of_deadline:
  obtains (due) "first_of (Some r) ready = Some (r, None)" "\<nexists>t x. ready = Some (t, x) \<and> t < r"
    | (early) t x where "first_of (Some r) ready = Some (t, Some x)" "t < r" "ready = Some (t, x)"
proof (cases "\<exists>t x. ready = Some (t, x) \<and> t < r")
  case True
  then show thesis using early by (auto simp: first_of_def)
next
  case False
  then show thesis using due by (cases ready) (auto simp: first_of_def)
qed

definition released_at ::
  "duration \<Rightarrow> bool \<Rightarrow> (duration \<times> 'a outcome) option \<Rightarrow> (duration \<times> (handler_error + 'b) outcome \<times> bool) option \<Rightarrow> bool" where
  "released_at r asked ready result \<longleftrightarrow>
     (\<exists>t x cancelled. result = Some (t, x, cancelled) \<and> t \<le> r \<and>
        (asked \<and> (\<nexists>t' y. ready = Some (t', y) \<and> t' < r) \<longrightarrow>
           t = r \<and> x = Returns (Inl channel_retired_error) \<and> cancelled))"

lemma admission_released:
  assumes "retired_at env = Some r"
  shows "released_at r (bridge_open ser limit env call (RefAdmissionRequest (sidecar_invocation_from call)))
    (adapter_ready_admit env) (evaluate_sidecar_admission ser limit env call)"
proof (cases "bridge_open ser limit env call (RefAdmissionRequest (sidecar_invocation_from call))")
  case True
  then show ?thesis
    by (cases rule: first_of_deadline [of r "adapter_ready_admit env"])
      (auto simp: released_at_def evaluate_sidecar_admission_def bridge_open_def assms Let_def
        split: outcome.splits)
next
  case False
  then show ?thesis by (auto simp: released_at_def evaluate_sidecar_admission_def bridge_open_def)
qed

lemma invocation_released:
  assumes "retired_at env = Some r"
  shows "released_at r (bridge_open ser limit env call (RefInvoke (sidecar_invocation_from call)))
    (adapter_ready_invoke env) (evaluate_sidecar_invocation ser limit env call)"
proof (cases "bridge_open ser limit env call (RefInvoke (sidecar_invocation_from call))")
  case True
  then show ?thesis
    by (cases rule: first_of_deadline [of r "adapter_ready_invoke env"])
      (auto simp: released_at_def evaluate_sidecar_invocation_def bridge_open_def assms Let_def
        split: outcome.splits)
next
  case False
  then show ?thesis by (auto simp: released_at_def evaluate_sidecar_invocation_def bridge_open_def)
qed

text \<open>
  C15. A retired channel releases every call: whatever the adapter does, both futures of the bridge
  are ready by the time the channel retires, and when the adapter was asked and has not answered
  before, with \<open>SIDECAR_CHANNEL_RETIRED\<close> and the invocation's token cancelled; on a channel that
  is retired already they give this answer at once.
\<close>

lemma retirement_releases_call:
  "(retired_before env \<longrightarrow>
     evaluate_sidecar_admission ser limit env call = Some (0, Returns (Inl channel_retired_error), True) \<and>
     evaluate_sidecar_invocation ser limit env call = Some (0, Returns (Inl channel_retired_error), True)) \<and>
   (\<forall>r. retired_at env = Some r \<longrightarrow>
     released_at r (bridge_open ser limit env call (RefAdmissionRequest (sidecar_invocation_from call)))
       (adapter_ready_admit env) (evaluate_sidecar_admission ser limit env call) \<and>
     released_at r (bridge_open ser limit env call (RefInvoke (sidecar_invocation_from call)))
       (adapter_ready_invoke env) (evaluate_sidecar_invocation ser limit env call))"
  by (auto intro: admission_released invocation_released)
    (simp_all add: evaluate_sidecar_admission_def evaluate_sidecar_invocation_def)

lemma retirement_releases_call_witness:
  "\<exists>env. retired_at env = Some 5 \<and> adapter_ready_invoke env = None \<and>
     evaluate_sidecar_invocation (\<lambda>m. \<lparr>chunks = [], refused = False\<rparr>) 9 env demo_call
       = Some (5, Returns (Inl channel_retired_error), True)"
proof -
  let ?env = "\<lparr>retired_before = False, retired_at = Some 5, adapter_ready_admit = None,
    adapter_ready_invoke = None\<rparr>"
  have p: "node_invocation_is_portable demo_call"
    by (simp add: node_invocation_is_portable_def demo_call_def invocation_new_def)
  then have o: "bridge_open (\<lambda>m. \<lparr>chunks = [], refused = False\<rparr>) 9 ?env demo_call
      (RefInvoke (sidecar_invocation_from demo_call))"
    by (simp add: bridge_open_def runtime_message_within_limit_iff ref_ser_def sidecar_invocation_portable_def
        sidecar_invocation_from_def portable_optional_u64_def node_invocation_is_portable_def)
  have "released_at 5 True (None :: (duration \<times> (sidecar_adapter_error + sidecar_invocation_result) outcome) option)
      (evaluate_sidecar_invocation (\<lambda>m. \<lparr>chunks = [], refused = False\<rparr>) 9 ?env demo_call)"
    using retirement_releases_call [of ?env "\<lambda>m. \<lparr>chunks = [], refused = False\<rparr>" 9 demo_call] o by simp
  then have "evaluate_sidecar_invocation (\<lambda>m. \<lparr>chunks = [], refused = False\<rparr>) 9 ?env demo_call
      = Some (5, Returns (Inl channel_retired_error), True)"
    by (auto simp: released_at_def)
  then show ?thesis by (intro exI [of _ ?env]) simp
qed

text \<open>
  A call of the runtime through the bridge: the environment of the evaluation in which the policy
  and the handler are the two futures above.
\<close>

definition bridge_env ::
  "(sidecar_runtime_message_ref \<Rightarrow> serialized) \<Rightarrow> nat \<Rightarrow> adapter_env \<Rightarrow> adapter_env \<Rightarrow> node_invocation \<Rightarrow>
   eval_env \<Rightarrow> eval_env" where
  "bridge_env ser limit admit_env invoke_env call env =
     env\<lparr>policy_panics := False,
        policy_ready := map_option (\<lambda>(t, x, _). (t, x)) (evaluate_sidecar_admission ser limit admit_env call),
        handler_panics := False,
        handler_ready := map_option (\<lambda>(t, x, _). (t, x)) (evaluate_sidecar_invocation ser limit invoke_env call)\<rparr>"

text \<open>
  C5. End to end: a call of an activated runtime that ends with a success was allowed by the product
  adapter and returns the very value the adapter returned for this invocation, which is portable and
  within both the payload limit of the channel and the configured output limit.
\<close>

lemma bridge_success_is_adapter_value:
  assumes "runs_configuration c limit liveness rt"
    and "evaluate_tracked js rt (bridge_env ser limit admit_env invoke_env call env) call = Some ev"
    and "ev_result ev = Success v"
  shows "(\<exists>t. adapter_ready_admit admit_env = Some (t, Returns (Inr Allow))) \<and>
    (\<exists>t. adapter_ready_invoke invoke_env = Some (t, Returns (Inr (SidecarSuccess v)))) \<and>
    \<not> retired_before admit_env \<and> \<not> retired_before invoke_env \<and>
    node_invocation_is_portable call \<and> portable_json_value v \<and>
    runtime_message_within_limit (ref_ser ser (RefResult (inv_id call) (SidecarSuccess v))) limit \<and>
    total_len (chunks (js v)) \<le> unat (cf_max_output_bytes c)"
proof -
  let ?env = "bridge_env ser limit admit_env invoke_env call env"
  have rt: "admission_policy rt \<noteq> None" "max_output_bytes rt = unat (cf_max_output_bytes c)"
    using assms(1) by (simp_all add: runs_configuration_def Let_def)
  have usize: "unat (cf_max_output_bytes c) \<le> usize_max"
    using unat_bounds(3) [of "cf_max_output_bytes c"] by (simp add: usize_max_def)
  obtain timeout0 t timeout b t' where
      adm: "evaluate_admission js rt ?env timeout0 = Some (t, Inr timeout, b)"
      and h: "handler_ready ?env = Some (t', Returns (Inr v))"
      and out: "serialized_json_within_limit (js v) (max_output_bytes rt)"
    by (rule success_execution [OF assms(2,3)])
  have "policy_ready ?env = Some (t, Returns (Inr ()))"
    using adm rt(1) by (auto simp: admission_Inr)
  then obtain k k' where
      "evaluate_sidecar_admission ser limit admit_env call = Some (t, Returns (Inr ()), k)"
      "evaluate_sidecar_invocation ser limit invoke_env call = Some (t', Returns (Inr v), k')"
    using h by (auto simp: bridge_env_def)
  then show ?thesis
    using out serialized_json_within_limit_iff [OF usize, of "js v"]
    by (auto simp: admission_open invocation_open bridge_open_def first_of_Some rt(2))
qed

lemma bridge_success_is_adapter_value_witness:
  "\<exists>(rt :: bridge_runtime) ev. evaluate_tracked (\<lambda>j. \<lparr>chunks = [], refused = False\<rparr>) rt
     (bridge_env (\<lambda>m. \<lparr>chunks = [], refused = False\<rparr>) 9
       \<lparr>retired_before = False, retired_at = None, adapter_ready_admit = Some (2, Returns (Inr Allow)),
        adapter_ready_invoke = None\<rparr>
       \<lparr>retired_before = False, retired_at = None, adapter_ready_admit = None,
        adapter_ready_invoke = Some (3, Returns (Inr (SidecarSuccess JNull)))\<rparr>
       (demo_call\<lparr>inv_command := ''a''\<rparr>) (demo_env\<lparr>session_commands := None\<rparr>))
     (demo_call\<lparr>inv_command := ''a''\<rparr>) = Some ev \<and>
     ev_result ev = Success JNull \<and> total_len [] \<le> unat (cf_max_output_bytes demo_config)"
proof -
  let ?js = "\<lambda>j. \<lparr>chunks = [], refused = False\<rparr>"
  let ?ser = "\<lambda>m. \<lparr>chunks = [], refused = False\<rparr>"
  let ?call = "demo_call\<lparr>inv_command := ''a''\<rparr>"
  let ?admit = "\<lparr>retired_before = False, retired_at = None, adapter_ready_admit = Some (2, Returns (Inr Allow)),
        adapter_ready_invoke = None\<rparr>"
  let ?invoke = "\<lparr>retired_before = False, retired_at = None, adapter_ready_admit = None,
        adapter_ready_invoke = Some (3, Returns (Inr (SidecarSuccess JNull)))\<rparr>"
  let ?env = "bridge_env ?ser 9 ?admit ?invoke ?call (demo_env\<lparr>session_commands := None\<rparr>)"
  obtain rt where rt: "runs_configuration demo_config 9 1 rt"
    using build_command_runtime_succeeds [OF demo_config_ok] by blast
  then have r: "map_of (handlers rt) ''a'' = Some \<lparr>rh_handler = \<lparr>bc_max_payload = 9, bc_liveness = 1\<rparr>, rh_duplex = False\<rparr>"
      "admission_policy rt = Some \<lparr>bc_max_payload = 9, bc_liveness = 1\<rparr>" "default_timeout rt = 10000000"
      "max_input_bytes rt = 50" "max_output_bytes rt = 80"
    by (simp_all add: runs_configuration_def Let_def demo_manifest_from demo_manifest_def from_millis_def)
      (simp_all add: demo_config_def)
  have p: "node_invocation_is_portable ?call"
    by (simp add: node_invocation_is_portable_def demo_call_def invocation_new_def)
  have "evaluate_sidecar_admission ?ser 9 ?admit ?call = Some (2, Returns (Inr ()), False)"
      "evaluate_sidecar_invocation ?ser 9 ?invoke ?call = Some (3, Returns (Inr JNull), False)"
    using p unfolding admission_open invocation_open
    by (simp_all add: bridge_open_def first_of_Some runtime_message_within_limit_iff ref_ser_def
        sidecar_invocation_portable_def sidecar_invocation_from_def portable_optional_u64_def
        node_invocation_is_portable_def)
  then have env: "policy_panics ?env = False" "policy_ready ?env = Some (2, Returns (Inr ()))"
      "handler_panics ?env = False" "handler_ready ?env = Some (3, Returns (Inr JNull))"
      "session_commands ?env = None" "elapsed_since_receipt ?env = Some 3" "cancelled_at ?env = None"
      "overflowed_before ?env = False" "cancelled_before ?env = False" "overflow_at ?env = None"
    by (simp_all add: bridge_env_def demo_env_def)
  have small: "serialized_json_within_limit \<lparr>chunks = [], refused = False\<rparr> n" if "n \<le> usize_max" for n
    using that by (simp add: serialized_json_within_limit_iff)
  have "evaluate_tracked ?js rt ?env ?call = Some (evaluation (Success JNull) 5 True False)"
    unfolding evaluate_tracked_def resolve_session_handler_def handler_entry_rejection_def evaluate_admission_def
      execute_handler_def env
    by (simp add: demo_call_def invocation_new_def r small usize_max_def resolve_timeout_def await_def first_of_def
        Let_def)
  then obtain ev where ev: "evaluate_tracked ?js rt ?env ?call = Some ev" "ev_result ev = Success JNull" by simp
  note f = bridge_success_is_adapter_value [OF rt ev]
  show ?thesis by (intro exI [of _ rt] exI [of _ ev]) (use ev f in simp)
qed

section \<open>Status reports\<close>

text \<open>
  The names serde gives states and reasons (\<open>rename_all = "kebab-case"\<close>), and the number of
  decimal digits of an integer.
\<close>

fun state_name :: "sidecar_runtime_state \<Rightarrow> string" where
  "state_name StateConfigured = ''configured''"
| "state_name StateConnecting = ''connecting''"
| "state_name StateReady = ''ready''"
| "state_name StateBackingOff = ''backing-off''"
| "state_name StatePaused = ''paused''"
| "state_name StateDraining = ''draining''"
| "state_name StateStopped = ''stopped''"

fun reason_name :: "sidecar_runtime_reason \<Rightarrow> string" where
  "reason_name ReasonTransport = ''transport''"
| "reason_name ReasonGateway = ''gateway''"
| "reason_name ReasonRequestTimeout = ''request-timeout''"
| "reason_name ReasonEventLagged = ''event-lagged''"
| "reason_name ReasonActivation = ''activation''"
| "reason_name ReasonDeliverySaturated = ''delivery-saturated''"
| "reason_name ReasonResultTask = ''result-task''"
| "reason_name ReasonRuntimeEnded = ''runtime-ended''"
| "reason_name ReasonShutdown = ''shutdown''"
| "reason_name ReasonPairing = ''pairing''"
| "reason_name ReasonAuthentication = ''authentication''"
| "reason_name ReasonProtocol = ''protocol''"
| "reason_name ReasonConfiguration = ''configuration''"
| "reason_name ReasonIdentity = ''identity''"

fun digits :: "nat \<Rightarrow> nat" where
  "digits n = (if n < 10 then 1 else Suc (digits (n div 10)))"

declare digits.simps [simp del]

lemma digits_mono: "m \<le> n \<Longrightarrow> digits m \<le> digits n"
proof (induction n arbitrary: m rule: digits.induct)
  case (1 n)
  show ?case
  proof (cases "m < 10")
    case True
    then show ?thesis by (simp add: digits.simps [of m] digits.simps [of n])
  next
    case False
    then have "digits (m div 10) \<le> digits (n div 10)"
      using 1 by (intro "1.IH") (auto intro: div_le_mono)
    then show ?thesis using False 1(2) by (simp add: digits.simps [of m] digits.simps [of n])
  qed
qed

text \<open>
  What \<open>serde_json\<close> documents of the text of a status report: fixed keys and punctuation, the
  generation and the version, and as variable parts the quoted state name, the digits of the attempt,
  and \<open>null\<close> or the quoted reason name; it does not refuse one.
\<close>

definition status_text_length :: "(u64 \<Rightarrow> string \<Rightarrow> nat) \<Rightarrow> sidecar_runtime_status \<Rightarrow> nat" where
  "status_text_length fixed_part st =
     fixed_part (st_manifest_generation st) (st_runtime_version st) + length (state_name (st_state st)) + 2 +
     digits (unat (st_attempt st)) +
     (case st_reason st of None \<Rightarrow> 4 | Some reason \<Rightarrow> length (reason_name reason) + 2)"

definition status_codec :: "(u64 \<Rightarrow> string \<Rightarrow> nat) \<Rightarrow> (sidecar_runtime_message \<Rightarrow> serialized) \<Rightarrow> bool" where
  "status_codec fixed_part ser \<longleftrightarrow>
     (\<forall>st. \<not> refused (ser (MsgStatus st)) \<and>
        total_len (chunks (ser (MsgStatus st))) = status_text_length fixed_part st)"

lemma state_name_bound: "length (state_name st) \<le> length (state_name StateBackingOff)"
  by (cases st) simp_all

lemma reason_name_bound: "length (reason_name r) \<le> length (reason_name ReasonDeliverySaturated)"
  by (cases r) simp_all

lemma worst_status_is_worst:
  assumes "st_attempt st \<le> MAX_PORTABLE_JSON_INTEGER"
  shows "status_text_length f st
    \<le> status_text_length f (worst_status (st_runtime_version st) (st_manifest_generation st))"
proof -
  have "digits (unat (st_attempt st)) \<le> digits (unat MAX_PORTABLE_JSON_INTEGER)"
    using assms by (intro digits_mono) (simp add: word_le_nat_alt)
  moreover have "(case st_reason st of None \<Rightarrow> 4 | Some reason \<Rightarrow> length (reason_name reason) + 2)
      \<le> length (reason_name ReasonDeliverySaturated) + 2"
    using reason_name_bound by (auto split: option.split)
  ultimately show ?thesis
    using state_name_bound [of "st_state st"]
    by (simp add: status_text_length_def worst_status_def)
qed

text \<open>What observing lifecycle events keeps of a bridge.\<close>

definition status_ok :: "sidecar_runtime_bridge \<Rightarrow> string \<Rightarrow> bool" where
  "status_ok br version \<longleftrightarrow> st_manifest_generation (br_status br) = mf_manifest_generation (br_manifest br) \<and>
     st_runtime_version (br_status br) = version \<and> st_attempt (br_status br) \<le> MAX_PORTABLE_JSON_INTEGER"

lemma observe_ok:
  "status_ok br version \<Longrightarrow> status_ok (observe_lifecycle e br) version \<and>
   br_manifest (observe_lifecycle e br) = br_manifest br \<and> br_runtime (observe_lifecycle e br) = br_runtime br"
  by (simp add: status_ok_def observe_lifecycle_def split: prod.split)

lemma observe_all_ok:
  "status_ok br version \<Longrightarrow> status_ok (fold observe_lifecycle es br) version \<and>
   br_manifest (fold observe_lifecycle es br) = br_manifest br"
proof (induction es arbitrary: br)
  case (Cons e es)
  show ?case using Cons.IH [of "observe_lifecycle e br"] observe_ok [OF Cons.prems, of e] by simp
qed simp

text \<open>
  C13. Every status can be reported: after activation, whatever lifecycle events are observed, the
  status message is portable and fits the payload limit the exchange has checked, for any attempt
  number of 64 bits and every reason; the worst case \<open>validate_status_budget\<close> measures is the
  worst.
\<close>

lemma status_always_fits:
  assumes "exchange_invar js ser ex" and "bridge_activate ex ch = (Inr br, ex', ch')"
    and "status_codec fixed_part ser"
  shows "\<exists>limit. ex_max_payload_bytes ex = Some limit \<and>
    runtime_message_within_limit (runtime_ser ser (status_message (fold observe_lifecycle events br))) limit"
proof -
  obtain c limit where c: "ex_configuration ex = Some c" "ex_max_payload_bytes ex = Some limit"
      "ex_state ex = CfgConfigured" "br_manifest br = manifest_from_configuration c"
      "br_status br = \<lparr>st_state = StateConfigured, st_manifest_generation = cf_manifest_generation c,
         st_runtime_version = ex_runtime_version ex, st_attempt = 0, st_reason = None\<rparr>"
    using assms(2) by (auto simp: activate_Inr)
  let ?br = "fold observe_lifecycle events br"
  let ?worst = "worst_status (ex_runtime_version ex) (cf_manifest_generation c)"
  have budget: "runtime_message_within_limit (runtime_ser ser (MsgStatus ?worst)) limit"
    using assms(1) c(1-3) by (auto simp: exchange_invar_def configures_def status_budget_ok)
  have "status_ok br (ex_runtime_version ex)"
    by (simp add: status_ok_def c(4,5) manifest_from_configuration_def)
  then have ok: "status_ok ?br (ex_runtime_version ex)" "br_manifest ?br = manifest_from_configuration c"
    using observe_all_ok c(4) by simp_all
  then have st: "st_attempt (br_status ?br) \<le> MAX_PORTABLE_JSON_INTEGER"
      "st_runtime_version (br_status ?br) = ex_runtime_version ex"
      "st_manifest_generation (br_status ?br) = cf_manifest_generation c"
    by (simp_all add: status_ok_def manifest_from_configuration_def)
  have "runtime_message_within_limit (runtime_ser ser (MsgStatus (br_status ?br))) limit"
    using budget worst_status_is_worst [OF st(1), of fixed_part] assms(3) st
    by (auto simp: runtime_message_within_limit_iff runtime_ser_def status_codec_def portable_u64_def
        worst_status_def)
  then show ?thesis using c(2) by (simp add: status_message_def)
qed

definition demo_status_ser :: "sidecar_runtime_message \<Rightarrow> serialized" where
  "demo_status_ser m = \<lparr>chunks = [case m of MsgStatus st \<Rightarrow> replicate (status_text_length (\<lambda>_ _. 0) st) 0 | _ \<Rightarrow> [1]],
     refused = False\<rparr>"

lemma status_always_fits_witness:
  "\<exists>br ex' ch'. bridge_activate demo_configured (demo_channel Runtime) = (Inr br, ex', ch') \<and>
     runtime_message_within_limit (runtime_ser demo_status_ser (status_message
       (fold observe_lifecycle [Connecting (- 1), Paused (- 1) LocalIdentity] br))) 64"
proof -
  obtain br ex' ch' where a: "bridge_activate demo_configured (demo_channel Runtime) = (Inr br, ex', ch')"
    using demo_activation by blast
  have codec: "status_codec (\<lambda>_ _. 0) demo_status_ser"
    by (simp add: status_codec_def demo_status_ser_def)
  have "configures demo_js demo_status_ser demo_config 64 (demo_exchange Runtime)"
    unfolding configures_def validate_configuration_ok status_budget_ok
    using demo_config_ok [of Runtime]
    by (simp add: demo_exchange_def selection_from_def runtime_message_within_limit_iff runtime_ser_def
        demo_status_ser_def worst_status_def portable_u64_def demo_config_def status_text_length_def
        unat_max_portable digits.simps)
      (simp add: MAX_PORTABLE_JSON_INTEGER_def SIDECAR_MAX_FEATURE_BITS_def)
  then have "exchange_invar demo_js demo_status_ser demo_configured"
    by (simp add: demo_configured_def exchange_invar_def role_states_def demo_exchange_def max_payload_bytes_def
        demo_channel_def)
  from status_always_fits [OF this a codec, of "[Connecting (- 1), Paused (- 1) LocalIdentity]"] a
  show ?thesis by (simp add: demo_configured_def max_payload_bytes_def demo_channel_def)
qed

end
