(* ===== verification/HealthServer.thy ===== *)
theory HealthServer
  imports Json
begin

text \<open>
  The local health endpoint of the host (\<open>host.rs\<close>): reading a request line from a stream that
  arrives in pieces, the response, and the accept loop with its permits. The serialization of the response
  body is \<open>serde_json\<close>'s, a parameter; a written response is the bytes given to the stream.
\<close>

section \<open>UTF-8\<close>

text \<open>\<open>str::from_utf8\<close>: the well-formed byte sequences of the Unicode standard.\<close>

definition utf8_tail :: "char \<Rightarrow> bool" where
  "utf8_tail c = (128 \<le> char_code c \<and> char_code c \<le> 191)"

definition utf8_second3 :: "nat \<Rightarrow> char \<Rightarrow> bool" where
  "utf8_second3 a c =
     (if a = 224 then 160 \<le> char_code c \<and> char_code c \<le> 191
      else if a = 237 then 128 \<le> char_code c \<and> char_code c \<le> 159 else utf8_tail c)"

definition utf8_second4 :: "nat \<Rightarrow> char \<Rightarrow> bool" where
  "utf8_second4 a c =
     (if a = 240 then 144 \<le> char_code c \<and> char_code c \<le> 191
      else if a = 244 then 128 \<le> char_code c \<and> char_code c \<le> 143 else utf8_tail c)"

function utf8_valid :: "string \<Rightarrow> bool" where
  "utf8_valid [] = True"
| "utf8_valid (a # s) =
     (let n = char_code a in
      if n < 128 then utf8_valid s
      else if 194 \<le> n \<and> n \<le> 223 then 1 \<le> length s \<and> utf8_tail (s ! 0) \<and> utf8_valid (drop 1 s)
      else if 224 \<le> n \<and> n \<le> 239
        then 2 \<le> length s \<and> utf8_second3 n (s ! 0) \<and> utf8_tail (s ! 1) \<and> utf8_valid (drop 2 s)
      else if 240 \<le> n \<and> n \<le> 244
        then 3 \<le> length s \<and> utf8_second4 n (s ! 0) \<and> utf8_tail (s ! 1) \<and> utf8_tail (s ! 2) \<and> utf8_valid (drop 3 s)
      else False)"
  by pat_completeness auto
termination
  by (relation "measure length") auto

definition chars_of :: "bytes \<Rightarrow> string" where
  "chars_of bs = map (\<lambda>b. char_of (unat b)) bs"

definition from_utf8 :: "bytes \<Rightarrow> string option" where
  "from_utf8 bs = (if utf8_valid (chars_of bs) then Some (chars_of bs) else None)"

section \<open>Lines and words\<close>

text \<open>The first item of \<open>str::lines\<close>: up to a line feed, without a carriage return before it.\<close>

definition line_feed :: char where "line_feed = char_of (10 :: nat)"
definition carriage_return :: char where "carriage_return = char_of (13 :: nat)"

definition first_line :: "string \<Rightarrow> string option" where
  "first_line s =
     (if s = [] then None
      else
        let line = takeWhile (\<lambda>c. c \<noteq> line_feed) s in
        Some (if line_feed \<in> set s \<and> line \<noteq> [] \<and> last line = carriage_return then butlast line else line))"

definition is_ascii_whitespace :: "char \<Rightarrow> bool" where
  "is_ascii_whitespace c = (char_code c \<in> {9, 10, 12, 13, 32})"

text \<open>\<open>str::split_ascii_whitespace\<close>.\<close>

function split_ascii_whitespace :: "string \<Rightarrow> string list" where
  "split_ascii_whitespace s =
     (let rest = dropWhile is_ascii_whitespace s in
      if rest = [] then []
      else takeWhile (\<lambda>c. \<not> is_ascii_whitespace c) rest
        # split_ascii_whitespace (dropWhile (\<lambda>c. \<not> is_ascii_whitespace c) rest))"
  by pat_completeness auto
termination
proof (relation "measure length")
  fix s :: string and rest
  assume r: "rest = dropWhile is_ascii_whitespace s" "rest \<noteq> []"
  then obtain c cs where c: "rest = c # cs" "\<not> is_ascii_whitespace c" by (metis hd_dropWhile list.exhaust_sel)
  have "length rest \<le> length s" using r(1) length_dropWhile_le by simp
  moreover have "length (dropWhile (\<lambda>c. \<not> is_ascii_whitespace c) cs) \<le> length cs" by (rule length_dropWhile_le)
  ultimately show "(dropWhile (\<lambda>c. \<not> is_ascii_whitespace c) rest, s) \<in> measure length" using c by simp
qed simp

declare split_ascii_whitespace.simps [simp del]

section \<open>Reading the request line\<close>

text \<open>
  What reading from the stream gives: bytes that arrived (none is the end of the stream) or an error. A read takes
  at most what the buffer has room for and leaves the rest. A request that has no result after the
  events there are still waits.
\<close>

datatype io_error = TimedOut | InvalidData | OtherIo string

datatype read_event = ReadBytes bytes | ReadFails io_error

definition REQUEST_BUFFER :: nat where "REQUEST_BUFFER = 4096"

definition request_read :: "bytes \<Rightarrow> io_error + bytes" where
  "request_read buffer =
     (if length buffer = REQUEST_BUFFER \<and> 10 \<notin> set buffer then Inl InvalidData else Inr buffer)"

function read_request_line :: "read_event list \<Rightarrow> bytes \<Rightarrow> (io_error + bytes) option" where
  "read_request_line events buffer =
     (if REQUEST_BUFFER \<le> length buffer then Some (request_read buffer)
      else case events of
        [] \<Rightarrow> None
      | ReadFails e # rest \<Rightarrow> Some (Inl e)
      | ReadBytes bs # rest \<Rightarrow>
          let room = REQUEST_BUFFER - length buffer;
              buffer' = buffer @ take room bs;
              events' = (if room < length bs then ReadBytes (drop room bs) # rest else rest) in
          if bs = [] then Some (request_read buffer)
          else if 10 \<in> set buffer' then Some (Inr buffer')
          else read_request_line events' buffer')"
  by pat_completeness auto
termination
proof (relation "measure (\<lambda>(events, buffer). REQUEST_BUFFER - length buffer)")
  fix events buffer x21 rest bs room buffer' events'
  assume "\<not> REQUEST_BUFFER \<le> length (buffer :: bytes)" "room = REQUEST_BUFFER - length buffer"
    "buffer' = buffer @ take room bs" "(bs :: bytes) \<noteq> []"
  then show "((events', buffer'), (events, buffer)) \<in> measure (\<lambda>(events, buffer). REQUEST_BUFFER - length buffer)"
    by (cases bs) auto
qed simp

declare read_request_line.simps [simp del]

section \<open>A request\<close>

definition health_route :: "string \<Rightarrow> string \<Rightarrow> bool \<Rightarrow> string \<times> json" where
  "health_route method path ready =
     (if method = ''GET'' \<and> path = ''/healthz'' then (''200 OK'', JObject [(''status'', JString ''ok'')])
      else if method = ''GET'' \<and> path = ''/readyz'' \<and> ready then (''200 OK'', JObject [(''ready'', JBool True)])
      else if method = ''GET'' \<and> path = ''/readyz''
        then (''503 Service Unavailable'', JObject [(''ready'', JBool False)])
      else if method = ''GET'' then (''404 Not Found'', JObject [(''error'', JString ''not found'')])
      else (''405 Method Not Allowed'', JObject [(''error'', JString ''method not allowed'')]))"

definition crlf :: string where "crlf = [carriage_return, line_feed]"

definition health_response :: "(json \<Rightarrow> string) \<Rightarrow> string \<times> json \<Rightarrow> string" where
  "health_response to_vec answer =
     (case answer of (status, body) \<Rightarrow>
        let text = to_vec body in
        ''HTTP/1.1 '' @ status @ crlf @ ''Content-Type: application/json'' @ crlf @ ''Content-Length: '' @
        show_nat (length text) @ crlf @ ''Connection: close'' @ crlf @ crlf @ text)"

definition request_parts :: "bytes \<Rightarrow> string \<times> string" where
  "request_parts request =
     (let line = (case Option.bind (from_utf8 request) first_line of None \<Rightarrow> [] | Some line \<Rightarrow> line);
          parts = split_ascii_whitespace line in
      (if parts = [] then [] else hd parts, if length parts < 2 then [] else parts ! 1))"

text \<open>
  One request. The events are what arrives within the two seconds; without a result by then the read times
  out. The result is the response to write, none before the request is read, and the error met: reading it, or
  writing the response, of which a beginning may then have been sent.
\<close>

definition serve_health_request ::
  "(json \<Rightarrow> string) \<Rightarrow> bool \<Rightarrow> read_event list \<Rightarrow> io_error option \<Rightarrow> string \<times> (io_error + unit)" where
  "serve_health_request to_vec ready events write_error =
     (case read_request_line events [] of
        None \<Rightarrow> ([], Inl TimedOut)
      | Some (Inl e) \<Rightarrow> ([], Inl e)
      | Some (Inr request) \<Rightarrow>
          (case request_parts request of (method, path) \<Rightarrow>
             (health_response to_vec (health_route method path ready),
              case write_error of None \<Rightarrow> Inr () | Some e \<Rightarrow> Inl e)))"

section \<open>The accept loop\<close>

text \<open>A log record: level, event, fields.\<close>

type_synonym log_record = "string \<times> string \<times> json"

definition MAX_HEALTH_CONNECTIONS :: nat where "MAX_HEALTH_CONNECTIONS = 8"
definition MAX_CONSECUTIVE_HEALTH_ACCEPT_ERRORS :: nat where "MAX_CONSECUTIVE_HEALTH_ACCEPT_ERRORS = 3"

text \<open>
  A running request holds a permit until the loop has joined it; one that panics frees it already when its task
  unwinds, which is a moment before and only makes room earlier. \<open>hl_ended\<close> is the error the loop returned.
\<close>

record health_loop =
  hl_running :: nat
  hl_accept_errors :: nat
  hl_log :: "log_record list"
  hl_ended :: "io_error option"

definition health_loop_start :: health_loop where
  "health_loop_start = \<lparr>hl_running = 0, hl_accept_errors = 0, hl_log = [], hl_ended = None\<rparr>"

datatype request_end = RequestServed | RequestFailed string | RequestPanicked | RequestAborted

text \<open>The branches of the loop: a connection, a failed \<open>accept\<close> with its error and kind, a finished request.\<close>

datatype health_event = ConnectionAccepted | AcceptFailed io_error string | RequestEnded request_end

fun request_end_log :: "request_end \<Rightarrow> log_record list" where
  "request_end_log RequestServed = []"
| "request_end_log (RequestFailed kind) =
     [(''warn'', ''health.request_failed'', JObject [(''errorClass'', JString kind)])]"
| "request_end_log RequestPanicked =
     [(''warn'', ''health.request_failed'', JObject [(''errorClass'', JString ''panic'')])]"
| "request_end_log RequestAborted =
     [(''warn'', ''health.request_failed'', JObject [(''errorClass'', JString ''cancelled'')])]"

definition on_accept :: "health_loop \<Rightarrow> health_loop" where
  "on_accept s =
     (let s = s\<lparr>hl_accept_errors := 0\<rparr> in
      if hl_running s < MAX_HEALTH_CONNECTIONS then s\<lparr>hl_running := hl_running s + 1\<rparr>
      else s\<lparr>hl_log := hl_log s @ [(''warn'', ''health.saturated'',
        JObject [(''limit'', JNumber (PosInt (word_of_nat MAX_HEALTH_CONNECTIONS)))])]\<rparr>)"

definition on_accept_error :: "io_error \<Rightarrow> string \<Rightarrow> health_loop \<Rightarrow> health_loop" where
  "on_accept_error e kind s =
     (let errors = hl_accept_errors s + 1;
          s = s\<lparr>hl_accept_errors := errors, hl_log := hl_log s @ [(''warn'', ''health.accept_failed'',
            JObject [(''attempt'', JNumber (PosInt (word_of_nat errors))), (''errorClass'', JString kind)])]\<rparr> in
      if errors \<ge> MAX_CONSECUTIVE_HEALTH_ACCEPT_ERRORS then s\<lparr>hl_ended := Some e\<rparr> else s)"

definition health_step :: "health_event \<Rightarrow> health_loop \<Rightarrow> health_loop" where
  "health_step event s =
     (if hl_ended s \<noteq> None then s
      else case event of
        ConnectionAccepted \<Rightarrow> on_accept s
      | AcceptFailed e kind \<Rightarrow> on_accept_error e kind s
      | RequestEnded outcome \<Rightarrow>
          if hl_running s = 0 then s
          else s\<lparr>hl_running := hl_running s - 1, hl_log := hl_log s @ request_end_log outcome\<rparr>)"

definition health_run :: "health_event list \<Rightarrow> health_loop" where
  "health_run events = fold health_step events health_loop_start"

section \<open>Reading in pieces\<close>

lemma read_request_line_prefix:
  assumes "10 \<in> set (take REQUEST_BUFFER (buffer @ concat pieces))" and "10 \<notin> set buffer"
    and "\<forall>c \<in> set pieces. c \<noteq> []"
  shows "\<exists>request tail. read_request_line (map ReadBytes pieces @ later) buffer = Some (Inr request) \<and>
    buffer @ concat pieces = request @ tail \<and> 10 \<in> set request"
  using assms
proof (induction pieces arbitrary: buffer)
  case Nil
  then show ?case by (auto dest: in_set_takeD)
next
  case (Cons c pieces)
  have short: "length buffer < REQUEST_BUFFER"
  proof (rule ccontr)
    assume "\<not> length buffer < REQUEST_BUFFER"
    then show False using Cons.prems(1,2) by (auto dest: in_set_takeD)
  qed
  let ?room = "REQUEST_BUFFER - length buffer"
  show ?case
  proof (cases "10 \<in> set (buffer @ take ?room c)")
    case True
    then have "read_request_line (map ReadBytes (c # pieces) @ later) buffer = Some (Inr (buffer @ take ?room c))"
      using short Cons.prems(3) by (subst read_request_line.simps) (simp add: Let_def)
    then show ?thesis using True by (intro exI [of _ "buffer @ take ?room c"] exI [of _ "drop ?room c @ concat pieces"]) simp
  next
    case False
    have fits: "\<not> ?room < length c"
    proof
      assume "?room < length c"
      then have "take REQUEST_BUFFER (buffer @ concat (c # pieces)) = buffer @ take ?room c"
        using short by simp
      then show False using False Cons.prems(1) by simp
    qed
    then have "read_request_line (map ReadBytes (c # pieces) @ later) buffer =
        read_request_line (map ReadBytes pieces @ later) (buffer @ c)"
      using short Cons.prems(3) False by (subst read_request_line.simps) (simp add: Let_def)
    then show ?thesis using Cons.IH [of "buffer @ c"] Cons.prems False fits by simp
  qed
qed

lemma utf8_valid_ascii: "\<forall>c \<in> set s. char_code c < 128 \<Longrightarrow> utf8_valid s"
  by (induction s) simp_all

lemma chars_of_as_bytes [simp]: "chars_of (as_bytes s) = s"
proof -
  have "char_of (unat (word_of_nat (char_code c) :: u8)) = c" for c
    using char_code_bound [of c] by (simp add: unat_of_nat take_bit_eq_mod char_code_def)
  then show ?thesis by (simp add: chars_of_def as_bytes_def map_idI)
qed

lemma newline_byte: "10 \<in> set (as_bytes s) \<longleftrightarrow> line_feed \<in> set s"
proof -
  have "(10 :: u8) = word_of_nat (char_code c) \<longleftrightarrow> c = line_feed" for c
    using u8_of_char_code_inject [of line_feed c] by (auto simp: line_feed_def char_code_def)
  then show ?thesis unfolding as_bytes_def by (auto simp: image_iff)
qed

lemma as_bytes_split: "as_bytes s = xs @ ys \<Longrightarrow> \<exists>t u. s = t @ u \<and> xs = as_bytes t \<and> ys = as_bytes u"
  by (auto simp: as_bytes_def map_eq_append_conv)

section \<open>Properties\<close>

text \<open>The two words at the start of a line.\<close>

definition word_text :: "string \<Rightarrow> bool" where
  "word_text w \<longleftrightarrow> w \<noteq> [] \<and> (\<forall>c \<in> set w. \<not> is_ascii_whitespace c \<and> char_code c < 128)"

lemma word_text_takeWhile:
  assumes "word_text w" and "rest = [] \<or> is_ascii_whitespace (hd rest)"
  shows "takeWhile (\<lambda>c. \<not> is_ascii_whitespace c) (w @ rest) = w"
    and "dropWhile (\<lambda>c. \<not> is_ascii_whitespace c) (w @ rest) = rest"
    and "dropWhile is_ascii_whitespace (w @ rest) = w @ rest"
proof -
  have w: "\<forall>c \<in> set w. \<not> is_ascii_whitespace c" "w \<noteq> []" using assms(1) by (auto simp: word_text_def)
  have r: "takeWhile (\<lambda>c. \<not> is_ascii_whitespace c) rest = []" "dropWhile (\<lambda>c. \<not> is_ascii_whitespace c) rest = rest"
    using assms(2) by (cases rest; simp)+
  show "takeWhile (\<lambda>c. \<not> is_ascii_whitespace c) (w @ rest) = w" using w r by (simp add: takeWhile_append2)
  show "dropWhile (\<lambda>c. \<not> is_ascii_whitespace c) (w @ rest) = rest" using w r by (simp add: dropWhile_append2)
  show "dropWhile is_ascii_whitespace (w @ rest) = w @ rest" using w by (cases w) simp_all
qed

lemma split_first_word:
  assumes "word_text w" and "rest = [] \<or> is_ascii_whitespace (hd rest)"
  shows "split_ascii_whitespace (w @ rest) = w # split_ascii_whitespace rest"
  using word_text_takeWhile [OF assms] assms(1)
  by (subst split_ascii_whitespace.simps) (simp add: Let_def word_text_def)

lemma split_space: "is_ascii_whitespace c \<Longrightarrow> split_ascii_whitespace (c # s) = split_ascii_whitespace s"
  by (subst (1 2) split_ascii_whitespace.simps) simp

lemma space_whitespace: "is_ascii_whitespace (CHR '' '')"
  by (simp add: is_ascii_whitespace_def char_code_def)

lemma prefix_past:
  assumes "xs @ x # ys = t @ u" and "x \<notin> set xs" and "x \<in> set t"
  shows "\<exists>v. t = xs @ x # v"
  using assms by (auto simp: append_eq_append_conv2 append_eq_Cons_conv Cons_eq_append_conv)

lemma split_request_line:
  assumes "word_text method" and "word_text path" and "after = [] \<or> is_ascii_whitespace (hd after)"
  shows "split_ascii_whitespace (method @ '' '' @ path @ after) = method # path # split_ascii_whitespace after"
  using split_first_word [OF assms(1), of "'' '' @ path @ after"] split_first_word [OF assms(2,3)]
    split_space [OF space_whitespace, of "path @ after"] space_whitespace
  by simp

text \<open>The parts of a buffer that holds such a line.\<close>

lemma request_parts_line:
  assumes "word_text method" and "word_text path" and "after = [] \<or> is_ascii_whitespace (hd after)"
    and "\<forall>c \<in> set (after @ tail). char_code c < 128" and "line_feed \<notin> set after"
  shows "request_parts (as_bytes (method @ '' '' @ path @ after @ line_feed # tail)) = (method, path)"
proof -
  let ?line = "method @ '' '' @ path @ after"
  let ?text = "?line @ line_feed # tail"
  have ws: "is_ascii_whitespace line_feed" "is_ascii_whitespace carriage_return"
    by (simp_all add: is_ascii_whitespace_def line_feed_def carriage_return_def char_code_def)
  have no_lf: "line_feed \<notin> set ?line"
    using assms(1,2,5) ws(1) by (auto simp: word_text_def) (simp add: line_feed_def char_of_def)
  have small: "char_code line_feed < 128" "char_code (CHR '' '') < 128" by (simp_all add: line_feed_def char_code_def)
  have "\<forall>c \<in> set ?text. char_code c < 128" using assms(1,2,4) small by (auto simp: word_text_def)
  then have "utf8_valid ?text" by (rule utf8_valid_ascii)
  then have u: "from_utf8 (as_bytes ?text) = Some ?text" by (simp add: from_utf8_def)
  have "takeWhile (\<lambda>c. c \<noteq> line_feed) ?line = ?line"
    using no_lf by (intro takeWhile_eq_all_conv [THEN iffD2]) auto
  then have tw: "takeWhile (\<lambda>c. c \<noteq> line_feed) ?text = ?line"
    using no_lf by (subst takeWhile_append2) auto
  have "\<exists>after'. (after' = [] \<or> is_ascii_whitespace (hd after')) \<and> first_line ?text = Some (method @ '' '' @ path @ after')"
  proof (cases "last ?line = carriage_return")
    case True
    have "last path \<noteq> carriage_return" using assms(2) ws(2) last_in_set [of path] by (metis word_text_def)
    then have "after \<noteq> []" using True assms(2) by (auto simp: word_text_def)
    then have "butlast ?line = method @ '' '' @ path @ butlast after" by (simp add: butlast_append)
    moreover have "butlast after = [] \<or> is_ascii_whitespace (hd (butlast after))"
      using assms(3) by (cases after) auto
    ultimately show ?thesis using True tw unfolding first_line_def Let_def by (intro exI [of _ "butlast after"]) simp
  next
    case False
    then show ?thesis using tw assms(3) unfolding first_line_def Let_def by (intro exI [of _ after]) simp
  qed
  then obtain after' where a: "after' = [] \<or> is_ascii_whitespace (hd after')"
    and l: "first_line ?text = Some (method @ '' '' @ path @ after')" by blast
  have b: "Option.bind (from_utf8 (as_bytes (method @ '' '' @ path @ after @ line_feed # tail))) first_line =
      Some (method @ '' '' @ path @ after')"
    using u l by simp
  show ?thesis
    unfolding request_parts_def b option.case Let_def split_request_line [OF assms(1,2) a] by simp
qed

text \<open>
  A health request is answered by its method and path however it arrives: when the bytes of a request line
  within the buffer arrive in any pieces (ASCII, with anything ASCII after the line), the response is that of the route
  of the first two words.
\<close>

lemma health_request_routed:
  assumes "word_text method" and "word_text path" and "after = [] \<or> is_ascii_whitespace (hd after)"
    and "\<forall>c \<in> set (after @ tail). char_code c < 128" and "line_feed \<notin> set after"
    and "length (method @ '' '' @ path @ after) < REQUEST_BUFFER"
    and "concat pieces = as_bytes (method @ '' '' @ path @ after @ line_feed # tail)" and "\<forall>p \<in> set pieces. p \<noteq> []"
  shows "serve_health_request to_vec ready (map ReadBytes pieces @ later) write_error =
    (health_response to_vec (health_route method path ready), case write_error of None \<Rightarrow> Inr () | Some e \<Rightarrow> Inl e)"
proof -
  let ?line = "method @ '' '' @ path @ after"
  have ws_lf: "is_ascii_whitespace line_feed" by (simp add: is_ascii_whitespace_def line_feed_def char_code_def)
  have no_lf: "line_feed \<notin> set ?line"
    using assms(1,2,5) ws_lf by (auto simp: word_text_def) (simp add: line_feed_def char_of_def)
  have p: "concat pieces = as_bytes (?line @ [line_feed]) @ as_bytes tail" using assms(7) by (simp add: as_bytes_def)
  have "length (as_bytes (?line @ [line_feed])) \<le> REQUEST_BUFFER" using assms(6) by (simp add: as_bytes_def)
  then have "set (as_bytes (?line @ [line_feed])) \<subseteq> set (take REQUEST_BUFFER (concat pieces))"
    unfolding p take_append by (simp add: take_all)
  moreover have "10 \<in> set (as_bytes (?line @ [line_feed]))" unfolding newline_byte by simp
  ultimately obtain request rest where r: "read_request_line (map ReadBytes pieces @ later) [] = Some (Inr request)"
      "concat pieces = request @ rest" "10 \<in> set request"
    using read_request_line_prefix [of "[]" pieces later] assms(8) by auto
  then obtain t u where t: "?line @ line_feed # tail = t @ u" "request = as_bytes t"
    using assms(7) as_bytes_split [of "?line @ line_feed # tail" request rest] by auto
  then have "line_feed \<in> set t" using r(3) newline_byte by simp
  then obtain v where v: "t = ?line @ line_feed # v"
    using prefix_past [of ?line line_feed tail t u] t(1) no_lf by blast
  then have "set v \<subseteq> set tail" using t(1) by auto
  then have "request_parts request = (method, path)"
    using request_parts_line [OF assms(1-3) _ assms(5), of v] assms(4) t(2) v by auto
  then show ?thesis using r(1) by (simp add: serve_health_request_def)
qed

lemma health_request_routed_witness:
  "fst (serve_health_request (\<lambda>body. ''{}'') False
     [ReadBytes (as_bytes ''GET /re''), ReadBytes (as_bytes (''adyz HTTP/1.1'' @ crlf))] None) =
   health_response (\<lambda>body. ''{}'') (''503 Service Unavailable'', JObject [(''ready'', JBool False)])"
proof -
  have c: "carriage_return = CHR 0x0D" "line_feed = CHR 0x0A" by code_simp+
  have "serve_health_request (\<lambda>body. ''{}'') False
      (map ReadBytes [as_bytes ''GET /re'', as_bytes (''adyz HTTP/1.1'' @ crlf)] @ []) None =
    (health_response (\<lambda>body. ''{}'') (health_route ''GET'' ''/readyz'' False), case None of None \<Rightarrow> Inr () | Some e \<Rightarrow> Inl e)"
    by (rule health_request_routed [where after = "'' HTTP/1.1'' @ [carriage_return]" and tail = "[]"])
      (simp_all add: word_text_def is_ascii_whitespace_def char_code_def c crlf_def as_bytes_def REQUEST_BUFFER_def)
  then show ?thesis by (simp add: health_route_def)
qed

text \<open>The accepts that failed at the end of a sequence of events, given from the last one backwards.\<close>

fun accept_errors_of :: "health_event list \<Rightarrow> nat" where
  "accept_errors_of [] = 0"
| "accept_errors_of (AcceptFailed e kind # earlier) = Suc (accept_errors_of earlier)"
| "accept_errors_of (ConnectionAccepted # earlier) = 0"
| "accept_errors_of (RequestEnded outcome # earlier) = accept_errors_of earlier"

lemma all_prefixes_snoc:
  "(\<forall>k \<le> length (xs @ [x]). P (take k (xs @ [x]))) \<longleftrightarrow> (\<forall>k \<le> length xs. P (take k xs)) \<and> P (xs @ [x])"
  by (auto simp: le_Suc_eq)

lemma health_run_state:
  "hl_running (health_run events) \<le> MAX_HEALTH_CONNECTIONS \<and>
   (hl_ended (health_run events) = None \<longleftrightarrow>
     (\<forall>k \<le> length events. accept_errors_of (rev (take k events)) < MAX_CONSECUTIVE_HEALTH_ACCEPT_ERRORS)) \<and>
   (hl_ended (health_run events) = None \<longrightarrow> hl_accept_errors (health_run events) = accept_errors_of (rev events))"
proof (induction events rule: rev_induct)
  case Nil
  then show ?case
    by (simp add: health_run_def health_loop_start_def MAX_CONSECUTIVE_HEALTH_ACCEPT_ERRORS_def)
next
  case (snoc event events)
  let ?s = "health_run events"
  have step: "health_run (events @ [event]) = health_step event ?s" by (simp add: health_run_def)
  note p = all_prefixes_snoc [of events event "\<lambda>es. accept_errors_of (rev es) < MAX_CONSECUTIVE_HEALTH_ACCEPT_ERRORS"]
  show ?case
  proof (cases "hl_ended ?s = None")
    case False
    then show ?thesis using snoc unfolding step p by (auto simp: health_step_def)
  next
    case True
    then show ?thesis using snoc unfolding step p
      by (cases event) (auto simp: health_step_def on_accept_def on_accept_error_def Let_def MAX_HEALTH_CONNECTIONS_def
          MAX_CONSECUTIVE_HEALTH_ACCEPT_ERRORS_def)
  qed
qed

text \<open>
  C30. The health endpoint serves at most eight requests at a time, whatever happens on its socket, and ends exactly
  when some three accepts failed with no connection accepted between them.
\<close>

lemma health_endpoint_bounded:
  "hl_running (health_run events) \<le> 8 \<and>
   (hl_ended (health_run events) \<noteq> None \<longleftrightarrow> (\<exists>k. k \<le> length events \<and> accept_errors_of (rev (take k events)) \<ge> 3))"
  using health_run_state [of events]
  by (auto simp: MAX_HEALTH_CONNECTIONS_def MAX_CONSECUTIVE_HEALTH_ACCEPT_ERRORS_def not_less)

end
