(* ===== verification/DeviceIdentity.thy ===== *)
theory DeviceIdentity
  imports NodeProfile ConnectPolicy
begin

text \<open>
  The device identity (\<open>identity.rs\<close>): the canonical payload a device signs to answer a Gateway
  challenge, the proof made of the signature, and the library-managed identity. Ed25519, SHA-256 and
  base64url are other crates; they are the fields of a record the operations take.
\<close>

section \<open>The other crates\<close>

record identity_crypto =
  ic_valid_key :: "bytes \<Rightarrow> bool"
  ic_verify :: "bytes \<Rightarrow> bytes \<Rightarrow> bytes \<Rightarrow> bool"
  ic_sign :: "bytes \<Rightarrow> bytes \<Rightarrow> bytes"
  ic_public :: "bytes \<Rightarrow> bytes"
  ic_sha256 :: "bytes \<Rightarrow> bytes"
  ic_base64url :: "bytes \<Rightarrow> string"
  ic_base64url_decode :: "string \<Rightarrow> bytes option"

text \<open>What Ed25519 promises: keys of secrets are valid and verify their own signatures.\<close>

definition signature_laws :: "identity_crypto \<Rightarrow> bool" where
  "signature_laws cr \<longleftrightarrow> (\<forall>secret message. ic_valid_key cr (ic_public cr secret) \<and>
     ic_verify cr (ic_public cr secret) message (ic_sign cr secret message))"

section \<open>The signing request\<close>

record device_signing_request =
  dsr_device_id :: string
  dsr_public_key :: bytes
  dsr_signed_at :: u64
  dsr_nonce :: string
  dsr_payload :: string

text \<open>\<open>slice::join\<close> with a bar between.\<close>

fun join_bar :: "string list \<Rightarrow> string" where
  "join_bar [] = []"
| "join_bar [f] = f"
| "join_bar (f # g # fs) = f @ ''|'' @ join_bar (g # fs)"

definition device_id_from_public_key :: "identity_crypto \<Rightarrow> bytes \<Rightarrow> string" where
  "device_id_from_public_key cr public_key = hex_string False (ic_sha256 cr public_key)"

definition normalize_metadata :: "string \<Rightarrow> string" where
  "normalize_metadata value = to_ascii_lowercase (trim value)"

definition unwrap_or_default :: "string option \<Rightarrow> string" where
  "unwrap_or_default v = (case v of None \<Rightarrow> [] | Some s \<Rightarrow> s)"

definition payload_fields ::
  "string \<Rightarrow> string \<Rightarrow> string \<Rightarrow> string option \<Rightarrow> string option \<Rightarrow> u64 \<Rightarrow> string list" where
  "payload_fields device_id nonce platform device_family token signed_at =
     [''v3'', device_id, ''node-host'', ''node'', ''node'', '''', show_nat (unat signed_at),
      unwrap_or_default token, nonce, normalize_metadata platform,
      normalize_metadata (unwrap_or_default device_family)]"

definition signing_request_new ::
  "identity_crypto \<Rightarrow> bytes \<Rightarrow> string \<Rightarrow> string \<Rightarrow> string option \<Rightarrow> string option \<Rightarrow> u64 \<Rightarrow>
   identity_error + device_signing_request" where
  "signing_request_new cr public_key nonce platform device_family token signed_at =
     (if \<not> ic_valid_key cr public_key then Inl InvalidPublicKey
      else
        let device_id = device_id_from_public_key cr public_key in
        Inr \<lparr>dsr_device_id = device_id, dsr_public_key = public_key, dsr_signed_at = signed_at,
          dsr_nonce = nonce,
          dsr_payload = join_bar (payload_fields device_id nonce platform device_family token signed_at)\<rparr>)"

definition signing_request_finish ::
  "identity_crypto \<Rightarrow> device_signing_request \<Rightarrow> bytes \<Rightarrow> identity_error + device_proof" where
  "signing_request_finish cr request signature =
     (if \<not> ic_valid_key cr (dsr_public_key request) then Inl InvalidPublicKey
      else if \<not> ic_verify cr (dsr_public_key request) (as_bytes (dsr_payload request)) signature
        then Inl InvalidSignature
      else Inr \<lparr>dp_id = dsr_device_id request, dp_public_key = ic_base64url cr (dsr_public_key request),
        dp_signature = ic_base64url cr signature, dp_signed_at = dsr_signed_at request,
        dp_nonce = dsr_nonce request\<rparr>)"

section \<open>The library-managed identity\<close>

record node_identity =
  ni_secret :: bytes

definition SECRET_KEY_BYTES :: nat where "SECRET_KEY_BYTES = 32"

definition from_secret_bytes :: "bytes \<Rightarrow> node_identity" where
  "from_secret_bytes secret = \<lparr>ni_secret = secret\<rparr>"

text \<open>The operating system's randomness is the argument: an error or the bytes.\<close>

definition identity_generate :: "string + bytes \<Rightarrow> identity_error + node_identity" where
  "identity_generate random =
     (case random of Inl e \<Rightarrow> Inl (Random e) | Inr secret \<Rightarrow> Inr (from_secret_bytes secret))"

definition identity_device_id :: "identity_crypto \<Rightarrow> node_identity \<Rightarrow> string" where
  "identity_device_id cr identity = device_id_from_public_key cr (ic_public cr (ni_secret identity))"

definition public_key_base64url :: "identity_crypto \<Rightarrow> node_identity \<Rightarrow> string" where
  "public_key_base64url cr identity = ic_base64url cr (ic_public cr (ni_secret identity))"

definition sign_connect_at :: "identity_crypto \<Rightarrow> node_identity \<Rightarrow> identity_signer" where
  "sign_connect_at cr identity nonce platform device_family token signed_at =
     bind_result (signing_request_new cr (ic_public cr (ni_secret identity)) nonce platform device_family
         token signed_at) (\<lambda>request.
       signing_request_finish cr request (ic_sign cr (ni_secret identity) (as_bytes (dsr_payload request))))"

text \<open>\<open>NodeConnectOptions::external_signing_request\<close>, for a key the library does not hold.\<close>

definition external_signing_request ::
  "identity_crypto \<Rightarrow> node_connect_options \<Rightarrow> bytes \<Rightarrow> string \<Rightarrow> u64 \<Rightarrow> node_protocol_version \<Rightarrow>
   identity_error + device_signing_request" where
  "external_signing_request cr opts public_key nonce issued_at_ms protocol =
     (case identity_metadata protocol opts of
        (platform, device_family) \<Rightarrow>
          signing_request_new cr public_key nonce platform device_family
            (Option.bind (opt_auth opts) signature_token) issued_at_ms)"

section \<open>Fields of a payload\<close>

fun split_bar_from :: "string \<Rightarrow> string \<Rightarrow> string list" where
  "split_bar_from field [] = [field]"
| "split_bar_from field (c # s) =
     (if c = CHR ''|'' then field # split_bar_from [] s else split_bar_from (field @ [c]) s)"

definition split_bar :: "string \<Rightarrow> string list" where "split_bar s = split_bar_from [] s"

definition no_bar :: "string \<Rightarrow> bool" where "no_bar s \<longleftrightarrow> CHR ''|'' \<notin> set s"

lemma split_bar_from_field: "no_bar f \<Longrightarrow> split_bar_from acc (f @ s) = split_bar_from (acc @ f) s"
  by (induction f arbitrary: acc) (auto simp: no_bar_def)

lemma split_join_bar: "fs \<noteq> [] \<Longrightarrow> list_all no_bar fs \<Longrightarrow> split_bar (join_bar fs) = fs"
proof (induction fs rule: join_bar.induct)
  case (2 f)
  then show ?case using split_bar_from_field [of f "[]" "[]"] by (simp add: split_bar_def)
next
  case (3 f g fs)
  then show ?case using split_bar_from_field [of f "[]" "CHR ''|'' # join_bar (g # fs)"] by (simp add: split_bar_def)
qed simp

lemma no_bar_show_nat: "no_bar (show_nat n)"
proof -
  have "char_code (CHR ''|'') = 124" by (simp add: char_code_def)
  then show ?thesis using show_nat_digits [of "CHR ''|''" n] by (auto simp: no_bar_def)
qed

lemma no_bar_hex: "no_bar (hex_string upper bs)"
proof -
  have "hex_char upper n \<noteq> CHR ''|''" if "n < 16" for n
  proof
    assume "hex_char upper n = CHR ''|''"
    moreover have "char_code (CHR ''|'') = 124" by (simp add: char_code_def)
    ultimately show False using code_hex_char [OF that, of upper] that by (auto split: if_splits)
  qed
  moreover have "unat b div 16 < 16" "unat b mod 16 < 16" for b :: u8 using unat_bounds(1) [of b] by simp_all
  ultimately have "\<forall>b. hex_char upper (unat (b::u8) div 16) \<noteq> CHR ''|'' \<and> hex_char upper (unat b mod 16) \<noteq> CHR ''|''"
    by blast
  then show ?thesis by (auto simp: no_bar_def hex_string_def dest: sym)
qed

section \<open>Properties\<close>

lemma payload_fields_no_bar:
  assumes "no_bar (unwrap_or_default token)" "no_bar nonce" "no_bar (normalize_metadata platform)"
    "no_bar (normalize_metadata (unwrap_or_default family))"
  shows "list_all no_bar (payload_fields (device_id_from_public_key cr key) nonce platform family token at)"
  using assms no_bar_show_nat no_bar_hex
  by (simp add: payload_fields_def device_id_from_public_key_def no_bar_def)

text \<open>
  C10. The signed payload is unambiguous: what a device signs is split back into exactly its fields
  (version, device, client, mode, role, no scopes, time, token, nonce, platform, family) when none of the texts
  in it holds the separator. So a signature for one challenge, token and device is for no other.
\<close>

lemma signing_payload_roundtrip:
  assumes "signing_request_new cr key nonce platform family token at = Inr request"
    and "no_bar (unwrap_or_default token)" and "no_bar nonce"
    and "no_bar (normalize_metadata platform)" and "no_bar (normalize_metadata (unwrap_or_default family))"
  shows "split_bar (dsr_payload request) =
    [''v3'', device_id_from_public_key cr key, ''node-host'', ''node'', ''node'', '''', show_nat (unat at),
     unwrap_or_default token, nonce, normalize_metadata platform, normalize_metadata (unwrap_or_default family)]"
proof -
  have "dsr_payload request =
      join_bar (payload_fields (device_id_from_public_key cr key) nonce platform family token at)"
    using assms(1) by (auto simp: signing_request_new_def Let_def split: if_splits)
  moreover have "split_bar (join_bar (payload_fields (device_id_from_public_key cr key) nonce platform family token at)) =
      payload_fields (device_id_from_public_key cr key) nonce platform family token at"
    using payload_fields_no_bar [OF assms(2-5), of cr key at] by (intro split_join_bar) (simp_all add: payload_fields_def)
  ultimately show ?thesis by (simp add: payload_fields_def)
qed

definition demo_crypto :: identity_crypto where
  "demo_crypto = \<lparr>ic_valid_key = (\<lambda>_. True), ic_verify = (\<lambda>key message signature. signature = key @ message),
     ic_sign = (\<lambda>secret message. secret @ message), ic_public = (\<lambda>secret. secret),
     ic_sha256 = (\<lambda>bs. take 2 bs), ic_base64url = (\<lambda>bs. hex_string False bs),
     ic_base64url_decode = (\<lambda>t. Some (hex_pairs (as_bytes t)))\<rparr>"

lemma signature_laws_demo: "signature_laws demo_crypto"
  by (simp add: signature_laws_def demo_crypto_def)

lemma signing_payload_roundtrip_witness:
  "split_bar (dsr_payload (projr (signing_request_new demo_crypto [1, 2] ''n1'' ''linux'' None (Some ''tok'') 7))) =
     [''v3'', ''0102'', ''node-host'', ''node'', ''node'', '''', ''7'', ''tok'', ''n1'', ''linux'', '''']"
proof -
  have n: "normalize_metadata ''linux'' = ''linux''" "normalize_metadata [] = []" by code_simp+
  have i: "device_id_from_public_key demo_crypto [1, 2] = ''0102''" "show_nat 7 = ''7''" by code_simp+
  obtain request where r: "signing_request_new demo_crypto [1, 2] ''n1'' ''linux'' None (Some ''tok'') 7 = Inr request"
    by (simp add: signing_request_new_def demo_crypto_def Let_def)
  show ?thesis
    using signing_payload_roundtrip [OF r] r n i by (simp add: unwrap_or_default_def no_bar_def)
qed

text \<open>
  A device proof is bound to its challenge: a library-managed identity always gives a proof for a challenge, with
  the challenge's nonce and time and its own key and device, whose signature is valid for the canonical payload of
  exactly these; a proof from an external signature exists only if the signature is valid for that payload.
\<close>

lemma proof_bound_to_challenge:
  assumes "signature_laws cr"
  shows "(\<exists>request proof signature.
      signing_request_new cr (ic_public cr (ni_secret identity)) nonce platform family token at = Inr request \<and>
      sign_connect_at cr identity nonce platform family token at = Inr proof \<and>
      dp_nonce proof = nonce \<and> dp_signed_at proof = at \<and> dp_id proof = identity_device_id cr identity \<and>
      dp_public_key proof = public_key_base64url cr identity \<and> dp_signature proof = ic_base64url cr signature \<and>
      ic_verify cr (ic_public cr (ni_secret identity)) (as_bytes (dsr_payload request)) signature) \<and>
    (signing_request_finish cr request' signature' = Inr proof' \<longleftrightarrow>
      ic_valid_key cr (dsr_public_key request') \<and>
      ic_verify cr (dsr_public_key request') (as_bytes (dsr_payload request')) signature' \<and>
      proof' = \<lparr>dp_id = dsr_device_id request', dp_public_key = ic_base64url cr (dsr_public_key request'),
        dp_signature = ic_base64url cr signature', dp_signed_at = dsr_signed_at request', dp_nonce = dsr_nonce request'\<rparr>)"
  using assms
  by (auto simp: signature_laws_def sign_connect_at_def signing_request_new_def signing_request_finish_def
      identity_device_id_def public_key_base64url_def Let_def)

lemma proof_bound_to_challenge_witness:
  "\<exists>proof. sign_connect_at demo_crypto \<lparr>ni_secret = [1, 2]\<rparr> ''n1'' ''linux'' None None 7 = Inr proof \<and> dp_nonce proof = ''n1''"
  using proof_bound_to_challenge [THEN conjunct1, OF signature_laws_demo,
      of "\<lparr>ni_secret = [1, 2]\<rparr>" "''n1''" "''linux''" None None 7] by blast

end
