(* ===== verification/GatewayEvents.thy ===== *)
theory GatewayEvents
  imports NodeProfile
begin

text \<open>
  The hub that retains the events of a Gateway session for its subscribers (\<open>EventHub\<close> and
  \<open>EventSubscription\<close> of \<open>session.rs\<close>), and the causes with which a session closes.

  Events are numbered by a wrapping counter of 64 bits; a retained event keeps its text, which is
  parsed when it is received (\<open>parse\<close> stands for \<open>serde_json::from_str\<close>). The mutex makes each
  operation one step; a receive that would wait is \<open>None\<close>.
\<close>

section \<open>Close causes\<close>

datatype session_close_cause =
    CauseClosed string
  | CauseInvalidFrame string
  | CauseTransport string
  | CauseWriteTimeout string

fun to_client_error :: "session_close_cause \<Rightarrow> gateway_client_error" where
  "to_client_error (CauseClosed reason) = GwClosed reason"
| "to_client_error (CauseInvalidFrame reason) = GwInvalidFrame reason"
| "to_client_error (CauseTransport reason) = GwTransport reason"
| "to_client_error (CauseWriteTimeout operation) = GwWriteTimeout operation"

definition closed_error :: "session_close_cause option \<Rightarrow> gateway_client_error" where
  "closed_error closed =
     (case closed of None \<Rightarrow> GwClosed ''session task ended'' | Some cause \<Rightarrow> to_client_error cause)"

section \<open>The hub\<close>

record session_event =
  gev_event :: string
  gev_payload :: json
  gev_seq :: "u64 option"

record retained_event =
  re_index :: u64
  re_raw :: string

record event_hub =
  hub_capacity :: nat
  hub_max_bytes :: nat
  hub_frames :: "retained_event list"
  hub_next_index :: u64
  hub_retained_bytes :: nat
  hub_closed :: bool

definition hub_new :: "nat \<Rightarrow> nat \<Rightarrow> event_hub" where
  "hub_new capacity max_bytes =
     \<lparr>hub_capacity = max capacity 1, hub_max_bytes = max max_bytes 1, hub_frames = [],
      hub_next_index = 0, hub_retained_bytes = 0, hub_closed = False\<rparr>"

text \<open>The cursor of a new subscription; the session's own one starts at 0.\<close>

definition hub_subscribe :: "event_hub \<Rightarrow> u64" where
  "hub_subscribe hub = hub_next_index hub"

fun hub_evict :: "nat \<Rightarrow> nat \<Rightarrow> nat \<Rightarrow> retained_event list \<Rightarrow> nat \<Rightarrow> retained_event list \<times> nat" where
  "hub_evict capacity max_bytes len [] retained = ([], retained)"
| "hub_evict capacity max_bytes len (f # fs) retained =
     (if Suc (length fs) \<ge> capacity \<or> min (retained + len) usize_max > max_bytes
      then hub_evict capacity max_bytes len fs (retained - length (re_raw f))
      else (f # fs, retained))"

definition hub_publish :: "string \<Rightarrow> event_hub \<Rightarrow> event_hub" where
  "hub_publish raw hub =
     (let index = hub_next_index hub;
          hub = hub\<lparr>hub_next_index := index + 1\<rparr> in
      if length raw > hub_max_bytes hub then hub
      else case hub_evict (hub_capacity hub) (hub_max_bytes hub) (length raw)
                 (hub_frames hub) (hub_retained_bytes hub) of
        (frames, retained) \<Rightarrow>
          hub\<lparr>hub_frames := frames @ [\<lparr>re_index = index, re_raw = raw\<rparr>],
              hub_retained_bytes := retained + length raw\<rparr>)"

definition hub_close :: "event_hub \<Rightarrow> event_hub" where
  "hub_close hub = hub\<lparr>hub_closed := True\<rparr>"

text \<open>What a receive finds: an event, how many were missed, or the end; and the new cursor.\<close>

datatype hub_output = Delivered string | Lagged u64 | Ended

definition hub_next :: "event_hub \<Rightarrow> u64 \<Rightarrow> hub_output option \<times> u64" where
  "hub_next hub cursor =
     (case find (\<lambda>frame. re_index frame \<ge> cursor) (hub_frames hub) of
        Some frame \<Rightarrow>
          if re_index frame > cursor then (Some (Lagged (re_index frame - cursor)), re_index frame)
          else (Some (Delivered (re_raw frame)), cursor + 1)
      | None \<Rightarrow>
          if cursor < hub_next_index hub
            then (Some (Lagged (hub_next_index hub - cursor)), hub_next_index hub)
          else if hub_closed hub then (Some Ended, cursor)
          else (None, cursor))"

definition parse_retained_event ::
  "(string \<Rightarrow> string + session_event) \<Rightarrow> string \<Rightarrow> gateway_client_error + session_event" where
  "parse_retained_event parse raw = map_err GwInvalidFrame (parse raw)"

fun output_result ::
  "(string \<Rightarrow> string + session_event) \<Rightarrow> session_close_cause option \<Rightarrow> hub_output \<Rightarrow>
   gateway_client_error + session_event" where
  "output_result parse closed (Delivered raw) = parse_retained_event parse raw"
| "output_result parse closed (Lagged n) = Inl (GwEventLagged n)"
| "output_result parse closed Ended = Inl (closed_error closed)"

definition hub_recv ::
  "(string \<Rightarrow> string + session_event) \<Rightarrow> session_close_cause option \<Rightarrow> event_hub \<Rightarrow> u64 \<Rightarrow>
   (gateway_client_error + session_event) option \<times> u64" where
  "hub_recv parse closed hub cursor =
     (case hub_next hub cursor of (output, cursor') \<Rightarrow> (map_option (output_result parse closed) output, cursor'))"

section \<open>The log\<close>

text \<open>
  The hub against the list of everything published: what it retains are entries of that list, with
  their positions, within the bounds. The counter has not wrapped as long as the list is shorter
  than \<open>2 ^ 64\<close>.
\<close>

definition frames_bytes :: "retained_event list \<Rightarrow> nat" where
  "frames_bytes fs = sum_list (map (\<lambda>f. length (re_raw f)) fs)"

lemma frames_bytes_simps [simp]:
  "frames_bytes [] = 0" "frames_bytes (f # fs) = length (re_raw f) + frames_bytes fs"
  "frames_bytes (fs @ gs) = frames_bytes fs + frames_bytes gs"
  by (simp_all add: frames_bytes_def)

definition entry_of :: "string list \<Rightarrow> retained_event \<Rightarrow> bool" where
  "entry_of log f \<longleftrightarrow> unat (re_index f) < length log \<and> re_raw f = log ! unat (re_index f)"

definition hub_ok :: "string list \<Rightarrow> event_hub \<Rightarrow> bool" where
  "hub_ok log hub \<longleftrightarrow>
     unat (hub_next_index hub) = length log \<and>
     sorted_wrt (\<lambda>f g. re_index f < re_index g) (hub_frames hub) \<and>
     list_all (entry_of log) (hub_frames hub) \<and>
     hub_retained_bytes hub = frames_bytes (hub_frames hub) \<and>
     hub_retained_bytes hub \<le> hub_max_bytes hub \<and> length (hub_frames hub) \<le> hub_capacity hub \<and>
     1 \<le> hub_capacity hub \<and> hub_max_bytes hub < usize_max"

lemma hub_new_ok: "max_bytes < usize_max \<Longrightarrow> hub_ok [] (hub_new capacity max_bytes)"
  by (auto simp: hub_ok_def hub_new_def usize_max_def)

text \<open>Eviction keeps a suffix that leaves room, and removes only what would not fit beside it.\<close>

lemma hub_evict_spec:
  assumes "hub_evict cap maxb n fs retained = (fs', retained')" and "retained = frames_bytes fs"
    and "n \<le> maxb" and "1 \<le> cap" and "maxb < usize_max"
  shows "\<exists>gone. fs = gone @ fs' \<and> retained' = frames_bytes fs' \<and> Suc (length fs') \<le> cap \<and>
    retained' + n \<le> maxb \<and>
    (\<forall>i < length gone. Suc (length (drop i fs)) > cap \<or> frames_bytes (drop i fs) + n > maxb)"
  using assms
proof (induction cap maxb n fs retained rule: hub_evict.induct)
  case (1 cap maxb n retained)
  then show ?case by auto
next
  case (2 cap maxb n f fs retained)
  show ?case
  proof (cases "Suc (length fs) \<ge> cap \<or> min (retained + n) usize_max > maxb")
    case True
    with 2 obtain gone where "fs = gone @ fs'" "retained' = frames_bytes fs'" "Suc (length fs') \<le> cap"
      "retained' + n \<le> maxb"
      "\<forall>i < length gone. Suc (length (drop i fs)) > cap \<or> frames_bytes (drop i fs) + n > maxb"
      by auto
    moreover have "Suc (length (f # fs)) > cap \<or> frames_bytes (f # fs) + n > maxb"
      using True 2(3) by (auto simp: min_def split: if_splits)
    ultimately show ?thesis by (intro exI [of _ "f # gone"]) (auto simp: less_Suc_eq_0_disj)
  next
    case False
    then show ?thesis using 2 by (intro exI [of _ "[]"]) (auto simp: min_def split: if_splits)
  qed
qed

lemma entry_of_snoc: "entry_of log f \<Longrightarrow> entry_of (log @ [raw]) f"
  by (auto simp: entry_of_def nth_append)

lemma next_index_snoc:
  assumes "unat (w :: u64) = n" and "Suc n < 2 ^ 64"
  shows "unat (w + 1) = Suc n"
proof -
  have "unat (w + 1) = (unat w + 1) mod 2 ^ 64" by (simp add: unat_word_ariths)
  then show ?thesis using assms by simp
qed

lemma hub_publish_cases:
  assumes "hub_ok log hub"
  obtains (oversized) "length raw > hub_max_bytes hub"
      "hub_publish raw hub = hub\<lparr>hub_next_index := hub_next_index hub + 1\<rparr>"
    | (retained) gone kept where "hub_frames hub = gone @ kept" "length raw \<le> hub_max_bytes hub"
      "Suc (length kept) \<le> hub_capacity hub" "frames_bytes kept + length raw \<le> hub_max_bytes hub"
      "\<forall>i < length gone. Suc (length (drop i (hub_frames hub))) > hub_capacity hub \<or>
         frames_bytes (drop i (hub_frames hub)) + length raw > hub_max_bytes hub"
      "hub_publish raw hub = hub\<lparr>hub_next_index := hub_next_index hub + 1,
         hub_frames := kept @ [\<lparr>re_index = hub_next_index hub, re_raw = raw\<rparr>],
         hub_retained_bytes := frames_bytes kept + length raw\<rparr>"
proof (cases "length raw > hub_max_bytes hub")
  case True
  then show thesis by (intro oversized) (simp_all add: hub_publish_def Let_def)
next
  case False
  obtain kept r where e: "hub_evict (hub_capacity hub) (hub_max_bytes hub) (length raw) (hub_frames hub)
      (hub_retained_bytes hub) = (kept, r)" by (rule prod.exhaust)
  from hub_evict_spec [OF e] assms False obtain gone where "hub_frames hub = gone @ kept" "r = frames_bytes kept"
    "Suc (length kept) \<le> hub_capacity hub" "r + length raw \<le> hub_max_bytes hub"
    "\<forall>i < length gone. Suc (length (drop i (hub_frames hub))) > hub_capacity hub \<or>
       frames_bytes (drop i (hub_frames hub)) + length raw > hub_max_bytes hub"
    by (auto simp: hub_ok_def)
  then show thesis
    by (intro retained [of gone kept]) (use False e in \<open>simp_all add: hub_publish_def Let_def del: drop_append\<close>)
qed

lemma hub_publish_frame [simp]:
  "hub_capacity (hub_publish raw hub) = hub_capacity hub" "hub_max_bytes (hub_publish raw hub) = hub_max_bytes hub"
  "hub_closed (hub_publish raw hub) = hub_closed hub"
  by (simp_all add: hub_publish_def Let_def split: prod.split)

lemma hub_publish_ok:
  assumes "hub_ok log hub" and "Suc (length log) < 2 ^ 64"
  shows "hub_ok (log @ [raw]) (hub_publish raw hub)"
proof -
  have succ: "unat (hub_next_index hub + 1) = Suc (length log)"
    using assms by (intro next_index_snoc) (simp_all add: hub_ok_def)
  show ?thesis
  proof (cases rule: hub_publish_cases [OF assms(1), of raw])
    case 1
    then show ?thesis using assms succ
      by (auto simp: hub_ok_def list_all_iff entry_of_snoc)
  next
    case (2 gone kept)
    have old: "list_all (entry_of log) kept" "sorted_wrt (\<lambda>f g. re_index f < re_index g) kept"
      using assms(1) 2(1) by (simp_all add: hub_ok_def sorted_wrt_append)
    have idx: "unat (hub_next_index hub) = length log" using assms(1) by (simp add: hub_ok_def)
    have "\<forall>f \<in> set kept. re_index f < hub_next_index hub"
      using old(1) by (auto simp: list_all_iff entry_of_def word_less_nat_alt idx)
    moreover have "list_all (entry_of (log @ [raw])) (kept @ [\<lparr>re_index = hub_next_index hub, re_raw = raw\<rparr>])"
      using old(1) by (simp add: list_all_iff entry_of_snoc) (simp add: entry_of_def idx)
    ultimately show ?thesis using assms(1) 2 old(2) succ
      by (simp add: hub_ok_def sorted_wrt_append)
  qed
qed

lemma hub_close_ok [simp]: "hub_ok log (hub_close hub) = hub_ok log hub"
  by (simp add: hub_ok_def hub_close_def)

section \<open>Receiving\<close>

text \<open>What one receive says about the log, from the position of the cursor on.\<close>

fun follows :: "string list \<Rightarrow> nat \<Rightarrow> hub_output \<Rightarrow> nat option" where
  "follows log pos (Delivered raw) = (if pos < length log \<and> log ! pos = raw then Some (Suc pos) else None)"
| "follows log pos (Lagged n) =
     (if 0 < n \<and> pos + unat n \<le> length log then Some (pos + unat n) else None)"
| "follows log pos Ended = (if pos = length log then Some pos else None)"

lemma unat_sub_less: "(a :: u64) < b \<Longrightarrow> unat (b - a) = unat b - unat a \<and> 0 < b - a"
  by (simp add: unat_sub word_gt_0 less_imp_le word_less_nat_alt)

lemma hub_next_follows:
  assumes "hub_ok log hub" and "length log < 2 ^ 64 - 1" and "unat cursor \<le> length log"
    and "hub_next hub cursor = (output, cursor')"
  shows "case output of
      None \<Rightarrow> cursor' = cursor \<and> unat cursor = length log \<and> \<not> hub_closed hub
    | Some out \<Rightarrow> follows log (unat cursor) out = Some (unat cursor') \<and> (out = Ended \<longrightarrow> hub_closed hub)"
proof (cases "find (\<lambda>frame. re_index frame \<ge> cursor) (hub_frames hub)")
  case None
  have n: "unat (hub_next_index hub) = length log" using assms(1) by (simp add: hub_ok_def)
  show ?thesis
    using assms(3,4) None n
    by (auto simp: hub_next_def unat_sub_less word_less_nat_alt split: if_splits)
next
  case (Some f)
  then have f: "f \<in> set (hub_frames hub)" "re_index f \<ge> cursor" by (auto simp: find_Some_iff)
  then have e: "unat (re_index f) < length log" "re_raw f = log ! unat (re_index f)"
    using assms(1) by (auto simp: hub_ok_def list_all_iff entry_of_def)
  show ?thesis
  proof (cases "re_index f = cursor")
    case True
    have "unat (cursor + 1) = Suc (unat cursor)"
      using e(1) assms(2) True by (intro next_index_snoc) auto
    then show ?thesis using assms(4) Some True e by (auto simp: hub_next_def)
  next
    case False
    then have "cursor < re_index f" using f(2) by simp
    then show ?thesis using assms(4) Some e
      by (auto simp: hub_next_def unat_sub_less word_less_nat_alt)
  qed
qed

section \<open>Runs\<close>

text \<open>Publishing and closing by the session, interleaved with receives of one subscriber.\<close>

datatype hub_op = Publish string | Close | Recv

record hub_run =
  hr_hub :: event_hub
  hr_cursor :: u64
  hr_log :: "string list"
  hr_outputs :: "hub_output list"

fun hub_step :: "hub_op \<Rightarrow> hub_run \<Rightarrow> hub_run" where
  "hub_step (Publish raw) r =
     (if hub_closed (hr_hub r) then r
      else r\<lparr>hr_hub := hub_publish raw (hr_hub r), hr_log := hr_log r @ [raw]\<rparr>)"
| "hub_step Close r = r\<lparr>hr_hub := hub_close (hr_hub r)\<rparr>"
| "hub_step Recv r =
     (case hub_next (hr_hub r) (hr_cursor r) of
        (None, cursor) \<Rightarrow> r\<lparr>hr_cursor := cursor\<rparr>
      | (Some out, cursor) \<Rightarrow> r\<lparr>hr_cursor := cursor, hr_outputs := hr_outputs r @ [out]\<rparr>)"

definition hub_ops :: "hub_op list \<Rightarrow> hub_run \<Rightarrow> hub_run" where
  "hub_ops ops r = fold hub_step ops r"

definition subscribed :: "event_hub \<Rightarrow> string list \<Rightarrow> hub_run" where
  "subscribed hub log = \<lparr>hr_hub = hub, hr_cursor = hub_subscribe hub, hr_log = log, hr_outputs = []\<rparr>"

fun followed :: "string list \<Rightarrow> nat \<Rightarrow> hub_output list \<Rightarrow> nat option" where
  "followed log pos [] = Some pos"
| "followed log pos (out # outs) = Option.bind (follows log pos out) (\<lambda>pos. followed log pos outs)"

lemma followed_append: "followed log pos (xs @ ys) = Option.bind (followed log pos xs) (\<lambda>p. followed log p ys)"
  by (induction xs arbitrary: pos) (simp_all split: Option.bind_split)

lemma follows_snoc: "follows log pos out = Some p \<Longrightarrow> out \<noteq> Ended \<Longrightarrow> follows (log @ [raw]) pos out = Some p"
  by (cases out) (auto simp: nth_append split: if_splits)

lemma followed_snoc: "followed log pos outs = Some p \<Longrightarrow> Ended \<notin> set outs \<Longrightarrow> followed (log @ [raw]) pos outs = Some p"
  by (induction outs arbitrary: pos) (auto simp: bind_eq_Some_conv dest: follows_snoc)

definition run_follows :: "nat \<Rightarrow> hub_run \<Rightarrow> bool" where
  "run_follows start r \<longleftrightarrow> hub_ok (hr_log r) (hr_hub r) \<and> unat (hr_cursor r) \<le> length (hr_log r) \<and>
     followed (hr_log r) start (hr_outputs r) = Some (unat (hr_cursor r)) \<and>
     (Ended \<in> set (hr_outputs r) \<longrightarrow> hub_closed (hr_hub r))"

lemma followed_bounds:
  "followed log pos outs = Some p \<Longrightarrow> pos \<le> p \<and> (pos \<le> length log \<longrightarrow> p \<le> length log)"
proof (induction outs arbitrary: pos)
  case (Cons out outs)
  then obtain q where "follows log pos out = Some q" "followed log q outs = Some p"
    by (auto simp: bind_eq_Some_conv)
  moreover have "pos \<le> q \<and> q \<le> length log" if "follows log pos out = Some q"
    using that by (cases out) (auto split: if_splits)
  ultimately show ?case using Cons.IH [of q] by auto
qed simp

lemma followed_Ended:
  "followed log pos outs = Some p \<Longrightarrow> Ended \<in> set outs \<Longrightarrow> p = length log"
proof (induction outs arbitrary: pos)
  case (Cons out outs)
  then obtain q where q: "follows log pos out = Some q" "followed log q outs = Some p"
    by (auto simp: bind_eq_Some_conv)
  show ?case
  proof (cases "out = Ended")
    case True
    then show ?thesis using q followed_bounds [OF q(2)] by (auto split: if_splits)
  next
    case False
    then show ?thesis using Cons q(2) by auto
  qed
qed simp

lemma hub_step_follows:
  assumes "run_follows start r" and "length (hr_log (hub_step op r)) < 2 ^ 64 - 1"
  shows "run_follows start (hub_step op r)"
proof (cases op)
  case (Publish raw)
  show ?thesis
  proof (cases "hub_closed (hr_hub r)")
    case False
    then have "Ended \<notin> set (hr_outputs r)" using assms(1) by (auto simp: run_follows_def)
    then show ?thesis using assms Publish False
      by (auto simp: run_follows_def hub_publish_ok followed_snoc)
  qed (use assms Publish in simp)
next
  case Close
  then show ?thesis using assms by (simp add: run_follows_def) (simp add: hub_close_def)
next
  case Recv
  obtain res cursor where n: "hub_next (hr_hub r) (hr_cursor r) = (res, cursor)" by (rule prod.exhaust)
  have l: "length (hr_log r) < 2 ^ 64 - 1" using assms(2) Recv n by (cases res) simp_all
  have h: "hub_ok (hr_log r) (hr_hub r)" "unat (hr_cursor r) \<le> length (hr_log r)"
    "followed (hr_log r) start (hr_outputs r) = Some (unat (hr_cursor r))"
    "Ended \<in> set (hr_outputs r) \<longrightarrow> hub_closed (hr_hub r)"
    using assms(1) by (simp_all add: run_follows_def)
  note f = hub_next_follows [OF h(1) l h(2) n]
  show ?thesis
  proof (cases res)
    case None
    then show ?thesis using f h Recv n by (simp add: run_follows_def)
  next
    case (Some out)
    then have g: "follows (hr_log r) (unat (hr_cursor r)) out = Some (unat cursor)" "out = Ended \<longrightarrow> hub_closed (hr_hub r)"
      using f by simp_all
    have "followed (hr_log r) start (hr_outputs r @ [out]) = Some (unat cursor)"
      by (simp add: followed_append h(3) g(1))
    moreover have "unat cursor \<le> length (hr_log r)"
      using followed_bounds [of "hr_log r" "unat (hr_cursor r)" "[out]" "unat cursor"] g(1) h(2) by simp
    ultimately show ?thesis using h g(2) Recv n Some by (auto simp: run_follows_def)
  qed
qed

lemma hub_step_log: "length (hr_log r) \<le> length (hr_log (hub_step op r))"
  by (cases op) (auto split: prod.split option.split)

lemma hub_ops_follows:
  "run_follows start r \<Longrightarrow> length (hr_log (hub_ops ops r)) < 2 ^ 64 - 1 \<Longrightarrow> run_follows start (hub_ops ops r)"
proof (induction ops rule: rev_induct)
  case Nil
  then show ?case by (simp add: hub_ops_def)
next
  case (snoc op ops)
  have step: "hub_ops (ops @ [op]) r = hub_step op (hub_ops ops r)" by (simp add: hub_ops_def)
  have "length (hr_log (hub_ops ops r)) < 2 ^ 64 - 1"
    using snoc.prems(2) hub_step_log [of "hub_ops ops r" op] unfolding step by linarith
  then show ?case using snoc hub_step_follows unfolding step by blast
qed

lemma subscribed_follows:
  "hub_ok log hub \<Longrightarrow> run_follows (length log) (subscribed hub log)"
  by (simp add: run_follows_def subscribed_def hub_subscribe_def hub_ok_def)

section \<open>What is retained\<close>

definition bytes_of :: "string list \<Rightarrow> nat" where
  "bytes_of raws = sum_list (map length raws)"

definition hub_fits :: "event_hub \<Rightarrow> string list \<Rightarrow> bool" where
  "hub_fits hub raws \<longleftrightarrow> length raws \<le> hub_capacity hub \<and> bytes_of raws \<le> hub_max_bytes hub"

definition hub_keeps :: "string list \<Rightarrow> event_hub \<Rightarrow> bool" where
  "hub_keeps log hub \<longleftrightarrow>
     (\<forall>k \<le> length log. hub_fits hub (drop k log) \<longrightarrow>
        (\<forall>i. k \<le> i \<and> i < length log \<longrightarrow> (\<exists>f \<in> set (hub_frames hub). unat (re_index f) = i)))"

text \<open>Frames with positions from \<open>k\<close> on are no more, in number and bytes, than that part of the log.\<close>

lemma frames_within:
  assumes "sorted_wrt (\<lambda>f g. re_index f < re_index g) fs" and "list_all (entry_of log) fs"
    and "\<forall>f \<in> set fs. k \<le> unat (re_index f)"
  shows "length fs \<le> length (drop k log) \<and> frames_bytes fs \<le> bytes_of (drop k log)"
  using assms
proof (induction fs arbitrary: k)
  case (Cons f fs)
  have f: "unat (re_index f) < length log" "re_raw f = log ! unat (re_index f)" "k \<le> unat (re_index f)"
    using Cons.prems by (auto simp: entry_of_def)
  have "\<forall>g \<in> set fs. Suc (unat (re_index f)) \<le> unat (re_index g)"
    using Cons.prems(1) by (simp add: word_less_nat_alt Suc_le_eq)
  then have IH: "length fs \<le> length (drop (Suc (unat (re_index f))) log)"
      "frames_bytes fs \<le> bytes_of (drop (Suc (unat (re_index f))) log)"
    using Cons.IH [of "Suc (unat (re_index f))"] Cons.prems by simp_all
  have "drop k log = take (unat (re_index f) - k) (drop k log) @ re_raw f # drop (Suc (unat (re_index f))) log"
    using f by (metis Cons_nth_drop_Suc append_take_drop_id drop_drop le_add_diff_inverse2 ordered_cancel_comm_monoid_diff_class.add_diff_inverse)
  then have "bytes_of (drop k log) \<ge> length (re_raw f) + bytes_of (drop (Suc (unat (re_index f))) log)"
    by (metis bytes_of_def le_add2 list.map(2) map_append sum_list.Cons sum_list_append)
  then show ?case using IH f by auto
qed (simp add: bytes_of_def)

lemma hub_fits_snoc:
  "hub_fits hub (drop k (log @ [raw])) \<Longrightarrow> k \<le> length log \<Longrightarrow>
   hub_fits hub (drop k log) \<and> Suc (length (drop k log)) \<le> hub_capacity hub \<and>
   bytes_of (drop k log) + length raw \<le> hub_max_bytes hub"
  by (simp add: hub_fits_def bytes_of_def)

lemma hub_publish_keeps:
  assumes ok: "hub_ok log hub" and "Suc (length log) < 2 ^ 64" and keeps: "hub_keeps log hub"
  shows "hub_keeps (log @ [raw]) (hub_publish raw hub)"
  unfolding hub_keeps_def
proof (intro allI impI)
  fix k i
  assume k: "k \<le> length (log @ [raw])" and fits: "hub_fits (hub_publish raw hub) (drop k (log @ [raw]))"
    and i: "k \<le> i \<and> i < length (log @ [raw])"
  have fits': "hub_fits hub (drop k (log @ [raw]))" using fits by (simp add: hub_fits_def)
  have kl: "k \<le> length log" using i by simp
  note f = hub_fits_snoc [OF fits' kl]
  show "\<exists>f \<in> set (hub_frames (hub_publish raw hub)). unat (re_index f) = i"
  proof (cases rule: hub_publish_cases [OF ok, of raw])
    case 1
    then show ?thesis using f by simp
  next
    case (2 gone kept)
    show ?thesis
    proof (cases "i = length log")
      case True
      then show ?thesis using 2 ok by (simp add: hub_ok_def)
    next
      case False
      then obtain g where g: "g \<in> set (hub_frames hub)" "unat (re_index g) = i"
        using keeps [unfolded hub_keeps_def, rule_format, OF kl conjunct1 [OF f], of i] i by auto
      have "g \<in> set kept"
      proof (rule ccontr)
        assume "g \<notin> set kept"
        then obtain j where j: "j < length gone" "hub_frames hub ! j = g"
          using g(1) 2(1) by (auto simp: in_set_conv_nth nth_append)
        define fs where "fs = drop j (hub_frames hub)"
        have fs: "fs = g # drop (Suc j) (hub_frames hub)"
          using Cons_nth_drop_Suc [of j "hub_frames hub"] j 2(1) by (simp add: fs_def)
        have s: "sorted_wrt (\<lambda>f g. re_index f < re_index g) fs" "list_all (entry_of log) fs"
          using ok by (auto simp: hub_ok_def fs_def sorted_wrt_drop list_all_iff dest: in_set_dropD)
        have "\<forall>h \<in> set fs. k \<le> unat (re_index h)"
          using s(1) g(2) i by (auto simp: fs word_less_nat_alt)
        from frames_within [OF s this] f have "Suc (length fs) \<le> hub_capacity hub"
          "frames_bytes fs + length raw \<le> hub_max_bytes hub" by simp_all
        then show False using 2(5) j(1) by (auto simp: fs_def)
      qed
      then show ?thesis using 2(6) g(2) by auto
    qed
  qed
qed

definition run_keeps :: "hub_run \<Rightarrow> bool" where
  "run_keeps r \<longleftrightarrow> hub_ok (hr_log r) (hr_hub r) \<and> hub_keeps (hr_log r) (hr_hub r)"

lemma hub_ops_frame:
  "hub_capacity (hr_hub (hub_ops ops r)) = hub_capacity (hr_hub r) \<and>
   hub_max_bytes (hr_hub (hub_ops ops r)) = hub_max_bytes (hr_hub r)"
proof (induction ops rule: rev_induct)
  case (snoc op ops)
  then show ?case by (cases op) (auto simp: hub_ops_def hub_close_def split: prod.split option.split)
qed (simp add: hub_ops_def)

lemma hub_close_keeps: "hub_keeps log (hub_close hub) = hub_keeps log hub"
  by (simp add: hub_keeps_def hub_close_def hub_fits_def)

lemma hub_step_keeps:
  "run_keeps r \<Longrightarrow> length (hr_log (hub_step op r)) < 2 ^ 64 \<Longrightarrow> run_keeps (hub_step op r)"
  by (cases op)
    (auto simp: run_keeps_def hub_publish_ok hub_publish_keeps hub_close_keeps split: prod.split option.split)

lemma hub_ops_keeps:
  "run_keeps r \<Longrightarrow> length (hr_log (hub_ops ops r)) < 2 ^ 64 \<Longrightarrow> run_keeps (hub_ops ops r)"
proof (induction ops rule: rev_induct)
  case Nil
  then show ?case by (simp add: hub_ops_def)
next
  case (snoc op ops)
  have step: "hub_ops (ops @ [op]) r = hub_step op (hub_ops ops r)" by (simp add: hub_ops_def)
  have "length (hr_log (hub_ops ops r)) < 2 ^ 64"
    using snoc.prems(2) hub_step_log [of "hub_ops ops r" op] unfolding step by linarith
  then show ?case using snoc hub_step_keeps unfolding step by blast
qed

lemma hub_new_keeps: "max_bytes < usize_max \<Longrightarrow> run_keeps (subscribed (hub_new capacity max_bytes) [])"
  by (simp add: run_keeps_def subscribed_def hub_new_ok hub_keeps_def)

text \<open>A subscriber whose unread events fit the hub receives the next one.\<close>

lemma keeps_next:
  assumes ok: "hub_ok log hub" and "hub_keeps log hub" and "unat cursor < length log"
    and "hub_fits hub (drop (unat cursor) log)"
  shows "hub_next hub cursor = (Some (Delivered (log ! unat cursor)), cursor + 1)"
proof -
  obtain f where f: "f \<in> set (hub_frames hub)" "re_index f = cursor"
    using assms(2-4) unfolding hub_keeps_def by (metis less_imp_le order_refl unsigned_word_eqI)
  then have "find (\<lambda>frame. re_index frame \<ge> cursor) (hub_frames hub) \<noteq> None"
    by (auto simp: find_None_iff)
  then obtain g where g: "find (\<lambda>frame. re_index frame \<ge> cursor) (hub_frames hub) = Some g" by blast
  then obtain i where i: "i < length (hub_frames hub)" "hub_frames hub ! i = g" "cursor \<le> re_index g"
      "\<forall>j < i. \<not> cursor \<le> re_index (hub_frames hub ! j)"
    by (auto simp: find_Some_iff)
  obtain j where j: "j < length (hub_frames hub)" "hub_frames hub ! j = f" using f(1) by (auto simp: in_set_conv_nth)
  have s: "sorted_wrt (\<lambda>f g. re_index f < re_index g) (hub_frames hub)" using ok by (simp add: hub_ok_def)
  have "i \<le> j" using i(4) j f(2) by (metis not_le order_refl)
  then have "re_index g \<le> cursor"
    using sorted_wrt_nth_less [OF s, of i j] i(2) j f(2) by (cases "i = j") auto
  then have eq: "re_index g = cursor" using i(3) by simp
  have "entry_of log g" using ok g by (auto simp: hub_ok_def list_all_iff find_Some_iff)
  then show ?thesis using g eq by (simp add: hub_next_def entry_of_def)
qed

section \<open>Properties\<close>

text \<open>
  C22. No event is lost silently: a subscriber of the hub, whenever it subscribed and however its
  receives interleave with publishing and closing, is told of every event published since, in order
  and exactly once: each receive returns the next event, or how many were missed, or, after the hub
  was closed and everything before was accounted for, the end. The cursor is the position reached.
\<close>

lemma subscriber_accounts_for_every_event:
  assumes "max_bytes < usize_max"
    and "first = hub_ops ops0 (subscribed (hub_new capacity max_bytes) [])"
    and "r = hub_ops ops (subscribed (hr_hub first) (hr_log first))"
    and "length (hr_log r) < 2 ^ 64 - 1"
  shows "followed (hr_log r) (length (hr_log first)) (hr_outputs r) = Some (unat (hr_cursor r)) \<and>
    (Ended \<in> set (hr_outputs r) \<longrightarrow> hub_closed (hr_hub r) \<and> unat (hr_cursor r) = length (hr_log r))"
proof -
  have log: "length (hr_log s) \<le> length (hr_log (hub_ops os s))" for os s
    by (induction os rule: rev_induct) (auto simp: hub_ops_def intro: order_trans hub_step_log)
  have "length (hr_log first) < 2 ^ 64 - 1"
    using assms(3,4) log [of "subscribed (hr_hub first) (hr_log first)" ops] by (simp add: subscribed_def)
  then have "run_follows 0 first"
    unfolding assms(2) using hub_ops_follows subscribed_follows [OF hub_new_ok [OF assms(1)]] by simp
  then have "run_follows (length (hr_log first)) (subscribed (hr_hub first) (hr_log first))"
    by (intro subscribed_follows) (simp add: run_follows_def)
  then have "run_follows (length (hr_log first)) r"
    unfolding assms(3) using hub_ops_follows assms(3,4) by blast
  then show ?thesis using followed_Ended by (auto simp: run_follows_def)
qed

lemma subscriber_accounts_for_every_event_witness:
  "followed [''aa'', ''b'', ''c''] 0 [Lagged 1, Delivered ''b'', Delivered ''c'', Ended] = Some 3"
proof -
  define first where "first = hub_ops [] (subscribed (hub_new 2 10) [])"
  define r where "r = hub_ops [Publish ''aa'', Publish ''b'', Publish ''c'', Recv, Recv, Recv, Close, Recv]
    (subscribed (hr_hub first) (hr_log first))"
  have f: "first = subscribed (hub_new 2 10) []" by (simp add: first_def hub_ops_def)
  have r: "hr_log r = [''aa'', ''b'', ''c'']" "hr_outputs r = [Lagged 1, Delivered ''b'', Delivered ''c'', Ended]"
      "hr_cursor r = 3"
    by (simp_all add: r_def f hub_ops_def subscribed_def hub_subscribe_def hub_new_def hub_publish_def hub_next_def
        hub_close_def usize_max_def Let_def word_le_nat_alt)
  show ?thesis
    using subscriber_accounts_for_every_event [OF _ first_def r_def] by (simp add: r f subscribed_def usize_max_def)
qed

text \<open>
  The hub is bounded and gives up only what it must: after any publishing it retains at most
  its capacity of events and of bytes; and whenever the events a subscriber has not read are within
  both, its next receive returns the next one, so a subscriber that keeps up never lags.
\<close>

lemma hub_retains_what_fits:
  assumes "max_bytes < usize_max" and "r = hub_ops ops (subscribed (hub_new capacity max_bytes) [])"
    and "length (hr_log r) < 2 ^ 64"
  shows "length (hub_frames (hr_hub r)) \<le> max capacity 1 \<and>
    sum_list (map (\<lambda>f. length (re_raw f)) (hub_frames (hr_hub r))) \<le> max max_bytes 1 \<and>
    (\<forall>cursor. unat cursor < length (hr_log r) \<and> length (drop (unat cursor) (hr_log r)) \<le> max capacity 1 \<and>
       sum_list (map length (drop (unat cursor) (hr_log r))) \<le> max max_bytes 1 \<longrightarrow>
       hub_next (hr_hub r) cursor = (Some (Delivered (hr_log r ! unat cursor)), cursor + 1))"
proof -
  have k: "run_keeps r" unfolding assms(2) using hub_ops_keeps hub_new_keeps [OF assms(1)] assms(2,3) by blast
  have c: "hub_capacity (hr_hub r) = max capacity 1" "hub_max_bytes (hr_hub r) = max max_bytes 1"
    using hub_ops_frame [of ops "subscribed (hub_new capacity max_bytes) []"]
    by (simp_all add: assms(2) subscribed_def hub_new_def)
  have b: "length (hub_frames (hr_hub r)) \<le> max capacity 1 \<and>
    sum_list (map (\<lambda>f. length (re_raw f)) (hub_frames (hr_hub r))) \<le> max max_bytes 1"
    using k c by (auto simp: run_keeps_def hub_ok_def frames_bytes_def)
  show ?thesis
    using b keeps_next [of "hr_log r" "hr_hub r"] k
    by (simp add: run_keeps_def hub_fits_def bytes_of_def c)
qed

lemma hub_retains_what_fits_witness:
  "hub_next (hr_hub (hub_ops [Publish ''aa'', Publish ''b'', Publish ''c'']
     (subscribed (hub_new 2 10) []))) 1 = (Some (Delivered ''b''), 2)"
proof -
  define r where "r = hub_ops [Publish ''aa'', Publish ''b'', Publish ''c''] (subscribed (hub_new 2 10) [])"
  have l: "hr_log r = [''aa'', ''b'', ''c'']"
    by (simp add: r_def hub_ops_def subscribed_def hub_new_def)
  show ?thesis
    using hub_retains_what_fits [OF _ r_def] by (simp add: l usize_max_def r_def [symmetric])
qed

end
