(* ===== verification/GatewayTask.thy ===== *)
theory GatewayTask
  imports GatewayEvents "HOL-Library.Multiset"
begin

text \<open>
  Requests on a Gateway session: the callers (\<open>request_inner\<close> and \<open>RequestCancellation\<close>) and the
  session task (\<open>run_session\<close>) of \<open>session.rs\<close>, as steps on a shared state.

  A step of the task is the branch of the \<open>select!\<close> that is ready, with the beginning of the next
  iteration of the loop, which drops the requests cancelled until then. What the socket does is part of the step: how a write
  ends, which message arrives. \<open>parse\<close> stands for \<open>serde_json::from_str::<IncomingFrame>\<close>. Times
  are nanoseconds. A request holds a permit from the moment it got one until it is answered or
  dropped; where the code drops a value that owns a permit, the step returns it.
\<close>

section \<open>Frames\<close>

record gateway_error_shape =
  ges_code :: string
  ges_message :: string
  ges_details :: "json option"
  ges_retryable :: "bool option"
  ges_retry_after_ms :: "u64 option"

datatype incoming_frame =
    EventFrame string json
  | ResponseFrame string bool json "gateway_error_shape option"

definition response_result ::
  "string \<Rightarrow> bool \<Rightarrow> json \<Rightarrow> gateway_error_shape option \<Rightarrow> gateway_client_error + json" where
  "response_result method ok payload error =
     (if ok then Inr payload
      else
        let error = (case error of Some e \<Rightarrow> e | None \<Rightarrow>
              \<lparr>ges_code = ''UNKNOWN'', ges_message = ''Gateway rejected the request'', ges_details = None,
               ges_retryable = None, ges_retry_after_ms = None\<rparr>);
            error = (if ges_code error = [] then error\<lparr>ges_code := ''UNKNOWN''\<rparr> else error);
            error = (if ges_message error = [] then error\<lparr>ges_message := ''Gateway rejected the request''\<rparr> else error) in
        Inl (GwGateway method (ges_code error) (ges_message error) (ges_details error) (ges_retryable error)
          (ges_retry_after_ms error)))"

fun pending_request_error :: "session_close_cause \<Rightarrow> string \<Rightarrow> gateway_client_error" where
  "pending_request_error (CauseClosed reason) method =
     GwClosed (reason @ ''; request '' @ method @ '' did not complete'')"
| "pending_request_error (CauseInvalidFrame reason) method =
     GwInvalidFrame (reason @ ''; request '' @ method @ '' did not complete'')"
| "pending_request_error (CauseTransport reason) method =
     GwTransport (reason @ ''; request '' @ method @ '' did not complete'')"
| "pending_request_error (CauseWriteTimeout operation) method =
     GwWriteTimeout (operation @ ''; request '' @ method @ '' did not complete'')"

text \<open>The text of a transport error, the only one the task turns into text.\<close>

definition transport_text :: "string \<Rightarrow> string" where
  "transport_text e = ''Gateway connection failed: '' @ e"

definition request_id :: "u64 \<Rightarrow> string" where
  "request_id n = ''rust-gateway-'' @ show_nat (unat n)"

section \<open>State\<close>

record request_command =
  rq_id :: string
  rq_method :: string
  rq_params :: json
  rq_deadline :: nat

datatype session_command = Request request_command | CancelRequest string

record pending_request =
  pr_method :: string
  pr_deadline :: nat

text \<open>
  Besides the fields of the code: the requests that hold a permit and wait for room in the command
  channel, the requests written, the answers sent to callers, the errors callers returned before
  their request was queued, and the requests whose answer channel was dropped.
\<close>

record gateway_task =
  gt_permits :: nat
  gt_next_id :: u64
  gt_capacity :: nat
  gt_waiting :: "request_command list"
  gt_commands :: "session_command list"
  gt_pending :: "(string \<times> pending_request) list"
  gt_cancelled :: "string set"
  gt_hub :: event_hub
  gt_activity :: u64
  gt_closed :: "session_close_cause option"
  gt_sent :: "request_command list"
  gt_replies :: "(string \<times> (gateway_client_error + json)) list"
  gt_returned :: "(string \<times> gateway_client_error) list"
  gt_dropped :: "string list"

definition task_start :: "nat \<Rightarrow> event_hub \<Rightarrow> gateway_task" where
  "task_start in_flight hub =
     \<lparr>gt_permits = max in_flight 1, gt_next_id = 1, gt_capacity = max in_flight 1,
      gt_waiting = [], gt_commands = [], gt_pending = [], gt_cancelled = {}, gt_hub = hub,
      gt_activity = 0, gt_closed = None, gt_sent = [], gt_replies = [], gt_returned = [], gt_dropped = []\<rparr>"

section \<open>Callers\<close>

text \<open>A call starts: it is refused, waits for a permit, or takes one and an identifier.\<close>

definition call_start :: "string \<Rightarrow> json \<Rightarrow> nat \<Rightarrow> gateway_task \<Rightarrow> (gateway_client_error + string) option \<times> gateway_task" where
  "call_start method params deadline s =
     (if method = [] then (Some (Inl (GwInvalidFrame ''request method must not be empty'')), s)
      else if gt_permits s = 0 then (None, s)
      else
        let rid = request_id (gt_next_id s) in
        (Some (Inr rid),
         s\<lparr>gt_permits := gt_permits s - 1, gt_next_id := gt_next_id s + 1,
           gt_waiting := gt_waiting s @ [\<lparr>rq_id = rid, rq_method = method, rq_params = params,
             rq_deadline = deadline\<rparr>]\<rparr>))"

text \<open>The command is queued when there is room; on an ended session the call returns its error.\<close>

definition call_enqueue :: "request_command \<Rightarrow> gateway_task \<Rightarrow> gateway_task" where
  "call_enqueue rq s =
     (if rq \<notin> set (gt_waiting s) then s
      else if gt_closed s \<noteq> None
        then s\<lparr>gt_waiting := remove1 rq (gt_waiting s), gt_permits := gt_permits s + 1,
               gt_returned := gt_returned s @ [(rq_id rq, closed_error (gt_closed s))]\<rparr>
      else if length (gt_commands s) < gt_capacity s
        then s\<lparr>gt_waiting := remove1 rq (gt_waiting s), gt_commands := gt_commands s @ [Request rq]\<rparr>
      else s)"

text \<open>The deadline passes while the call waits for room.\<close>

definition call_times_out :: "request_command \<Rightarrow> gateway_task \<Rightarrow> gateway_task" where
  "call_times_out rq s =
     (if rq \<notin> set (gt_waiting s) then s
      else s\<lparr>gt_waiting := remove1 rq (gt_waiting s), gt_permits := gt_permits s + 1,
             gt_returned := gt_returned s @ [(rq_id rq, GwRequestTimeout (rq_method rq))]\<rparr>)"

text \<open>The caller drops the call while it waits for room.\<close>

definition call_dropped :: "request_command \<Rightarrow> gateway_task \<Rightarrow> gateway_task" where
  "call_dropped rq s =
     (if rq \<notin> set (gt_waiting s) then s
      else s\<lparr>gt_waiting := remove1 rq (gt_waiting s), gt_permits := gt_permits s + 1,
             gt_dropped := gt_dropped s @ [rq_id rq]\<rparr>)"

text \<open>
  \<open>RequestCancellation::drop\<close>: the caller stops waiting for the answer. The flag is raised and, if
  the channel takes it, a command sent.
\<close>

definition call_abandons :: "string \<Rightarrow> gateway_task \<Rightarrow> gateway_task" where
  "call_abandons rid s =
     (let s = s\<lparr>gt_cancelled := insert rid (gt_cancelled s)\<rparr> in
      if gt_closed s = None \<and> length (gt_commands s) < gt_capacity s
        then s\<lparr>gt_commands := gt_commands s @ [CancelRequest rid]\<rparr> else s)"

section \<open>The session task\<close>

text \<open>A pending request leaves the map: its permit is returned.\<close>

definition pending_remove :: "string \<Rightarrow> gateway_task \<Rightarrow> gateway_task" where
  "pending_remove rid s =
     (case map_of (gt_pending s) rid of
        None \<Rightarrow> s
      | Some _ \<Rightarrow> s\<lparr>gt_pending := filter (\<lambda>e. fst e \<noteq> rid) (gt_pending s), gt_permits := gt_permits s + 1\<rparr>)"

definition pending_drop :: "string \<Rightarrow> gateway_task \<Rightarrow> gateway_task" where
  "pending_drop rid s =
     (case map_of (gt_pending s) rid of
        None \<Rightarrow> s
      | Some _ \<Rightarrow> (pending_remove rid s)\<lparr>gt_dropped := gt_dropped s @ [rid]\<rparr>)"

definition pending_answer :: "(string \<Rightarrow> gateway_client_error + json) \<Rightarrow> string \<Rightarrow> gateway_task \<Rightarrow> gateway_task" where
  "pending_answer result rid s =
     (case map_of (gt_pending s) rid of
        None \<Rightarrow> s
      | Some request \<Rightarrow>
          (pending_remove rid s)\<lparr>gt_replies := gt_replies s @ [(rid, result (pr_method request))]\<rparr>)"

text \<open>A map holds one request for an identifier: what \<open>insert\<close> replaces is dropped.\<close>

definition pending_insert :: "string \<Rightarrow> pending_request \<Rightarrow> gateway_task \<Rightarrow> gateway_task" where
  "pending_insert rid request s =
     (let s = pending_drop rid s in s\<lparr>gt_pending := gt_pending s @ [(rid, request)]\<rparr>)"

definition sweep_cancelled :: "gateway_task \<Rightarrow> gateway_task" where
  "sweep_cancelled s = fold pending_drop
     (filter (\<lambda>rid. rid \<in> gt_cancelled s) (map fst (gt_pending s))) s"

definition expire_pending :: "nat \<Rightarrow> gateway_task \<Rightarrow> gateway_task" where
  "expire_pending now s = fold (pending_answer (\<lambda>method. Inl (GwRequestTimeout method)))
     (map fst (filter (\<lambda>(rid, request). pr_deadline request \<le> now) (gt_pending s))) s"

fun queued_request :: "session_command \<Rightarrow> string option" where
  "queued_request (Request rq) = Some (rq_id rq)"
| "queued_request (CancelRequest rid) = None"

text \<open>
  The loop ended: every pending request is answered, the cause is published, the hub closed, and
  the command channel dropped with what is in it.
\<close>

definition end_session :: "session_close_cause \<Rightarrow> gateway_task \<Rightarrow> gateway_task" where
  "end_session cause s =
     (let s = fold (pending_answer (\<lambda>method. Inl (pending_request_error cause method)))
            (map fst (gt_pending s)) s;
          queued = List.map_filter queued_request (gt_commands s) in
      s\<lparr>gt_closed := Some cause, gt_hub := hub_close (gt_hub s), gt_commands := [],
        gt_dropped := gt_dropped s @ queued, gt_permits := gt_permits s + length queued\<rparr>)"

text \<open>How a write ends.\<close>

datatype send_outcome = Sent | SendTimedOut | SendRejected string | SendFailed string

definition answer_command :: "request_command \<Rightarrow> gateway_client_error + json \<Rightarrow> gateway_task \<Rightarrow> gateway_task" where
  "answer_command rq result s =
     s\<lparr>gt_replies := gt_replies s @ [(rq_id rq, result)], gt_permits := gt_permits s + 1\<rparr>"

definition on_request :: "nat \<Rightarrow> nat \<Rightarrow> send_outcome \<Rightarrow> request_command \<Rightarrow> gateway_task \<Rightarrow> gateway_task" where
  "on_request write_timeout now outcome rq s =
     (if rq_id rq \<in> gt_cancelled s
        then s\<lparr>gt_dropped := gt_dropped s @ [rq_id rq], gt_permits := gt_permits s + 1\<rparr>
      else if rq_deadline rq \<le> now then answer_command rq (Inl (GwRequestTimeout (rq_method rq))) s
      else
        let remaining = rq_deadline rq - now;
            request_deadline_wins = (remaining \<le> write_timeout) in
        case outcome of
          Sent \<Rightarrow>
            pending_insert (rq_id rq) \<lparr>pr_method = rq_method rq, pr_deadline = rq_deadline rq\<rparr>
              (s\<lparr>gt_sent := gt_sent s @ [rq]\<rparr>)
        | SendTimedOut \<Rightarrow>
            end_session (CauseWriteTimeout (rq_method rq))
              (answer_command rq (Inl (if request_deadline_wins then GwRequestTimeout (rq_method rq)
                 else GwWriteTimeout (rq_method rq))) s)
        | SendRejected reason \<Rightarrow> answer_command rq (Inl (GwDispatchRejected reason)) s
        | SendFailed e \<Rightarrow>
            end_session (CauseTransport (transport_text e)) (answer_command rq (Inl (GwTransport e)) s))"

text \<open>The code and the reason of a close frame, both as text, and what an arrival on the socket is.\<close>

type_synonym close_frame = "string \<times> string"

definition format_close :: "close_frame option \<Rightarrow> string" where
  "format_close frame =
     (case frame of
        None \<Rightarrow> ''Gateway closed the WebSocket''
      | Some (code, reason) \<Rightarrow> ''Gateway closed the WebSocket ('' @ code @ ''): '' @ reason)"

datatype socket_message =
    TextMessage string
  | PingMessage send_outcome
  | CloseMessage "close_frame option"
  | OtherMessage
  | StreamError string
  | StreamEnd

text \<open>\<open>session_close_cause\<close> of the error a pong ends with; there is no guard to reject it.\<close>

fun pong_cause :: "send_outcome \<Rightarrow> session_close_cause option" where
  "pong_cause Sent = None"
| "pong_cause SendTimedOut = Some (CauseWriteTimeout ''pong'')"
| "pong_cause (SendFailed e) = Some (CauseTransport (transport_text e))"
| "pong_cause (SendRejected reason) = None"

definition on_text :: "(string \<Rightarrow> string + incoming_frame) \<Rightarrow> string \<Rightarrow> gateway_task \<Rightarrow> gateway_task" where
  "on_text parse text s =
     (case parse text of
        Inr (EventFrame event payload) \<Rightarrow> s\<lparr>gt_hub := hub_publish text (gt_hub s)\<rparr>
      | Inr (ResponseFrame rid ok payload error) \<Rightarrow>
          pending_answer (\<lambda>method. response_result method ok payload error) rid s
      | Inl e \<Rightarrow> end_session (CauseInvalidFrame e) s)"

definition on_message ::
  "(string \<Rightarrow> string + incoming_frame) \<Rightarrow> socket_message \<Rightarrow> gateway_task \<Rightarrow> gateway_task" where
  "on_message parse message s =
     (let active = s\<lparr>gt_activity := gt_activity s + 1\<rparr> in
      case message of
        TextMessage text \<Rightarrow> on_text parse text active
      | PingMessage outcome \<Rightarrow>
          (case pong_cause outcome of None \<Rightarrow> active | Some cause \<Rightarrow> end_session cause active)
      | CloseMessage frame \<Rightarrow> end_session (CauseClosed (format_close frame)) active
      | OtherMessage \<Rightarrow> active
      | StreamError e \<Rightarrow> end_session (CauseTransport e) s
      | StreamEnd \<Rightarrow> end_session (CauseClosed ''Gateway ended the WebSocket stream'') s)"

text \<open>The branches of the loop: a close request or the last sender gone, a deadline, a command, a message.\<close>

datatype task_event =
    CloseRequested
  | DeadlineReached nat
  | CommandReady nat send_outcome
  | MessageReady socket_message

definition on_command :: "nat \<Rightarrow> nat \<Rightarrow> send_outcome \<Rightarrow> gateway_task \<Rightarrow> gateway_task" where
  "on_command write_timeout now outcome s =
     (case gt_commands s of
        [] \<Rightarrow> s
      | Request rq # rest \<Rightarrow> on_request write_timeout now outcome rq (s\<lparr>gt_commands := rest\<rparr>)
      | CancelRequest rid # rest \<Rightarrow> pending_drop rid (s\<lparr>gt_commands := rest\<rparr>))"

definition task_step ::
  "(string \<Rightarrow> string + incoming_frame) \<Rightarrow> nat \<Rightarrow> task_event \<Rightarrow> gateway_task \<Rightarrow> gateway_task" where
  "task_step parse write_timeout event s =
     (if gt_closed s \<noteq> None then s
      else sweep_cancelled (case event of
          CloseRequested \<Rightarrow> end_session (CauseClosed ''closed by client'') s
        | DeadlineReached now \<Rightarrow> expire_pending now s
        | CommandReady now outcome \<Rightarrow> on_command write_timeout now outcome s
        | MessageReady message \<Rightarrow> on_message parse message s))"

section \<open>Runs\<close>

datatype gateway_op =
    CallStarts string json nat
  | CallQueues request_command
  | CallTimesOut request_command
  | CallDropped request_command
  | CallAbandons string
  | TaskRuns task_event

definition gateway_step ::
  "(string \<Rightarrow> string + incoming_frame) \<Rightarrow> nat \<Rightarrow> gateway_op \<Rightarrow> gateway_task \<Rightarrow> gateway_task" where
  "gateway_step parse write_timeout op s =
     (case op of
        CallStarts method params deadline \<Rightarrow> snd (call_start method params deadline s)
      | CallQueues rq \<Rightarrow> call_enqueue rq s
      | CallTimesOut rq \<Rightarrow> call_times_out rq s
      | CallDropped rq \<Rightarrow> call_dropped rq s
      | CallAbandons rid \<Rightarrow> call_abandons rid s
      | TaskRuns event \<Rightarrow> task_step parse write_timeout event s)"

definition gateway_run ::
  "(string \<Rightarrow> string + incoming_frame) \<Rightarrow> nat \<Rightarrow> gateway_op list \<Rightarrow> gateway_task \<Rightarrow> gateway_task" where
  "gateway_run parse write_timeout ops s = fold (gateway_step parse write_timeout) ops s"

section \<open>Identifiers\<close>

lemma request_id_inject: "request_id a = request_id b \<longleftrightarrow> a = b"
  by (auto simp: request_id_def show_nat_inject intro: unsigned_word_eqI)

section \<open>What is conserved\<close>

text \<open>
  The requests by what became of them, and the permits, free or held. Every step but the start of a
  call only moves requests from one place to another.
\<close>

definition queued_ids :: "gateway_task \<Rightarrow> string list" where
  "queued_ids s = List.map_filter queued_request (gt_commands s)"

definition pending_ids :: "gateway_task \<Rightarrow> string list" where
  "pending_ids s = map fst (gt_pending s)"

definition task_ids :: "gateway_task \<Rightarrow> string multiset" where
  "task_ids s = mset (map rq_id (gt_waiting s)) + mset (queued_ids s) + mset (pending_ids s) +
     mset (map fst (gt_replies s)) + mset (map fst (gt_returned s)) + mset (gt_dropped s)"

definition permits :: "gateway_task \<Rightarrow> nat" where
  "permits s = gt_permits s + length (gt_waiting s) + length (queued_ids s) + length (gt_pending s)"

lemma queued_ids_simps [simp]:
  "List.map_filter queued_request [] = []"
  "List.map_filter queued_request (Request rq # cs) = rq_id rq # List.map_filter queued_request cs"
  "List.map_filter queued_request (CancelRequest rid # cs) = List.map_filter queued_request cs"
  "List.map_filter queued_request (cs @ ds) = List.map_filter queued_request cs @ List.map_filter queued_request ds"
  by (simp_all add: List.map_filter_def)

text \<open>\<open>conserves s s'\<close>: only requests moved, and the caller-side fields are as before.\<close>

definition conserves :: "gateway_task \<Rightarrow> gateway_task \<Rightarrow> bool" where
  "conserves s s' \<longleftrightarrow> task_ids s' = task_ids s \<and> permits s' = permits s \<and>
     gt_capacity s' = gt_capacity s \<and> gt_next_id s' = gt_next_id s \<and>
     length (gt_commands s') \<le> length (gt_commands s) \<and> gt_waiting s' = gt_waiting s"

lemma conserves_refl [simp]: "conserves s s"
  by (simp add: conserves_def)

lemma conserves_trans: "conserves a b \<Longrightarrow> conserves b c \<Longrightarrow> conserves a c"
  by (auto simp: conserves_def)

lemma remove_key_mset:
  "distinct (map fst xs) \<Longrightarrow> (k, v) \<in> set xs \<Longrightarrow>
   add_mset k (mset (map fst (filter (\<lambda>e. fst e \<noteq> k) xs))) = mset (map fst xs) \<and>
   Suc (length (filter (\<lambda>e. fst e \<noteq> k) xs)) = length xs"
proof (induction xs)
  case (Cons y ys)
  show ?case
  proof (cases "fst y = k")
    case True
    then have "k \<notin> fst ` set ys" using Cons.prems(1) by simp
    then have "filter (\<lambda>e. fst e \<noteq> k) ys = ys" by (auto simp: filter_id_conv)
    then show ?thesis using True by simp
  next
    case False
    then have "(k, v) \<in> set ys" using Cons.prems(2) by auto
    then show ?thesis using Cons False by (auto simp: add_mset_commute)
  qed
qed simp

lemma remove_pending:
  assumes "distinct (pending_ids s)" and "map_of (gt_pending s) rid = Some request"
  shows "add_mset rid (mset (map fst (filter (\<lambda>e. fst e \<noteq> rid) (gt_pending s)))) = mset (pending_ids s)"
    and "Suc (length (filter (\<lambda>e. fst e \<noteq> rid) (gt_pending s))) = length (gt_pending s)"
  using remove_key_mset [of "gt_pending s" rid request] assms map_of_SomeD [OF assms(2)]
  by (simp_all add: pending_ids_def)

lemma pending_answer_conserves:
  assumes "distinct (pending_ids s)"
  shows "conserves s (pending_answer f rid s) \<and> distinct (pending_ids (pending_answer f rid s))"
proof (cases "map_of (gt_pending s) rid")
  case (Some request)
  note r = remove_pending [OF assms Some]
  have "distinct (map fst (filter (\<lambda>e. fst e \<noteq> rid) (gt_pending s)))"
    using assms by (simp add: pending_ids_def distinct_map_filter)
  then show ?thesis using Some r
    by (simp add: conserves_def pending_answer_def pending_remove_def task_ids_def permits_def queued_ids_def
        pending_ids_def flip: r(1))
qed (simp add: pending_answer_def assms)

lemma pending_drop_conserves:
  assumes "distinct (pending_ids s)"
  shows "conserves s (pending_drop rid s) \<and> distinct (pending_ids (pending_drop rid s))"
proof (cases "map_of (gt_pending s) rid")
  case (Some request)
  note r = remove_pending [OF assms Some]
  have "distinct (map fst (filter (\<lambda>e. fst e \<noteq> rid) (gt_pending s)))"
    using assms by (simp add: pending_ids_def distinct_map_filter)
  then show ?thesis using Some r
    by (simp add: conserves_def pending_drop_def pending_remove_def task_ids_def permits_def queued_ids_def
        pending_ids_def flip: r(1))
qed (simp add: pending_drop_def assms)

text \<open>The contract of an operation that takes one request out of the map, applied to a list of them.\<close>

locale request_mover =
  fixes move :: "string \<Rightarrow> gateway_task \<Rightarrow> gateway_task"
  assumes move_conserves: "distinct (pending_ids s) \<Longrightarrow> conserves s (move rid s)"
    and move_distinct: "distinct (pending_ids s) \<Longrightarrow> distinct (pending_ids (move rid s))"
begin

lemma fold_conserves:
  "distinct (pending_ids s) \<Longrightarrow> conserves s (fold move rids s) \<and> distinct (pending_ids (fold move rids s))"
proof (induction rids arbitrary: s)
  case (Cons rid rids)
  have "conserves s (move rid s)" "distinct (pending_ids (move rid s))"
    using move_conserves move_distinct Cons.prems by auto
  then show ?case using Cons.IH [of "move rid s"] conserves_trans by auto
qed simp

end

interpretation answering: request_mover "pending_answer f" for f
  by unfold_locales (simp_all add: pending_answer_conserves)

interpretation dropping: request_mover pending_drop
  by unfold_locales (simp_all add: pending_drop_conserves)

text \<open>What answering a list of requests leaves pending.\<close>

lemma pending_answer_pending:
  "gt_pending (pending_answer f rid s) = filter (\<lambda>e. fst e \<noteq> rid) (gt_pending s)"
  by (force simp: pending_answer_def pending_remove_def filter_id_conv map_of_eq_None_iff split: option.split
      intro: sym [OF filter_True])

lemma fold_answer_pending:
  "gt_pending (fold (pending_answer f) rids s) = filter (\<lambda>e. fst e \<notin> set rids) (gt_pending s)"
  by (induction rids arbitrary: s) (auto simp: pending_answer_pending intro: filter_cong)

lemma pending_answer_frame [simp]:
  "gt_commands (pending_answer f rid s) = gt_commands s" "gt_hub (pending_answer f rid s) = gt_hub s"
  "gt_closed (pending_answer f rid s) = gt_closed s" "gt_dropped (pending_answer f rid s) = gt_dropped s"
  "gt_sent (pending_answer f rid s) = gt_sent s" "gt_permits (pending_answer f rid s) \<ge> gt_permits s"
  "gt_cancelled (pending_answer f rid s) = gt_cancelled s"
  by (auto simp: pending_answer_def pending_remove_def split: option.split)

lemma fold_answer_frame [simp]:
  "gt_commands (fold (pending_answer f) rids s) = gt_commands s \<and> gt_hub (fold (pending_answer f) rids s) = gt_hub s \<and>
   gt_closed (fold (pending_answer f) rids s) = gt_closed s \<and> gt_dropped (fold (pending_answer f) rids s) = gt_dropped s \<and>
   gt_sent (fold (pending_answer f) rids s) = gt_sent s \<and> gt_cancelled (fold (pending_answer f) rids s) = gt_cancelled s"
  by (induction rids arbitrary: s) simp_all

lemma pending_drop_frame [simp]:
  "gt_commands (pending_drop rid s) = gt_commands s" "gt_hub (pending_drop rid s) = gt_hub s"
  "gt_closed (pending_drop rid s) = gt_closed s" "gt_replies (pending_drop rid s) = gt_replies s"
  "gt_sent (pending_drop rid s) = gt_sent s" "gt_cancelled (pending_drop rid s) = gt_cancelled s"
  by (auto simp: pending_drop_def pending_remove_def split: option.split)

lemma pending_drop_pending:
  "gt_pending (pending_drop rid s) = filter (\<lambda>e. fst e \<noteq> rid) (gt_pending s)"
  by (force simp: pending_drop_def pending_remove_def filter_id_conv map_of_eq_None_iff split: option.split
      intro: sym [OF filter_True])

lemma fold_drop_frame [simp]:
  "gt_commands (fold pending_drop rids s) = gt_commands s \<and> gt_hub (fold pending_drop rids s) = gt_hub s \<and>
   gt_closed (fold pending_drop rids s) = gt_closed s \<and> gt_replies (fold pending_drop rids s) = gt_replies s \<and>
   gt_sent (fold pending_drop rids s) = gt_sent s \<and> gt_cancelled (fold pending_drop rids s) = gt_cancelled s \<and>
   gt_pending (fold pending_drop rids s) = filter (\<lambda>e. fst e \<notin> set rids) (gt_pending s)"
  by (induction rids arbitrary: s) (auto simp: pending_drop_pending intro: filter_cong)

text \<open>What the operations rely on: an identifier is pending once, and an ended session has no work left.\<close>

definition gateway_inv :: "gateway_task \<Rightarrow> bool" where
  "gateway_inv s \<longleftrightarrow> distinct (pending_ids s) \<and> length (gt_commands s) \<le> gt_capacity s \<and>
     (gt_closed s \<noteq> None \<longrightarrow> gt_pending s = [] \<and> gt_commands s = [] \<and> hub_closed (gt_hub s))"

lemma end_session_pending: "gt_pending (end_session cause s) = []"
proof -
  have "filter (\<lambda>e. fst e \<notin> set (map fst (gt_pending s))) (gt_pending s) = []"
    by (auto simp: filter_empty_conv)
  then show ?thesis by (simp add: end_session_def fold_answer_pending Let_def)
qed

lemma end_session_fields:
  "gt_commands (end_session cause s) = []" "gt_closed (end_session cause s) = Some cause"
  "hub_closed (gt_hub (end_session cause s))" "gt_sent (end_session cause s) = gt_sent s"
  "gt_cancelled (end_session cause s) = gt_cancelled s"
  by (simp_all add: end_session_def Let_def hub_close_def)

lemma end_session_conserves:
  assumes "distinct (pending_ids s)"
  shows "conserves s (end_session cause s)"
proof -
  let ?a = "fold (pending_answer (\<lambda>method. Inl (pending_request_error cause method))) (map fst (gt_pending s)) s"
  have "conserves s ?a" using answering.fold_conserves [OF assms] by blast
  moreover have "conserves ?a (?a\<lparr>gt_closed := Some cause, gt_hub := hub_close (gt_hub ?a), gt_commands := [],
      gt_dropped := gt_dropped ?a @ queued_ids ?a, gt_permits := gt_permits ?a + length (queued_ids ?a)\<rparr>)"
    by (simp add: conserves_def task_ids_def permits_def queued_ids_def pending_ids_def)
  ultimately show ?thesis
    using conserves_trans by (simp add: end_session_def Let_def queued_ids_def)
qed

text \<open>A command was taken from the channel: \<open>s\<close> no longer has it.\<close>

definition conserves_taken :: "string \<Rightarrow> gateway_task \<Rightarrow> gateway_task \<Rightarrow> bool" where
  "conserves_taken rid s s' \<longleftrightarrow> task_ids s' = add_mset rid (task_ids s) \<and> permits s' = Suc (permits s) \<and>
     gt_capacity s' = gt_capacity s \<and> gt_next_id s' = gt_next_id s \<and>
     length (gt_commands s') \<le> length (gt_commands s) \<and> gt_waiting s' = gt_waiting s"

lemma conserves_taken_trans: "conserves_taken rid a b \<Longrightarrow> conserves b c \<Longrightarrow> conserves_taken rid a c"
  by (auto simp: conserves_taken_def conserves_def)

lemma conserves_then_taken: "conserves a b \<Longrightarrow> conserves_taken rid b c \<Longrightarrow> conserves_taken rid a c"
  by (auto simp: conserves_taken_def conserves_def)

lemma answer_command_taken:
  "conserves_taken (rq_id rq) s (answer_command rq result s)"
  "pending_ids (answer_command rq result s) = pending_ids s"
  by (simp_all add: conserves_taken_def answer_command_def task_ids_def permits_def queued_ids_def pending_ids_def)

lemma pending_insert_taken:
  assumes "distinct (pending_ids s)"
  shows "conserves_taken rid s (pending_insert rid request s)"
    and "distinct (pending_ids (pending_insert rid request s))"
proof -
  have "conserves s (pending_drop rid s)" using pending_drop_conserves [OF assms] by blast
  moreover have "conserves_taken rid (pending_drop rid s) (pending_insert rid request s)"
    by (simp add: conserves_taken_def pending_insert_def Let_def task_ids_def permits_def queued_ids_def pending_ids_def)
  ultimately show "conserves_taken rid s (pending_insert rid request s)" by (rule conserves_then_taken)
  show "distinct (pending_ids (pending_insert rid request s))"
    using assms by (auto simp: pending_insert_def Let_def pending_ids_def pending_drop_pending distinct_map_filter)
qed

lemma sent_accounts:
  "task_ids (s\<lparr>gt_sent := rqs\<rparr>) = task_ids s" "permits (s\<lparr>gt_sent := rqs\<rparr>) = permits s"
  "pending_ids (s\<lparr>gt_sent := rqs\<rparr>) = pending_ids s"
  by (simp_all add: task_ids_def permits_def queued_ids_def pending_ids_def)

lemma on_request_taken:
  assumes d: "distinct (pending_ids s)" and "gt_closed s = None"
  shows "conserves_taken (rq_id rq) s (on_request wt now outcome rq s)"
    and "distinct (pending_ids (on_request wt now outcome rq s))"
proof -
  note a = answer_command_taken [where rq = rq and s = s]
  have e: "conserves_taken (rq_id rq) s (end_session cause (answer_command rq result s))" for cause result
    using a conserves_taken_trans end_session_conserves [of "answer_command rq result s" cause] d by metis
  have i: "conserves_taken (rq_id rq) s (pending_insert (rq_id rq) request (s\<lparr>gt_sent := gt_sent s @ [rq]\<rparr>))"
    "distinct (pending_ids (pending_insert (rq_id rq) request (s\<lparr>gt_sent := gt_sent s @ [rq]\<rparr>)))" for request
    using pending_insert_taken [of "s\<lparr>gt_sent := gt_sent s @ [rq]\<rparr>" "rq_id rq" request] d
    by (simp_all add: conserves_taken_def sent_accounts)
  have c: "conserves_taken (rq_id rq) s (s\<lparr>gt_dropped := gt_dropped s @ [rq_id rq], gt_permits := gt_permits s + 1\<rparr>)"
    by (simp add: conserves_taken_def task_ids_def permits_def queued_ids_def pending_ids_def)
  show "conserves_taken (rq_id rq) s (on_request wt now outcome rq s)"
    using a(1) e i(1) c by (simp add: on_request_def Let_def split: send_outcome.split)
  show "distinct (pending_ids (on_request wt now outcome rq s))"
    using d a(2) i(2)
    by (simp add: on_request_def Let_def pending_ids_def end_session_pending split: send_outcome.split)
qed

lemma on_command_conserves:
  assumes d: "distinct (pending_ids s)" and "gt_closed s = None"
  shows "conserves s (on_command wt now outcome s)" and "distinct (pending_ids (on_command wt now outcome s))"
proof -
  have "conserves s (on_command wt now outcome s) \<and> distinct (pending_ids (on_command wt now outcome s))"
  proof (cases "gt_commands s")
    case Nil
    then show ?thesis using d by (simp add: on_command_def)
  next
    case (Cons command rest)
    let ?s = "s\<lparr>gt_commands := rest\<rparr>"
    have d': "distinct (pending_ids ?s)" using d by (simp add: pending_ids_def)
    show ?thesis
    proof (cases command)
      case (Request rq)
      have "conserves_taken (rq_id rq) ?s t \<Longrightarrow> conserves s t" for t
        using Cons Request
        by (auto simp: conserves_taken_def conserves_def task_ids_def permits_def queued_ids_def pending_ids_def)
      then show ?thesis
        using on_request_taken [OF d', where rq = rq and wt = wt and now = now and outcome = outcome] assms(2) Cons Request by (simp add: on_command_def)
    next
      case (CancelRequest rid)
      have "conserves s ?s"
        using Cons CancelRequest
        by (simp add: conserves_def task_ids_def permits_def queued_ids_def pending_ids_def)
      then show ?thesis
        using pending_drop_conserves [OF d', of rid] conserves_trans Cons CancelRequest
        by (auto simp: on_command_def)
    qed
  qed
  then show "conserves s (on_command wt now outcome s)" "distinct (pending_ids (on_command wt now outcome s))"
    by auto
qed

lemma on_message_conserves:
  assumes d: "distinct (pending_ids s)"
  shows "conserves s (on_message parse message s)" and "distinct (pending_ids (on_message parse message s))"
proof -
  let ?a = "s\<lparr>gt_activity := gt_activity s + 1\<rparr>"
  have d': "distinct (pending_ids ?a)" using d by (simp add: pending_ids_def)
  have "task_ids ?a = task_ids s" "permits ?a = permits s"
    by (simp_all add: task_ids_def permits_def queued_ids_def pending_ids_def)
  then have a: "conserves s t" if "conserves ?a t" for t using that by (simp add: conserves_def)
  have e: "conserves s (end_session cause ?a)" "distinct (pending_ids (end_session cause t))" for cause t
    using end_session_conserves [OF d'] a by (simp_all add: pending_ids_def end_session_pending)
  have h: "conserves s (?a\<lparr>gt_hub := h\<rparr>)" "distinct (pending_ids (?a\<lparr>gt_hub := h\<rparr>))" for h
    using d by (simp_all add: conserves_def task_ids_def permits_def queued_ids_def pending_ids_def)
  have p: "conserves s (pending_answer f rid ?a)" "distinct (pending_ids (pending_answer f rid ?a))" for f rid
    using pending_answer_conserves [OF d'] a by simp_all
  have t: "conserves s (on_text parse t ?a)" "distinct (pending_ids (on_text parse t ?a))" for t
    using e h p by (simp_all add: on_text_def split: sum.split incoming_frame.split)
  have s: "conserves s (end_session cause s)" for cause by (rule end_session_conserves [OF d])
  show "conserves s (on_message parse message s)" "distinct (pending_ids (on_message parse message s))"
    using e t s a d' conserves_refl by (simp_all add: on_message_def Let_def split: socket_message.split option.split)
qed

lemma task_step_conserves:
  assumes "gateway_inv s"
  shows "conserves s (task_step parse wt event s)" and "distinct (pending_ids (task_step parse wt event s))"
proof -
  have d: "distinct (pending_ids s)" using assms by (simp add: gateway_inv_def)
  have "conserves s (task_step parse wt event s) \<and> distinct (pending_ids (task_step parse wt event s))"
  proof (cases "gt_closed s")
    case None
    have x: "conserves s (sweep_cancelled t) \<and> distinct (pending_ids (sweep_cancelled t))"
      if "conserves s t" "distinct (pending_ids t)" for t
      using that dropping.fold_conserves [of t] conserves_trans unfolding sweep_cancelled_def by blast
    have "conserves s (end_session cause s)" "distinct (pending_ids (end_session cause s))" for cause
      using end_session_conserves [OF d] by (simp_all add: pending_ids_def end_session_pending)
    moreover have "conserves s (expire_pending now s)" "distinct (pending_ids (expire_pending now s))" for now
      using answering.fold_conserves [OF d] unfolding expire_pending_def by blast+
    ultimately show ?thesis
      using None x on_command_conserves [OF d None] on_message_conserves [OF d]
      by (cases event) (simp_all add: task_step_def)
  qed (simp add: task_step_def d)
  then show "conserves s (task_step parse wt event s)" "distinct (pending_ids (task_step parse wt event s))" by auto
qed

definition ended_clean :: "gateway_task \<Rightarrow> bool" where
  "ended_clean s \<longleftrightarrow> (gt_closed s \<noteq> None \<longrightarrow> gt_pending s = [] \<and> gt_commands s = [] \<and> hub_closed (gt_hub s))"

lemma ended_clean_end [simp]: "ended_clean (end_session cause s)"
  by (simp add: ended_clean_def end_session_pending end_session_fields)

lemma ended_clean_open: "gt_closed s = None \<Longrightarrow> ended_clean s"
  by (simp add: ended_clean_def)

lemma pending_insert_closed [simp]: "gt_closed (pending_insert rid request s) = gt_closed s"
  by (simp add: pending_insert_def Let_def)

lemma on_request_ended_clean: "gt_closed s = None \<Longrightarrow> ended_clean (on_request wt now outcome rq s)"
  by (auto simp: on_request_def Let_def answer_command_def ended_clean_open split: send_outcome.split)

lemma on_command_ended_clean: "gt_closed s = None \<Longrightarrow> ended_clean (on_command wt now outcome s)"
  by (auto simp: on_command_def on_request_ended_clean ended_clean_open split: list.split session_command.split)

lemma on_message_ended_clean: "gt_closed s = None \<Longrightarrow> ended_clean (on_message parse message s)"
  by (auto simp: on_message_def on_text_def Let_def ended_clean_open
      split: socket_message.split option.split sum.split incoming_frame.split)

lemma sweep_ended_clean: "ended_clean s \<Longrightarrow> ended_clean (sweep_cancelled s)"
  by (simp add: ended_clean_def sweep_cancelled_def)

lemma task_step_ended_clean: "ended_clean s \<Longrightarrow> ended_clean (task_step parse wt event s)"
proof (cases "gt_closed s")
  case None
  then have "ended_clean (expire_pending now s)" for now by (simp add: expire_pending_def ended_clean_open)
  then show ?thesis using None
    by (simp add: task_step_def sweep_ended_clean on_command_ended_clean on_message_ended_clean split: task_event.split)
qed (simp add: task_step_def)

text \<open>A step moves requests, or starts one more.\<close>

definition accounts :: "gateway_task \<Rightarrow> gateway_task \<Rightarrow> bool" where
  "accounts s s' \<longleftrightarrow> permits s' = permits s \<and> gt_capacity s' = gt_capacity s \<and>
     (gt_next_id s' = gt_next_id s \<and> task_ids s' = task_ids s \<or>
      gt_next_id s' = gt_next_id s + 1 \<and> task_ids s' = add_mset (request_id (gt_next_id s)) (task_ids s))"

lemma remove1_waiting:
  assumes "rq \<in> set rqs"
  shows "add_mset (rq_id rq) (image_mset rq_id (mset (remove1 rq rqs))) = image_mset rq_id (mset rqs)"
    and "Suc (length (remove1 rq rqs)) = length rqs"
  using assms length_pos_if_in_set [OF assms]
  by (simp_all add: length_remove1 flip: image_mset_add_mset)

lemma call_moves:
  "accounts s (call_enqueue rq s)" "accounts s (call_times_out rq s)" "accounts s (call_dropped rq s)"
  "accounts s (call_abandons rid s)" "accounts s (snd (call_start method params deadline s))"
  using remove1_waiting [of rq "gt_waiting s"]
  by (auto simp: accounts_def call_enqueue_def call_times_out_def call_dropped_def call_abandons_def call_start_def
      Let_def task_ids_def permits_def queued_ids_def pending_ids_def)

lemma call_keeps_inv:
  assumes "gateway_inv s"
  shows "gateway_inv (call_enqueue rq s)" "gateway_inv (call_times_out rq s)" "gateway_inv (call_dropped rq s)"
    "gateway_inv (call_abandons rid s)" "gateway_inv (snd (call_start method params deadline s))"
  using assms
  by (auto simp: gateway_inv_def call_enqueue_def call_times_out_def call_dropped_def call_abandons_def
      call_start_def Let_def pending_ids_def)

lemma gateway_step_keeps:
  assumes "gateway_inv s"
  shows "gateway_inv (gateway_step parse wt op s)" and "accounts s (gateway_step parse wt op s)"
proof -
  have "ended_clean (task_step parse wt event s)" for event
    using assms by (intro task_step_ended_clean) (simp add: gateway_inv_def ended_clean_def)
  then have "gateway_inv (task_step parse wt event s)" "accounts s (task_step parse wt event s)" for event
    using task_step_conserves [OF assms, of parse wt event] assms
    by (auto simp: gateway_inv_def ended_clean_def accounts_def conserves_def)
  then show "gateway_inv (gateway_step parse wt op s)" "accounts s (gateway_step parse wt op s)"
    using call_keeps_inv [OF assms] call_moves by (cases op; simp add: gateway_step_def)+
qed

lemma gateway_inv_start: "gateway_inv (task_start n hub)"
  by (simp add: gateway_inv_def task_start_def pending_ids_def)

text \<open>The identifiers of the first \<open>n\<close> requests.\<close>

definition issued_ids :: "nat \<Rightarrow> string list" where
  "issued_ids n = map (\<lambda>k. request_id (word_of_nat k)) [1..<Suc n]"

lemma gateway_run_keeps:
  "gateway_inv (gateway_run parse wt ops (task_start n hub)) \<and>
   permits (gateway_run parse wt ops (task_start n hub)) = max n 1 \<and>
   gt_capacity (gateway_run parse wt ops (task_start n hub)) = max n 1 \<and>
   (\<exists>k \<le> length ops. gt_next_id (gateway_run parse wt ops (task_start n hub)) = word_of_nat (Suc k) \<and>
     task_ids (gateway_run parse wt ops (task_start n hub)) = mset (issued_ids k))"
proof (induction ops rule: rev_induct)
  case Nil
  show ?case
    using gateway_inv_start
    by (simp add: gateway_run_def task_start_def permits_def task_ids_def queued_ids_def pending_ids_def issued_ids_def)
next
  case (snoc op ops)
  let ?s = "gateway_run parse wt ops (task_start n hub)" and ?t = "gateway_run parse wt (ops @ [op]) (task_start n hub)"
  obtain k where k: "k \<le> length ops" "gt_next_id ?s = word_of_nat (Suc k)" "task_ids ?s = mset (issued_ids k)"
    using snoc by auto
  have s: "gateway_inv ?s" "permits ?s = max n 1" "gt_capacity ?s = max n 1" using snoc by auto
  have t: "?t = gateway_step parse wt op ?s" by (simp add: gateway_run_def)
  have a: "gateway_inv ?t" "accounts ?s ?t" using gateway_step_keeps [OF s(1)] t by auto
  have i: "mset (issued_ids (Suc k)) = add_mset (request_id (word_of_nat (Suc k))) (mset (issued_ids k))"
    by (simp add: issued_ids_def)
  have "\<exists>k \<le> Suc (length ops). gt_next_id ?t = word_of_nat (Suc k) \<and> task_ids ?t = mset (issued_ids k)"
  proof (cases "gt_next_id ?t = gt_next_id ?s \<and> task_ids ?t = task_ids ?s")
    case True
    then show ?thesis using k by (intro exI [of _ k]) simp
  next
    case False
    then have "gt_next_id ?t = gt_next_id ?s + 1" "task_ids ?t = add_mset (request_id (gt_next_id ?s)) (task_ids ?s)"
      using a(2) by (auto simp: accounts_def)
    then show ?thesis using k i by (intro exI [of _ "Suc k"]) (simp add: add.commute)
  qed
  then show ?case using s a by (simp add: accounts_def)
qed

lemma issued_ids_distinct: "n < 2 ^ 64 - 1 \<Longrightarrow> distinct (issued_ids n)"
  by (auto simp: issued_ids_def distinct_map inj_on_def request_id_inject word_of_nat_eq_iff
      take_bit_nat_eq_self)

section \<open>Answers\<close>

lemma map_of_other_keys:
  "map_of (filter (\<lambda>e. fst e \<noteq> k) es) j = (if j = k then None else map_of es j)"
  by (induction es) auto

lemma fold_answer_replies:
  assumes "distinct (map fst es)" and "\<And>e. e \<in> set es \<Longrightarrow> map_of (gt_pending s) (fst e) = Some (snd e)"
  shows "gt_replies (fold (pending_answer f) (map fst es) s) =
    gt_replies s @ map (\<lambda>(rid, request). (rid, f (pr_method request))) es"
  using assms
proof (induction es arbitrary: s)
  case (Cons e es)
  have "map_of (gt_pending (pending_answer f (fst e) s)) k = (if k = fst e then None else map_of (gt_pending s) k)" for k
    by (simp add: pending_answer_pending map_of_other_keys)
  then have "map_of (gt_pending (pending_answer f (fst e) s)) (fst d) = Some (snd d)" if "d \<in> set es" for d
    using Cons.prems(1) Cons.prems(2) [of d] that by (auto simp: image_iff)
  then have "gt_replies (fold (pending_answer f) (map fst es) (pending_answer f (fst e) s)) =
      gt_replies (pending_answer f (fst e) s) @ map (\<lambda>(rid, request). (rid, f (pr_method request))) es"
    using Cons by simp
  moreover have "gt_replies (pending_answer f (fst e) s) = gt_replies s @ [(fst e, f (pr_method (snd e)))]"
    using Cons.prems(2) [of e] by (simp add: pending_answer_def pending_remove_def)
  ultimately show ?case by (simp add: case_prod_beta)
qed simp

lemma pending_lookup:
  "distinct (pending_ids s) \<Longrightarrow> e \<in> set (gt_pending s) \<Longrightarrow> map_of (gt_pending s) (fst e) = Some (snd e)"
  by (simp add: pending_ids_def)

lemma end_session_replies:
  assumes "distinct (pending_ids s)"
  shows "gt_replies (end_session cause s) =
    gt_replies s @ map (\<lambda>(rid, request). (rid, Inl (pending_request_error cause (pr_method request)))) (gt_pending s)"
  using fold_answer_replies [of "gt_pending s" s] pending_lookup [OF assms] assms
  by (simp add: end_session_def Let_def pending_ids_def)

lemma expire_pending_replies:
  assumes "distinct (pending_ids s)"
  shows "gt_replies (expire_pending now s) =
    gt_replies s @ map (\<lambda>(rid, request). (rid, Inl (GwRequestTimeout (pr_method request))))
      (filter (\<lambda>(rid, request). pr_deadline request \<le> now) (gt_pending s))"
  using fold_answer_replies [of "filter (\<lambda>(rid, request). pr_deadline request \<le> now) (gt_pending s)" s]
    pending_lookup [OF assms] assms
  by (simp add: expire_pending_def pending_ids_def distinct_map_filter)

lemma expire_pending_left:
  assumes "distinct (pending_ids s)"
  shows "gt_pending (expire_pending now s) = filter (\<lambda>(rid, request). now < pr_deadline request) (gt_pending s)"
proof -
  have "fst e \<notin> fst ` {e \<in> set (gt_pending s). pr_deadline (snd e) \<le> now} \<longleftrightarrow> now < pr_deadline (snd e)"
    if e: "e \<in> set (gt_pending s)" for e
  proof -
    have "d = e" if "d \<in> set (gt_pending s)" "fst d = fst e" for d
      using pending_lookup [OF assms, of d] pending_lookup [OF assms, of e] that e by (simp add: prod_eqI)
    then have "(\<exists>d \<in> set (gt_pending s). pr_deadline (snd d) \<le> now \<and> fst e = fst d) \<longleftrightarrow>
        pr_deadline (snd e) \<le> now"
      using e by (intro iffI bexI [of _ e]) auto
    moreover have "fst e \<in> fst ` {d \<in> set (gt_pending s). pr_deadline (snd d) \<le> now} \<longleftrightarrow>
        (\<exists>d \<in> set (gt_pending s). pr_deadline (snd d) \<le> now \<and> fst e = fst d)"
      by (simp only: image_iff mem_Collect_eq Bex_def conj_assoc)
    ultimately show ?thesis by (simp only: not_le)
  qed
  then show ?thesis
    unfolding expire_pending_def fold_answer_pending case_prod_beta set_map set_filter by (intro filter_cong) auto
qed

lemma sweep_frame [simp]:
  "gt_commands (sweep_cancelled s) = gt_commands s" "gt_hub (sweep_cancelled s) = gt_hub s"
  "gt_closed (sweep_cancelled s) = gt_closed s" "gt_replies (sweep_cancelled s) = gt_replies s"
  "gt_sent (sweep_cancelled s) = gt_sent s"
  by (simp_all add: sweep_cancelled_def)

lemma sweep_pending:
  "gt_pending (sweep_cancelled s) = filter (\<lambda>e. fst e \<notin> gt_cancelled s) (gt_pending s)"
  by (auto simp: sweep_cancelled_def image_iff intro!: filter_cong)

text \<open>A step that ends the session ends it by \<open>end_session\<close>, on a state with the requests pending before.\<close>

lemma task_step_end:
  assumes "gateway_inv s" and "gt_closed s = None" and "gt_closed (task_step parse wt event s) = Some cause"
  shows "\<exists>t. task_step parse wt event s = sweep_cancelled (end_session cause t) \<and> gt_pending t = gt_pending s"
proof -
  have e: "\<exists>t. end_session cause' u = end_session cause t \<and> gt_pending t = gt_pending s"
    if "gt_closed (end_session cause' u) = Some cause" "gt_pending u = gt_pending s" for cause' u
    using that by (auto simp: end_session_fields)
  show ?thesis
    using assms(2,3)
    by (auto simp: task_step_def expire_pending_def on_command_def on_request_def on_message_def on_text_def Let_def
        end_session_fields answer_command_def split: task_event.splits list.splits session_command.splits
        if_splits send_outcome.splits socket_message.splits sum.splits incoming_frame.splits option.splits
        intro!: e)
qed

section \<open>Properties\<close>

text \<open>A run the witnesses use: two requests are queued and written, and a third waits.\<close>

definition demo_gateway_parse :: "string \<Rightarrow> string + incoming_frame" where
  "demo_gateway_parse t =
     (if t = ''r'' then Inr (ResponseFrame (request_id 1) True (JString ''pong'') None)
      else if t = ''e'' then Inr (EventFrame ''tick'' JNull) else Inl ''bad frame'')"

definition demo_request :: "nat \<Rightarrow> string \<Rightarrow> nat \<Rightarrow> request_command" where
  "demo_request n method deadline =
     \<lparr>rq_id = request_id (word_of_nat n), rq_method = method, rq_params = JNull, rq_deadline = deadline\<rparr>"

definition demo_gateway_ops :: "gateway_op list" where
  "demo_gateway_ops =
     [CallStarts ''ping'' JNull 50, CallQueues (demo_request 1 ''ping'' 50), TaskRuns (CommandReady 1 Sent),
      CallStarts ''list'' JNull 9, CallQueues (demo_request 2 ''list'' 9), TaskRuns (CommandReady 2 Sent),
      CallStarts ''help'' JNull 70, CallQueues (demo_request 3 ''help'' 70)]"

definition demo_gateway :: gateway_task where
  "demo_gateway = gateway_run demo_gateway_parse 10 demo_gateway_ops (task_start 3 (hub_new 4 100))"

lemma demo_gateway_eq:
  "demo_gateway =
     \<lparr>gt_permits = 0, gt_next_id = 4, gt_capacity = 3, gt_waiting = [],
      gt_commands = [Request (demo_request 3 ''help'' 70)],
      gt_pending = [(request_id 1, \<lparr>pr_method = ''ping'', pr_deadline = 50\<rparr>),
                    (request_id 2, \<lparr>pr_method = ''list'', pr_deadline = 9\<rparr>)],
      gt_cancelled = {}, gt_hub = hub_new 4 100, gt_activity = 0, gt_closed = None,
      gt_sent = [demo_request 1 ''ping'' 50, demo_request 2 ''list'' 9],
      gt_replies = [], gt_returned = [], gt_dropped = []\<rparr>"
  by (simp add: demo_gateway_def gateway_run_def demo_gateway_ops_def demo_request_def task_start_def gateway_step_def
      call_start_def call_enqueue_def task_step_def on_command_def on_request_def pending_insert_def pending_drop_def
      sweep_cancelled_def Let_def request_id_inject)

lemma demo_gateway_inv: "gateway_inv demo_gateway"
  by (simp add: gateway_inv_def demo_gateway_eq pending_ids_def request_id_inject)

text \<open>
  C4. However the calls, the socket and the task interleave, every request that got an identifier
  has exactly one fate: its caller still waits to queue it, it is queued, it is pending, it was
  answered once, its call returned before it was queued, or it was dropped. So no request is answered twice and
  none is lost, and identifiers are not reused.
\<close>

lemma each_request_has_one_fate:
  assumes "length ops < 2 ^ 64 - 1" and "s = gateway_run parse write_timeout ops (task_start n hub)"
  shows "(\<exists>k \<le> length ops. mset (map rq_id (gt_waiting s) @ queued_ids s @ pending_ids s @
            map fst (gt_replies s) @ map fst (gt_returned s) @ gt_dropped s) = mset (issued_ids k)) \<and>
    distinct (map rq_id (gt_waiting s) @ queued_ids s @ pending_ids s @
      map fst (gt_replies s) @ map fst (gt_returned s) @ gt_dropped s)"
proof -
  let ?ids = "map rq_id (gt_waiting s) @ queued_ids s @ pending_ids s @
      map fst (gt_replies s) @ map fst (gt_returned s) @ gt_dropped s"
  obtain k where k: "k \<le> length ops" "task_ids s = mset (issued_ids k)"
    using gateway_run_keeps [of parse write_timeout ops n hub] assms(2) by blast
  then have m: "mset ?ids = mset (issued_ids k)" by (simp add: task_ids_def add.assoc)
  have "distinct (issued_ids k)" using issued_ids_distinct [of k] assms(1) k(1) by simp
  then have "distinct ?ids" using m mset_eq_imp_distinct_iff by blast
  then show ?thesis using m k(1) by auto
qed

lemma each_request_has_one_fate_witness:
  "(\<exists>k. mset (map rq_id (gt_waiting demo_gateway) @ queued_ids demo_gateway @ pending_ids demo_gateway @
      map fst (gt_replies demo_gateway) @ map fst (gt_returned demo_gateway) @ gt_dropped demo_gateway) =
      mset (issued_ids k)) \<and> pending_ids demo_gateway = [request_id 1, request_id 2]"
  using each_request_has_one_fate [OF _ demo_gateway_def]
  by (auto simp: demo_gateway_ops_def pending_ids_def demo_gateway_eq)

text \<open>
  The permits of a session are conserved: those free and those held by requests that wait, are queued or are
  pending are always as many as the session started with, at least one. So the requests in flight and the
  queued commands never exceed \<open>max_in_flight\<close>, and every end of a request gives its permit back.
\<close>

lemma in_flight_bounded:
  "let run = gateway_run parse write_timeout ops (task_start n hub) in
     gt_permits run + length (gt_waiting run) + length (queued_ids run) + length (gt_pending run) = max n 1 \<and>
     length (gt_commands run) \<le> max n 1"
  using gateway_run_keeps [of parse write_timeout ops n hub] by (auto simp: Let_def permits_def gateway_inv_def)

text \<open>
  C21. A response answers the pending request with its identifier, with the result of that request's
  method, and no other request: the answers sent are the ones before it and that one. A response to an identifier that is not
  pending (unknown, answered, expired or abandoned) is ignored. Neither ends the session, publishes an
  event or keeps the request pending.
\<close>

lemma response_reaches_its_request:
  assumes "gt_closed s = None" and "parse t = Inr (ResponseFrame rid ok payload error)"
    and "s' = task_step parse write_timeout (MessageReady (TextMessage t)) s"
  shows "gt_replies s' = gt_replies s @
      (case map_of (gt_pending s) rid of None \<Rightarrow> []
       | Some request \<Rightarrow> [(rid, response_result (pr_method request) ok payload error)]) \<and>
    gt_pending s' = filter (\<lambda>e. fst e \<noteq> rid \<and> fst e \<notin> gt_cancelled s) (gt_pending s) \<and>
    gt_closed s' = None \<and> gt_hub s' = gt_hub s \<and> gt_commands s' = gt_commands s \<and> gt_sent s' = gt_sent s"
proof -
  have c: "gt_cancelled (pending_answer f rid u) = gt_cancelled u" for f u by simp
  have "gt_pending s' = filter (\<lambda>e. fst e \<noteq> rid \<and> fst e \<notin> gt_cancelled s) (gt_pending s)"
    using assms
    by (simp add: task_step_def on_message_def on_text_def Let_def sweep_pending pending_answer_pending conj_commute)
  then show ?thesis using assms
    by (simp add: task_step_def on_message_def on_text_def Let_def)
      (simp add: pending_answer_def pending_remove_def split: option.split)
qed

lemma response_reaches_its_request_witness:
  "gt_replies (task_step demo_gateway_parse 10 (MessageReady (TextMessage ''r'')) demo_gateway) =
     [(request_id 1, Inr (JString ''pong''))]"
  using response_reaches_its_request [of demo_gateway demo_gateway_parse "''r''" "request_id 1" True "JString ''pong''"
      None, OF _ _ refl, of 10]
  by (simp add: demo_gateway_eq demo_gateway_parse_def response_result_def)

text \<open>
  C6. When a step ends the session, whatever ended it, every request that was pending is answered with
  the cause and its own method, nothing stays pending or queued, and the events are closed. From then on the
  task does nothing, and a call returns the error of the cause instead of waiting.
\<close>

lemma session_end_answers_everyone:
  assumes "gateway_inv s" and "gt_closed s = None"
    and "s' = task_step parse write_timeout event s" and "gt_closed s' = Some cause"
  shows "(\<forall>(rid, request) \<in> set (gt_pending s).
      (rid, Inl (pending_request_error cause (pr_method request))) \<in> set (gt_replies s')) \<and>
    gt_pending s' = [] \<and> gt_commands s' = [] \<and> hub_closed (gt_hub s') \<and>
    task_step parse write_timeout event' s' = s' \<and>
    (rq \<in> set (gt_waiting s') \<longrightarrow>
      gt_returned (call_enqueue rq s') = gt_returned s' @ [(rq_id rq, to_client_error cause)])"
proof -
  obtain t where t: "s' = sweep_cancelled (end_session cause t)" "gt_pending t = gt_pending s"
    using task_step_end [of s] assms by blast
  then have "distinct (pending_ids t)" using assms(1) by (simp add: gateway_inv_def pending_ids_def)
  then have "\<forall>(rid, request) \<in> set (gt_pending s).
      (rid, Inl (pending_request_error cause (pr_method request))) \<in> set (gt_replies s')"
    using t by (force simp: end_session_replies)
  moreover have "gt_pending s' = [] \<and> gt_commands s' = [] \<and> hub_closed (gt_hub s')"
    using t by (simp add: sweep_pending end_session_pending end_session_fields)
  ultimately show ?thesis
    using assms(4) by (simp add: task_step_def call_enqueue_def closed_error_def)
qed

lemma session_end_answers_everyone_witness:
  "(request_id 2, Inl (GwClosed ''Gateway closed the WebSocket (1001): bye; request list did not complete''))
     \<in> set (gt_replies (task_step demo_gateway_parse 10 (MessageReady (CloseMessage (Some (''1001'', ''bye'')))) demo_gateway))"
  using session_end_answers_everyone [OF demo_gateway_inv _ refl, of demo_gateway_parse 10
      "MessageReady (CloseMessage (Some (''1001'', ''bye'')))" "CauseClosed (format_close (Some (''1001'', ''bye'')))"]
  by (simp add: demo_gateway_eq task_step_def on_message_def Let_def end_session_fields format_close_def)

text \<open>
  When the deadline of a pending request passes, the task answers each request whose deadline has passed with
  a timeout of its method, and only those: the others stay pending with their deadlines ahead, and the
  session goes on.
\<close>

lemma deadlines_expire_exactly:
  assumes "gateway_inv s" and "gt_closed s = None" and "s' = task_step parse write_timeout (DeadlineReached now) s"
  shows "gt_replies s' = gt_replies s @ map (\<lambda>(rid, request). (rid, Inl (GwRequestTimeout (pr_method request))))
      (filter (\<lambda>(rid, request). pr_deadline request \<le> now) (gt_pending s)) \<and>
    gt_pending s' = filter (\<lambda>(rid, request). now < pr_deadline request \<and> rid \<notin> gt_cancelled s) (gt_pending s) \<and>
    gt_closed s' = None \<and> gt_commands s' = gt_commands s"
proof -
  have d: "distinct (pending_ids s)" using assms(1) by (simp add: gateway_inv_def)
  have "gt_cancelled (expire_pending now s) = gt_cancelled s" "gt_closed (expire_pending now s) = None"
    "gt_commands (expire_pending now s) = gt_commands s"
    using assms(2) by (simp_all add: expire_pending_def)
  then show ?thesis
    using assms(2,3) expire_pending_replies [OF d] expire_pending_left [OF d]
    by (auto simp: task_step_def sweep_pending case_prod_beta intro: filter_cong)
qed

lemma deadlines_expire_exactly_witness:
  "gt_replies (task_step demo_gateway_parse 10 (DeadlineReached 9) demo_gateway) =
     [(request_id 2, Inl (GwRequestTimeout ''list''))]"
  using deadlines_expire_exactly [OF demo_gateway_inv _ refl, of demo_gateway_parse 10 9]
  by (simp add: demo_gateway_eq)

text \<open>
  A request is written only when its caller has not abandoned it, its deadline is ahead and its guard accepts
  it; then it becomes pending with its method and deadline. Otherwise nothing is written and the
  caller gets the reason (an abandoned request is dropped). Only a failed or timed out
  write ends the session.
\<close>

lemma dispatch_guarded:
  assumes "gt_closed s = None" and "gt_commands s = Request rq # rest"
    and "s' = task_step parse write_timeout (CommandReady now outcome) s"
  shows "gt_sent s' = gt_sent s @
      (if rq_id rq \<notin> gt_cancelled s \<and> now < rq_deadline rq \<and> outcome = Sent then [rq] else []) \<and>
    (rq_id rq \<notin> gt_cancelled s \<and> now < rq_deadline rq \<and> outcome = Sent \<longrightarrow>
      (rq_id rq, \<lparr>pr_method = rq_method rq, pr_deadline = rq_deadline rq\<rparr>) \<in> set (gt_pending s')) \<and>
    (rq_id rq \<notin> gt_cancelled s \<and> rq_deadline rq \<le> now \<longrightarrow>
      gt_replies s' = gt_replies s @ [(rq_id rq, Inl (GwRequestTimeout (rq_method rq)))]) \<and>
    (rq_id rq \<notin> gt_cancelled s \<and> now < rq_deadline rq \<and> outcome = SendRejected reason \<longrightarrow>
      gt_replies s' = gt_replies s @ [(rq_id rq, Inl (GwDispatchRejected reason))]) \<and>
    (gt_closed s' \<noteq> None \<longleftrightarrow> rq_id rq \<notin> gt_cancelled s \<and> now < rq_deadline rq \<and>
      (outcome = SendTimedOut \<or> (\<exists>e. outcome = SendFailed e)))"
proof -
  have p: "gt_sent (pending_insert rid request u) = gt_sent u" "gt_cancelled (pending_insert rid request u) = gt_cancelled u"
    "(rid, request) \<in> set (gt_pending (pending_insert rid request u))" for rid request u
    by (simp_all add: pending_insert_def Let_def)
  show ?thesis
  proof (cases outcome)
    case Sent
    then show ?thesis using assms p
      by (auto simp: task_step_def on_command_def on_request_def answer_command_def sweep_pending)
  qed (use assms p in \<open>auto simp: task_step_def on_command_def on_request_def answer_command_def Let_def
      end_session_fields\<close>)
qed

lemma dispatch_guarded_witness:
  "rq_id (demo_request 3 ''help'' 70) \<in> fst ` set (gt_pending
     (task_step demo_gateway_parse 10 (CommandReady 5 Sent) demo_gateway))"
  using dispatch_guarded [OF _ _ refl, of demo_gateway "demo_request 3 ''help'' 70" "[]" demo_gateway_parse 10 5 Sent]
  by (force simp: demo_gateway_eq demo_request_def)

end
