(* ===== verification/GatewayConnect.thy ===== *)
theory GatewayConnect
  imports GatewayTask ConnectPolicy
begin

text \<open>
  Opening a Gateway session (\<open>session.rs\<close>): the client configuration and the addresses plaintext is
  allowed for, the wait for the challenge, the connect request, its response, and the one fallback to an
  older protocol.

  \<open>Url::parse\<close>, \<open>into_client_request\<close> and the header parsers are parameters, as are the TLS
  configuration and the callback that builds the connect parameters. What the network does during a
  connect is a \<open>connect_env\<close>: how the opening ended, how the write of the connect request
  ended, and what arrived, with the timeout of the current wait as an arrival.
\<close>

section \<open>Trusted addresses\<close>

datatype ip_addr = IpV4 u8 u8 u8 u8 | IpV6 u16 u16 u16 u16 u16 u16 u16 u16

text \<open>\<open>is_loopback\<close>, \<open>is_private\<close>, \<open>is_link_local\<close> of the standard library's \<open>Ipv4Addr\<close>.\<close>

definition ipv4_is_loopback :: "u8 \<Rightarrow> bool" where
  "ipv4_is_loopback a = (a = 127)"

definition ipv4_is_private :: "u8 \<Rightarrow> u8 \<Rightarrow> bool" where
  "ipv4_is_private a b = (a = 10 \<or> a = 172 \<and> 16 \<le> b \<and> b \<le> 31 \<or> a = 192 \<and> b = 168)"

definition ipv4_is_link_local :: "u8 \<Rightarrow> u8 \<Rightarrow> bool" where
  "ipv4_is_link_local a b = (a = 169 \<and> b = 254)"

definition is_trusted_plaintext_v4 :: "u8 \<Rightarrow> u8 \<Rightarrow> bool" where
  "is_trusted_plaintext_v4 first second =
     (ipv4_is_loopback first \<or> ipv4_is_private first second \<or> ipv4_is_link_local first second
      \<or> first = 100 \<and> 64 \<le> second \<and> second \<le> 127)"

definition low_byte :: "u16 \<Rightarrow> u8" where "low_byte w = word_of_nat (unat w mod 256)"
definition high_byte :: "u16 \<Rightarrow> u8" where "high_byte w = word_of_nat (unat w div 256)"

fun is_trusted_plaintext_address :: "ip_addr \<Rightarrow> bool" where
  "is_trusted_plaintext_address (IpV4 a b c d) = is_trusted_plaintext_v4 a b"
| "is_trusted_plaintext_address (IpV6 s0 s1 s2 s3 s4 s5 s6 s7) =
     (if s0 = 0 \<and> s1 = 0 \<and> s2 = 0 \<and> s3 = 0 \<and> s4 = 0 \<and> s5 = 0xffff
      then is_trusted_plaintext_v4 (high_byte s6) (low_byte s6)
      else (s0 = 0 \<and> s1 = 0 \<and> s2 = 0 \<and> s3 = 0 \<and> s4 = 0 \<and> s5 = 0 \<and> s6 = 0 \<and> s7 = 1)
        \<or> and s0 0xfe00 = 0xfc00 \<or> and s0 0xffc0 = 0xfe80)"

datatype url_host = HostIp ip_addr | HostDomain string

record gateway_url =
  url_scheme :: string
  url_host :: "url_host option"

definition ends_with :: "string \<Rightarrow> string \<Rightarrow> bool" where
  "ends_with s p = (drop (length s - length p) s = p)"

definition is_trusted_plaintext_host :: "gateway_url \<Rightarrow> bool" where
  "is_trusted_plaintext_host url =
     (case url_host url of
        Some (HostIp address) \<Rightarrow> is_trusted_plaintext_address address
      | Some (HostDomain host) \<Rightarrow>
          (let host = to_ascii_lowercase host in
           host = ''localhost'' \<or> ends_with host ''.local'' \<or> ends_with host ''.ts.net'')
      | None \<Rightarrow> False)"

definition validate_gateway_url :: "(string \<Rightarrow> string + gateway_url) \<Rightarrow> string \<Rightarrow> gateway_client_error + unit" where
  "validate_gateway_url parse_url text =
     (case parse_url text of
        Inl e \<Rightarrow> Inl (GwInvalidUrl e)
      | Inr url \<Rightarrow>
          if url_scheme url = ''wss'' then Inr ()
          else if url_scheme url = ''ws''
            then (if is_trusted_plaintext_host url then Inr () else Inl GwInsecureRemoteGateway)
          else Inl (GwInvalidUrl (''unsupported scheme '' @ url_scheme url @ ''; expected ws or wss'')))"

section \<open>Configuration\<close>

text \<open>The upgrade request: the scheme of its URI and its headers.\<close>

record upgrade_request =
  ur_scheme :: "string option"
  ur_headers :: "(string \<times> string) list"

record gateway_client_config =
  gc_request :: upgrade_request
  gc_tls_trust :: tls_trust
  gc_connect_timeout :: nat
  gc_challenge_timeout :: nat
  gc_request_timeout :: nat
  gc_write_timeout :: nat
  gc_max_message_bytes :: nat
  gc_max_frame_bytes :: nat
  gc_max_event_buffer_bytes :: nat
  gc_event_capacity :: nat
  gc_max_in_flight :: nat

definition seconds :: "nat \<Rightarrow> nat" where "seconds n = n * 1000000000"

definition DEFAULT_CHALLENGE_TIMEOUT :: nat where "DEFAULT_CHALLENGE_TIMEOUT = seconds 15"
definition DEFAULT_CONNECT_TIMEOUT :: nat where "DEFAULT_CONNECT_TIMEOUT = seconds 10"
definition DEFAULT_REQUEST_TIMEOUT :: nat where "DEFAULT_REQUEST_TIMEOUT = seconds 30"
definition DEFAULT_WRITE_TIMEOUT :: nat where "DEFAULT_WRITE_TIMEOUT = seconds 10"
definition DEFAULT_MAX_MESSAGE_BYTES :: nat where "DEFAULT_MAX_MESSAGE_BYTES = 64 * 1024 * 1024"
definition DEFAULT_MAX_FRAME_BYTES :: nat where "DEFAULT_MAX_FRAME_BYTES = 16 * 1024 * 1024"
definition DEFAULT_MAX_EVENT_BUFFER_BYTES :: nat where "DEFAULT_MAX_EVENT_BUFFER_BYTES = 64 * 1024 * 1024"

definition gateway_config_new ::
  "(string \<Rightarrow> string + gateway_url) \<Rightarrow> (string \<Rightarrow> string + upgrade_request) \<Rightarrow> string \<Rightarrow>
   gateway_client_error + gateway_client_config" where
  "gateway_config_new parse_url into_request text =
     bind_result (validate_gateway_url parse_url text) (\<lambda>_.
       case into_request text of
         Inl e \<Rightarrow> Inl (GwInvalidUrl e)
       | Inr request \<Rightarrow> Inr \<lparr>gc_request = request, gc_tls_trust = SystemRoots,
           gc_connect_timeout = DEFAULT_CONNECT_TIMEOUT, gc_challenge_timeout = DEFAULT_CHALLENGE_TIMEOUT,
           gc_request_timeout = DEFAULT_REQUEST_TIMEOUT, gc_write_timeout = DEFAULT_WRITE_TIMEOUT,
           gc_max_message_bytes = DEFAULT_MAX_MESSAGE_BYTES, gc_max_frame_bytes = DEFAULT_MAX_FRAME_BYTES,
           gc_max_event_buffer_bytes = DEFAULT_MAX_EVENT_BUFFER_BYTES, gc_event_capacity = 256,
           gc_max_in_flight = 64\<rparr>)"

text \<open>A header replaces the values the request has for its name.\<close>

definition config_header ::
  "(string \<Rightarrow> string + string) \<Rightarrow> (string \<Rightarrow> string + string) \<Rightarrow> string \<Rightarrow> string \<Rightarrow>
   gateway_client_config \<Rightarrow> gateway_client_error + gateway_client_config" where
  "config_header header_name header_value name value config =
     (case header_name name of
        Inl e \<Rightarrow> Inl (GwInvalidHeader e)
      | Inr name \<Rightarrow>
     (case header_value value of
        Inl e \<Rightarrow> Inl (GwInvalidHeader e)
      | Inr value \<Rightarrow>
          (let request = gc_request config in
           Inr (config\<lparr>gc_request := request\<lparr>ur_headers :=
             filter (\<lambda>h. fst h \<noteq> name) (ur_headers request) @ [(name, value)]\<rparr>\<rparr>))))"

datatype config_setting =
    SetTlsTrust tls_trust
  | SetConnectTimeout nat
  | SetChallengeTimeout nat
  | SetRequestTimeout nat
  | SetWriteTimeout nat
  | SetMaxMessageBytes nat
  | SetMaxFrameBytes nat
  | SetMaxEventBufferBytes nat
  | SetEventCapacity nat
  | SetMaxInFlight nat

fun config_set :: "config_setting \<Rightarrow> gateway_client_config \<Rightarrow> gateway_client_config" where
  "config_set (SetTlsTrust trust) config = config\<lparr>gc_tls_trust := trust\<rparr>"
| "config_set (SetConnectTimeout timeout) config = config\<lparr>gc_connect_timeout := timeout\<rparr>"
| "config_set (SetChallengeTimeout timeout) config = config\<lparr>gc_challenge_timeout := timeout\<rparr>"
| "config_set (SetRequestTimeout timeout) config = config\<lparr>gc_request_timeout := timeout\<rparr>"
| "config_set (SetWriteTimeout timeout) config = config\<lparr>gc_write_timeout := timeout\<rparr>"
| "config_set (SetMaxMessageBytes bytes) config = config\<lparr>gc_max_message_bytes := bytes\<rparr>"
| "config_set (SetMaxFrameBytes bytes) config = config\<lparr>gc_max_frame_bytes := bytes\<rparr>"
| "config_set (SetMaxEventBufferBytes bytes) config = config\<lparr>gc_max_event_buffer_bytes := bytes\<rparr>"
| "config_set (SetEventCapacity capacity) config = config\<lparr>gc_event_capacity := capacity\<rparr>"
| "config_set (SetMaxInFlight maximum) config = config\<lparr>gc_max_in_flight := maximum\<rparr>"

section \<open>Waiting for frames\<close>

record connect_challenge =
  cch_nonce :: string
  cch_issued_at_ms :: u64

text \<open>What one arrival is to \<open>next_frame\<close>: nothing, a frame or an error.\<close>

definition next_frame ::
  "(string \<Rightarrow> string + incoming_frame) \<Rightarrow> socket_message \<Rightarrow> (gateway_client_error + incoming_frame) option" where
  "next_frame parse message =
     (case message of
        StreamEnd \<Rightarrow> Some (Inl (GwClosed ''Gateway ended the WebSocket stream''))
      | StreamError e \<Rightarrow> Some (Inl (GwTransport e))
      | TextMessage t \<Rightarrow> Some (case parse t of Inl e \<Rightarrow> Inl (GwInvalidFrame e) | Inr frame \<Rightarrow> Inr frame)
      | PingMessage outcome \<Rightarrow>
          (case outcome of
             Sent \<Rightarrow> None
           | SendTimedOut \<Rightarrow> Some (Inl (GwWriteTimeout ''pong''))
           | SendRejected reason \<Rightarrow> Some (Inl (GwDispatchRejected reason))
           | SendFailed e \<Rightarrow> Some (Inl (GwTransport e)))
      | CloseMessage frame \<Rightarrow> Some (Inl (GwClosed (format_close frame)))
      | OtherMessage \<Rightarrow> None)"

definition challenge_of :: "json \<Rightarrow> gateway_client_error + connect_challenge" where
  "challenge_of payload =
     (case Option.bind (json_get ''nonce'' payload) as_str of
        None \<Rightarrow> Inl (GwInvalidChallenge ''missing nonce'')
      | Some value \<Rightarrow>
          (let nonce = trim value in
           if nonce = [] then Inl (GwInvalidChallenge ''missing nonce'')
           else case Option.bind (json_get ''ts'' payload) json_as_u64 of
             None \<Rightarrow> Inl (GwInvalidChallenge ''missing timestamp'')
           | Some issued_at_ms \<Rightarrow> Inr \<lparr>cch_nonce = nonce, cch_issued_at_ms = issued_at_ms\<rparr>))"

text \<open>
  Arrivals while a wait lasts. A wait that has not ended after the arrivals there are is \<open>None\<close>; the second
  component is what was not read.
\<close>

datatype arrival = Arrives socket_message | TimeoutElapses

fun wait_for_challenge ::
  "(string \<Rightarrow> string + incoming_frame) \<Rightarrow> arrival list \<Rightarrow>
   (gateway_client_error + connect_challenge) option \<times> arrival list" where
  "wait_for_challenge parse [] = (None, [])"
| "wait_for_challenge parse (TimeoutElapses # rest) = (Some (Inl GwChallengeTimeout), rest)"
| "wait_for_challenge parse (Arrives message # rest) =
     (case next_frame parse message of
        None \<Rightarrow> wait_for_challenge parse rest
      | Some (Inl e) \<Rightarrow> (Some (Inl e), rest)
      | Some (Inr (EventFrame event payload)) \<Rightarrow>
          if event = ''connect.challenge'' then (Some (challenge_of payload), rest)
          else wait_for_challenge parse rest
      | Some (Inr (ResponseFrame rid ok payload error)) \<Rightarrow> wait_for_challenge parse rest)"

fun wait_for_response ::
  "(string \<Rightarrow> string + incoming_frame) \<Rightarrow> string \<Rightarrow> string \<Rightarrow> arrival list \<Rightarrow>
   (gateway_client_error + json) option \<times> arrival list" where
  "wait_for_response parse expected_id method [] = (None, [])"
| "wait_for_response parse expected_id method (TimeoutElapses # rest) =
     (Some (Inl (GwRequestTimeout ''connect'')), rest)"
| "wait_for_response parse expected_id method (Arrives message # rest) =
     (case next_frame parse message of
        None \<Rightarrow> wait_for_response parse expected_id method rest
      | Some (Inl e) \<Rightarrow> (Some (Inl e), rest)
      | Some (Inr (EventFrame event payload)) \<Rightarrow> wait_for_response parse expected_id method rest
      | Some (Inr (ResponseFrame rid ok payload error)) \<Rightarrow>
          if rid = expected_id then (Some (response_result method ok payload error), rest)
          else wait_for_response parse expected_id method rest)"

section \<open>Connecting\<close>

datatype tungstenite_error =
    TungsteniteTls string
  | TungsteniteIo bool string
  | TungsteniteOther string

text \<open>The text of the error; the flag of an I/O error says that its kind is \<open>InvalidData\<close>.\<close>

fun tungstenite_text :: "tungstenite_error \<Rightarrow> string" where
  "tungstenite_text (TungsteniteTls text) = text"
| "tungstenite_text (TungsteniteIo invalid_data text) = text"
| "tungstenite_text (TungsteniteOther text) = text"

definition classify_connect_error :: "tungstenite_error \<Rightarrow> bool \<Rightarrow> gateway_client_error" where
  "classify_connect_error error secure_endpoint =
     (if (case error of TungsteniteTls _ \<Rightarrow> True | _ \<Rightarrow> False)
        \<or> secure_endpoint \<and> (case error of TungsteniteIo invalid_data _ \<Rightarrow> invalid_data | _ \<Rightarrow> False)
        \<or> contains (tungstenite_text error) TLS_PIN_MISMATCH_ERROR
      then GwTls (tungstenite_text error) else GwTransport (tungstenite_text error))"

text \<open>
  \<open>to_lowercase\<close> is taken on ASCII letters: of the other characters only U+0130 and U+212A have a lower
  case with an ASCII letter in it, \<open>i\<close> followed by U+0307 and \<open>k\<close>, and neither makes the text occur.
\<close>

definition is_expected_protocol_mismatch :: "gateway_client_error \<Rightarrow> u32 \<Rightarrow> bool" where
  "is_expected_protocol_mismatch error expected_protocol =
     (case error of
        GwGateway method code message details retryable retry_after_ms \<Rightarrow>
          method = ''connect'' \<and>
          (case details of
             None \<Rightarrow> False
           | Some details \<Rightarrow>
               Option.bind (json_get ''expectedProtocol'' details) json_as_u64 = Some (ucast expected_protocol) \<and>
               (Option.bind (json_get ''code'' details) as_str = Some ''PROTOCOL_MISMATCH''
                \<or> contains (to_ascii_lowercase (trim message)) ''protocol mismatch''))
      | _ \<Rightarrow> False)"

datatype open_outcome = OpenTimedOut | OpenFailed tungstenite_error | Opened

record connect_env =
  ce_open :: open_outcome
  ce_send :: send_outcome
  ce_arrivals :: "arrival list"

record gateway_session =
  gs_hello :: json
  gs_task :: gateway_task
  gs_request_timeout :: nat
  gs_write_timeout :: nat

text \<open>
  What an attempt did: its result if it has ended, whether a socket was opened, the challenges given to the
  parameter callback and the requests sent, whether or not their write ended well.
\<close>

record connect_run =
  cr_result :: "(gateway_client_error + gateway_session) option"
  cr_opened :: bool
  cr_challenges :: "connect_challenge list"
  cr_written :: "json list"

definition request_frame :: "string \<Rightarrow> string \<Rightarrow> json \<Rightarrow> json" where
  "request_frame rid method params =
     JObject [(''type'', JString ''req''), (''id'', JString rid), (''method'', JString method), (''params'', params)]"

definition connect_id :: string where "connect_id = ''rust-gateway-connect-1''"

text \<open>
  How a write without a guard ended, as an error of the connect request. There is no guard to reject it.
\<close>

fun send_result :: "string \<Rightarrow> send_outcome \<Rightarrow> gateway_client_error + unit" where
  "send_result operation Sent = Inr ()"
| "send_result operation SendTimedOut = Inl (GwWriteTimeout operation)"
| "send_result operation (SendRejected reason) = Inl (GwDispatchRejected reason)"
| "send_result operation (SendFailed e) = Inl (GwTransport e)"

definition session_new :: "gateway_client_config \<Rightarrow> json \<Rightarrow> gateway_session" where
  "session_new config hello =
     \<lparr>gs_hello = hello,
      gs_task = task_start (gc_max_in_flight config)
        (hub_new (gc_event_capacity config) (gc_max_event_buffer_bytes config)),
      gs_request_timeout = gc_request_timeout config,
      gs_write_timeout = gc_write_timeout config\<rparr>"

text \<open>After the socket is open. \<open>make_params\<close> is the callback.\<close>

definition connect_opened ::
  "(string \<Rightarrow> string + incoming_frame) \<Rightarrow> (connect_challenge \<Rightarrow> string + json) \<Rightarrow> gateway_client_config \<Rightarrow>
   connect_env \<Rightarrow> connect_run" where
  "connect_opened parse make_params config env =
     (case wait_for_challenge parse (ce_arrivals env) of
        (None, _) \<Rightarrow> \<lparr>cr_result = None, cr_opened = True, cr_challenges = [], cr_written = []\<rparr>
      | (Some (Inl e), _) \<Rightarrow>
          \<lparr>cr_result = Some (Inl e), cr_opened = True, cr_challenges = [], cr_written = []\<rparr>
      | (Some (Inr challenge), arrivals) \<Rightarrow>
          (case make_params challenge of
             Inl e \<Rightarrow> \<lparr>cr_result = Some (Inl (GwConnectParams e)), cr_opened = True,
               cr_challenges = [challenge], cr_written = []\<rparr>
           | Inr params \<Rightarrow>
               (let frame = request_frame connect_id ''connect'' params;
                    result = (case send_result ''connect'' (ce_send env) of
                      Inl e \<Rightarrow> Some (Inl e)
                    | Inr _ \<Rightarrow> map_option (\<lambda>response. bind_result response (\<lambda>hello. Inr (session_new config hello)))
                        (fst (wait_for_response parse connect_id ''connect'' arrivals)))
                in \<lparr>cr_result = result, cr_opened = True, cr_challenges = [challenge],
                    cr_written = [frame]\<rparr>)))"

text \<open>\<open>tls_config\<close> is \<open>pinned_tls_config\<close>, which can only fail in \<open>rustls\<close>.\<close>

definition connect_once ::
  "(bytes \<Rightarrow> string + unit) \<Rightarrow> (string \<Rightarrow> string + incoming_frame) \<Rightarrow> (connect_challenge \<Rightarrow> string + json) \<Rightarrow>
   gateway_client_config \<Rightarrow> connect_env \<Rightarrow> connect_run" where
  "connect_once tls_config parse make_params config env =
     (let refused = \<lambda>e. \<lparr>cr_result = Some (Inl e), cr_opened = False, cr_challenges = [], cr_written = []\<rparr>;
          secure_endpoint = (ur_scheme (gc_request config) = Some ''wss'') in
      if (case gc_tls_trust config of Pinned _ \<Rightarrow> True | SystemRoots \<Rightarrow> False) \<and> \<not> secure_endpoint
        then refused (GwTls ''Gateway TLS fingerprint requires a wss:// URL'')
      else case (case gc_tls_trust config of SystemRoots \<Rightarrow> Inr () | Pinned expected \<Rightarrow> tls_config expected) of
        Inl e \<Rightarrow> refused (GwTransport e)
      | Inr _ \<Rightarrow>
          (case ce_open env of
             OpenTimedOut \<Rightarrow> refused GwConnectTimeout
           | OpenFailed e \<Rightarrow> refused (classify_connect_error e secure_endpoint)
           | Opened \<Rightarrow> connect_opened parse make_params config env))"

datatype connect_attempt = Current | ProtocolFallback u32

text \<open>The runs of the attempts made, in their order.\<close>

definition connect_with_protocol_fallback ::
  "(bytes \<Rightarrow> string + unit) \<Rightarrow> (string \<Rightarrow> string + incoming_frame) \<Rightarrow> gateway_client_config \<Rightarrow> u32 \<Rightarrow>
   (connect_challenge \<Rightarrow> connect_attempt \<Rightarrow> string + json) \<Rightarrow> connect_env \<Rightarrow> connect_env \<Rightarrow> connect_run list" where
  "connect_with_protocol_fallback tls_config parse config expected_protocol make_params env env' =
     (let first = connect_once tls_config parse (\<lambda>challenge. make_params challenge Current) config env in
      case cr_result first of
        Some (Inl error) \<Rightarrow>
          if is_expected_protocol_mismatch error expected_protocol
          then [first, connect_once tls_config parse
                  (\<lambda>challenge. make_params challenge (ProtocolFallback expected_protocol)) config env']
          else [first]
      | _ \<Rightarrow> [first])"

definition connect_result :: "connect_run list \<Rightarrow> (gateway_client_error + gateway_session) option" where
  "connect_result runs = cr_result (last runs)"

section \<open>Addresses as ranges\<close>

text \<open>The number of an address, and the CIDR blocks that are trusted.\<close>

definition ipv4_number :: "u8 \<Rightarrow> u8 \<Rightarrow> u8 \<Rightarrow> u8 \<Rightarrow> nat" where
  "ipv4_number a b c d = ((unat a * 256 + unat b) * 256 + unat c) * 256 + unat d"

definition in_block :: "nat \<Rightarrow> nat \<times> nat \<Rightarrow> nat \<Rightarrow> bool" where
  "in_block width block n = (n div 2 ^ (width - snd block) = fst block div 2 ^ (width - snd block))"

definition trusted_v4_blocks :: "(nat \<times> nat) list" where
  "trusted_v4_blocks =
     [(ipv4_number 127 0 0 0, 8), (ipv4_number 10 0 0 0, 8), (ipv4_number 172 16 0 0, 12),
      (ipv4_number 192 168 0 0, 16), (ipv4_number 169 254 0 0, 16), (ipv4_number 100 64 0 0, 10)]"

lemma u8_eq_unat: "(a :: u8) = b \<longleftrightarrow> unat a = unat b" by (rule word_unat_eq_iff)

lemma ipv4_div:
  "ipv4_number a b c d div 2 ^ 24 = unat a"
  "ipv4_number a b c d div 2 ^ 20 = unat a * 16 + unat b div 16"
  "ipv4_number a b c d div 2 ^ 22 = unat a * 4 + unat b div 64"
  "ipv4_number a b c d div 2 ^ 16 = unat a * 256 + unat b"
proof -
  have "unat b < 256" "unat c < 256" "unat d < 256"
    using unsigned_less [of b] unsigned_less [of c] unsigned_less [of d] by simp_all
  then show "ipv4_number a b c d div 2 ^ 24 = unat a"
    "ipv4_number a b c d div 2 ^ 20 = unat a * 16 + unat b div 16"
    "ipv4_number a b c d div 2 ^ 22 = unat a * 4 + unat b div 64"
    "ipv4_number a b c d div 2 ^ 16 = unat a * 256 + unat b"
    unfolding ipv4_number_def by (simp_all; presburger)+
qed

lemma digits_eq:
  fixes b r x y m :: nat
  assumes "b < m" and "r < m"
  shows "x * m + b = y * m + r \<longleftrightarrow> x = y \<and> b = r"
proof
  assume eq: "x * m + b = y * m + r"
  have "(x * m + b) div m = x" "(y * m + r) div m = y" using assms by simp_all
  then show "x = y \<and> b = r" using eq by simp
qed simp

lemma ipv4_in_block:
  fixes p q r s :: u8
  shows "in_block 32 (ipv4_number p q r s, 8) (ipv4_number a b c d) \<longleftrightarrow> a = p"
    and "in_block 32 (ipv4_number p q r s, 16) (ipv4_number a b c d) \<longleftrightarrow> a = p \<and> b = q"
    and "in_block 32 (ipv4_number p q r s, 12) (ipv4_number a b c d) \<longleftrightarrow> a = p \<and> unat b div 16 = unat q div 16"
    and "in_block 32 (ipv4_number p q r s, 10) (ipv4_number a b c d) \<longleftrightarrow> a = p \<and> unat b div 64 = unat q div 64"
proof -
  have b: "unat b < 256" "unat q < 256" using unsigned_less [of b] unsigned_less [of q] by simp_all
  note e = in_block_def fst_conv snd_conv
  have "32 - 8 = (24::nat)" "32 - 16 = (16::nat)" "32 - 12 = (20::nat)" "32 - 10 = (22::nat)" by simp_all
  note e = e this ipv4_div u8_eq_unat
  show "in_block 32 (ipv4_number p q r s, 8) (ipv4_number a b c d) \<longleftrightarrow> a = p" unfolding e ..
  show "in_block 32 (ipv4_number p q r s, 16) (ipv4_number a b c d) \<longleftrightarrow> a = p \<and> b = q"
    unfolding e by (rule digits_eq [OF b])
  have d: "unat b div 16 < 16" "unat q div 16 < 16" "unat b div 64 < 4" "unat q div 64 < 4" using b by auto
  show "in_block 32 (ipv4_number p q r s, 12) (ipv4_number a b c d) \<longleftrightarrow> a = p \<and> unat b div 16 = unat q div 16"
    unfolding e by (rule digits_eq [OF d(1,2)])
  show "in_block 32 (ipv4_number p q r s, 10) (ipv4_number a b c d) \<longleftrightarrow> a = p \<and> unat b div 64 = unat q div 64"
    unfolding e by (rule digits_eq [OF d(3,4)])
qed

lemma byte_ranges:
  fixes b :: u8
  shows "unat b div 16 = 1 \<longleftrightarrow> 16 \<le> b \<and> b \<le> 31" and "unat b div 64 = 1 \<longleftrightarrow> 64 \<le> b \<and> b \<le> 127"
  by (auto simp: word_le_nat_alt)

lemma trusted_v4_blocks:
  "is_trusted_plaintext_v4 a b \<longleftrightarrow> list_ex (\<lambda>block. in_block 32 block (ipv4_number a b c d)) trusted_v4_blocks"
  using byte_ranges [of b]
  by (auto simp: trusted_v4_blocks_def ipv4_in_block is_trusted_plaintext_v4_def ipv4_is_loopback_def
      ipv4_is_private_def ipv4_is_link_local_def)

definition ipv6_number :: "u16 list \<Rightarrow> nat" where
  "ipv6_number segments = foldl (\<lambda>n s. n * 65536 + unat s) 0 segments"

definition trusted_v6_blocks :: "(nat \<times> nat) list" where
  "trusted_v6_blocks =
     (1, 128) # (ipv6_number [0xfc00, 0, 0, 0, 0, 0, 0, 0], 7) # (ipv6_number [0xfe80, 0, 0, 0, 0, 0, 0, 0], 10)
     # map (\<lambda>block. (0xffff * 2 ^ 32 + fst block, 96 + snd block)) trusted_v4_blocks"

lemma ipv6_number_simps [simp]:
  "ipv6_number [] = 0" "ipv6_number (ss @ [s]) = ipv6_number ss * 65536 + unat s"
  by (simp_all add: ipv6_number_def)

lemma segment_bound [simp]: "unat (s :: u16) < 65536"
  using unsigned_less [of s] by simp

lemma ipv6_number_div: "ipv6_number (ss @ ts) div 65536 ^ length ts = ipv6_number ss"
proof (induction ts rule: rev_induct)
  case (snoc t ts)
  have "ipv6_number (ss @ ts @ [t]) div 65536 ^ length (ts @ [t]) = ipv6_number (ss @ ts) div 65536 ^ length ts"
    using ipv6_number_simps(2) [of "ss @ ts" t] segment_bound [of t] by (simp add: div_mult2_eq)
  then show ?case using snoc by simp
qed simp

lemma ipv6_number_eq:
  "length ss = length ts \<Longrightarrow> ipv6_number ss = ipv6_number ts \<longleftrightarrow> ss = ts"
proof (induction ss ts rule: rev_induct2)
  case (4 s ss t ts)
  then show ?case using digits_eq [of "unat s" 65536 "unat t"] by (auto simp: word_unat_eq_iff)
qed simp_all

text \<open>Masks of leading bits as division.\<close>

lemma and_leading:
  fixes w :: u16
  shows "and w 0xfe00 = 0xfc00 \<longleftrightarrow> unat w div 512 = 126" and "and w 0xffc0 = 0xfe80 \<longleftrightarrow> unat w div 64 = 1018"
proof -
  have m: "and w (not (mask n)) = push_bit n (drop_bit n w)" for n
    by (rule bit_eqI) (auto simp: bit_simps)
  have e: "push_bit n (drop_bit n w) = push_bit n v \<longleftrightarrow> unat w div 2 ^ n = unat v"
    if "n < 16" "unat v < 2 ^ (16 - n)" for n and v :: u16
  proof -
    have u: "unat (drop_bit n w) = unat w div 2 ^ n" by (simp only: unat_drop_bit_eq) (rule drop_bit_eq_div)
    have "unat (drop_bit n w) < 2 ^ (16 - n)"
      using that(1) segment_bound [of w] power_add [of "2::nat" "16 - n" n]
      unfolding u by (intro less_mult_imp_div_less) simp
    moreover have "unat (push_bit n x) = unat x * 2 ^ n" if "unat x < 2 ^ (16 - n)" for x :: u16
    proof -
      have "unat x * 2 ^ n < 2 ^ 16"
        using that \<open>n < 16\<close> power_add [of "2::nat" "16 - n" n] mult_strict_right_mono [of "unat x" "2 ^ (16 - n)" "2 ^ n"]
        by simp
      then show ?thesis
        by (simp only: unsigned_push_bit_eq push_bit_eq_mult [of n "unat x"]) (simp add: take_bit_nat_eq_self)
    qed
    ultimately show ?thesis using that(2) by (simp add: word_unat_eq_iff u del: drop_bit_eq_div push_bit_eq_mult)
  qed
  have "(0xfe00 :: u16) = not (mask 9)" "(0xfc00 :: u16) = push_bit 9 126"
    "(0xffc0 :: u16) = not (mask 6)" "(0xfe80 :: u16) = push_bit 6 1018"
    by (simp_all add: mask_eq_exp_minus_1 push_bit_eq_mult)
  then show "and w 0xfe00 = 0xfc00 \<longleftrightarrow> unat w div 512 = 126" "and w 0xffc0 = 0xfe80 \<longleftrightarrow> unat w div 64 = 1018"
    using m [of 9] m [of 6] e [of 9 126] e [of 6 1018] by simp_all
qed

lemma mapped_block:
  assumes "l \<le> 32" and "p < 2 ^ 32"
  shows "in_block 128 (0xffff * 2 ^ 32 + p, 96 + l) n \<longleftrightarrow>
    n div 2 ^ 32 = 0xffff \<and> in_block 32 (p, l) (n mod 2 ^ 32)"
proof -
  have split: "(h * 2 ^ 32 + m) div 2 ^ (32 - l) = h * 2 ^ l + m div 2 ^ (32 - l)" for h m :: nat
  proof -
    have "(2::nat) ^ 32 = 2 ^ l * 2 ^ (32 - l)" using assms(1) by (simp flip: power_add)
    then have "h * 2 ^ 32 = (h * 2 ^ l) * 2 ^ (32 - l)" by simp
    then show ?thesis by (simp only: div_mult_self3 power_not_zero) simp
  qed
  have small: "m div 2 ^ (32 - l) < 2 ^ l" if "m < 2 ^ 32" for m :: nat
    using that assms(1) by (intro less_mult_imp_div_less) (simp flip: power_add)
  have n: "n = (n div 2 ^ 32) * 2 ^ 32 + n mod 2 ^ 32" by (rule div_mult_mod_eq [symmetric])
  have "n div 2 ^ (32 - l) = (n div 2 ^ 32) * 2 ^ l + (n mod 2 ^ 32) div 2 ^ (32 - l)"
    by (subst n) (rule split)
  moreover note split [of 65535 p]
  moreover have "128 - (96 + l) = 32 - l" by simp
  moreover have "n mod 2 ^ 32 < 2 ^ 32" by simp
  ultimately show ?thesis
    using digits_eq [OF small small [OF assms(2)]] unfolding in_block_def fst_conv snd_conv
    by (simp only:)
qed

lemma ipv4_of_segments:
  "ipv4_number (high_byte s) (low_byte s) (high_byte t) (low_byte t) = unat s * 65536 + unat t"
proof -
  have b: "unat (high_byte w) = unat w div 256" "unat (low_byte w) = unat w mod 256" for w
  proof -
    have "unat w div 256 < 256" using segment_bound [of w] by (intro less_mult_imp_div_less) simp
    then show "unat (high_byte w) = unat w div 256" "unat (low_byte w) = unat w mod 256"
      by (simp_all add: high_byte_def low_byte_def unat_of_nat take_bit_eq_mod)
  qed
  have d: "unat w = unat w div 256 * 256 + unat w mod 256" for w :: u16 by simp
  show ?thesis unfolding ipv4_number_def b using d [of s] d [of t] by algebra
qed

lemma trusted_v6_other:
  "in_block 128 (1, 128) (ipv6_number [s0, s1, s2, s3, s4, s5, s6, s7]) \<longleftrightarrow>
     s0 = 0 \<and> s1 = 0 \<and> s2 = 0 \<and> s3 = 0 \<and> s4 = 0 \<and> s5 = 0 \<and> s6 = 0 \<and> s7 = 1"
  "in_block 128 (ipv6_number [0xfc00, 0, 0, 0, 0, 0, 0, 0], 7) (ipv6_number [s0, s1, s2, s3, s4, s5, s6, s7]) \<longleftrightarrow>
     and s0 0xfe00 = 0xfc00"
  "in_block 128 (ipv6_number [0xfe80, 0, 0, 0, 0, 0, 0, 0], 10) (ipv6_number [s0, s1, s2, s3, s4, s5, s6, s7]) \<longleftrightarrow>
     and s0 0xffc0 = 0xfe80"
proof -
  have one: "(1::nat) = ipv6_number [0, 0, 0, 0, 0, 0, 0, 1]" by (simp add: ipv6_number_def)
  show "in_block 128 (1, 128) (ipv6_number [s0, s1, s2, s3, s4, s5, s6, s7]) \<longleftrightarrow>
     s0 = 0 \<and> s1 = 0 \<and> s2 = 0 \<and> s3 = 0 \<and> s4 = 0 \<and> s5 = 0 \<and> s6 = 0 \<and> s7 = 1"
    using ipv6_number_eq [of "[s0, s1, s2, s3, s4, s5, s6, s7]" "[0, 0, 0, 0, 0, 0, 0, 1]"]
    by (simp add: in_block_def flip: one)
  have top: "ipv6_number [s0, s1, s2, s3, s4, s5, s6, s7] div 2 ^ 112 = unat s0"
    for s0 s1 s2 s3 s4 s5 s6 s7
    using ipv6_number_div [of "[s0]" "[s1, s2, s3, s4, s5, s6, s7]"] by (simp add: ipv6_number_def)
  have "(2::nat) ^ 121 = 2 ^ 112 * 512" "(2::nat) ^ 118 = 2 ^ 112 * 64" by simp_all
  then have d: "n div 2 ^ 121 = n div 2 ^ 112 div 512" "n div 2 ^ 118 = n div 2 ^ 112 div 64" for n :: nat
    by (simp_all only: div_mult2_eq)
  have w: "128 - 7 = (121::nat)" "128 - 10 = (118::nat)" by simp_all
  show "in_block 128 (ipv6_number [0xfc00, 0, 0, 0, 0, 0, 0, 0], 7) (ipv6_number [s0, s1, s2, s3, s4, s5, s6, s7]) \<longleftrightarrow>
     and s0 0xfe00 = 0xfc00"
    unfolding in_block_def fst_conv snd_conv w d top and_leading by simp
  show "in_block 128 (ipv6_number [0xfe80, 0, 0, 0, 0, 0, 0, 0], 10) (ipv6_number [s0, s1, s2, s3, s4, s5, s6, s7]) \<longleftrightarrow>
     and s0 0xffc0 = 0xfe80"
    unfolding in_block_def fst_conv snd_conv w d top and_leading by simp
qed

lemma trusted_v6_mapped:
  "list_ex (\<lambda>block. in_block 128 (0xffff * 2 ^ 32 + fst block, 96 + snd block)
       (ipv6_number [s0, s1, s2, s3, s4, s5, s6, s7])) trusted_v4_blocks \<longleftrightarrow>
   s0 = 0 \<and> s1 = 0 \<and> s2 = 0 \<and> s3 = 0 \<and> s4 = 0 \<and> s5 = 0xffff \<and> is_trusted_plaintext_v4 (high_byte s6) (low_byte s6)"
proof -
  let ?n = "ipv6_number [s0, s1, s2, s3, s4, s5, s6, s7]"
  let ?v4 = "ipv4_number (high_byte s6) (low_byte s6) (high_byte s7) (low_byte s7)"
  have n: "?n = ipv6_number [s0, s1, s2, s3, s4, s5] * 2 ^ 32 + ?v4"
    unfolding ipv4_of_segments by (simp add: ipv6_number_def)
  have "unat s6 * 65536 + unat s7 < 4294967296" using segment_bound [of s6] segment_bound [of s7] by linarith
  then have "?v4 < 2 ^ 32" unfolding ipv4_of_segments by simp
  then have dm: "?n div 2 ^ 32 = ipv6_number [s0, s1, s2, s3, s4, s5]" "?n mod 2 ^ 32 = ?v4"
    unfolding n by simp_all
  have "ipv6_number [0, 0, 0, 0, 0, 0xffff] = 0xffff" by (simp add: ipv6_number_def)
  then have hi: "ipv6_number [s0, s1, s2, s3, s4, s5] = 0xffff \<longleftrightarrow>
      s0 = 0 \<and> s1 = 0 \<and> s2 = 0 \<and> s3 = 0 \<and> s4 = 0 \<and> s5 = 0xffff"
    using ipv6_number_eq [of "[s0, s1, s2, s3, s4, s5]" "[0, 0, 0, 0, 0, 0xffff]"] by simp
  have "snd block \<le> 32 \<and> fst block < 2 ^ 32" if "block \<in> set trusted_v4_blocks" for block
    using that by (auto simp: trusted_v4_blocks_def ipv4_number_def)
  then have "in_block 128 (0xffff * 2 ^ 32 + fst block, 96 + snd block) ?n \<longleftrightarrow>
      ?n div 2 ^ 32 = 0xffff \<and> in_block 32 block (?n mod 2 ^ 32)" if "block \<in> set trusted_v4_blocks" for block
    using mapped_block [of "snd block" "fst block"] that by simp
  then have "list_ex (\<lambda>block. in_block 128 (0xffff * 2 ^ 32 + fst block, 96 + snd block) ?n) trusted_v4_blocks \<longleftrightarrow>
      ipv6_number [s0, s1, s2, s3, s4, s5] = 0xffff \<and> list_ex (\<lambda>block. in_block 32 block ?v4) trusted_v4_blocks"
    unfolding list_ex_iff dm by blast
  then show ?thesis unfolding hi trusted_v4_blocks [symmetric] by blast
qed

section \<open>Waits\<close>

text \<open>What a wait for a challenge or a response can end with, and what it leaves unread.\<close>

lemma wait_for_challenge_ok:
  assumes "wait_for_challenge parse arrivals = (Some (Inr challenge), rest)"
  shows "\<exists>message payload. Arrives message \<in> set arrivals \<and>
      next_frame parse message = Some (Inr (EventFrame ''connect.challenge'' payload)) \<and>
      challenge_of payload = Inr challenge"
    and "set rest \<subseteq> set arrivals"
  using assms
  by (induction parse arrivals rule: wait_for_challenge.induct)
    (force split: option.splits sum.splits incoming_frame.splits if_splits)+

lemma wait_for_response_ok:
  assumes "fst (wait_for_response parse rid op arrivals) = Some (Inr payload)"
  shows "\<exists>message ok error value. Arrives message \<in> set arrivals \<and>
      next_frame parse message = Some (Inr (ResponseFrame rid ok value error)) \<and>
      response_result op ok value error = Inr payload"
  using assms
  by (induction parse rid op arrivals rule: wait_for_response.induct)
    (force split: option.splits sum.splits incoming_frame.splits if_splits)+

lemma response_result_ok: "response_result method ok payload error = Inr v \<longleftrightarrow> ok \<and> payload = v"
  by (auto simp: response_result_def Let_def)

lemma challenge_nonce: "challenge_of payload = Inr challenge \<Longrightarrow> cch_nonce challenge \<noteq> []"
  by (auto simp: challenge_of_def Let_def split: option.splits if_splits)

definition timeouts :: "arrival list \<Rightarrow> nat" where
  "timeouts arrivals = length (filter (\<lambda>a. a = TimeoutElapses) arrivals)"

lemma timeouts_simps [simp]:
  "timeouts [] = 0" "timeouts (TimeoutElapses # as) = Suc (timeouts as)" "timeouts (Arrives message # as) = timeouts as"
  by (simp_all add: timeouts_def)

lemma wait_for_challenge_timeouts:
  "timeouts arrivals \<noteq> 0 \<Longrightarrow> fst (wait_for_challenge parse arrivals) \<noteq> None"
  "timeouts arrivals \<le> Suc (timeouts (snd (wait_for_challenge parse arrivals)))"
  by (induction parse arrivals rule: wait_for_challenge.induct)
    (auto split: option.splits sum.splits incoming_frame.splits)

lemma wait_for_response_timeouts:
  "timeouts arrivals \<noteq> 0 \<Longrightarrow> fst (wait_for_response parse rid op arrivals) \<noteq> None"
  by (induction parse rid op arrivals rule: wait_for_response.induct)
    (auto split: option.splits sum.splits incoming_frame.splits)

text \<open>An attempt that gives a session or the Gateway's refusal: the Gateway answered its connect request.\<close>

definition gateway_refusal :: "gateway_client_error \<Rightarrow> bool" where
  "gateway_refusal e = (case e of GwGateway _ _ _ _ _ _ \<Rightarrow> True | _ \<Rightarrow> False)"

lemma frame_not_refusal: "next_frame parse message = Some (Inl e) \<Longrightarrow> \<not> gateway_refusal e"
  by (auto simp: next_frame_def gateway_refusal_def split: socket_message.splits sum.splits send_outcome.splits)

lemma challenge_not_refused: "fst (wait_for_challenge parse arrivals) = Some (Inl e) \<Longrightarrow> \<not> gateway_refusal e"
proof (induction parse arrivals rule: wait_for_challenge.induct)
  case (3 parse message rest)
  have "challenge_of payload = Inl e \<Longrightarrow> \<not> gateway_refusal e" for payload
    by (auto simp: challenge_of_def Let_def gateway_refusal_def split: option.splits if_splits)
  then show ?case
    using 3 frame_not_refusal [of parse message e]
    by (auto split: option.splits sum.splits incoming_frame.splits if_splits)
qed (auto simp: gateway_refusal_def)

definition answer_of_gateway :: "gateway_client_error + gateway_session \<Rightarrow> bool" where
  "answer_of_gateway r = (case r of Inr _ \<Rightarrow> True | Inl e \<Rightarrow> gateway_refusal e)"

lemma connect_answered:
  assumes "cr_result (connect_opened parse make_params config env) = Some r" and "answer_of_gateway r"
  obtains challenge arrivals params response where
    "wait_for_challenge parse (ce_arrivals env) = (Some (Inr challenge), arrivals)"
    "make_params challenge = Inr params" "ce_send env = Sent"
    "fst (wait_for_response parse connect_id ''connect'' arrivals) = Some response"
    "r = bind_result response (\<lambda>hello. Inr (session_new config hello))"
    "cr_written (connect_opened parse make_params config env) = [request_frame connect_id ''connect'' params]"
proof -
  obtain outcome arrivals where w: "wait_for_challenge parse (ce_arrivals env) = (outcome, arrivals)" by fastforce
  show ?thesis
  proof (cases outcome)
    case None
    then show ?thesis using assms w by (simp add: connect_opened_def)
  next
    case (Some result)
    show ?thesis
    proof (cases result)
      case (Inl e)
      then have "r = Inl e" using assms w Some by (simp add: connect_opened_def)
      moreover have "\<not> answer_of_gateway (Inl e)"
        using challenge_not_refused [of parse "ce_arrivals env" e] w Some Inl
        by (simp add: answer_of_gateway_def)
      ultimately show ?thesis using assms(2) by simp
    next
      case (Inr challenge)
      show ?thesis
      proof (cases "make_params challenge")
        case (Inl e)
        then show ?thesis using assms w Some Inr by (auto simp: connect_opened_def answer_of_gateway_def gateway_refusal_def)
      next
        case p: (Inr params)
        note run = w Some Inr p
        have "ce_send env = Sent"
          using assms run by (cases "ce_send env") (auto simp: connect_opened_def Let_def answer_of_gateway_def gateway_refusal_def)
        then obtain response where
          "fst (wait_for_response parse connect_id ''connect'' arrivals) = Some response"
          "r = bind_result response (\<lambda>hello. Inr (session_new config hello))"
          using assms(1) run by (auto simp: connect_opened_def Let_def)
        then show ?thesis
          using \<open>ce_send env = Sent\<close> run by (intro that [of challenge arrivals params response])
            (simp_all add: connect_opened_def Let_def)
      qed
    qed
  qed
qed

lemma connect_once_answered:
  assumes "cr_result (connect_once tls_config parse make_params config env) = Some r" and "answer_of_gateway r"
  shows "connect_once tls_config parse make_params config env = connect_opened parse make_params config env"
    and "ce_open env = Opened"
  using assms
  by (auto simp: connect_once_def classify_connect_error_def answer_of_gateway_def gateway_refusal_def Let_def
      split: if_splits sum.splits open_outcome.splits tls_trust.splits)

section \<open>Properties\<close>

text \<open>
  Plaintext is allowed exactly for the loopback, private, link-local and shared (100.64/10) IPv4 blocks,
  the same blocks mapped into IPv6, and the IPv6 loopback, unique-local and link-local blocks: the tests
  on octets, segments and masks agree with the CIDR blocks, for every address.
\<close>

lemma trusted_addresses_exactly:
  "(is_trusted_plaintext_address (IpV4 a b c d) \<longleftrightarrow>
      list_ex (\<lambda>block. in_block 32 block (ipv4_number a b c d)) trusted_v4_blocks) \<and>
   (is_trusted_plaintext_address (IpV6 s0 s1 s2 s3 s4 s5 s6 s7) \<longleftrightarrow>
      list_ex (\<lambda>block. in_block 128 block (ipv6_number [s0, s1, s2, s3, s4, s5, s6, s7])) trusted_v6_blocks)"
proof -
  have l: "list_ex (\<lambda>block. in_block 128 block n) trusted_v6_blocks \<longleftrightarrow>
      in_block 128 (1, 128) n \<or> in_block 128 (ipv6_number [0xfc00, 0, 0, 0, 0, 0, 0, 0], 7) n
      \<or> in_block 128 (ipv6_number [0xfe80, 0, 0, 0, 0, 0, 0, 0], 10) n
      \<or> list_ex (\<lambda>block. in_block 128 (0xffff * 2 ^ 32 + fst block, 96 + snd block) n) trusted_v4_blocks" for n
    unfolding trusted_v6_blocks_def list_ex_iff list.set set_map by blast
  have "is_trusted_plaintext_address (IpV6 s0 s1 s2 s3 s4 s5 s6 s7) \<longleftrightarrow>
      list_ex (\<lambda>block. in_block 128 block (ipv6_number [s0, s1, s2, s3, s4, s5, s6, s7])) trusted_v6_blocks"
    unfolding l trusted_v6_other trusted_v6_mapped by (cases "s5 = 0xffff"; cases "s0 = 0") auto
  then show ?thesis using trusted_v4_blocks by simp
qed

text \<open>
  A client configuration exists exactly for a URL that parses, gives an upgrade request, and is secure or
  plaintext to a trusted host; a plaintext URL of any other host is refused for that reason.
\<close>

lemma plaintext_only_to_trusted:
  "is_ok (gateway_config_new parse_url into_request text) \<longleftrightarrow>
     (\<exists>url request. parse_url text = Inr url \<and> into_request text = Inr request \<and>
       (url_scheme url = ''wss'' \<or> url_scheme url = ''ws'' \<and> is_trusted_plaintext_host url))"
  "gateway_config_new parse_url into_request text = Inl GwInsecureRemoteGateway \<longleftrightarrow>
     (\<exists>url. parse_url text = Inr url \<and> url_scheme url = ''ws'' \<and> \<not> is_trusted_plaintext_host url)"
  by (auto simp: gateway_config_new_def validate_gateway_url_def is_ok_def split: sum.split)

text \<open>
  A connect attempt sends at most one request, the connect request with the parameters the
  callback made from a challenge the Gateway sent with a nonce that is not empty; a pinned attempt on an insecure URL
  opens no socket at all.
\<close>

lemma connect_answers_a_challenge:
  fixes r :: connect_run
  assumes "r = connect_once tls_config parse make_params config env"
  shows "(cr_written r = [] \<or> (\<exists>challenge params message payload.
        cr_challenges r = [challenge] \<and> cch_nonce challenge \<noteq> [] \<and> make_params challenge = Inr params \<and>
        cr_written r = [request_frame connect_id ''connect'' params] \<and>
        Arrives message \<in> set (ce_arrivals env) \<and>
        next_frame parse message = Some (Inr (EventFrame ''connect.challenge'' payload)) \<and>
        challenge_of payload = Inr challenge)) \<and>
    (gc_tls_trust config = Pinned pin \<and> ur_scheme (gc_request config) \<noteq> Some ''wss'' \<longrightarrow>
      \<not> cr_opened r \<and> cr_written r = [])"
proof -
  have opened: "cr_written (connect_opened parse make_params config env) = [] \<or> (\<exists>challenge params message payload.
        cr_challenges (connect_opened parse make_params config env) = [challenge] \<and> cch_nonce challenge \<noteq> [] \<and>
        make_params challenge = Inr params \<and>
        cr_written (connect_opened parse make_params config env) = [request_frame connect_id ''connect'' params] \<and>
        Arrives message \<in> set (ce_arrivals env) \<and>
        next_frame parse message = Some (Inr (EventFrame ''connect.challenge'' payload)) \<and>
        challenge_of payload = Inr challenge)"
    using wait_for_challenge_ok(1) [of parse "ce_arrivals env"] challenge_nonce
    by (fastforce simp: connect_opened_def Let_def split: prod.split option.split sum.split)
  show ?thesis unfolding assms connect_once_def Let_def
    using opened by (simp split: open_outcome.split sum.split tls_trust.split)
qed

text \<open>The Gateway of the witnesses: it sends a challenge and accepts the connect request.\<close>

definition demo_challenge_payload :: json where
  "demo_challenge_payload = JObject [(''nonce'', JString '' n1 ''), (''ts'', JNumber (PosInt 7))]"

definition demo_connect_parse :: "string \<Rightarrow> string + incoming_frame" where
  "demo_connect_parse t =
     (if t = ''c'' then Inr (EventFrame ''connect.challenge'' demo_challenge_payload)
      else if t = ''h'' then Inr (ResponseFrame connect_id True (JString ''hello'') None)
      else if t = ''x'' then Inr (ResponseFrame connect_id False JNull (Some \<lparr>ges_code = ''INVALID_REQUEST'',
        ges_message = ''bad'', ges_details = Some (JObject [(''expectedProtocol'', JNumber (PosInt 3)),
          (''code'', JString ''PROTOCOL_MISMATCH'')]), ges_retryable = None, ges_retry_after_ms = None\<rparr>))
      else Inl ''bad frame'')"

definition demo_client_config :: gateway_client_config where
  "demo_client_config =
     \<lparr>gc_request = \<lparr>ur_scheme = Some ''wss'', ur_headers = []\<rparr>, gc_tls_trust = SystemRoots,
      gc_connect_timeout = seconds 10, gc_challenge_timeout = seconds 15, gc_request_timeout = seconds 30,
      gc_write_timeout = seconds 10, gc_max_message_bytes = 100, gc_max_frame_bytes = 100,
      gc_max_event_buffer_bytes = 100, gc_event_capacity = 4, gc_max_in_flight = 2\<rparr>"

definition demo_connect_env :: "string \<Rightarrow> connect_env" where
  "demo_connect_env answer =
     \<lparr>ce_open = Opened, ce_send = Sent,
      ce_arrivals = [Arrives OtherMessage, Arrives (TextMessage ''c''), Arrives (TextMessage answer)]\<rparr>"

lemma demo_challenge: "challenge_of demo_challenge_payload = Inr \<lparr>cch_nonce = ''n1'', cch_issued_at_ms = 7\<rparr>"
proof -
  have "trim '' n1 '' = ''n1''" by code_simp
  then show ?thesis by (simp add: challenge_of_def demo_challenge_payload_def json_get_def)
qed

lemma demo_frames:
  "next_frame demo_connect_parse OtherMessage = None"
  "next_frame demo_connect_parse (TextMessage ''c'') = Some (Inr (EventFrame ''connect.challenge'' demo_challenge_payload))"
  "next_frame demo_connect_parse (TextMessage ''h'') = Some (Inr (ResponseFrame connect_id True (JString ''hello'') None))"
  "next_frame demo_connect_parse (TextMessage ''x'') = Some (Inr (ResponseFrame connect_id False JNull (Some
     \<lparr>ges_code = ''INVALID_REQUEST'', ges_message = ''bad'', ges_details = Some (JObject [(''expectedProtocol'',
       JNumber (PosInt 3)), (''code'', JString ''PROTOCOL_MISMATCH'')]), ges_retryable = None,
       ges_retry_after_ms = None\<rparr>)))"
  by (simp_all add: next_frame_def demo_connect_parse_def)

lemmas demo_connect_defs = connect_once_def connect_opened_def demo_client_config_def demo_connect_env_def
  demo_challenge demo_frames Let_def

lemma connect_answers_a_challenge_witness:
  "cr_written (connect_once (\<lambda>_. Inr ()) demo_connect_parse (\<lambda>c. Inr (JString (cch_nonce c))) demo_client_config
     (demo_connect_env ''h'')) = [request_frame connect_id ''connect'' (JString ''n1'')]"
  using connect_answers_a_challenge [OF refl, of "\<lambda>_. Inr ()" demo_connect_parse "\<lambda>c. Inr (JString (cch_nonce c))"
      demo_client_config "demo_connect_env ''h''"]
  by (simp add: demo_connect_defs)

text \<open>
  A connect attempt gives a session only when the socket opened, the connect request was written and the
  Gateway answered it, by its identifier, with success; the session holds that answer, and starts with
  no request, all its permits, an empty event hub and the limits of the configuration.
\<close>

lemma session_only_after_hello:
  assumes "cr_result (connect_once tls_config parse make_params config env) = Some (Inr session)"
  shows "ce_open env = Opened \<and> ce_send env = Sent \<and>
    (\<exists>message error. Arrives message \<in> set (ce_arrivals env) \<and>
      next_frame parse message = Some (Inr (ResponseFrame connect_id True (gs_hello session) error))) \<and>
    gateway_inv (gs_task session) \<and> gt_permits (gs_task session) = max (gc_max_in_flight config) 1 \<and>
    gt_closed (gs_task session) = None \<and> gt_pending (gs_task session) = [] \<and>
    gt_hub (gs_task session) = hub_new (gc_event_capacity config) (gc_max_event_buffer_bytes config) \<and>
    gs_request_timeout session = gc_request_timeout config"
proof -
  have a: "answer_of_gateway (Inr session)" by (simp add: answer_of_gateway_def)
  note run = connect_once_answered [OF assms a]
  obtain challenge arrivals params response where
    c: "wait_for_challenge parse (ce_arrivals env) = (Some (Inr challenge), arrivals)"
    and s: "ce_send env = Sent"
    and response: "fst (wait_for_response parse connect_id ''connect'' arrivals) = Some response"
    and r: "Inr session = bind_result response (\<lambda>hello. Inr (session_new config hello))"
    using connect_answered [OF assms [unfolded run(1)] a] by metis
  obtain hello where h: "response = Inr hello" "session = session_new config hello"
    using r by (cases response) simp_all
  then obtain message error where "Arrives message \<in> set arrivals"
    "next_frame parse message = Some (Inr (ResponseFrame connect_id True hello error))"
    using wait_for_response_ok [of parse connect_id "''connect''" arrivals hello] response response_result_ok by auto
  then show ?thesis
    using run(2) s h(2) wait_for_challenge_ok(2) [OF c] gateway_inv_start
    by (auto simp: session_new_def task_start_def)
qed

lemma session_only_after_hello_witness:
  "ce_send (demo_connect_env ''h'') = Sent \<and>
   (\<exists>session. cr_result (connect_once (\<lambda>_. Inr ()) demo_connect_parse (\<lambda>c. Inr JNull) demo_client_config
      (demo_connect_env ''h'')) = Some (Inr session) \<and> gt_permits (gs_task session) = 2)"
proof -
  have r: "cr_result (connect_once (\<lambda>_. Inr ()) demo_connect_parse (\<lambda>c. Inr JNull) demo_client_config
      (demo_connect_env ''h'')) = Some (Inr (session_new demo_client_config (JString ''hello'')))"
    by (simp add: demo_connect_defs response_result_def)
  then show ?thesis using session_only_after_hello [OF r] by (simp add: demo_client_config_def)
qed

text \<open>
  A connect attempt always ends: once the timeouts of its two waits have passed it has a result, whatever
  the Gateway sends.
\<close>

lemma connect_ends:
  assumes "2 \<le> timeouts (ce_arrivals env)"
  shows "cr_result (connect_once tls_config parse make_params config env) \<noteq> None"
proof -
  note w = wait_for_challenge_timeouts [of "ce_arrivals env" parse]
  have "timeouts (snd (wait_for_challenge parse (ce_arrivals env))) \<noteq> 0" using assms w(2) by linarith
  then have "cr_result (connect_opened parse make_params config env) \<noteq> None"
    using assms w(1) wait_for_response_timeouts
    by (cases "wait_for_challenge parse (ce_arrivals env)")
      (auto simp: connect_opened_def Let_def split: option.splits sum.splits)
  then show ?thesis
    by (auto simp: connect_once_def Let_def split: if_splits sum.splits open_outcome.splits tls_trust.splits)
qed

lemma connect_ends_witness:
  "cr_result (connect_once (\<lambda>_. Inr ()) demo_connect_parse (\<lambda>c. Inr JNull) demo_client_config
     \<lparr>ce_open = Opened, ce_send = Sent, ce_arrivals = [Arrives OtherMessage, TimeoutElapses, TimeoutElapses]\<rparr>) \<noteq> None"
  using connect_ends [where env = "\<lparr>ce_open = Opened, ce_send = Sent,
      ce_arrivals = [Arrives OtherMessage, TimeoutElapses, TimeoutElapses]\<rparr>"]
  by simp

lemma response_refused:
  assumes "fst (wait_for_response parse rid op arrivals) =
    Some (Inl (GwGateway op' code message (Some details) retryable retry_after))"
  shows "\<exists>arrived payload error. Arrives arrived \<in> set arrivals \<and>
      next_frame parse arrived = Some (Inr (ResponseFrame rid False payload (Some error))) \<and>
      ges_details error = Some details"
  using assms
proof (induction parse rid op arrivals rule: wait_for_response.induct)
  case (3 parse rid op arrived rest)
  have r: "response_result op ok payload error =
      Inl (GwGateway op' code message (Some details) retryable retry_after) \<Longrightarrow>
      \<not> ok \<and> (\<exists>e. error = Some e \<and> ges_details e = Some details)" for ok payload error
    by (auto simp: response_result_def Let_def split: if_splits option.splits)
  show ?case
    using 3 frame_not_refusal [of parse arrived] r unfolding gateway_refusal_def
    by (force split: option.splits sum.splits incoming_frame.splits if_splits)
qed simp_all

lemma connect_refused:
  assumes "cr_result (connect_once tls_config parse make_params config env) =
    Some (Inl (GwGateway ''connect'' code message (Some details) retryable retry_after))" (is "_ = Some ?r")
  shows "ce_send env = Sent \<and> cr_written (connect_once tls_config parse make_params config env) \<noteq> [] \<and>
    (\<exists>arrived payload error. Arrives arrived \<in> set (ce_arrivals env) \<and>
      next_frame parse arrived = Some (Inr (ResponseFrame connect_id False payload (Some error))) \<and>
      ges_details error = Some details)"
proof -
  have a: "answer_of_gateway ?r" by (simp add: answer_of_gateway_def gateway_refusal_def)
  note run = connect_once_answered [OF assms a]
  obtain challenge arrivals params response where
    c: "wait_for_challenge parse (ce_arrivals env) = (Some (Inr challenge), arrivals)"
    and s: "ce_send env = Sent"
    and response: "fst (wait_for_response parse connect_id ''connect'' arrivals) = Some response"
    and r: "?r = bind_result response (\<lambda>hello. Inr (session_new config hello))"
    and w: "cr_written (connect_opened parse make_params config env) = [request_frame connect_id ''connect'' params]"
    using connect_answered [OF assms [unfolded run(1)] a] by metis
  have "response = Inl (GwGateway ''connect'' code message (Some details) retryable retry_after)"
    using r by (cases response) simp_all
  then show ?thesis
    using response_refused [of parse connect_id "''connect''" arrivals] response wait_for_challenge_ok(2) [OF c] s w
    unfolding run(1) by fastforce
qed

lemma written_once: "length (cr_written (connect_once tls_config parse make_params config env)) \<le> 1"
  by (auto simp: connect_once_def connect_opened_def Let_def
      split: sum.splits open_outcome.splits tls_trust.splits prod.splits option.splits)

text \<open>
  C12. Connecting with a fallback makes at most two attempts and sends at most two connect requests. There is a
  second attempt only when the Gateway itself refused the first one: its connect request was written, and the
  Gateway answered it with an error whose details expect the given protocol. So no transport failure,
  timeout, bad frame or missing challenge leads to an older protocol.
\<close>

lemma fallback_only_after_refusal:
  fixes runs :: "connect_run list"
  assumes "runs = connect_with_protocol_fallback tls_config parse config expected make_params env env'"
  shows "1 \<le> length runs \<and> length runs \<le> 2 \<and> length (concat (map cr_written runs)) \<le> 2 \<and>
    (length runs = 2 \<longrightarrow> ce_send env = Sent \<and> cr_written (hd runs) \<noteq> [] \<and>
      (\<exists>arrived payload error details. Arrives arrived \<in> set (ce_arrivals env) \<and>
        next_frame parse arrived = Some (Inr (ResponseFrame connect_id False payload (Some error))) \<and>
        ges_details error = Some details \<and>
        Option.bind (json_get ''expectedProtocol'' details) json_as_u64 = Some (ucast expected)))"
proof -
  let ?first = "connect_once tls_config parse (\<lambda>c. make_params c Current) config env"
  let ?second = "connect_once tls_config parse (\<lambda>c. make_params c (ProtocolFallback expected)) config env'"
  have w: "length (cr_written ?first) \<le> 1" "length (cr_written ?second) \<le> 1" by (rule written_once)+
  consider (one) "runs = [?first]"
    | (two) error where "runs = [?first, ?second]" "cr_result ?first = Some (Inl error)"
        "is_expected_protocol_mismatch error expected"
    using assms by (auto simp: connect_with_protocol_fallback_def Let_def split: option.splits sum.splits if_splits)
  then show ?thesis
  proof cases
    case one
    then show ?thesis using w by simp
  next
    case two
    obtain code message details retryable retry_after where
      e: "error = GwGateway ''connect'' code message (Some details) retryable retry_after"
      and p: "Option.bind (json_get ''expectedProtocol'' details) json_as_u64 = Some (ucast expected)"
      using two(3) by (auto simp: is_expected_protocol_mismatch_def split: gateway_client_error.splits option.splits)
    then show ?thesis using connect_refused [OF two(2) [unfolded e]] two(1) w by fastforce
  qed
qed

lemma fallback_only_after_refusal_witness:
  "ce_send (demo_connect_env ''x'') = Sent \<and>
   length (connect_with_protocol_fallback (\<lambda>_. Inr ()) demo_connect_parse demo_client_config 3 (\<lambda>c a. Inr JNull)
     (demo_connect_env ''x'') (demo_connect_env ''h'')) = 2"
proof -
  have "length (connect_with_protocol_fallback (\<lambda>_. Inr ()) demo_connect_parse demo_client_config 3 (\<lambda>c a. Inr JNull)
     (demo_connect_env ''x'') (demo_connect_env ''h'')) = 2"
    by (simp add: connect_with_protocol_fallback_def demo_connect_defs response_result_def json_get_def
        is_expected_protocol_mismatch_def)
  then show ?thesis
    using fallback_only_after_refusal [OF refl, of "\<lambda>_. Inr ()" demo_connect_parse demo_client_config 3 "\<lambda>c a. Inr JNull"
        "demo_connect_env ''x''" "demo_connect_env ''h''"] by simp
qed

end
