(* ===== verification/HostConfiguration.thy ===== *)
theory HostConfiguration
  imports CommandRuntime DeviceIdentity GatewayConnect
begin

text \<open>
  The configuration and credentials of the headless host (\<open>host.rs\<close>). The configuration file, the
  environment, the JSON text parser and the parser of socket addresses are parameters; so is the
  largest number of permits a semaphore of \<open>tokio\<close> can have.
\<close>

section \<open>Configuration\<close>

datatype auth_kind = KindToken | KindBootstrapToken | KindDeviceToken | KindPassword

record socket_addr =
  sa_ip :: ip_addr
  sa_port :: u16

record host_config =
  hc_gateway_url :: string
  hc_display_name :: string
  hc_instance_id :: "string option"
  hc_health_listen :: socket_addr
  hc_status_command :: string
  hc_auth_kind :: auth_kind
  hc_auth_env :: string
  hc_identity_secret_env :: string
  hc_max_concurrency :: nat
  hc_max_input_bytes :: nat
  hc_max_output_bytes :: nat
  hc_default_timeout_ms :: u64
  hc_max_timeout_ms :: u64

datatype host_error =
    ConfigRead string
  | ConfigParse string
  | ConfigInvalid string
  | MissingSecret string
  | EmptySecret string
  | IdentitySecret string
  | HealthBind string
  | HealthServe string
  | RuntimeBuild runtime_build_error
  | ReconnectPaused string

definition DEFAULT_STATUS_COMMAND :: string where "DEFAULT_STATUS_COMMAND = ''rust-node.status''"
definition DEFAULT_AUTH_ENV :: string where "DEFAULT_AUTH_ENV = ''OPENCLAW_NODE_TOKEN''"
definition DEFAULT_IDENTITY_SECRET_ENV :: string where "DEFAULT_IDENTITY_SECRET_ENV = ''OPENCLAW_NODE_IDENTITY''"
definition MAX_CONFIG_FILE_BYTES :: nat where "MAX_CONFIG_FILE_BYTES = 64 * 1024"

definition default_display_name :: string where "default_display_name = ''Rust node host''"

text \<open>The address \<open>127.0.0.1:0\<close>.\<close>

definition default_health_listen :: socket_addr where
  "default_health_listen = \<lparr>sa_ip = IpV4 127 0 0 1, sa_port = 0\<rparr>"

definition default_max_concurrency :: nat where "default_max_concurrency = 4"
definition default_max_input_bytes :: nat where "default_max_input_bytes = 64 * 1024"
definition default_max_output_bytes :: nat where "default_max_output_bytes = 64 * 1024"
definition default_timeout_ms :: u64 where "default_timeout_ms = 30000"
definition default_max_timeout_ms :: u64 where "default_max_timeout_ms = 120000"

subsection \<open>Reading\<close>

definition auth_kind_of :: "json \<Rightarrow> auth_kind option" where
  "auth_kind_of value =
     (case unit_variant value of
        None \<Rightarrow> None
      | Some s \<Rightarrow>
          if s = ''token'' then Some KindToken
          else if s = ''bootstrapToken'' then Some KindBootstrapToken
          else if s = ''deviceToken'' then Some KindDeviceToken
          else if s = ''password'' then Some KindPassword else None)"

definition as_usize :: "json \<Rightarrow> nat option" where
  "as_usize value = map_option unat (json_as_u64 value)"

definition host_config_fields :: "string list" where
  "host_config_fields = [''gatewayUrl'', ''displayName'', ''instanceId'', ''healthListen'', ''statusCommand'',
     ''authKind'', ''authEnv'', ''identitySecretEnv'', ''maxConcurrency'', ''maxInputBytes'', ''maxOutputBytes'',
     ''defaultTimeoutMs'', ''maxTimeoutMs'']"

text \<open>A field with a default.\<close>

definition field_or :: "'a \<Rightarrow> (json \<Rightarrow> 'a option) \<Rightarrow> string \<Rightarrow> (string \<times> json) list \<Rightarrow> 'a option" where
  "field_or fallback decode key kvs =
     map_option (\<lambda>v. case v of None \<Rightarrow> fallback | Some x \<Rightarrow> x) (default_field decode key kvs)"

text \<open>The derived reader, for a default of the listening address.\<close>

definition read_host_config ::
  "socket_addr \<Rightarrow> (string \<Rightarrow> socket_addr option) \<Rightarrow> json \<Rightarrow> host_config option" where
  "read_host_config fallback_listen parse_addr value =
     Option.bind (struct_entries host_config_fields value) (\<lambda>kvs.
     if \<not> no_unknown_fields host_config_fields kvs \<or> \<not> distinct (map fst kvs) then None
     else
       Option.bind (required_field as_str ''gatewayUrl'' kvs) (\<lambda>gateway_url.
       Option.bind (field_or default_display_name as_str ''displayName'' kvs) (\<lambda>display_name.
       Option.bind (nullable_field as_str ''instanceId'' kvs) (\<lambda>instance_id.
       Option.bind (field_or fallback_listen (\<lambda>v. Option.bind (as_str v) parse_addr) ''healthListen'' kvs)
         (\<lambda>health_listen.
       Option.bind (field_or DEFAULT_STATUS_COMMAND as_str ''statusCommand'' kvs) (\<lambda>status_command.
       Option.bind (field_or KindToken auth_kind_of ''authKind'' kvs) (\<lambda>auth_kind.
       Option.bind (field_or DEFAULT_AUTH_ENV as_str ''authEnv'' kvs) (\<lambda>auth_env.
       Option.bind (field_or DEFAULT_IDENTITY_SECRET_ENV as_str ''identitySecretEnv'' kvs) (\<lambda>identity_secret_env.
       Option.bind (field_or default_max_concurrency as_usize ''maxConcurrency'' kvs) (\<lambda>max_concurrency.
       Option.bind (field_or default_max_input_bytes as_usize ''maxInputBytes'' kvs) (\<lambda>max_input.
       Option.bind (field_or default_max_output_bytes as_usize ''maxOutputBytes'' kvs) (\<lambda>max_output.
       Option.bind (field_or default_timeout_ms json_as_u64 ''defaultTimeoutMs'' kvs) (\<lambda>default_ms.
       map_option (\<lambda>max_ms.
         \<lparr>hc_gateway_url = gateway_url, hc_display_name = display_name, hc_instance_id = instance_id,
          hc_health_listen = health_listen, hc_status_command = status_command, hc_auth_kind = auth_kind,
          hc_auth_env = auth_env, hc_identity_secret_env = identity_secret_env,
          hc_max_concurrency = max_concurrency, hc_max_input_bytes = max_input,
          hc_max_output_bytes = max_output, hc_default_timeout_ms = default_ms, hc_max_timeout_ms = max_ms\<rparr>)
         (field_or default_max_timeout_ms json_as_u64 ''maxTimeoutMs'' kvs))))))))))))))"

definition parse_host_config :: "(string \<Rightarrow> socket_addr option) \<Rightarrow> json \<Rightarrow> host_config option" where
  "parse_host_config = read_host_config default_health_listen"

definition ip_is_loopback :: "ip_addr \<Rightarrow> bool" where
  "ip_is_loopback ip =
     (case ip of IpV4 a b c d \<Rightarrow> a = 127 | IpV6 s0 s1 s2 s3 s4 s5 s6 s7 \<Rightarrow>
        s0 = 0 \<and> s1 = 0 \<and> s2 = 0 \<and> s3 = 0 \<and> s4 = 0 \<and> s5 = 0 \<and> s6 = 0 \<and> s7 = 1)"

definition validate_host_config :: "nat \<Rightarrow> host_config \<Rightarrow> host_error + unit" where
  "validate_host_config semaphore_max config =
     (if trim (hc_gateway_url config) = [] \<or> trim (hc_gateway_url config) \<noteq> hc_gateway_url config
        then Inl (ConfigInvalid ''gatewayUrl must be non-empty and have no surrounding whitespace'')
      else if \<not> ip_is_loopback (sa_ip (hc_health_listen config))
        then Inl (ConfigInvalid ''healthListen must use a loopback address'')
      else
        let command = trim (hc_status_command config) in
      if command = [] \<or> command \<noteq> hc_status_command config \<or> command = ''system'' \<or> starts_with command ''system.''
        then Inl (ConfigInvalid ''statusCommand must have no surrounding whitespace and be outside the reserved system namespace'')
      else if trim (hc_auth_env config) = [] \<or> trim (hc_auth_env config) \<noteq> hc_auth_env config
        then Inl (ConfigInvalid ''authEnv must be non-empty and have no surrounding whitespace'')
      else if trim (hc_identity_secret_env config) = []
          \<or> trim (hc_identity_secret_env config) \<noteq> hc_identity_secret_env config
        then Inl (ConfigInvalid ''identitySecretEnv must be non-empty and have no surrounding whitespace'')
      else if eq_ignore_ascii_case (hc_auth_env config) (hc_identity_secret_env config)
        then Inl (ConfigInvalid ''authEnv and identitySecretEnv must name different variables'')
      else if hc_max_concurrency config = 0 \<or> hc_max_concurrency config > semaphore_max
          \<or> hc_max_input_bytes config = 0 \<or> hc_max_output_bytes config = 0
          \<or> hc_default_timeout_ms config = 0 \<or> hc_max_timeout_ms config = 0
          \<or> hc_default_timeout_ms config > hc_max_timeout_ms config
        then Inl (ConfigInvalid ''runtime bounds must be positive and defaultTimeoutMs must not exceed maxTimeoutMs'')
      else Inr ())"

text \<open>What the file system says of the path, and what reading it gives.\<close>

record config_file =
  cf_metadata :: "string + bool \<times> nat"
  cf_content :: "string + bytes"

text \<open>
  \<open>from_slice\<close> is the JSON parser, with its error; the text of an error of the shape is \<open>serde\<close>'s and not modelled.
\<close>

definition load_host_config ::
  "nat \<Rightarrow> (bytes \<Rightarrow> string + json) \<Rightarrow> (string \<Rightarrow> socket_addr option) \<Rightarrow> config_file \<Rightarrow> host_error + host_config" where
  "load_host_config semaphore_max from_slice parse_addr file =
     (case cf_metadata file of
        Inl e \<Rightarrow> Inl (ConfigRead e)
      | Inr (is_file, len) \<Rightarrow>
          if \<not> is_file \<or> len > MAX_CONFIG_FILE_BYTES
            then Inl (ConfigRead ''configuration path must be a regular file no larger than 64 KiB'')
          else
     (case cf_content file of
        Inl e \<Rightarrow> Inl (ConfigRead e)
      | Inr content \<Rightarrow>
     (case from_slice content of
        Inl e \<Rightarrow> Inl (ConfigParse e)
      | Inr value \<Rightarrow>
     (case parse_host_config parse_addr value of
        None \<Rightarrow> Inl (ConfigParse [])
      | Some config \<Rightarrow>
          bind_result (validate_host_config semaphore_max config) (\<lambda>_. Inr config)))))"

section \<open>Credentials\<close>

record host_credentials =
  hcr_identity :: node_identity
  hcr_configured_auth :: connect_auth
  hcr_issued_device_token :: "string option"

text \<open>The value comes from the environment, so it is text; base64url is the field of the crypto record.\<close>

definition decode_identity :: "identity_crypto \<Rightarrow> string \<Rightarrow> host_error + bytes" where
  "decode_identity cr value =
     (case ic_base64url_decode cr (trim value) of
        None \<Rightarrow> Inl (IdentitySecret ''secret must be unpadded base64url'')
      | Some decoded \<Rightarrow>
          if length decoded = SECRET_KEY_BYTES then Inr decoded
          else Inl (IdentitySecret ''identity secret must decode to 32 bytes''))"

fun auth_of_kind :: "auth_kind \<Rightarrow> string \<Rightarrow> connect_auth" where
  "auth_of_kind KindToken value = auth_with_token value"
| "auth_of_kind KindBootstrapToken value = auth_with_bootstrap_token value"
| "auth_of_kind KindDeviceToken value = auth_with_device_token value"
| "auth_of_kind KindPassword value = auth_with_password value"

text \<open>\<open>env\<close> is \<open>std::env::var\<close>: no value when the variable is unset or not Unicode.\<close>

definition load_host_credentials ::
  "identity_crypto \<Rightarrow> (string \<Rightarrow> string option) \<Rightarrow> host_config \<Rightarrow> host_error + host_credentials" where
  "load_host_credentials cr env config =
     (case env (hc_identity_secret_env config) of
        None \<Rightarrow> Inl (MissingSecret (hc_identity_secret_env config))
      | Some identity_value \<Rightarrow>
     bind_result (decode_identity cr identity_value) (\<lambda>secret.
     (case env (hc_auth_env config) of
        None \<Rightarrow> Inl (MissingSecret (hc_auth_env config))
      | Some auth_value \<Rightarrow>
          if auth_value = [] then Inl (EmptySecret (hc_auth_env config))
          else Inr \<lparr>hcr_identity = from_secret_bytes secret,
                 hcr_configured_auth = auth_of_kind (hc_auth_kind config) auth_value,
                 hcr_issued_device_token = None\<rparr>)))"

definition host_credentials_new :: "node_identity \<Rightarrow> connect_auth \<Rightarrow> host_credentials" where
  "host_credentials_new identity auth =
     \<lparr>hcr_identity = identity, hcr_configured_auth = auth, hcr_issued_device_token = None\<rparr>"

section \<open>The command runtime of the host\<close>

text \<open>One command, whose handler is \<open>status_handler\<close>.\<close>

definition build_host_runtime :: "'h \<Rightarrow> host_config \<Rightarrow> runtime_build_error + ('h, 'p) command_runtime" where
  "build_host_runtime status_handler config =
     build (bu_command (hc_status_command config) status_handler
       (bu_set_max_timeout (from_millis (unat (hc_max_timeout_ms config)))
       (bu_set_default_timeout (from_millis (unat (hc_default_timeout_ms config)))
       (bu_set_output (hc_max_output_bytes config)
       (bu_set_input (hc_max_input_bytes config)
       (bu_set_concurrency (hc_max_concurrency config) builder_default))))))"

text \<open>What the handler answers.\<close>

definition status_reply :: "bool \<Rightarrow> string \<Rightarrow> json" where
  "status_reply ready version = JObject [(''ready'', JBool ready), (''version'', JString version)]"

section \<open>Properties\<close>

text \<open>What a valid configuration is.\<close>

lemma valid_host_config:
  assumes "validate_host_config semaphore_max config = Inr ()"
  shows "trim (hc_status_command config) = hc_status_command config" "hc_status_command config \<noteq> []"
    "\<not> reserved (hc_status_command config)" "0 < hc_max_concurrency config" "hc_max_concurrency config \<le> semaphore_max"
    "0 < hc_max_input_bytes config" "0 < hc_max_output_bytes config" "0 < unat (hc_default_timeout_ms config)"
    "unat (hc_default_timeout_ms config) \<le> unat (hc_max_timeout_ms config)"
    "ip_is_loopback (sa_ip (hc_health_listen config))"
    "\<not> eq_ignore_ascii_case (hc_auth_env config) (hc_identity_secret_env config)"
  using assms
  by (auto simp: validate_host_config_def Let_def reserved_def word_le_nat_alt word_less_nat_alt unat_gt_0
      split: if_splits)

text \<open>
  C31. The runtime of a valid configuration can always be built, so the host never fails on it: it has exactly the
  configured command, with the host's handler, and exactly the configured bounds and timeouts, none of them adjusted.
\<close>

lemma valid_host_config_builds:
  assumes "validate_host_config semaphore_max config = Inr ()"
  shows "\<exists>rt. build_host_runtime handler config = Inr rt \<and> command_names rt = [hc_status_command config] \<and>
    map_of (handlers rt) (hc_status_command config) = Some \<lparr>rh_handler = handler, rh_duplex = False\<rparr> \<and>
    capabilities rt = [] \<and> max_permits rt = hc_max_concurrency config \<and>
    max_input_bytes rt = hc_max_input_bytes config \<and> max_output_bytes rt = hc_max_output_bytes config \<and>
    default_timeout rt = from_millis (unat (hc_default_timeout_ms config)) \<and>
    max_timeout rt = from_millis (unat (hc_max_timeout_ms config))"
  using valid_host_config [OF assms]
  by (auto simp: build_host_runtime_def build_def bu_command_def bu_register_def bu_set_max_timeout_def
      bu_set_default_timeout_def bu_set_output_def bu_set_input_def bu_set_concurrency_def builder_default_def
      command_names_def nonzero_duration_def from_millis_def Let_def)

definition demo_host_config :: host_config where
  "demo_host_config = \<lparr>hc_gateway_url = ''wss://g'', hc_display_name = ''d'', hc_instance_id = None,
     hc_health_listen = default_health_listen, hc_status_command = ''a.b'', hc_auth_kind = KindPassword,
     hc_auth_env = ''A'', hc_identity_secret_env = ''B'', hc_max_concurrency = 2, hc_max_input_bytes = 10,
     hc_max_output_bytes = 20, hc_default_timeout_ms = 5, hc_max_timeout_ms = 7\<rparr>"

lemma demo_host_config_valid: "validate_host_config 100 demo_host_config = Inr ()"
proof -
  have "trim ''wss://g'' = ''wss://g''" "trim ''a.b'' = ''a.b''" "trim ''A'' = ''A''" "trim ''B'' = ''B''"
    "\<not> eq_ignore_ascii_case ''A'' ''B''" "\<not> starts_with ''a.b'' ''system.''"
    by code_simp+
  then show ?thesis
    by (simp add: validate_host_config_def demo_host_config_def default_health_listen_def ip_is_loopback_def)
qed

lemma valid_host_config_builds_witness:
  "\<exists>rt :: (nat, unit) command_runtime. build_host_runtime 3 demo_host_config = Inr rt \<and> command_names rt = [''a.b'']"
  using valid_host_config_builds [OF demo_host_config_valid, of 3] by (auto simp: demo_host_config_def)

text \<open>A configuration written out in full.\<close>

fun auth_kind_text :: "auth_kind \<Rightarrow> string" where
  "auth_kind_text KindToken = ''token''"
| "auth_kind_text KindBootstrapToken = ''bootstrapToken''"
| "auth_kind_text KindDeviceToken = ''deviceToken''"
| "auth_kind_text KindPassword = ''password''"

definition host_config_json :: "(socket_addr \<Rightarrow> string) \<Rightarrow> host_config \<Rightarrow> json" where
  "host_config_json print_addr config = JObject
     [(''gatewayUrl'', JString (hc_gateway_url config)), (''displayName'', JString (hc_display_name config)),
      (''instanceId'', case hc_instance_id config of None \<Rightarrow> JNull | Some i \<Rightarrow> JString i),
      (''healthListen'', JString (print_addr (hc_health_listen config))),
      (''statusCommand'', JString (hc_status_command config)),
      (''authKind'', JString (auth_kind_text (hc_auth_kind config))),
      (''authEnv'', JString (hc_auth_env config)), (''identitySecretEnv'', JString (hc_identity_secret_env config)),
      (''maxConcurrency'', JNumber (PosInt (word_of_nat (hc_max_concurrency config)))),
      (''maxInputBytes'', JNumber (PosInt (word_of_nat (hc_max_input_bytes config)))),
      (''maxOutputBytes'', JNumber (PosInt (word_of_nat (hc_max_output_bytes config)))),
      (''defaultTimeoutMs'', JNumber (PosInt (hc_default_timeout_ms config))),
      (''maxTimeoutMs'', JNumber (PosInt (hc_max_timeout_ms config)))]"

lemma auth_kind_roundtrip: "auth_kind_of (JString (auth_kind_text kind)) = Some kind"
  by (cases kind) (simp_all add: auth_kind_of_def)

lemma field_roundtrip:
  "map_of kvs key = Some v \<Longrightarrow> required_field decode key kvs = decode v"
  "map_of kvs key = Some v \<Longrightarrow> field_or fallback decode key kvs = decode v"
  by (simp_all add: required_field_def field_or_def default_field_def option.map_comp comp_def option.map_ident)

lemma host_config_reads:
  assumes "parse_addr (print_addr (hc_health_listen config)) = Some (hc_health_listen config)"
    and "hc_max_concurrency config < 2 ^ 64" and "hc_max_input_bytes config < 2 ^ 64" and "hc_max_output_bytes config < 2 ^ 64"
  shows "parse_host_config parse_addr (host_config_json print_addr config) = Some config"
    and "parse_host_config parse_addr (JObject [(''gatewayUrl'', JString url)]) =
      Some \<lparr>hc_gateway_url = url, hc_display_name = ''Rust node host'', hc_instance_id = None,
        hc_health_listen = \<lparr>sa_ip = IpV4 127 0 0 1, sa_port = 0\<rparr>, hc_status_command = ''rust-node.status'',
        hc_auth_kind = KindToken, hc_auth_env = ''OPENCLAW_NODE_TOKEN'',
        hc_identity_secret_env = ''OPENCLAW_NODE_IDENTITY'', hc_max_concurrency = 4, hc_max_input_bytes = 65536,
        hc_max_output_bytes = 65536, hc_default_timeout_ms = 30000, hc_max_timeout_ms = 120000\<rparr>"
    and "key \<notin> set host_config_fields \<Longrightarrow> (key, v) \<in> set kvs \<Longrightarrow> parse_host_config parse_addr (JObject kvs) = None"
proof -
  have usize: "as_usize (JNumber (PosInt (word_of_nat n))) = Some n" if "n < 2 ^ 64" for n
    using that by (simp add: as_usize_def unat_of_nat take_bit_nat_eq_self)
  show "parse_host_config parse_addr (host_config_json print_addr config) = Some config"
    using assms(1) usize [OF assms(2)] usize [OF assms(3)] usize [OF assms(4)] auth_kind_roundtrip [of "hc_auth_kind config"]
    by (simp add: parse_host_config_def read_host_config_def host_config_json_def no_unknown_fields_def host_config_fields_def
        field_roundtrip nullable_field_def split: option.split)
  show "parse_host_config parse_addr (JObject [(''gatewayUrl'', JString url)]) =
      Some \<lparr>hc_gateway_url = url, hc_display_name = ''Rust node host'', hc_instance_id = None,
        hc_health_listen = \<lparr>sa_ip = IpV4 127 0 0 1, sa_port = 0\<rparr>, hc_status_command = ''rust-node.status'',
        hc_auth_kind = KindToken, hc_auth_env = ''OPENCLAW_NODE_TOKEN'',
        hc_identity_secret_env = ''OPENCLAW_NODE_IDENTITY'', hc_max_concurrency = 4, hc_max_input_bytes = 65536,
        hc_max_output_bytes = 65536, hc_default_timeout_ms = 30000, hc_max_timeout_ms = 120000\<rparr>"
    by (simp add: parse_host_config_def read_host_config_def no_unknown_fields_def host_config_fields_def required_field_def field_or_def
        default_field_def nullable_field_def default_display_name_def default_health_listen_def
        DEFAULT_STATUS_COMMAND_def DEFAULT_AUTH_ENV_def DEFAULT_IDENTITY_SECRET_ENV_def default_max_concurrency_def
        default_max_input_bytes_def default_max_output_bytes_def default_timeout_ms_def default_max_timeout_ms_def)
  show "parse_host_config parse_addr (JObject kvs) = None" if "key \<notin> set host_config_fields" "(key, v) \<in> set kvs"
    using that by (auto simp: parse_host_config_def read_host_config_def no_unknown_fields_def list_all_iff)
qed

text \<open>
  The configuration file says what it means: a configuration written out with every field is read back exactly,
  and one with the URL alone is read with the documented defaults; a key that is not a configuration field, such as a
  secret, is refused.
\<close>

lemma host_config_roundtrip:
  assumes "parse_addr (print_addr (hc_health_listen config)) = Some (hc_health_listen config)"
    and "hc_max_concurrency config < 2 ^ 64" and "hc_max_input_bytes config < 2 ^ 64" and "hc_max_output_bytes config < 2 ^ 64"
  shows "parse_host_config parse_addr (host_config_json print_addr config) = Some config \<and>
    parse_host_config parse_addr (JObject [(''gatewayUrl'', JString url)]) =
      Some \<lparr>hc_gateway_url = url, hc_display_name = ''Rust node host'', hc_instance_id = None,
        hc_health_listen = \<lparr>sa_ip = IpV4 127 0 0 1, sa_port = 0\<rparr>, hc_status_command = ''rust-node.status'',
        hc_auth_kind = KindToken, hc_auth_env = ''OPENCLAW_NODE_TOKEN'',
        hc_identity_secret_env = ''OPENCLAW_NODE_IDENTITY'', hc_max_concurrency = 4, hc_max_input_bytes = 65536,
        hc_max_output_bytes = 65536, hc_default_timeout_ms = 30000, hc_max_timeout_ms = 120000\<rparr> \<and>
    (key \<notin> set host_config_fields \<longrightarrow> parse_host_config parse_addr (JObject (before @ (key, v) # after)) = None)"
  using host_config_reads(1) [where config = config and parse_addr = parse_addr and print_addr = print_addr]
    host_config_reads(2) [where config = config and parse_addr = parse_addr and print_addr = print_addr and url = url]
    host_config_reads(3) [where config = config and parse_addr = parse_addr and print_addr = print_addr
      and key = key and v = v and kvs = "before @ (key, v) # after"] assms
  by simp

lemma host_config_roundtrip_witness:
  "parse_host_config (\<lambda>t. if t = ''a'' then Some default_health_listen else None)
     (host_config_json (\<lambda>_. ''a'') demo_host_config) = Some demo_host_config"
  using host_config_roundtrip [where config = demo_host_config and print_addr = "\<lambda>_. ''a''"
      and parse_addr = "\<lambda>t. if t = ''a'' then Some default_health_listen else None"]
  by (simp add: demo_host_config_def)

end
