(* ===== verification/NodeConnect.thy ===== *)
theory NodeConnect
  imports CommandRuntime DeviceIdentity GatewayConnect
begin

text \<open>
  Connecting a node (\<open>NodeClient::connect\<close> and \<open>NodeSession\<close> of \<open>node.rs\<close>): the client
  configuration, the connect envelope as JSON, the callback that makes it for a challenge, and the
  session with the surface it advertised. It runs on the Gateway client of \<open>GatewayConnect\<close>.
\<close>

section \<open>Client configuration\<close>

definition NODE_MAX_MESSAGE_BYTES :: nat where "NODE_MAX_MESSAGE_BYTES = 16 * 1024 * 1024"
definition NODE_MAX_EVENT_BUFFER_BYTES :: nat where "NODE_MAX_EVENT_BUFFER_BYTES = 64 * 1024 * 1024"

record node_client_config =
  nc_gateway_url :: string
  nc_tls_trust :: tls_trust
  nc_headers :: "(string \<times> string) list"
  nc_connect_timeout :: nat
  nc_challenge_timeout :: nat
  nc_request_timeout :: nat
  nc_write_timeout :: nat
  nc_max_message_bytes :: nat
  nc_max_event_buffer_bytes :: nat
  nc_event_capacity :: nat
  nc_max_in_flight :: nat

definition node_config_new :: "string \<Rightarrow> node_client_config" where
  "node_config_new gateway_url =
     \<lparr>nc_gateway_url = gateway_url, nc_tls_trust = SystemRoots, nc_headers = [],
      nc_connect_timeout = seconds 10, nc_challenge_timeout = seconds 15,
      nc_request_timeout = seconds 30, nc_write_timeout = seconds 10,
      nc_max_message_bytes = NODE_MAX_MESSAGE_BYTES,
      nc_max_event_buffer_bytes = NODE_MAX_EVENT_BUFFER_BYTES, nc_event_capacity = 256, nc_max_in_flight = 64\<rparr>"

datatype node_config_setting =
    NodeTlsTrust tls_trust
  | UpgradeHeader string string
  | NodeConnectTimeout nat
  | NodeChallengeTimeout nat
  | NodeRequestTimeout nat
  | NodeWriteTimeout nat
  | NodeMaxMessageBytes nat
  | NodeMaxEventBufferBytes nat
  | NodeEventCapacity nat
  | NodeMaxInFlight nat

fun node_config_set :: "node_config_setting \<Rightarrow> node_client_config \<Rightarrow> node_client_config" where
  "node_config_set (NodeTlsTrust trust) config = config\<lparr>nc_tls_trust := trust\<rparr>"
| "node_config_set (UpgradeHeader name value) config = config\<lparr>nc_headers := nc_headers config @ [(name, value)]\<rparr>"
| "node_config_set (NodeConnectTimeout timeout) config = config\<lparr>nc_connect_timeout := timeout\<rparr>"
| "node_config_set (NodeChallengeTimeout timeout) config = config\<lparr>nc_challenge_timeout := timeout\<rparr>"
| "node_config_set (NodeRequestTimeout timeout) config = config\<lparr>nc_request_timeout := timeout\<rparr>"
| "node_config_set (NodeWriteTimeout timeout) config = config\<lparr>nc_write_timeout := timeout\<rparr>"
| "node_config_set (NodeMaxMessageBytes bytes) config = config\<lparr>nc_max_message_bytes := bytes\<rparr>"
| "node_config_set (NodeMaxEventBufferBytes bytes) config = config\<lparr>nc_max_event_buffer_bytes := bytes\<rparr>"
| "node_config_set (NodeEventCapacity capacity) config = config\<lparr>nc_event_capacity := capacity\<rparr>"
| "node_config_set (NodeMaxInFlight maximum) config = config\<lparr>nc_max_in_flight := maximum\<rparr>"

text \<open>The parsers of URLs and headers, and the TLS configuration, as \<open>GatewayConnect\<close> takes them.\<close>

record net_crates =
  net_parse_url :: "string \<Rightarrow> string + gateway_url"
  net_into_request :: "string \<Rightarrow> string + upgrade_request"
  net_header_name :: "string \<Rightarrow> string + string"
  net_header_value :: "string \<Rightarrow> string + string"
  net_tls_config :: "bytes \<Rightarrow> string + unit"
  net_parse_frame :: "string \<Rightarrow> string + incoming_frame"

fun add_headers ::
  "net_crates \<Rightarrow> (string \<times> string) list \<Rightarrow> gateway_client_config \<Rightarrow> gateway_client_error + gateway_client_config" where
  "add_headers net [] config = Inr config"
| "add_headers net ((name, value) # headers) config =
     bind_result (config_header (net_header_name net) (net_header_value net) name value config)
       (add_headers net headers)"

definition gateway_config_of :: "net_crates \<Rightarrow> node_client_config \<Rightarrow> gateway_client_error + gateway_client_config" where
  "gateway_config_of net config =
     bind_result (gateway_config_new (net_parse_url net) (net_into_request net) (nc_gateway_url config)) (\<lambda>gateway_config.
       add_headers net (nc_headers config)
         (fold config_set
           [SetTlsTrust (nc_tls_trust config), SetConnectTimeout (nc_connect_timeout config),
            SetChallengeTimeout (nc_challenge_timeout config), SetRequestTimeout (nc_request_timeout config),
            SetWriteTimeout (nc_write_timeout config), SetMaxMessageBytes (nc_max_message_bytes config),
            SetMaxEventBufferBytes (nc_max_event_buffer_bytes config),
            SetEventCapacity (nc_event_capacity config), SetMaxInFlight (nc_max_in_flight config)]
           gateway_config))"

section \<open>The connect envelope\<close>

text \<open>\<open>serde_json::to_value\<close> of the options, from the attributes of the structs.\<close>

definition u32_json :: "u32 \<Rightarrow> json" where "u32_json n = JNumber (PosInt (ucast n))"

definition strings_json :: "string list \<Rightarrow> json" where "strings_json vs = JArray (map JString vs)"

definition unless_empty :: "string \<Rightarrow> 'a list \<Rightarrow> json \<Rightarrow> (string \<times> json) list" where
  "unless_empty key xs value = (if xs = [] then [] else [(key, value)])"

definition device_json :: "device_proof \<Rightarrow> json" where
  "device_json proof = JObject
     [(''id'', JString (dp_id proof)), (''publicKey'', JString (dp_public_key proof)),
      (''signature'', JString (dp_signature proof)), (''signedAt'', JNumber (PosInt (dp_signed_at proof))),
      (''nonce'', JString (dp_nonce proof))]"

definition auth_json :: "connect_auth \<Rightarrow> json" where
  "auth_json auth = JObject
     (optional_entry ''token'' JString (auth_token auth)
      @ optional_entry ''bootstrapToken'' JString (auth_bootstrap_token auth)
      @ optional_entry ''deviceToken'' JString (auth_device_token auth)
      @ optional_entry ''password'' JString (auth_password auth))"

definition client_json :: "client_info \<Rightarrow> json" where
  "client_json client = JObject
     ([(''id'', JString (ci_id client))]
      @ optional_entry ''displayName'' JString (ci_display_name client)
      @ [(''version'', JString (ci_version client)), (''platform'', JString (ci_platform client))]
      @ optional_entry ''deviceFamily'' JString (ci_device_family client)
      @ [(''mode'', JString (ci_mode client))]
      @ optional_entry ''instanceId'' JString (ci_instance_id client))"

definition options_json :: "node_connect_options \<Rightarrow> json" where
  "options_json opts = JObject
     ([(''minProtocol'', u32_json (min_protocol opts)), (''maxProtocol'', u32_json (max_protocol opts)),
       (''client'', client_json (opt_client opts))]
      @ unless_empty ''caps'' (advertised_caps opts) (strings_json (advertised_caps opts))
      @ unless_empty ''commands'' (advertised_commands opts) (strings_json (advertised_commands opts))
      @ unless_empty ''permissions'' (advertised_permissions opts)
          (JObject (map (\<lambda>(name, allowed). (name, JBool allowed)) (advertised_permissions opts)))
      @ optional_entry ''pathEnv'' JString (opt_path_env opts)
      @ [(''role'', JString (opt_role opts)), (''scopes'', strings_json (opt_scopes opts))]
      @ optional_entry ''device'' device_json (opt_device opts)
      @ optional_entry ''auth'' auth_json (opt_auth opts)
      @ optional_entry ''locale'' JString (opt_locale opts)
      @ optional_entry ''userAgent'' JString (opt_user_agent opts))"

section \<open>Connecting\<close>

record node_challenge =
  nch_nonce :: string
  nch_issued_at_ms :: u64
  nch_protocol :: node_protocol_version

fun identity_error_text :: "identity_error \<Rightarrow> string" where
  "identity_error_text (Random e) = ''operating-system randomness failed: '' @ e"
| "identity_error_text InvalidPublicKey = ''external Ed25519 public key is invalid''"
| "identity_error_text InvalidSignature =
     ''external Ed25519 signature does not match the canonical connect payload''"

text \<open>What a connection remembers of its options: activation, the advertised commands, the protocol.\<close>

type_synonym surface = "bool \<times> string list \<times> node_protocol_version"

fun attempt_protocol :: "connect_attempt \<Rightarrow> node_protocol_version" where
  "attempt_protocol Current = V4"
| "attempt_protocol (ProtocolFallback expected_protocol) = V3"

text \<open>The callback: the surface it stores and the parameters, or the error it ends with before.\<close>

definition node_connect_params ::
  "(node_challenge \<Rightarrow> string + node_connect_options) \<Rightarrow> connect_challenge \<Rightarrow> connect_attempt \<Rightarrow> string + surface \<times> json" where
  "node_connect_params make_options challenge attempt =
     (let protocol = attempt_protocol attempt in
      case make_options \<lparr>nch_nonce = cch_nonce challenge, nch_issued_at_ms = cch_issued_at_ms challenge,
          nch_protocol = protocol\<rparr> of
        Inl e \<Rightarrow> Inl e
      | Inr options \<Rightarrow>
          (case finalize_identity (cch_nonce challenge) (cch_issued_at_ms challenge) (for_protocol protocol options) of
             Inl e \<Rightarrow> Inl (identity_error_text e)
           | Inr options \<Rightarrow> Inr ((activated options, advertised_commands options, protocol), options_json options)))"

text \<open>The surface after the attempts made: each callback that got that far replaced it.\<close>

definition store_surface ::
  "(node_challenge \<Rightarrow> string + node_connect_options) \<Rightarrow> connect_attempt \<times> connect_run \<Rightarrow> surface \<Rightarrow> surface" where
  "store_surface make_options = (\<lambda>(attempt, run) surface.
     (case cr_challenges run of
        [] \<Rightarrow> surface
      | challenge # _ \<Rightarrow>
          (case node_connect_params make_options challenge attempt of Inl _ \<Rightarrow> surface | Inr (stored, _) \<Rightarrow> stored)))"

definition surface_after :: "(node_challenge \<Rightarrow> string + node_connect_options) \<Rightarrow> connect_run list \<Rightarrow> surface" where
  "surface_after make_options runs =
     fold (store_surface make_options) (zip [Current, ProtocolFallback MINIMUM_NODE_PROTOCOL_VERSION] runs)
       (False, [], V4)"

record connected_node =
  cn_gateway :: gateway_session
  cn_activated :: bool
  cn_advertised_commands :: "string list"
  cn_protocol :: node_protocol_version

text \<open>
  The result, if the connection has ended: an error, a session, or the panic of \<open>map_gateway_error\<close> on an
  error that unguarded requests do not have. The advertised commands are a set; they are kept as a list.
\<close>

record node_connect_run =
  nr_runs :: "connect_run list"
  nr_result :: "(client_error + connected_node) outcome option"

definition mapped_error :: "gateway_client_error \<Rightarrow> (client_error + 'a) outcome" where
  "mapped_error e = (case map_gateway_error e of None \<Rightarrow> Panics | Some e' \<Rightarrow> Returns (Inl e'))"

definition node_session_of :: "surface \<Rightarrow> gateway_session \<Rightarrow> client_error + connected_node" where
  "node_session_of surface gateway =
     (case surface of (is_active, commands, protocol) \<Rightarrow>
        if json_as_u64 (json_index (gs_hello gateway) ''protocol'') \<noteq> Some (ucast (protocol_number protocol))
          then Inl (InvalidFrame ''Gateway hello protocol did not match the node connect envelope'')
        else Inr \<lparr>cn_gateway = gateway, cn_activated = is_active, cn_advertised_commands = commands,
               cn_protocol = protocol\<rparr>)"

definition node_connect ::
  "net_crates \<Rightarrow> node_client_config \<Rightarrow> (node_challenge \<Rightarrow> string + node_connect_options) \<Rightarrow>
   connect_env \<Rightarrow> connect_env \<Rightarrow> node_connect_run" where
  "node_connect net config make_options env env' =
     (case gateway_config_of net config of
        Inl e \<Rightarrow> \<lparr>nr_runs = [], nr_result = Some (mapped_error e)\<rparr>
      | Inr gateway_config \<Rightarrow>
          (let runs = connect_with_protocol_fallback (net_tls_config net) (net_parse_frame net) gateway_config
                 MINIMUM_NODE_PROTOCOL_VERSION
                 (\<lambda>challenge attempt. map_sum id snd (node_connect_params make_options challenge attempt)) env env' in
           \<lparr>nr_runs = runs, nr_result =
              (case connect_result runs of
                 None \<Rightarrow> None
               | Some (Inl e) \<Rightarrow> Some (mapped_error e)
               | Some (Inr gateway) \<Rightarrow>
                   Some (Returns (node_session_of (surface_after make_options runs) gateway)))\<rparr>))"

section \<open>The session\<close>

definition advertises_command :: "string \<Rightarrow> connected_node \<Rightarrow> bool" where
  "advertises_command command session = (command \<in> set (cn_advertised_commands session))"

definition session_issued_device_token :: "connected_node \<Rightarrow> string option" where
  "session_issued_device_token session =
     (case as_str (json_index (json_index (gs_hello (cn_gateway session)) ''auth'') ''deviceToken'') of
        None \<Rightarrow> None
      | Some token \<Rightarrow> if token = [] then None else Some token)"

text \<open>The request a completion sends, or why it sends none.\<close>

definition complete_invocation ::
  "connected_node \<Rightarrow> node_invocation \<Rightarrow> invocation_result \<Rightarrow> client_error + string \<times> json" where
  "complete_invocation session call result =
     (if \<not> cn_activated session then Inl NotActivated
      else bind_result (invocation_result_params call result) (\<lambda>params. Inr (''node.invoke.result'', params)))"

text \<open>Invocations are compared without when and in how many bytes they arrived.\<close>

definition same_invocation :: "node_invocation \<Rightarrow> node_invocation \<Rightarrow> bool" where
  "same_invocation a b \<longleftrightarrow>
     inv_id a = inv_id b \<and> inv_node_id a = inv_node_id b \<and> inv_command a = inv_command b \<and>
     inv_params a = inv_params b \<and> inv_timeout_ms a = inv_timeout_ms b \<and>
     inv_idempotency_key a = inv_idempotency_key b \<and> inv_session_key a = inv_session_key b"

text \<open>\<open>next_invocation\<close> drops the inputs and cancellations before the next invocation.\<close>

lemma next_node_event_consumes:
  "next_node_event from_str is_activated incoming = Some (Inr event, rest) \<Longrightarrow> length rest < length incoming"
proof (cases is_activated)
  case True
  have "length rest < length incoming" if "next_node_event from_str True incoming = Some (Inr event, rest)"
    using that
  proof (induction incoming)
    case (Cons item incoming)
    show ?case using Cons.prems
      by (subst (asm) next_node_event.simps)
        (auto split: if_splits sum.splits prod.splits dest: Cons.IH)
  qed (simp add: next_node_event.simps)
  then show "next_node_event from_str is_activated incoming = Some (Inr event, rest) \<Longrightarrow> length rest < length incoming"
    by (simp add: True)
qed (simp add: next_node_event.simps)

function next_invocation ::
  "(string \<Rightarrow> json option) \<Rightarrow> bool \<Rightarrow> (nat \<times> (client_error + gateway_event)) list \<Rightarrow>
   ((client_error + node_invocation) \<times> (nat \<times> (client_error + gateway_event)) list) option" where
  "next_invocation from_str is_activated incoming =
     (case next_node_event from_str is_activated incoming of
        None \<Rightarrow> None
      | Some (Inl error, rest) \<Rightarrow> Some (Inl error, rest)
      | Some (Inr (Invocation call), rest) \<Rightarrow> Some (Inr call, rest)
      | Some (Inr event, rest) \<Rightarrow> next_invocation from_str is_activated rest)"
  by pat_completeness auto
termination
  by (relation "measure (\<lambda>(f, a, incoming). length incoming)") (auto dest: next_node_event_consumes)

declare next_invocation.simps [simp del]

section \<open>Sessions and what was sent for them\<close>

lemma connect_once_session:
  assumes "cr_result (connect_once tls_config parse make_params config env) = Some (Inr gateway)"
  shows "\<exists>challenge params. cr_challenges (connect_once tls_config parse make_params config env) = [challenge] \<and>
    make_params challenge = Inr params \<and>
    cr_written (connect_once tls_config parse make_params config env) = [request_frame connect_id ''connect'' params]"
  using assms
  by (auto simp: connect_once_def connect_opened_def Let_def split: if_splits sum.splits open_outcome.splits
      tls_trust.splits prod.splits option.splits)

text \<open>The connection is that of the last run, made by the attempt of its position.\<close>

definition last_attempt :: "connect_run list \<Rightarrow> connect_attempt" where
  "last_attempt runs = (if length runs = 1 then Current else ProtocolFallback MINIMUM_NODE_PROTOCOL_VERSION)"

lemma fallback_session:
  fixes make_params
  assumes runs: "runs = connect_with_protocol_fallback tls_config parse config MINIMUM_NODE_PROTOCOL_VERSION make_params env env'"
    and result: "connect_result runs = Some (Inr gateway)"
  shows "length runs \<in> {1, 2} \<and>
    (\<exists>challenge params. cr_challenges (last runs) = [challenge] \<and> make_params challenge (last_attempt runs) = Inr params \<and>
      cr_written (last runs) = [request_frame connect_id ''connect'' params])"
proof -
  let ?first = "connect_once tls_config parse (\<lambda>challenge. make_params challenge Current) config env"
  let ?second = "connect_once tls_config parse
    (\<lambda>challenge. make_params challenge (ProtocolFallback MINIMUM_NODE_PROTOCOL_VERSION)) config env'"
  have "runs = [?first] \<or> runs = [?first, ?second]"
    using runs by (auto simp: connect_with_protocol_fallback_def Let_def split: option.splits sum.splits)
  then show ?thesis
  proof
    assume one: "runs = [?first]"
    with result have "cr_result ?first = Some (Inr gateway)" by (simp add: connect_result_def)
    from connect_once_session [OF this] show ?thesis by (simp add: one last_attempt_def)
  next
    assume two: "runs = [?first, ?second]"
    with result have "cr_result ?second = Some (Inr gateway)" by (simp add: connect_result_def)
    from connect_once_session [OF this] show ?thesis by (simp add: two last_attempt_def)
  qed
qed

lemma node_connect_params_InrD:
  assumes "node_connect_params make_options challenge attempt = Inr (surface, params)"
  shows "\<exists>made options.
    make_options \<lparr>nch_nonce = cch_nonce challenge, nch_issued_at_ms = cch_issued_at_ms challenge,
      nch_protocol = attempt_protocol attempt\<rparr> = Inr made \<and>
    finalize_identity (cch_nonce challenge) (cch_issued_at_ms challenge) (for_protocol (attempt_protocol attempt) made)
      = Inr options \<and>
    surface = (activated options, advertised_commands options, attempt_protocol attempt) \<and>
    params = options_json options"
  using assms by (auto simp: node_connect_params_def Let_def split: sum.splits)

text \<open>Whatever an earlier attempt stored, the surface is that of the last one.\<close>

lemma surface_of_last:
  assumes "length runs \<in> {1, 2}"
    and "cr_challenges (last runs) = [challenge]"
    and "node_connect_params make_options challenge (last_attempt runs) = Inr (surface, params)"
  shows "surface_after make_options runs = surface"
proof -
  from assms(1) consider r where "runs = [r]" | r r' where "runs = [r, r']"
    by (auto simp: length_Suc_conv numeral_2_eq_2)
  then show ?thesis
    by cases (use assms(2,3) in \<open>simp_all add: surface_after_def store_surface_def last_attempt_def\<close>)
qed

lemma finalize_keeps_protocol:
  "finalize_identity nonce issued_at opts = Inr opts' \<Longrightarrow>
     min_protocol opts' = min_protocol opts \<and> max_protocol opts' = max_protocol opts"
  by (auto simp: finalize_identity_def Let_def bind_result_Inr split: if_splits option.splits)

text \<open>
  C9. The node session that a connect returns is what the last connect request said. The frame written last
  holds the options made for that attempt's challenge and protocol, 4 on the first attempt and 3 on the
  fallback, and the Gateway's hello names that protocol; the session's activation, advertised commands and
  protocol are those of the same options, never those of an attempt before.
\<close>

lemma node_session_matches_envelope:
  assumes "nr_result (node_connect net config make_options env env') = Some (Returns (Inr session))"
  shows "\<exists>challenge made options.
    let runs = nr_runs (node_connect net config make_options env env');
        protocol = (if length runs = 1 then V4 else V3) in
    length runs \<in> {1, 2} \<and>
    cr_challenges (last runs) = [challenge] \<and>
    make_options \<lparr>nch_nonce = cch_nonce challenge, nch_issued_at_ms = cch_issued_at_ms challenge, nch_protocol = protocol\<rparr>
      = Inr made \<and>
    finalize_identity (cch_nonce challenge) (cch_issued_at_ms challenge) (for_protocol protocol made) = Inr options \<and>
    cr_written (last runs) = [request_frame connect_id ''connect'' (options_json options)] \<and>
    min_protocol options = protocol_number protocol \<and> max_protocol options = protocol_number protocol \<and>
    cn_protocol session = protocol \<and>
    cn_activated session = activated options \<and> cn_advertised_commands session = advertised_commands options \<and>
    json_as_u64 (json_index (gs_hello (cn_gateway session)) ''protocol'') = Some (ucast (protocol_number protocol))"
proof -
  let ?run = "node_connect net config make_options env env'"
  let ?make = "\<lambda>challenge attempt. map_sum id snd (node_connect_params make_options challenge attempt)"
  from assms obtain gateway_config runs gateway where
      config: "gateway_config_of net config = Inr gateway_config" and
      runs: "runs = connect_with_protocol_fallback (net_tls_config net) (net_parse_frame net) gateway_config
        MINIMUM_NODE_PROTOCOL_VERSION ?make env env'" and
      same: "nr_runs ?run = runs" and
      result: "connect_result runs = Some (Inr gateway)" and
      session: "node_session_of (surface_after make_options runs) gateway = Inr session"
    by (auto simp: node_connect_def Let_def mapped_error_def split: sum.splits option.splits)
  from fallback_session [OF runs result] obtain challenge sent where
      two: "length runs \<in> {1, 2}" and
      challenge: "cr_challenges (last runs) = [challenge]" and
      made: "?make challenge (last_attempt runs) = Inr sent" and
      written: "cr_written (last runs) = [request_frame connect_id ''connect'' sent]"
    by auto
  from made obtain surface where params: "node_connect_params make_options challenge (last_attempt runs) = Inr (surface, sent)"
    by (cases "node_connect_params make_options challenge (last_attempt runs)") auto
  have protocol: "attempt_protocol (last_attempt runs) = (if length runs = 1 then V4 else V3)"
    by (simp add: last_attempt_def)
  from session surface_of_last [OF two challenge params] have
      fields: "cn_activated session = fst surface" "cn_advertised_commands session = fst (snd surface)"
      "cn_protocol session = snd (snd surface)" and
      hello: "json_as_u64 (json_index (gs_hello (cn_gateway session)) ''protocol'')
        = Some (ucast (protocol_number (snd (snd surface))))"
    by (auto simp: node_session_of_def split: if_splits prod.splits)
  let ?protocol = "if length runs = 1 then V4 else V3"
  from node_connect_params_InrD [OF params] obtain made options where
      made_of: "make_options \<lparr>nch_nonce = cch_nonce challenge, nch_issued_at_ms = cch_issued_at_ms challenge,
        nch_protocol = ?protocol\<rparr> = Inr made" and
      final: "finalize_identity (cch_nonce challenge) (cch_issued_at_ms challenge) (for_protocol ?protocol made) = Inr options" and
      stored: "surface = (activated options, advertised_commands options, ?protocol)" "sent = options_json options"
    unfolding protocol by blast
  have "min_protocol options = protocol_number ?protocol" "max_protocol options = protocol_number ?protocol"
    using finalize_keeps_protocol [OF final] by (simp_all add: for_protocol_def Let_def)
  with two challenge made_of final written stored fields hello show ?thesis
    unfolding same Let_def by (intro exI [of _ challenge] exI [of _ made] exI [of _ options]) simp
qed

definition demo_node_net :: net_crates where
  "demo_node_net = \<lparr>net_parse_url = (\<lambda>_. Inr \<lparr>url_scheme = ''wss'', url_host = None\<rparr>),
     net_into_request = (\<lambda>_. Inr \<lparr>ur_scheme = Some ''wss'', ur_headers = []\<rparr>),
     net_header_name = Inr, net_header_value = Inr, net_tls_config = (\<lambda>_. Inr ()),
     net_parse_frame = (\<lambda>t. if t = ''k'' then Inr (ResponseFrame connect_id True
       (JObject [(''protocol'', JNumber (PosInt 3))]) None) else demo_connect_parse t)\<rparr>"

lemma demo_node_frames:
  "next_frame (net_parse_frame demo_node_net) OtherMessage = None"
  "next_frame (net_parse_frame demo_node_net) (TextMessage ''c'') =
     Some (Inr (EventFrame ''connect.challenge'' demo_challenge_payload))"
  "next_frame (net_parse_frame demo_node_net) (TextMessage ''x'') = next_frame demo_connect_parse (TextMessage ''x'')"
  "next_frame (net_parse_frame demo_node_net) (TextMessage ''k'') =
     Some (Inr (ResponseFrame connect_id True (JObject [(''protocol'', JNumber (PosInt 3))]) None))"
  by (simp_all add: next_frame_def demo_node_net_def demo_connect_parse_def)

definition demo_node_config :: gateway_client_config where
  "demo_node_config =
     \<lparr>gc_request = \<lparr>ur_scheme = Some ''wss'', ur_headers = []\<rparr>, gc_tls_trust = SystemRoots,
      gc_connect_timeout = seconds 10, gc_challenge_timeout = seconds 15, gc_request_timeout = seconds 30,
      gc_write_timeout = seconds 10, gc_max_message_bytes = NODE_MAX_MESSAGE_BYTES,
      gc_max_frame_bytes = DEFAULT_MAX_FRAME_BYTES, gc_max_event_buffer_bytes = NODE_MAX_EVENT_BUFFER_BYTES,
      gc_event_capacity = 256, gc_max_in_flight = 64\<rparr>"

lemma demo_gateway_config: "gateway_config_of demo_node_net (node_config_new ''wss://g'') = Inr demo_node_config"
  by (simp add: gateway_config_of_def node_config_new_def gateway_config_new_def validate_gateway_url_def
      demo_node_net_def demo_node_config_def bind_result_def)

definition demo_node_options :: "node_challenge \<Rightarrow> string + node_connect_options" where
  "demo_node_options c = Inr (apply_call Activate (options_new ''1'' ''macos''))"

lemma demo_node_params:
  "\<exists>params. node_connect_params demo_node_options challenge attempt = Inr ((True, [], attempt_protocol attempt), params)"
  by (cases attempt) (simp_all add: node_connect_params_def demo_node_options_def options_new_def option_builders
      for_protocol_def finalize_identity_def Let_def)

lemma demo_node_runs:
  fixes make_params
  assumes make: "make_params \<lparr>cch_nonce = ''n1'', cch_issued_at_ms = 7\<rparr> Current = Inr p"
    "make_params \<lparr>cch_nonce = ''n1'', cch_issued_at_ms = 7\<rparr> (ProtocolFallback 3) = Inr q"
  shows "\<exists>r r'. connect_with_protocol_fallback (net_tls_config demo_node_net) (net_parse_frame demo_node_net) demo_node_config 3
      make_params (demo_connect_env ''x'') (demo_connect_env ''k'') = [r, r'] \<and>
    cr_challenges r' = [\<lparr>cch_nonce = ''n1'', cch_issued_at_ms = 7\<rparr>] \<and>
    cr_result r' = Some (Inr (session_new demo_node_config (JObject [(''protocol'', JNumber (PosInt 3))])))"
  using make
  by (simp add: connect_with_protocol_fallback_def demo_connect_defs demo_node_frames response_result_def json_get_def
      is_expected_protocol_mismatch_def demo_node_config_def)

lemma node_session_matches_envelope_witness:
  "\<exists>session. nr_result (node_connect demo_node_net (node_config_new ''wss://g'')
     demo_node_options (demo_connect_env ''x'') (demo_connect_env ''k''))
     = Some (Returns (Inr session)) \<and> cn_protocol session = V3"
proof -
  let ?run = "node_connect demo_node_net (node_config_new ''wss://g'')
     demo_node_options (demo_connect_env ''x'') (demo_connect_env ''k'')"
  let ?make = "\<lambda>challenge attempt. map_sum id snd (node_connect_params demo_node_options challenge attempt)"
  let ?c = "\<lparr>cch_nonce = ''n1'', cch_issued_at_ms = 7\<rparr>"
  obtain p q where p: "node_connect_params demo_node_options ?c Current = Inr ((True, [], V4), p)" and
      q: "node_connect_params demo_node_options ?c (ProtocolFallback 3) = Inr ((True, [], V3), q)"
    using demo_node_params [of ?c Current] demo_node_params [of ?c "ProtocolFallback 3"] by auto
  have "?make ?c Current = Inr p" "?make ?c (ProtocolFallback 3) = Inr q" by (simp_all add: p q)
  from demo_node_runs [of ?make, OF this] obtain r r' where
      runs: "connect_with_protocol_fallback (net_tls_config demo_node_net) (net_parse_frame demo_node_net)
        demo_node_config 3 ?make (demo_connect_env ''x'') (demo_connect_env ''k'') = [r, r']" and
      challenges: "cr_challenges r' = [?c]" and
      result: "cr_result r' = Some (Inr (session_new demo_node_config (JObject [(''protocol'', JNumber (PosInt 3))])))"
    by blast
  have surface: "surface_after demo_node_options [r, r'] = (True, [], V3)"
    by (rule surface_of_last [where challenge = ?c and params = q])
       (simp_all add: challenges q last_attempt_def MINIMUM_NODE_PROTOCOL_VERSION_def)
  have "\<exists>session. nr_result ?run = Some (Returns (Inr session)) \<and> length (nr_runs ?run) = 2"
    by (simp add: node_connect_def demo_gateway_config runs connect_result_def surface result node_session_of_def
        session_new_def json_index_def json_get_def MINIMUM_NODE_PROTOCOL_VERSION_def)
  then obtain session where session: "nr_result ?run = Some (Returns (Inr session))" and two: "length (nr_runs ?run) = 2"
    by blast
  from node_session_matches_envelope [OF session] two have "cn_protocol session = V3" by (auto simp: Let_def)
  with session show ?thesis by blast
qed

end
