(* ===== verification/NodeHost.thy ===== *)
theory NodeHost
  imports Lifecycle HealthServer HostConfiguration NodeConnect
begin

text \<open>
  The node host (\<open>host.rs\<close>): the state its handlers share, the reaction to lifecycle events and issued
  tokens, the connection factory with its adopted device token, and the host as the lifecycle driver runs it.

  The environment of a turn holds what the network did during the connects, how the session ended and when
  shutdown was requested. Log records are kept in the order they are written.
\<close>

section \<open>State and log\<close>

record host_state =
  hs_ready :: bool
  hs_token :: "string option"
  hs_token_poisoned :: bool
  hs_log :: "log_record list"

definition host_emit :: "string \<Rightarrow> string \<Rightarrow> json \<Rightarrow> host_state \<Rightarrow> host_state" where
  "host_emit level event entries st = st\<lparr>hs_log := hs_log st @ [(level, event, entries)]\<rparr>"

definition nullable :: "('a \<Rightarrow> json) \<Rightarrow> 'a option \<Rightarrow> json" where
  "nullable enc x = (case x of None \<Rightarrow> JNull | Some v \<Rightarrow> enc v)"

fun pause_name :: "reconnect_pause \<Rightarrow> string" where
  "pause_name (DevicePairing _) = ''device-pairing''"
| "pause_name (Authentication _) = ''authentication''"
| "pause_name (Protocol _) = ''protocol''"
| "pause_name Configuration = ''configuration''"
| "pause_name LocalIdentity = ''local-identity''"

fun pause_diagnostic :: "reconnect_pause \<Rightarrow> json" where
  "pause_diagnostic (DevicePairing request) = JObject
     [(''requestId'', nullable JString (dpr_request_id request)),
      (''deviceId'', nullable JString (dpr_device_id request)),
      (''requestedRole'', nullable JString (dpr_requested_role request)),
      (''requestedScopes'', nullable strings_json (dpr_requested_scopes request)),
      (''remediationHint'', nullable JString (dpr_remediation_hint request))]"
| "pause_diagnostic (Authentication detail_code) = JObject [(''detailCode'', JString detail_code)]"
| "pause_diagnostic (Protocol detail_code) = JObject [(''detailCode'', nullable JString detail_code)]"
| "pause_diagnostic Configuration = JObject []"
| "pause_diagnostic LocalIdentity = JObject []"

fun client_error_class_name :: "client_error_class \<Rightarrow> string" where
  "client_error_class_name ClassConfiguration = ''configuration''"
| "client_error_class_name ClassTransport = ''transport''"
| "client_error_class_name ClassProtocol = ''protocol''"
| "client_error_class_name ClassIdentity = ''identity''"
| "client_error_class_name ClassGateway = ''gateway''"
| "client_error_class_name ClassRequestTimeout = ''request-timeout''"
| "client_error_class_name ClassEventLagged = ''event-lagged''"
| "client_error_class_name ClassActivation = ''activation''"

fun runtime_error_class_name :: "runtime_error_class \<Rightarrow> string" where
  "runtime_error_class_name RtDeliverySaturated = ''delivery-saturated''"
| "runtime_error_class_name RtResultTask = ''result-task''"

definition duration_ms :: "duration \<Rightarrow> u64" where
  "duration_ms duration = (let ms = duration div 1000000 in if ms < 2 ^ 64 then of_nat ms else - 1)"

section \<open>Events and tokens\<close>

fun emit_backoff :: "duration \<Rightarrow> lifecycle_disconnect_reason \<Rightarrow> host_state \<Rightarrow> host_state" where
  "emit_backoff delay (ByClient error_class) st = host_emit ''warn'' ''gateway.retry''
     (JObject [(''delayMs'', JNumber (PosInt (duration_ms delay))),
       (''errorClass'', JString (client_error_class_name error_class))]) st"
| "emit_backoff delay (ByRuntime error_class) st = host_emit ''error'' ''runtime.restart''
     (JObject [(''reason'', JString (runtime_error_class_name error_class))]) st"
| "emit_backoff delay RuntimeEnded st = st"
| "emit_backoff delay Shutdown st = st"

fun host_event_handler :: "string \<Rightarrow> lifecycle_event \<Rightarrow> host_state \<Rightarrow> host_state" where
  "host_event_handler device_id (Connecting _) st = st\<lparr>hs_ready := False\<rparr>"
| "host_event_handler device_id (Connected _ protocol server_version) st = host_emit ''info'' ''gateway.connected''
     (JObject [(''protocol'', nullable (\<lambda>n. JNumber (PosInt n)) protocol),
       (''serverVersion'', nullable JString server_version), (''deviceId'', JString device_id)]) st"
| "host_event_handler device_id (Ready _) st = st\<lparr>hs_ready := True\<rparr>"
| "host_event_handler device_id (Disconnected _ reason) st =
     (let st = st\<lparr>hs_ready := False\<rparr> in
      if reason = RuntimeEnded
        then host_emit ''warn'' ''runtime.restart'' (JObject [(''reason'', JString ''runtime-ended'')]) st
      else st)"
| "host_event_handler device_id (BackingOff _ delay reason) st = emit_backoff delay reason st"
| "host_event_handler device_id (Paused _ reason) st = host_emit ''error'' ''gateway.paused''
     (JObject [(''reason'', JString (pause_name reason)), (''diagnostic'', pause_diagnostic reason)])
     (st\<lparr>hs_ready := False\<rparr>)"
| "host_event_handler device_id (Stopped _ drained) st = host_emit ''info'' ''host.stopped''
     (JObject [(''reason'', JString ''shutdown''), (''drained'', JBool drained)]) (st\<lparr>hs_ready := False\<rparr>)"

text \<open>The state of the token is unavailable once its lock is poisoned.\<close>

definition host_token_handler :: "issued_device_token \<Rightarrow> host_state \<Rightarrow> host_state" where
  "host_token_handler device_token st =
     (if hs_token_poisoned st
        then host_emit ''error'' ''gateway.device_token_adoption_failed''
          (JObject [(''reason'', JString ''local-state-unavailable'')]) st
      else host_emit ''info'' ''gateway.device_token_adopted'' (JObject [(''persistence'', JString ''process-memory'')])
          (st\<lparr>hs_token := Some (idt_token device_token)\<rparr>))"

section \<open>Connections\<close>

text \<open>What the factory's closure holds; version and operating system are those of the build.\<close>

record ('h, 'p) host_links =
  hk_config :: host_config
  hk_identity :: node_identity
  hk_configured_auth :: connect_auth
  hk_runtime :: "('h, 'p) command_runtime"
  hk_net :: net_crates
  hk_crypto :: identity_crypto
  hk_version :: string
  hk_os :: string

definition host_connect_options :: "('h, 'p) host_links \<Rightarrow> connect_auth \<Rightarrow> node_connect_options" where
  "host_connect_options links auth =
     (let options = with_auth auth (with_identity (sign_connect_at (hk_crypto links) (hk_identity links))
            (with_display_name (hc_display_name (hk_config links)) (options_new (hk_version links) (hk_os links)))) in
      case hc_instance_id (hk_config links) of
        None \<Rightarrow> options
      | Some instance_id \<Rightarrow> with_instance_id instance_id options)"

text \<open>What the network does during one call of \<open>NodeClient::connect\<close>: the attempt and its fallback.\<close>

type_synonym connect_envs = "connect_env \<times> connect_env"

definition connect_host_attempt :: "('h, 'p) host_links \<Rightarrow> connect_auth \<Rightarrow> connect_envs \<Rightarrow> node_connect_run" where
  "connect_host_attempt links auth envs =
     node_connect (hk_net links) (node_config_new (hc_gateway_url (hk_config links)))
       (\<lambda>challenge. Inr (runtime_activate (hk_runtime links) (host_connect_options links auth)))
       (fst envs) (snd envs)"

definition invalidates_adopted_device_token :: "client_error \<Rightarrow> bool" where
  "invalidates_adopted_device_token error =
     (case error of
        Gateway op code message details retryable retry_after_ms \<Rightarrow>
          op = ''connect'' \<and> invalidates_device_token (details_from_value details)
      | _ \<Rightarrow> False)"

text \<open>
  One call of the factory: the attempts with the credential of each, and the result if there is one. The
  lock is free of poison at its second use because nothing else runs between the two.
\<close>

record host_connect_run =
  hcn_attempts :: "(connect_auth \<times> node_connect_run) list"
  hcn_result :: "(client_error + connected_node) outcome option"

definition host_connect ::
  "('h, 'p) host_links \<Rightarrow> connect_envs \<Rightarrow> connect_envs \<Rightarrow> host_state \<Rightarrow> host_connect_run \<times> host_state" where
  "host_connect links envs envs' st =
     (let configured = (\<lambda>used envs st.
            let run = connect_host_attempt links (hk_configured_auth links) envs in
            (\<lparr>hcn_attempts = used @ [(hk_configured_auth links, run)], hcn_result = nr_result run\<rparr>, st)) in
      if hs_token_poisoned st
        then (\<lparr>hcn_attempts = [],
          hcn_result = Some (Returns (Inl (ConnectParams ''issued device-token state is unavailable'')))\<rparr>, st)
      else case hs_token st of
        None \<Rightarrow> configured [] envs st
      | Some device_token \<Rightarrow>
          (let auth = auth_with_device_token device_token;
               run = connect_host_attempt links auth envs;
               done_with = (\<lparr>hcn_attempts = [(auth, run)], hcn_result = nr_result run\<rparr>, st) in
           case nr_result run of
             Some (Returns (Inl error)) \<Rightarrow>
               if invalidates_adopted_device_token error
                 then configured [(auth, run)] envs'
                   (host_emit ''warn'' ''gateway.device_token_rejected''
                     (JObject [(''action'', JString ''retry-configured-auth'')]) (st\<lparr>hs_token := None\<rparr>))
               else done_with
           | _ \<Rightarrow> done_with))"

section \<open>The host under the lifecycle driver\<close>

text \<open>
  One turn of the driver: what the connects met, whether shutdown was requested before connecting ended,
  how the session ended and whether shutdown was requested in the wait after it.
\<close>

record host_env =
  he_connect :: connect_envs
  he_reconnect :: connect_envs
  he_shutdown_connecting :: bool
  he_session_end :: session_end
  he_shutdown_in_backoff :: bool

record host_run =
  hr_driver :: lifecycle_run
  hr_state :: host_state

definition lifecycle_session :: "connected_node \<Rightarrow> node_session" where
  "lifecycle_session session =
     \<lparr>ns_hello = gs_hello (cn_gateway session), ns_issued_device_token = session_issued_device_token session\<rparr>"

definition connect_outcome_of :: "host_env \<Rightarrow> host_connect_run \<Rightarrow> connect_outcome outcome option" where
  "connect_outcome_of env run =
     (if he_shutdown_connecting env then Some (Returns ShutdownWhileConnecting)
      else case hcn_result run of
        None \<Rightarrow> None
      | Some Panics \<Rightarrow> Some Panics
      | Some (Returns (Inl error)) \<Rightarrow> Some (Returns (ConnectFailed error))
      | Some (Returns (Inr session)) \<Rightarrow>
          Some (Returns (ConnectSucceeded (lifecycle_session session) (he_session_end env))))"

text \<open>The driver hands over an issued token between \<open>Connected\<close> and \<open>Ready\<close>.\<close>

definition host_observe :: "string \<Rightarrow> issued_device_token list \<Rightarrow> lifecycle_event \<Rightarrow> host_state \<Rightarrow> host_state" where
  "host_observe device_id issued event st =
     (let st = host_event_handler device_id event st in
      case event of Connected _ _ _ \<Rightarrow> fold host_token_handler issued st | _ \<Rightarrow> st)"

text \<open>
  A turn: \<open>None\<close> while its connects have not ended. The first event is seen before the factory is called,
  the others of the turn after it.
\<close>

definition host_turn :: "('h, 'p) host_links \<Rightarrow> host_env \<Rightarrow> host_run \<Rightarrow> host_run outcome option" where
  "host_turn links env r =
     (let device_id = identity_device_id (hk_crypto links) (hk_identity links);
          before = hr_driver r in
      if lr_result before \<noteq> None then Some (Returns r)
      else
        let st = host_event_handler device_id (Connecting (saturating_add (lr_attempt before) 1)) (hr_state r) in
        case host_connect links (he_connect env) (he_reconnect env) st of
          (run, st) \<Rightarrow>
            (case connect_outcome_of env run of
               None \<Rightarrow> None
             | Some Panics \<Rightarrow> Some Panics
             | Some (Returns result) \<Rightarrow>
                 (let after = run_attempt \<lparr>at_outcome = result, at_shutdown_in_backoff = he_shutdown_in_backoff env\<rparr> before;
                      events = drop (Suc (length (lr_events before))) (lr_events after);
                      issued = drop (length (lr_tokens before)) (lr_tokens after) in
                  Some (Returns \<lparr>hr_driver = after, hr_state = fold (host_observe device_id issued) events st\<rparr>))))"

fun host_turns :: "('h, 'p) host_links \<Rightarrow> host_env list \<Rightarrow> host_run \<Rightarrow> host_run outcome option" where
  "host_turns links [] r = Some (Returns r)"
| "host_turns links (env # envs) r =
     (case host_turn links env r of Some (Returns r) \<Rightarrow> host_turns links envs r | other \<Rightarrow> other)"

definition host_state_new :: host_state where
  "host_state_new = \<lparr>hs_ready = False, hs_token = None, hs_token_poisoned = False, hs_log = []\<rparr>"

text \<open>\<open>run_connections\<close>: its start and its result; an address is shown by the standard library.\<close>

definition connections_start ::
  "(socket_addr \<Rightarrow> string) \<Rightarrow> host_config \<Rightarrow> host_credentials \<Rightarrow> socket_addr \<Rightarrow> host_state \<Rightarrow> host_run" where
  "connections_start show_addr config credentials health_listen st =
     \<lparr>hr_driver = lifecycle_start lifecycle_default,
      hr_state = (host_emit ''info'' ''host.starting'' (JObject
          [(''healthListen'', JString (show_addr health_listen)),
           (''statusCommand'', JString (hc_status_command config))]) st)
        \<lparr>hs_token := hcr_issued_device_token credentials\<rparr>\<rparr>"

definition connections_result :: "host_run \<Rightarrow> (host_error + unit) option" where
  "connections_result r =
     (case lr_result (hr_driver r) of
        None \<Rightarrow> None
      | Some (Inl pause) \<Rightarrow> Some (Inl (ReconnectPaused (pause_name pause)))
      | Some (Inr _) \<Rightarrow> Some (Inr ()))"

text \<open>\<open>run_host\<close>: \<open>bound\<close> is what binding the listener and asking for its address gave.\<close>

definition run_host_start ::
  "nat \<Rightarrow> (socket_addr \<Rightarrow> string) \<Rightarrow> 'h \<Rightarrow> (socket_addr \<Rightarrow> string + socket_addr) \<Rightarrow> host_config \<Rightarrow> host_credentials \<Rightarrow>
   host_error + ('h, 'p) command_runtime \<times> host_run" where
  "run_host_start semaphore_max show_addr status_handler bound config credentials =
     bind_result (validate_host_config semaphore_max config) (\<lambda>_.
       case bound (hc_health_listen config) of
         Inl e \<Rightarrow> Inl (HealthBind e)
       | Inr health_listen \<Rightarrow>
           (case build_host_runtime status_handler config of
              Inl e \<Rightarrow> Inl (RuntimeBuild e)
            | Inr runtime \<Rightarrow>
                Inr (runtime, connections_start show_addr config credentials health_listen host_state_new)))"

text \<open>Which of the two futures of the last \<open>select\<close> completed; the health task cannot end well.\<close>

datatype host_race = ConnectionsEnded host_run | HealthTaskEnded string

fun run_host_result :: "host_race \<Rightarrow> (host_error + unit) option" where
  "run_host_result (ConnectionsEnded r) = connections_result r"
| "run_host_result (HealthTaskEnded e) = Some (Inl (HealthServe e))"

section \<open>Command line\<close>

text \<open>\<open>config_path\<close> of \<open>main.rs\<close>: what it prints is the first component, the arguments are without the program's.\<close>

definition config_path :: "string \<Rightarrow> string list \<Rightarrow> string list \<times> (string + string option)" where
  "config_path version args =
     (case args of
        [] \<Rightarrow> ([], Inl ''usage: openclaw-node --config <path>'')
      | argument # args \<Rightarrow>
          if argument = ''--help'' \<or> argument = ''-h''
            then ([''Usage: openclaw-node --config <path>''], Inr None)
          else if argument = ''--version'' \<or> argument = ''-V'' then ([''openclaw-node '' @ version], Inr None)
          else if argument \<noteq> ''--config'' then ([], Inl ''usage: openclaw-node --config <path>'')
          else case args of
            [] \<Rightarrow> ([], Inl ''--config requires a path'')
          | path # args \<Rightarrow>
              if args \<noteq> [] then ([], Inl ''unexpected arguments after the configuration path'')
              else ([], Inr (Some path)))"

lemma config_path_accepts:
  "config_path version args = (printed, Inr (Some path)) \<longleftrightarrow> args = [''--config'', path] \<and> printed = []"
  by (auto simp: config_path_def split: list.splits if_splits)

text \<open>
  \<open>run\<close> and \<open>main\<close>: the steps are parameters, an error is its text; the result is whether the exit code is
  success and what was logged.
\<close>

definition main_run ::
  "string \<Rightarrow> (string \<Rightarrow> string + 'c) \<Rightarrow> ('c \<Rightarrow> string + 'd) \<Rightarrow> (string + 's) \<Rightarrow> ('c \<Rightarrow> 'd \<Rightarrow> 's \<Rightarrow> string + unit) \<Rightarrow>
   string list \<Rightarrow> string + unit" where
  "main_run version load_config load_credentials register run_with args =
     bind_result (snd (config_path version args)) (\<lambda>path.
       case path of
         None \<Rightarrow> Inr ()
       | Some path \<Rightarrow>
           bind_result (load_config path) (\<lambda>config.
             bind_result (load_credentials config) (\<lambda>credentials.
               bind_result register (run_with config credentials))))"

definition main_exit :: "string + unit \<Rightarrow> bool \<times> log_record list" where
  "main_exit result =
     (case result of
        Inr _ \<Rightarrow> (True, [])
      | Inl error \<Rightarrow> (False, [(''error'', ''host.failed'', JObject [(''message'', JString error)])]))"

section \<open>Readiness\<close>

lemma observe_ready_step:
  assumes "phase_step event ph = Some ph'" and "hs_ready st \<longleftrightarrow> (\<exists>n. ph = InReady n)"
  shows "hs_ready (host_observe device_id issued event st) \<longleftrightarrow> (\<exists>n. ph' = InReady n)"
proof -
  have tokens: "hs_ready (fold host_token_handler issued st) = hs_ready st" for st
    by (induction issued arbitrary: st) (simp_all add: host_token_handler_def host_emit_def)
  have backoff: "hs_ready (emit_backoff delay reason st) = hs_ready st" for delay reason
    by (cases reason) (simp_all add: host_emit_def)
  show ?thesis using assms
    by (cases event) (auto simp: host_observe_def tokens backoff host_emit_def Let_def
        split: if_splits option.splits phase.splits lifecycle_disconnect_reason.splits)
qed

lemma observe_ready:
  assumes "phases events ph = Some ph'" and "hs_ready st \<longleftrightarrow> (\<exists>n. ph = InReady n)"
  shows "hs_ready (fold (host_observe device_id issued) events st) \<longleftrightarrow> (\<exists>n. ph' = InReady n)"
  using assms
proof (induction events arbitrary: ph st)
  case (Cons event events)
  from Cons.prems(1) obtain ph1 where "phase_step event ph = Some ph1" and "phases events ph1 = Some ph'"
    by (auto simp: bind_eq_Some_conv)
  with Cons.IH [OF this(2)] observe_ready_step [OF this(1) Cons.prems(2)] show ?case by simp
qed simp

lemma phases_prefix: "phases (xs @ ys) ph = Some ph'' \<Longrightarrow> \<exists>ph'. phases xs ph = Some ph'"
  by (auto simp: phases_append bind_eq_Some_conv)

text \<open>
  C11. The readiness endpoint follows the driver. After any part of the events of a run of the driver the host's
  flag is set exactly if the last session is connected, announced ready and not yet disconnected, so
  \<open>/readyz\<close> answers 200 in exactly that phase and 503 in every other.
\<close>

lemma ready_follows_lifecycle:
  assumes "lr_events (lifecycle_runs attempts (lifecycle_start l)) = seen @ later" and "\<not> hs_ready st"
  shows "\<exists>ph. phases seen (Idle 0) = Some ph \<and>
    (hs_ready (fold (host_observe device_id issued) seen st) \<longleftrightarrow> (\<exists>n. ph = InReady n)) \<and>
    fst (health_route ''GET'' ''/readyz'' (hs_ready (fold (host_observe device_id issued) seen st))) =
      (if \<exists>n. ph = InReady n then ''200 OK'' else ''503 Service Unavailable'')"
proof -
  have "run_ok (lifecycle_runs attempts (lifecycle_start l))" by (rule lifecycle_runs_ok [OF lifecycle_start_ok])
  then obtain ph'' where "phases (seen @ later) (Idle 0) = Some ph''"
    using assms(1) by (auto simp: run_ok_def conforms_def split: option.splits)
  then obtain ph where ph: "phases seen (Idle 0) = Some ph" using phases_prefix by blast
  from observe_ready [OF ph, of st] assms(2) ph show ?thesis by (auto simp: health_route_def)
qed

section \<open>The adopted device token\<close>

definition refused_token :: "node_connect_run \<Rightarrow> bool" where
  "refused_token run \<longleftrightarrow>
     (\<exists>code message details retryable retry_after_ms.
        nr_result run = Some (Returns (Inl (Gateway ''connect'' code message details retryable retry_after_ms))) \<and>
        ced_code (details_from_value details) = Some ''AUTH_DEVICE_TOKEN_MISMATCH'')"

lemma invalidates_adopted_iff:
  "invalidates_adopted_device_token error \<longleftrightarrow>
    (\<exists>code message details retryable retry_after_ms.
       error = Gateway ''connect'' code message details retryable retry_after_ms \<and>
       ced_code (details_from_value details) = Some ''AUTH_DEVICE_TOKEN_MISMATCH'')"
  by (cases error) (auto simp: invalidates_adopted_device_token_def invalidates_device_token_def
      AUTH_DEVICE_TOKEN_MISMATCH_DETAIL_CODE_def)

lemma refused_token_iff:
  "refused_token run \<longleftrightarrow>
    (\<exists>error. nr_result run = Some (Returns (Inl error)) \<and> invalidates_adopted_device_token error)"
  unfolding refused_token_def invalidates_adopted_iff by blast

lemma host_connect_cases:
  assumes "\<not> hs_token_poisoned st"
  shows "case hs_token st of
      None \<Rightarrow> host_connect links envs envs' st =
        (\<lparr>hcn_attempts = [(hk_configured_auth links, connect_host_attempt links (hk_configured_auth links) envs)],
          hcn_result = nr_result (connect_host_attempt links (hk_configured_auth links) envs)\<rparr>, st)
    | Some t \<Rightarrow>
        (let auth = auth_with_device_token t; run = connect_host_attempt links auth envs;
             run' = connect_host_attempt links (hk_configured_auth links) envs' in
         if refused_token run
         then \<exists>log. host_connect links envs envs' st =
           (\<lparr>hcn_attempts = [(auth, run), (hk_configured_auth links, run')], hcn_result = nr_result run'\<rparr>,
            st\<lparr>hs_token := None, hs_log := log\<rparr>)
         else host_connect links envs envs' st = (\<lparr>hcn_attempts = [(auth, run)], hcn_result = nr_result run\<rparr>, st))"
  using assms
  by (auto simp: host_connect_def Let_def refused_token_iff host_emit_def split: option.splits outcome.splits sum.splits)

text \<open>What a connect request says of credentials.\<close>

lemma params_auth:
  assumes "node_connect_params make_options challenge attempt = Inr (surface, params)"
    and "\<And>c. make_options c = Inr made"
  shows "json_get ''auth'' params = map_option auth_json (opt_auth made)"
proof -
  from node_connect_params_InrD [OF assms(1)] assms(2) obtain options where
    options: "finalize_identity (cch_nonce challenge) (cch_issued_at_ms challenge) (for_protocol (attempt_protocol attempt) made)
      = Inr options" and params: "params = options_json options" by auto
  have "opt_auth options = opt_auth made" using options
    by (auto simp: finalize_identity_def for_protocol_def Let_def bind_result_Inr split: if_splits option.splits)
  then show ?thesis
    by (auto simp: params options_json_def json_get_def optional_entry_def unless_empty_def split: option.splits)
qed

lemma connect_once_written:
  "cr_written (connect_once tls_config parse make_params config env) = [] \<or>
   (\<exists>challenge params. make_params challenge = Inr params \<and>
     cr_written (connect_once tls_config parse make_params config env) = [request_frame connect_id ''connect'' params])"
  by (auto simp: connect_once_def connect_opened_def Let_def split: if_splits sum.splits open_outcome.splits
      tls_trust.splits prod.splits option.splits)

lemma node_connect_written:
  assumes "r \<in> set (nr_runs (node_connect net config make_options env env'))" and "frame \<in> set (cr_written r)"
  shows "\<exists>challenge attempt surface params. frame = request_frame connect_id ''connect'' params \<and>
    node_connect_params make_options challenge attempt = Inr (surface, params)"
proof -
  let ?make = "\<lambda>challenge attempt. map_sum id snd (node_connect_params make_options challenge attempt)"
  have sent: "\<exists>challenge surface params. frame = request_frame connect_id ''connect'' params \<and>
      node_connect_params make_options challenge attempt = Inr (surface, params)"
    if "frame \<in> set (cr_written (connect_once (net_tls_config net) (net_parse_frame net)
      (\<lambda>challenge. ?make challenge attempt) config' e))" for config' e attempt
  proof -
    from connect_once_written [of "net_tls_config net" "net_parse_frame net"
        "\<lambda>challenge. ?make challenge attempt" config' e] show ?thesis
    proof (elim disjE exE conjE)
      fix challenge params
      assume p: "?make challenge attempt = Inr params" and
        written: "cr_written (connect_once (net_tls_config net) (net_parse_frame net)
          (\<lambda>challenge. ?make challenge attempt) config' e) = [request_frame connect_id ''connect'' params]"
      from p obtain surface where "node_connect_params make_options challenge attempt = Inr (surface, params)"
        by (cases "node_connect_params make_options challenge attempt") auto
      moreover have "frame = request_frame connect_id ''connect'' params" using written that by simp
      ultimately show ?thesis by blast
    qed (use that in simp)
  qed
  from assms(1) obtain config' attempt e where
      "r = connect_once (net_tls_config net) (net_parse_frame net) (\<lambda>challenge. ?make challenge attempt) config' e"
    by (auto simp: node_connect_def connect_with_protocol_fallback_def Let_def
        split: sum.splits option.splits if_splits)
  with sent assms(2) show ?thesis by blast
qed

lemma activate_keeps_auth: "opt_auth (runtime_activate rt opts) = opt_auth opts"
proof -
  have "opt_auth (fold with_command names opts) = opt_auth opts" "opt_auth (fold with_capability names opts) = opt_auth opts"
    for names opts
    by (induction names arbitrary: opts) (simp_all add: with_command_def with_capability_def)
  then show ?thesis by (simp add: runtime_activate_def activate_options_def)
qed

definition requests_carry :: "connect_auth \<Rightarrow> node_connect_run \<Rightarrow> bool" where
  "requests_carry auth run =
     list_all (\<lambda>r. list_all (\<lambda>frame. json_get ''auth'' (json_index frame ''params'') = Some (auth_json auth)) (cr_written r))
       (nr_runs run)"

lemma attempt_carries: "requests_carry auth (connect_host_attempt links auth envs)"
proof -
  let ?make = "\<lambda>challenge :: node_challenge. Inr (runtime_activate (hk_runtime links) (host_connect_options links auth))
    :: string + node_connect_options"
  have auth: "opt_auth (runtime_activate (hk_runtime links) (host_connect_options links auth)) = Some auth"
    by (simp add: activate_keeps_auth host_connect_options_def Let_def with_auth_def with_instance_id_def
        split: option.split)
  have "json_get ''auth'' (json_index frame ''params'') = Some (auth_json auth)"
    if "r \<in> set (nr_runs (connect_host_attempt links auth envs))" "frame \<in> set (cr_written r)" for r frame
  proof -
    from node_connect_written that obtain challenge attempt surface params where
      "frame = request_frame connect_id ''connect'' params" and
      "node_connect_params ?make challenge attempt = Inr (surface, params)"
      unfolding connect_host_attempt_def by blast
    with params_auth [OF this(2) refl] auth show ?thesis
      by (simp add: request_frame_def json_index_def json_get_def)
  qed
  then show ?thesis by (auto simp: requests_carry_def list_all_iff)
qed

text \<open>
  C8. The adopted device token comes first and survives everything but its refusal. With a token adopted the host
  connects with that token alone, and with its configured credentials only after the Gateway has refused the
  connect with \<open>AUTH_DEVICE_TOKEN_MISMATCH\<close>, which is also the only outcome that forgets the token; without one
  it makes one attempt with the configured credentials. Every connect request written by an attempt carries the
  credentials of that attempt and no others.
\<close>

lemma adopted_token_first:
  assumes "\<not> hs_token_poisoned st" and "host_connect links envs envs' st = (run, st')"
  shows "let refused = refused_token (snd (hd (hcn_attempts run))) in
    map fst (hcn_attempts run) =
      (case hs_token st of
         None \<Rightarrow> [hk_configured_auth links]
       | Some t \<Rightarrow> auth_with_device_token t # (if refused then [hk_configured_auth links] else [])) \<and>
    hcn_result run = nr_result (snd (last (hcn_attempts run))) \<and>
    hs_token st' = (if refused then None else hs_token st) \<and>
    list_all (\<lambda>(auth, attempt). requests_carry auth attempt) (hcn_attempts run)"
  using host_connect_cases [OF assms(1), of links envs envs'] assms(2)
  by (auto simp: Let_def attempt_carries split: option.splits if_splits)

section \<open>Turns\<close>

definition extends :: "lifecycle_run \<Rightarrow> lifecycle_run \<Rightarrow> bool" where
  "extends s s' \<longleftrightarrow>
     (\<exists>events. lr_events s' = lr_events s @ events \<and> list_all (\<lambda>e. case e of Connected _ _ _ \<Rightarrow> False | _ \<Rightarrow> True) events)
     \<and> lr_tokens s' = lr_tokens s"

lemma extendsI:
  assumes "lr_events s' = lr_events s @ events" and "lr_tokens s' = lr_tokens s"
    and "list_all (\<lambda>e. case e of Connected _ _ _ \<Rightarrow> False | _ \<Rightarrow> True) events"
  shows "extends s s'"
  using assms by (auto simp: extends_def)

lemma failure_extends:
  "extends s (finish_failure (handle_client_failure n error shutdown s))"
  "extends s (case handle_runtime_failure n c shutdown s of (must_stop, s) \<Rightarrow> if must_stop then return (Inr ()) s else s)"
  by (auto simp: extends_def finish_failure_def handle_client_failure_def handle_runtime_failure_def
      backoff_or_stop_def Let_def split: prod.splits reconnect_action.splits if_splits)

lemma session_ended_extends: "extends s (session_ended n session_end shutdown s)"
proof -
  have shut: "extends s (return r (emit (Stopped n d) (emit (Disconnected n Shutdown) s)))" for r d
    by (rule extendsI [where events = "[Disconnected n Shutdown, Stopped n d]"]) simp_all
  have ended: "extends s (emit (Disconnected n RuntimeEnded) s)"
    by (rule extendsI [where events = "[Disconnected n RuntimeEnded]"]) simp_all
  show ?thesis
    using failure_extends shut ended
    by (auto simp: session_ended_def Let_def split: session_end.split sum.split runtime_error.split)
qed

text \<open>The events of a turn and the token it hands over.\<close>

lemma run_attempt_turn:
  assumes "lr_result s = None"
  defines "n \<equiv> saturating_add (lr_attempt s) 1"
  shows "\<exists>events. list_all (\<lambda>e. case e of Connected _ _ _ \<Rightarrow> False | _ \<Rightarrow> True) events \<and>
    (case at_outcome a of
       ConnectSucceeded session _ \<Rightarrow>
         lr_events (run_attempt a s) = lr_events s @ Connecting n # connected_event n session # Ready n # events \<and>
         lr_tokens (run_attempt a s) = lr_tokens s @
           (case ns_issued_device_token session of None \<Rightarrow> [] | Some t \<Rightarrow> [\<lparr>idt_attempt = n, idt_token = t\<rparr>])
     | _ \<Rightarrow>
         lr_events (run_attempt a s) = lr_events s @ Connecting n # events \<and> lr_tokens (run_attempt a s) = lr_tokens s)"
proof (cases "at_outcome a")
  case ShutdownWhileConnecting
  then show ?thesis using assms by (auto simp: run_attempt_def Let_def intro!: exI [of _ "[Stopped n True]"])
next
  case (ConnectFailed error)
  then show ?thesis
    using assms failure_extends(1) [of "emit (Connecting n) (s\<lparr>lr_attempt := n\<rparr>)" n error "at_shutdown_in_backoff a"]
    by (auto simp: run_attempt_def Let_def extends_def)
next
  case (ConnectSucceeded session session_end)
  define s1 where "s1 = emit (Connecting n) (s\<lparr>lr_attempt := n\<rparr>)"
  define s2 where "s2 = emit (connected_event n session)
    (s1\<lparr>lr_lifecycle := (lr_lifecycle s1)\<lparr>lc_reconnect := connected (lc_reconnect (lr_lifecycle s1))\<rparr>\<rparr>)"
  define s3 where "s3 = emit (Ready n) (case ns_issued_device_token session of None \<Rightarrow> s2
    | Some t \<Rightarrow> s2\<lparr>lr_tokens := lr_tokens s2 @ [\<lparr>idt_attempt = n, idt_token = t\<rparr>]\<rparr>)"
  have run: "run_attempt a s = session_ended n session_end (at_shutdown_in_backoff a) s3"
    using assms ConnectSucceeded
    by (cases "ns_issued_device_token session") (simp_all add: run_attempt_def Let_def s1_def s2_def s3_def n_def)
  have "lr_events s3 = lr_events s @ [Connecting n, connected_event n session, Ready n]"
    "lr_tokens s3 = lr_tokens s @
      (case ns_issued_device_token session of None \<Rightarrow> [] | Some t \<Rightarrow> [\<lparr>idt_attempt = n, idt_token = t\<rparr>])"
    by (simp_all add: s1_def s2_def s3_def split: option.split)
  with session_ended_extends [of s3 n session_end "at_shutdown_in_backoff a"] ConnectSucceeded run show ?thesis
    by (auto simp: extends_def)
qed

lemma observe_token_frame:
  assumes "case event of Connected _ _ _ \<Rightarrow> False | _ \<Rightarrow> True"
  shows "hs_token (host_observe device_id issued event st) = hs_token st \<and>
    hs_token_poisoned (host_observe device_id issued event st) = hs_token_poisoned st"
proof -
  have "hs_token (emit_backoff delay reason st) = hs_token st \<and>
      hs_token_poisoned (emit_backoff delay reason st) = hs_token_poisoned st" for delay reason
    by (cases reason) (simp_all add: host_emit_def)
  with assms show ?thesis by (cases event) (auto simp: host_observe_def host_emit_def Let_def)
qed

lemma observe_tokens_frame:
  assumes "list_all (\<lambda>e. case e of Connected _ _ _ \<Rightarrow> False | _ \<Rightarrow> True) events"
  shows "hs_token (fold (host_observe device_id issued) events st) = hs_token st \<and>
    hs_token_poisoned (fold (host_observe device_id issued) events st) = hs_token_poisoned st"
  using assms by (induction events arbitrary: st) (simp_all add: observe_token_frame)


lemma host_connect_poison: "hs_token_poisoned (snd (host_connect links envs envs' st)) = hs_token_poisoned st"
  by (auto simp: host_connect_def Let_def host_emit_def split: option.splits outcome.splits sum.splits)

definition issued_in :: "connect_outcome \<Rightarrow> string option" where
  "issued_in result = (case result of ConnectSucceeded session _ \<Rightarrow> ns_issued_device_token session | _ \<Rightarrow> None)"

text \<open>
  What the host remembers from turn to turn. After a turn of the host it holds the token the session's hello
  issued; if none was issued it holds the token it held before, unless that turn's connect was the one the Gateway
  refused for it. A restart of the connection therefore starts with the newest token the Gateway gave and has not
  taken back.
\<close>

lemma host_token_life:
  assumes "host_turn links env r = Some (Returns r')" and "lr_result (hr_driver r) = None"
    and "\<not> hs_token_poisoned (hr_state r)"
  shows "\<exists>run st result.
    host_connect links (he_connect env) (he_reconnect env) ((hr_state r)\<lparr>hs_ready := False\<rparr>) = (run, st) \<and>
    connect_outcome_of env run = Some (Returns result) \<and>
    hs_token (hr_state r') =
      (case issued_in result of
         Some t \<Rightarrow> Some t
       | None \<Rightarrow> if refused_token (snd (hd (hcn_attempts run))) then None else hs_token (hr_state r)) \<and>
    \<not> hs_token_poisoned (hr_state r')"
proof -
  let ?id = "identity_device_id (hk_crypto links) (hk_identity links)"
  let ?st = "(hr_state r)\<lparr>hs_ready := False\<rparr>"
  obtain run st where connect: "host_connect links (he_connect env) (he_reconnect env) ?st = (run, st)"
    by (metis prod.exhaust)
  from assms(1,2) connect obtain result where
      result: "connect_outcome_of env run = Some (Returns result)" and
      r': "r' = (let after = run_attempt \<lparr>at_outcome = result, at_shutdown_in_backoff = he_shutdown_in_backoff env\<rparr> (hr_driver r)
        in \<lparr>hr_driver = after, hr_state = fold (host_observe ?id (drop (length (lr_tokens (hr_driver r))) (lr_tokens after)))
          (drop (Suc (length (lr_events (hr_driver r)))) (lr_events after)) st\<rparr>)"
    by (auto simp: host_turn_def Let_def split: option.splits outcome.splits)
  from connect assms(3) have poison: "\<not> hs_token_poisoned st"
    using host_connect_poison [of links "he_connect env" "he_reconnect env" ?st] by simp
  have kept: "hs_token st = (if refused_token (snd (hd (hcn_attempts run))) then None else hs_token (hr_state r))"
    using host_connect_cases [of ?st links "he_connect env" "he_reconnect env"] assms(3) connect
    by (auto simp: Let_def split: option.splits if_splits)
  let ?a = "\<lparr>at_outcome = result, at_shutdown_in_backoff = he_shutdown_in_backoff env\<rparr>"
  from run_attempt_turn [OF assms(2), of ?a] obtain events where
      quiet: "list_all (\<lambda>e. case e of Connected _ _ _ \<Rightarrow> False | _ \<Rightarrow> True) events" and
      turn: "case result of
       ConnectSucceeded session _ \<Rightarrow>
         lr_events (run_attempt ?a (hr_driver r)) = lr_events (hr_driver r) @
           Connecting (saturating_add (lr_attempt (hr_driver r)) 1) #
           connected_event (saturating_add (lr_attempt (hr_driver r)) 1) session #
           Ready (saturating_add (lr_attempt (hr_driver r)) 1) # events \<and>
         lr_tokens (run_attempt ?a (hr_driver r)) = lr_tokens (hr_driver r) @
           (case ns_issued_device_token session of None \<Rightarrow> []
            | Some t \<Rightarrow> [\<lparr>idt_attempt = saturating_add (lr_attempt (hr_driver r)) 1, idt_token = t\<rparr>])
     | _ \<Rightarrow>
         lr_events (run_attempt ?a (hr_driver r)) = lr_events (hr_driver r) @
           Connecting (saturating_add (lr_attempt (hr_driver r)) 1) # events \<and>
         lr_tokens (run_attempt ?a (hr_driver r)) = lr_tokens (hr_driver r)"
    by auto
  have "hs_token (hr_state r') = (case issued_in result of Some t \<Rightarrow> Some t | None \<Rightarrow> hs_token st) \<and>
    \<not> hs_token_poisoned (hr_state r')"
  proof (cases result)
    case (ConnectSucceeded session session_end)
    obtain n p v where ev: "connected_event (saturating_add (lr_attempt (hr_driver r)) 1) session = Connected n p v"
      by (simp add: connected_event_def)
    show ?thesis using turn quiet poison
      unfolding r' ConnectSucceeded
      by (cases "ns_issued_device_token session")
        (auto simp: Let_def observe_tokens_frame ev host_observe_def host_emit_def issued_in_def host_token_handler_def)
  qed (use turn quiet poison in \<open>auto simp: r' Let_def observe_tokens_frame issued_in_def\<close>)
  with connect result kept show ?thesis by (cases "issued_in result") auto
qed

section \<open>How the host ends\<close>

lemma over_last:
  assumes "phases (events @ [e]) ph = Some (Over result)"
  shows "(\<exists>n pause. e = Paused n pause \<and> result = Inl pause) \<or> (\<exists>n drained. e = Stopped n drained \<and> result = Inr ())"
proof -
  from assms obtain ph' where "phase_step e ph' = Some (Over result)"
    by (auto simp: phases_append bind_eq_Some_conv)
  then show ?thesis
    by (cases e) (auto split: if_splits phase.splits lifecycle_disconnect_reason.splits)
qed

definition paused_record :: "reconnect_pause \<Rightarrow> log_record" where
  "paused_record pause = (''error'', ''gateway.paused'',
     JObject [(''reason'', JString (pause_name pause)), (''diagnostic'', pause_diagnostic pause)])"

definition stopped_record :: "bool \<Rightarrow> log_record" where
  "stopped_record drained = (''info'', ''host.stopped'',
     JObject [(''reason'', JString ''shutdown''), (''drained'', JBool drained)])"

definition explained :: "reconnect_pause + unit \<Rightarrow> host_state \<Rightarrow> bool" where
  "explained result st \<longleftrightarrow> \<not> hs_ready st \<and> hs_log st \<noteq> [] \<and>
     (case result of Inl pause \<Rightarrow> last (hs_log st) = paused_record pause
      | Inr _ \<Rightarrow> \<exists>drained. last (hs_log st) = stopped_record drained)"

lemma turn_explained:
  assumes "host_turn links env r = Some (Returns r')" and "run_ok (hr_driver r)"
    and "lr_result (hr_driver r) = None"
  shows "run_ok (hr_driver r') \<and>
    (case lr_result (hr_driver r') of None \<Rightarrow> True | Some result \<Rightarrow> explained result (hr_state r'))"
proof -
  let ?id = "identity_device_id (hk_crypto links) (hk_identity links)"
  from assms(1,3) obtain a issued st where
      r': "hr_driver r' = run_attempt a (hr_driver r)" "hr_state r' = fold (host_observe ?id issued)
        (drop (Suc (length (lr_events (hr_driver r)))) (lr_events (hr_driver r'))) st"
    by (auto simp: host_turn_def Let_def split: option.splits outcome.splits prod.splits)
  have ok: "run_ok (hr_driver r')" unfolding r' by (rule run_attempt_ok [OF assms(2)])
  from run_attempt_turn [OF assms(3), of a] obtain n events where
      events: "lr_events (hr_driver r') = lr_events (hr_driver r) @ Connecting n # events"
    unfolding r' by (cases "at_outcome a") auto
  have "explained result (hr_state r')" if "lr_result (hr_driver r') = Some result" for result
  proof -
    from ok that have over: "phases (lr_events (hr_driver r')) (Idle 0) = Some (Over result)"
      by (simp add: run_ok_def conforms_def)
    from over_last [of "lr_events (hr_driver r)" "Connecting n" "Idle 0" result] over have "events \<noteq> []"
      by (auto simp: events)
    then obtain before e where e: "events = before @ [e]" by (metis append_butlast_last_id)
    then have "hr_state r' = host_observe ?id issued e (fold (host_observe ?id issued) before st)"
      by (simp add: r'(2) events)
    moreover have "(\<exists>n pause. e = Paused n pause \<and> result = Inl pause) \<or> (\<exists>n drained. e = Stopped n drained \<and> result = Inr ())"
      using over_last [of "lr_events (hr_driver r) @ Connecting n # before" e "Idle 0" result] over by (simp add: events e)
    ultimately show ?thesis
      by (auto simp: explained_def host_observe_def host_emit_def paused_record_def stopped_record_def)
  qed
  with ok show ?thesis by (auto split: option.split)
qed

lemma turns_explained:
  assumes "host_turns links envs r = Some (Returns r')" and "run_ok (hr_driver r)"
    and "case lr_result (hr_driver r) of None \<Rightarrow> True | Some result \<Rightarrow> explained result (hr_state r)"
  shows "case lr_result (hr_driver r') of None \<Rightarrow> True | Some result \<Rightarrow> explained result (hr_state r')"
  using assms
proof (induction envs arbitrary: r)
  case (Cons env envs)
  from Cons.prems(1) obtain r1 where r1: "host_turn links env r = Some (Returns r1)"
    and rest: "host_turns links envs r1 = Some (Returns r')"
    by (auto split: option.splits outcome.splits)
  show ?case
  proof (cases "lr_result (hr_driver r)")
    case None
    from turn_explained [OF r1 Cons.prems(2) None] Cons.IH [OF rest] show ?thesis by blast
  next
    case (Some result)
    then have "r1 = r" using r1 by (simp add: host_turn_def)
    then show ?thesis using Cons.IH [OF rest] Cons.prems(2,3) by blast
  qed
qed simp

text \<open>
  C29. The host's exit is explained by its last log record. When the driver has returned, the host is not ready;
  its error is the name of the pause the last record reports with its diagnostic, and a regular end comes after
  the record of the shutdown. No other error comes from the connections.
\<close>

lemma host_exit_explained:
  assumes "host_turns links envs (connections_start show_addr config credentials health_listen host_state_new)
      = Some (Returns r)"
    and "connections_result r = Some result"
  shows "\<not> hs_ready (hr_state r) \<and>
    (case result of
       Inl e \<Rightarrow> \<exists>pause. e = ReconnectPaused (pause_name pause) \<and> last (hs_log (hr_state r)) = paused_record pause
     | Inr _ \<Rightarrow> \<exists>drained. last (hs_log (hr_state r)) = stopped_record drained)"
proof -
  have "case lr_result (hr_driver r) of None \<Rightarrow> True | Some result \<Rightarrow> explained result (hr_state r)"
    by (rule turns_explained [OF assms(1)])
      (simp_all add: connections_start_def lifecycle_start_ok, simp add: lifecycle_start_def)
  with assms(2) show ?thesis
    by (auto simp: connections_result_def explained_def split: option.splits sum.splits)
qed

section \<open>A host that runs\<close>

text \<open>The Gateway of the witnesses refuses the adopted token; a connect may also time out.\<close>

definition mismatch_details :: json where
  "mismatch_details = JObject [(''code'', JString ''AUTH_DEVICE_TOKEN_MISMATCH'')]"

definition demo_host_net :: net_crates where
  "demo_host_net = demo_node_net\<lparr>net_parse_frame := (\<lambda>t.
     if t = ''m'' then Inr (ResponseFrame connect_id False JNull (Some \<lparr>ges_code = ''UNAUTHORIZED'',
       ges_message = ''no'', ges_details = Some mismatch_details, ges_retryable = None, ges_retry_after_ms = None\<rparr>))
     else demo_connect_parse t)\<rparr>"

definition demo_links :: "(nat, unit) host_links" where
  "demo_links = \<lparr>hk_config = demo_host_config, hk_identity = \<lparr>ni_secret = [1, 2]\<rparr>,
     hk_configured_auth = auth_with_token ''s'', hk_runtime = demo_rt, hk_net = demo_host_net,
     hk_crypto = demo_crypto, hk_version = ''1'', hk_os = ''linux''\<rparr>"

definition times_out :: connect_env where
  "times_out = \<lparr>ce_open = OpenTimedOut, ce_send = Sent, ce_arrivals = []\<rparr>"

lemma demo_host_gateway: "gateway_config_of demo_host_net (node_config_new ''wss://g'') = Inr demo_node_config"
  using demo_gateway_config by (simp add: gateway_config_of_def demo_host_net_def node_config_new_def)

lemma demo_times_out:
  "nr_result (connect_host_attempt demo_links auth (times_out, env)) = Some (Returns (Inl ConnectTimeout))"
  by (simp add: connect_host_attempt_def demo_links_def node_connect_def demo_host_config_def demo_host_gateway
      connect_with_protocol_fallback_def connect_once_def times_out_def is_expected_protocol_mismatch_def
      connect_result_def mapped_error_def demo_node_config_def Let_def)

lemma demo_signs: "\<exists>proof. sign_connect_at demo_crypto identity nonce platform family token at = Inr proof"
  by (simp add: sign_connect_at_def signing_request_new_def signing_request_finish_def demo_crypto_def Let_def)

lemma demo_host_frames:
  "next_frame (net_parse_frame demo_host_net) OtherMessage = None"
  "next_frame (net_parse_frame demo_host_net) (TextMessage ''c'') =
     Some (Inr (EventFrame ''connect.challenge'' demo_challenge_payload))"
  "next_frame (net_parse_frame demo_host_net) (TextMessage ''m'') =
     Some (Inr (ResponseFrame connect_id False JNull (Some \<lparr>ges_code = ''UNAUTHORIZED'',
       ges_message = ''no'', ges_details = Some mismatch_details, ges_retryable = None, ges_retry_after_ms = None\<rparr>)))"
  by (simp_all add: next_frame_def demo_host_net_def demo_connect_parse_def)

lemma finalize_total:
  assumes "opt_identity opts = Some sign"
    and "\<And>nonce platform family token at. \<exists>proof. sign nonce platform family token at = Inr proof"
  shows "\<exists>opts'. finalize_identity nonce issued_at opts = Inr opts'"
proof -
  let ?o = "if activated opts then opts\<lparr>advertised_caps := declared_caps opts,
    advertised_commands := declared_commands opts, advertised_permissions := declared_permissions opts\<rparr> else opts"
  obtain signed where "sign nonce (ci_platform (opt_client ?o)) (ci_device_family (opt_client ?o))
    (Option.bind (opt_auth ?o) signature_token) issued_at = Inr signed" using assms(2) by blast
  then show ?thesis using assms(1) by (cases "activated opts") (simp_all add: finalize_identity_def Let_def)
qed

lemma activate_keeps_identity: "opt_identity (runtime_activate rt opts) = opt_identity opts"
proof -
  have "opt_identity (fold with_command names opts) = opt_identity opts"
    "opt_identity (fold with_capability names opts) = opt_identity opts" for names opts
    by (induction names arbitrary: opts) (simp_all add: with_command_def with_capability_def)
  then show ?thesis by (simp add: runtime_activate_def activate_options_def)
qed

lemma demo_params_made:
  "\<exists>surface params. node_connect_params
     (\<lambda>challenge. Inr (runtime_activate (hk_runtime demo_links) (host_connect_options demo_links auth))) challenge attempt
     = Inr (surface, params)"
proof -
  let ?opts = "for_protocol (attempt_protocol attempt)
    (runtime_activate (hk_runtime demo_links) (host_connect_options demo_links auth))"
  have "opt_identity ?opts = Some (sign_connect_at demo_crypto \<lparr>ni_secret = [1, 2]\<rparr>)"
    by (simp add: for_protocol_def Let_def activate_keeps_identity host_connect_options_def with_auth_def
        with_instance_id_def with_identity_def demo_links_def demo_host_config_def)
  from finalize_total [OF this demo_signs, of "cch_nonce challenge" "cch_issued_at_ms challenge"] show ?thesis by (auto simp: node_connect_params_def Let_def)
qed

lemma demo_refused: "refused_token (connect_host_attempt demo_links auth (demo_connect_env ''m'', env))"
proof -
  let ?make = "\<lambda>challenge :: node_challenge. Inr (runtime_activate (hk_runtime demo_links) (host_connect_options demo_links auth))
    :: string + node_connect_options"
  have net: "hk_net demo_links = demo_host_net" "hc_gateway_url (hk_config demo_links) = ''wss://g''"
    by (simp_all add: demo_links_def demo_host_config_def)
  obtain surface params where
    "node_connect_params ?make \<lparr>cch_nonce = ''n1'', cch_issued_at_ms = 7\<rparr> Current = Inr (surface, params)"
    using demo_params_made by blast
  then have "nr_result (connect_host_attempt demo_links auth (demo_connect_env ''m'', env)) =
      Some (Returns (Inl (Gateway ''connect'' ''UNAUTHORIZED'' ''no'' (Some mismatch_details) None None)))"
    by (simp add: connect_host_attempt_def net node_connect_def demo_host_gateway
      connect_with_protocol_fallback_def connect_once_def connect_opened_def demo_connect_env_def demo_host_frames demo_challenge
      is_expected_protocol_mismatch_def mismatch_details_def json_get_def response_result_def
      connect_result_def mapped_error_def demo_node_config_def Let_def)
  moreover have "ced_code (details_from_value (Some mismatch_details)) = Some ''AUTH_DEVICE_TOKEN_MISMATCH''"
    by code_simp
  ultimately show ?thesis unfolding refused_token_def by blast
qed

lemma adopted_token_first_witness:
  "\<exists>run st. host_connect demo_links (demo_connect_env ''m'', times_out) (times_out, times_out)
      (host_state_new\<lparr>hs_token := Some ''t''\<rparr>) = (run, st) \<and>
    map fst (hcn_attempts run) = [auth_with_device_token ''t'', auth_with_token ''s''] \<and> hs_token st = None"
proof -
  let ?st = "host_state_new\<lparr>hs_token := Some ''t''\<rparr>"
  have poison: "\<not> hs_token_poisoned ?st" by (simp add: host_state_new_def)
  obtain run st where connect: "host_connect demo_links (demo_connect_env ''m'', times_out) (times_out, times_out) ?st = (run, st)"
    by (metis prod.exhaust)
  have "refused_token (snd (hd (hcn_attempts run)))"
    using host_connect_cases [OF poison, of demo_links "(demo_connect_env ''m'', times_out)" "(times_out, times_out)"]
      connect demo_refused by (auto simp: Let_def)
  with adopted_token_first [OF poison connect] connect show ?thesis
    by (auto simp: Let_def demo_links_def)
qed

lemma ready_follows_lifecycle_witness:
  "hs_ready (fold (host_observe ''d'' []) [Connecting 1, Connected 1 None None, Ready 1] host_state_new)"
proof -
  have "lr_events (lifecycle_runs [\<lparr>at_outcome = ConnectSucceeded \<lparr>ns_hello = JNull, ns_issued_device_token = None\<rparr>
      (ShutdownWhileRunning None), at_shutdown_in_backoff = False\<rparr>] (lifecycle_start lifecycle_default)) =
    [Connecting 1, Connected 1 None None, Ready 1] @ [Disconnected 1 Shutdown, Stopped 1 False]"
    by (simp add: lifecycle_runs_def run_attempt_def lifecycle_start_def session_ended_def connected_event_def
        json_index_def json_get_def saturating_add_def Let_def)
  from ready_follows_lifecycle [OF this, of host_state_new "''d''" "[]"] show ?thesis
    by (auto simp: host_state_new_def saturating_add_def)
qed

definition demo_host_env :: host_env where
  "demo_host_env = \<lparr>he_connect = (times_out, times_out), he_reconnect = (times_out, times_out),
     he_shutdown_connecting = False, he_session_end = RuntimeReturned (Inr ()), he_shutdown_in_backoff = True\<rparr>"

lemma demo_turn:
  assumes "\<not> hs_token_poisoned (hr_state r)" and "lr_result (hr_driver r) = None"
  shows "\<exists>r'. host_turn demo_links demo_host_env r = Some (Returns r') \<and>
    hr_driver r' = run_attempt \<lparr>at_outcome = ConnectFailed ConnectTimeout, at_shutdown_in_backoff = True\<rparr> (hr_driver r)"
proof -
  have "\<not> refused_token (connect_host_attempt demo_links auth (times_out, times_out))" for auth
    by (simp add: refused_token_def demo_times_out)
  then have "hcn_result (fst (host_connect demo_links (times_out, times_out) (times_out, times_out) st))
      = Some (Returns (Inl ConnectTimeout))" if "\<not> hs_token_poisoned st" for st
    using host_connect_cases [OF that, of demo_links "(times_out, times_out)" "(times_out, times_out)"]
    by (auto simp: Let_def demo_times_out split: option.splits)
  from this [of "host_event_handler (identity_device_id (hk_crypto demo_links) (hk_identity demo_links))
      (Connecting (saturating_add (lr_attempt (hr_driver r)) 1)) (hr_state r)"] assms
  show ?thesis
    by (auto simp: host_turn_def demo_host_env_def connect_outcome_of_def Let_def split: prod.splits)
qed

lemma host_token_life_witness:
  "\<exists>r'. host_turn demo_links demo_host_env
      \<lparr>hr_driver = lifecycle_start lifecycle_default, hr_state = host_state_new\<lparr>hs_token := Some ''t''\<rparr>\<rparr> = Some (Returns r') \<and>
    \<not> hs_token_poisoned (hr_state r')"
proof -
  let ?r = "\<lparr>hr_driver = lifecycle_start lifecycle_default, hr_state = host_state_new\<lparr>hs_token := Some ''t''\<rparr>\<rparr>"
  have start: "\<not> hs_token_poisoned (hr_state ?r)" "lr_result (hr_driver ?r) = None"
    by (simp_all add: host_state_new_def lifecycle_start_def)
  from demo_turn [OF this] obtain r' where turn: "host_turn demo_links demo_host_env ?r = Some (Returns r')" by blast
  with host_token_life [OF turn start(2,1)] show ?thesis by blast
qed

lemma host_exit_explained_witness:
  "\<exists>r. host_turns demo_links [demo_host_env] (connections_start (\<lambda>_. ''a'') demo_host_config
      (host_credentials_new \<lparr>ni_secret = [1, 2]\<rparr> (auth_with_token ''s'')) (hc_health_listen demo_host_config) host_state_new)
      = Some (Returns r) \<and> (\<exists>drained. last (hs_log (hr_state r)) = stopped_record drained)"
proof -
  let ?r = "connections_start (\<lambda>_. ''a'') demo_host_config
      (host_credentials_new \<lparr>ni_secret = [1, 2]\<rparr> (auth_with_token ''s'')) (hc_health_listen demo_host_config) host_state_new"
  have start: "\<not> hs_token_poisoned (hr_state ?r)" "lr_result (hr_driver ?r) = None"
    and driver: "hr_driver ?r = lifecycle_start lifecycle_default"
    by (simp_all add: connections_start_def host_state_new_def lifecycle_start_def host_emit_def)
  from demo_turn [OF start] obtain r where turn: "host_turn demo_links demo_host_env ?r = Some (Returns r)" and
    r: "hr_driver r = run_attempt \<lparr>at_outcome = ConnectFailed ConnectTimeout, at_shutdown_in_backoff = True\<rparr> (hr_driver ?r)"
    by blast
  have turns: "host_turns demo_links [demo_host_env] ?r = Some (Returns r)" by (simp add: turn)
  have "lr_result (hr_driver r) = Some (Inr ())" unfolding r driver
    by (simp add: run_attempt_def lifecycle_start_def saturating_add_def handle_client_failure_def
        after_failure_def after_failure_with_device_token_def lifecycle_default_def lifecycle_new_def policy_default_def
        policy_new_def DEFAULT_INITIAL_DELAY_def from_secs_def backoff_or_stop_def finish_failure_def Let_def
        checked_add_def)
  then have "connections_result r = Some (Inr ())" by (simp add: connections_result_def)
  from host_exit_explained [OF turns this] turns show ?thesis by auto
qed

end
