(* ===== verification/PrototypeIdentity.thy ===== *)
theory PrototypeIdentity
  imports DeviceIdentity
begin

text \<open>
  The node identity of the root package (\<open>src/identity.rs\<close>), the predecessor of \<open>DeviceIdentity\<close>: it signs at the
  time of the host's clock, without checking its own signature. The crates it calls are those of \<open>identity_crypto\<close>;
  the clock is the number of milliseconds since the Unix epoch, or none before it.
\<close>

datatype proto_identity_error = PRandom string | PClock

definition proto_generate :: "string + bytes \<Rightarrow> proto_identity_error + node_identity" where
  "proto_generate random = (case random of Inl e \<Rightarrow> Inl (PRandom e) | Inr secret \<Rightarrow> Inr (from_secret_bytes secret))"

definition proto_device_id :: "identity_crypto \<Rightarrow> node_identity \<Rightarrow> string" where
  "proto_device_id cr identity = hex_string False (ic_sha256 cr (ic_public cr (ni_secret identity)))"

definition proto_public_key_base64url :: "identity_crypto \<Rightarrow> node_identity \<Rightarrow> string" where
  "proto_public_key_base64url cr identity = ic_base64url cr (ic_public cr (ni_secret identity))"

definition proto_sign_connect_at ::
  "identity_crypto \<Rightarrow> node_identity \<Rightarrow> string \<Rightarrow> string \<Rightarrow> string option \<Rightarrow> string option \<Rightarrow> u64 \<Rightarrow> device_proof" where
  "proto_sign_connect_at cr identity nonce platform device_family token signed_at =
     (let device_id = proto_device_id cr identity;
          payload = join_bar
            [''v3'', device_id, ''node-host'', ''node'', ''node'', [], show_nat (unat signed_at),
             unwrap_or_default token, nonce, normalize_metadata platform,
             normalize_metadata (unwrap_or_default device_family)] in
      \<lparr>dp_id = device_id, dp_public_key = proto_public_key_base64url cr identity,
       dp_signature = ic_base64url cr (ic_sign cr (ni_secret identity) (as_bytes payload)), dp_signed_at = signed_at,
       dp_nonce = nonce\<rparr>)"

definition proto_sign_connect ::
  "identity_crypto \<Rightarrow> nat option \<Rightarrow> node_identity \<Rightarrow> string \<Rightarrow> string \<Rightarrow> string option \<Rightarrow> string option \<Rightarrow>
   proto_identity_error + device_proof" where
  "proto_sign_connect cr clock identity nonce platform device_family token =
     (case clock of
        None \<Rightarrow> Inl PClock
      | Some millis \<Rightarrow>
          if 2 ^ 64 \<le> millis then Inl PClock
          else Inr (proto_sign_connect_at cr identity nonce platform device_family token (word_of_nat millis)))"

text \<open>
  The earlier and the later identity sign alike. For the same secret, challenge, platform, token and time they make
  the same proof, given what Ed25519 promises; and the earlier one makes it for the time of the host's clock,
  whenever that is a number of milliseconds of 64 bits.
\<close>

lemma identities_sign_alike:
  assumes "signature_laws cr"
  shows "sign_connect_at cr identity nonce platform family token at =
      Inr (proto_sign_connect_at cr identity nonce platform family token at) \<and>
    (proto_sign_connect cr clock identity nonce platform family token = Inr proof' \<longleftrightarrow>
      (\<exists>at. clock = Some (unat at) \<and> sign_connect_at cr identity nonce platform family token at = Inr proof'))"
proof -
  have alike: "sign_connect_at cr identity nonce platform family token at =
      Inr (proto_sign_connect_at cr identity nonce platform family token at)" for at
    using assms
    by (simp add: signature_laws_def sign_connect_at_def signing_request_new_def signing_request_finish_def
        proto_sign_connect_at_def proto_device_id_def device_id_from_public_key_def proto_public_key_base64url_def
        payload_fields_def Let_def)
  have "proto_sign_connect cr clock identity nonce platform family token = Inr proof' \<longleftrightarrow>
      (\<exists>at. clock = Some (unat at) \<and> proto_sign_connect_at cr identity nonce platform family token at = proof')"
  proof (cases clock)
    case (Some millis)
    have "(\<exists>at::u64. millis = unat at \<and> P at) \<longleftrightarrow> millis < 2 ^ 64 \<and> P (word_of_nat millis)" for P
    proof
      assume "\<exists>at::u64. millis = unat at \<and> P at"
      then show "millis < 2 ^ 64 \<and> P (word_of_nat millis)" using unat_bounds by auto
    next
      assume m: "millis < 2 ^ 64 \<and> P (word_of_nat millis)"
      then have "unat (word_of_nat millis :: u64) = millis" by (simp add: take_bit_nat_eq_self unsigned_of_nat)
      then show "\<exists>at::u64. millis = unat at \<and> P at" using m by metis
    qed
    then show ?thesis using Some by (simp add: proto_sign_connect_def not_le)
  qed (simp add: proto_sign_connect_def)
  then show ?thesis by (simp add: alike)
qed

lemma identities_sign_alike_witness:
  "sign_connect_at demo_crypto \<lparr>ni_secret = [1, 2]\<rparr> ''n1'' ''linux'' None None 7 =
     Inr (proto_sign_connect_at demo_crypto \<lparr>ni_secret = [1, 2]\<rparr> ''n1'' ''linux'' None None 7)"
  using identities_sign_alike [OF signature_laws_demo, of "\<lparr>ni_secret = [1, 2]\<rparr>" "''n1''" "''linux''" None None 7] by blast

end
