(* ===== verification/PrototypeReconnect.thy ===== *)
theory PrototypeReconnect
  imports Reconnect PrototypeIdentity
begin

text \<open>
  The reconnect policy of the root package (\<open>src/reconnect.rs\<close>), the predecessor of \<open>Reconnect\<close>. Its readers
  of error details, its delays and its state are those of the later crate word for word and are shared; its
  errors and its classification are its own. Shown: on which errors the two decide differently, and that the
  later policy pauses whenever the earlier one did.
\<close>

section \<open>Errors and classification\<close>

datatype proto_client_error =
    PInvalidUrl string
  | PInsecureRemoteGateway
  | PTransport string
  | PChallengeTimeout
  | PInvalidChallenge string
  | PConnectParams string
  | PIdentity proto_identity_error
  | PGateway string string string "json option" "bool option" "u64 option"
  | PRequestTimeout string
  | PClosed string
  | PInvalidFrame string
  | PEventLagged u64
  | PNotActivated

definition proto_classify_gateway :: "string \<Rightarrow> json option \<Rightarrow> reconnect_pause option" where
  "proto_classify_gateway gw_code details =
     (let detail_code = connect_detail_code gw_code details in
      if detail_code = ''PAIRING_REQUIRED'' then
        (let pairing = parse_pairing_request details in
         if dpr_pause_reconnect pairing = Some False \<or> dpr_recommended_next_step pairing = Some WaitThenRetry
           then None
         else Some (DevicePairing pairing))
      else if detail_code = ''AUTH_RATE_LIMITED'' then Some (Authentication detail_code)
      else case recovery_step_of details of
        Some WaitThenRetry \<Rightarrow> None
      | Some _ \<Rightarrow> Some (Authentication detail_code)
      | None \<Rightarrow>
          if is_auth_pause_code detail_code then Some (Authentication detail_code)
          else if detail_code = ''PROTOCOL_MISMATCH'' \<or> detail_code = ''CLIENT_VERSION_MISMATCH''
            then Some (Protocol (Some detail_code))
          else None)"

fun proto_classify_pause :: "proto_client_error \<Rightarrow> reconnect_pause option" where
  "proto_classify_pause (PInvalidUrl _) = Some Configuration"
| "proto_classify_pause PInsecureRemoteGateway = Some Configuration"
| "proto_classify_pause (PConnectParams _) = Some LocalIdentity"
| "proto_classify_pause (PIdentity _) = Some LocalIdentity"
| "proto_classify_pause (PInvalidChallenge _) = Some (Protocol None)"
| "proto_classify_pause (PInvalidFrame _) = Some (Protocol None)"
| "proto_classify_pause (PGateway _ gw_code _ details _ _) = proto_classify_gateway gw_code details"
| "proto_classify_pause (PTransport _) = None"
| "proto_classify_pause PChallengeTimeout = None"
| "proto_classify_pause (PRequestTimeout _) = None"
| "proto_classify_pause (PClosed _) = None"
| "proto_classify_pause (PEventLagged _) = None"
| "proto_classify_pause PNotActivated = None"

fun proto_gateway_retry_after :: "proto_client_error \<Rightarrow> duration option" where
  "proto_gateway_retry_after (PGateway _ _ _ _ _ retry_after_ms) = map_option (\<lambda>ms. from_millis (unat ms)) retry_after_ms"
| "proto_gateway_retry_after _ = None"

fun proto_requests_device_token_retry :: "proto_client_error \<Rightarrow> bool" where
  "proto_requests_device_token_retry (PGateway op gw_code _ details _ _) =
     (op = ''connect'' \<and>
      (connect_detail_code gw_code details = ''AUTH_TOKEN_MISMATCH''
       \<or> recovery_step_of details = Some RetryWithDeviceToken))"
| "proto_requests_device_token_retry _ = False"

fun proto_is_session_request_error :: "proto_client_error \<Rightarrow> bool" where
  "proto_is_session_request_error (PGateway op _ _ _ _ _) = (op \<noteq> ''connect'')"
| "proto_is_session_request_error (PRequestTimeout op) = (op \<noteq> ''connect'')"
| "proto_is_session_request_error (PEventLagged _) = True"
| "proto_is_session_request_error PNotActivated = True"
| "proto_is_session_request_error _ = False"

section \<open>The policy\<close>

definition proto_after_failure_with_device_token ::
  "proto_client_error \<Rightarrow> stored_device_token_retry \<Rightarrow> reconnect_policy \<Rightarrow> reconnect_action \<times> reconnect_policy" where
  "proto_after_failure_with_device_token error stored_token p =
     (if proto_is_session_request_error error then (KeepSession, p)
      else if \<not> rp_device_token_retry_used p \<and> stored_token = AvailableForTrustedEndpoint
              \<and> proto_requests_device_token_retry error
        then (RetryWithStoredDeviceTokenAfter DEVICE_TOKEN_RETRY_DELAY, p\<lparr>rp_device_token_retry_used := True\<rparr>)
      else case proto_classify_pause error of
        Some pause \<Rightarrow> (Pause pause, p)
      | None \<Rightarrow>
     (case proto_gateway_retry_after error of
        Some delay \<Rightarrow> (RetryAfter (min delay (rp_maximum_delay p)), p)
      | None \<Rightarrow>
          (RetryAfter (rp_next_delay p),
           p\<lparr>rp_next_delay :=
             min (case checked_double (rp_next_delay p) of Some d \<Rightarrow> d | None \<Rightarrow> rp_maximum_delay p)
               (rp_maximum_delay p)\<rparr>)))"

definition proto_after_failure :: "proto_client_error \<Rightarrow> reconnect_policy \<Rightarrow> reconnect_action \<times> reconnect_policy" where
  "proto_after_failure error p = proto_after_failure_with_device_token error Unavailable p"

section \<open>The two policies\<close>

text \<open>
  An error of the earlier client as the later client has it. The later one signs at the Gateway's time and has no
  error of the clock; what matters here is only that it is an error of the identity.
\<close>

fun later_identity_error :: "proto_identity_error \<Rightarrow> identity_error" where
  "later_identity_error (PRandom e) = Random e"
| "later_identity_error PClock = Random ''system clock predates the Unix epoch''"

fun later_error :: "proto_client_error \<Rightarrow> client_error" where
  "later_error (PInvalidUrl e) = InvalidUrl e"
| "later_error PInsecureRemoteGateway = InsecureRemoteGateway"
| "later_error (PTransport e) = Transport e"
| "later_error PChallengeTimeout = ChallengeTimeout"
| "later_error (PInvalidChallenge e) = InvalidChallenge e"
| "later_error (PConnectParams e) = ConnectParams e"
| "later_error (PIdentity e) = Identity (later_identity_error e)"
| "later_error (PGateway op gw_code message details retryable retry_after_ms) =
     Gateway op gw_code message details retryable retry_after_ms"
| "later_error (PRequestTimeout op) = RequestTimeout op"
| "later_error (PClosed e) = Closed e"
| "later_error (PInvalidFrame e) = InvalidFrame e"
| "later_error (PEventLagged n) = EventLagged n"
| "later_error PNotActivated = NotActivated"

text \<open>
  Where the classifications part: a protocol code that comes with a recovery step, and an error that is marked as
  final in a way only the later policy reads, where the earlier one has no reason of its own to pause.
\<close>

fun classified_apart :: "proto_client_error \<Rightarrow> bool" where
  "classified_apart (PGateway _ gw_code _ details retryable _) =
     (let detail_code = connect_detail_code gw_code details in
      detail_code \<noteq> ''PAIRING_REQUIRED'' \<and>
      (if detail_code = ''PROTOCOL_MISMATCH'' \<or> detail_code = ''CLIENT_VERSION_MISMATCH''
         then recovery_step_of details \<noteq> None
       else (retryable = Some False \<or> should_pause_reconnect (details_from_value details)) \<and>
         detail_code \<noteq> ''AUTH_RATE_LIMITED'' \<and>
         (recovery_step_of details = Some WaitThenRetry
          \<or> recovery_step_of details = None \<and> \<not> is_auth_pause_code detail_code)))"
| "classified_apart _ = False"

lemma auth_codes_differ:
  "\<not> is_auth_pause_code ''PROTOCOL_MISMATCH''" "\<not> is_auth_pause_code ''CLIENT_VERSION_MISMATCH''"
  by (simp_all add: is_auth_pause_code_def auth_pause_codes_def)

lemma classify_apart: "proto_classify_pause e = classify_pause (later_error e) \<longleftrightarrow> \<not> classified_apart e"
proof (cases e)
  case (PGateway op gw_code message details retryable retry_after_ms)
  then show ?thesis
    by (auto simp: proto_classify_gateway_def classify_gateway_def Let_def auth_codes_differ
        split: option.split recovery_step.split)
qed simp_all

lemma pauses_kept: "proto_classify_pause e \<noteq> None \<Longrightarrow> classify_pause (later_error e) \<noteq> None"
proof (cases e)
  case (PGateway op gw_code message details retryable retry_after_ms)
  then show "proto_classify_pause e \<noteq> None \<Longrightarrow> ?thesis"
    by (auto simp: proto_classify_gateway_def classify_gateway_def Let_def
        split: option.splits recovery_step.splits if_splits)
qed simp_all

lemma later_error_simps:
  "proto_is_session_request_error e = is_session_request_error (later_error e)"
  "proto_requests_device_token_retry e = gateway_requests_device_token_retry (later_error e)"
  "proto_gateway_retry_after e = gateway_retry_after (later_error e)"
  by (cases e; simp)+

text \<open>The stored token is offered before anything is classified.\<close>

definition offers_token :: "client_error \<Rightarrow> stored_device_token_retry \<Rightarrow> reconnect_policy \<Rightarrow> bool" where
  "offers_token e stored_token p \<longleftrightarrow>
     \<not> rp_device_token_retry_used p \<and> stored_token = AvailableForTrustedEndpoint \<and> gateway_requests_device_token_retry e"

text \<open>
  C34. The later reconnect policy is the earlier one, hardened. For every failure, stored token and state the two
  act differently exactly if the failure ends the session, no stored token is offered for it and it is one the
  classifications tell apart; and whenever they act differently the later one pauses.
\<close>

lemma later_policy_hardens:
  "(proto_after_failure_with_device_token e stored_token p \<noteq> after_failure_with_device_token (later_error e) stored_token p
     \<longleftrightarrow> classified_apart e \<and> \<not> is_session_request_error (later_error e) \<and> \<not> offers_token (later_error e) stored_token p) \<and>
   (proto_after_failure_with_device_token e stored_token p = after_failure_with_device_token (later_error e) stored_token p \<or>
    (\<exists>pause. after_failure_with_device_token (later_error e) stored_token p = (Pause pause, p)))"
proof -
  let ?acts_alike = "proto_after_failure_with_device_token e stored_token p = after_failure_with_device_token (later_error e) stored_token p"
  consider (early) "is_session_request_error (later_error e) \<or> offers_token (later_error e) stored_token p"
    | (alike) "\<not> classified_apart e"
    | (apart) "\<not> is_session_request_error (later_error e)" "\<not> offers_token (later_error e) stored_token p" "classified_apart e"
    by blast
  then show ?thesis
  proof cases
    case early
    then have ?acts_alike
      by (auto simp: proto_after_failure_with_device_token_def after_failure_with_device_token_def later_error_simps
          offers_token_def)
    with early show ?thesis by blast
  next
    case alike
    then have "proto_classify_pause e = classify_pause (later_error e)" using classify_apart [of e] by blast
    then have ?acts_alike
      unfolding proto_after_failure_with_device_token_def after_failure_with_device_token_def later_error_simps by simp
    with alike show ?thesis by blast
  next
    case apart
    from apart(3) classify_apart [of e] pauses_kept [of e] obtain pause where
        pause: "classify_pause (later_error e) = Some pause" "proto_classify_pause e \<noteq> Some pause"
      by (cases "classify_pause (later_error e)") auto
    with apart(1,2) have later: "after_failure_with_device_token (later_error e) stored_token p = (Pause pause, p)"
      by (auto simp: after_failure_with_device_token_def offers_token_def)
    moreover have "\<not> ?acts_alike" using apart(1,2) pause unfolding later
      by (auto simp: proto_after_failure_with_device_token_def offers_token_def later_error_simps split: option.split)
    ultimately show ?thesis using apart by blast
  qed
qed

end
