(* ===== verification/ContractFixtures.thy ===== *)
theory ContractFixtures
  imports DeviceIdentity
begin

text \<open>
  The contract harness of the root package (\<open>src/wire.rs\<close>, \<open>src/manifest.rs\<close>): the strict reading of
  conformance fixtures, the manifest of node contracts and its invariants, the check of a pinned tarball.

  A fixture is given as the JSON of its text; the texts of \<open>serde_json\<close>'s own errors are a parameter, as is
  SHA-512. \<open>payload\<close> and \<open>params\<close> are \<open>Value\<close>s, whose objects have distinct keys.
\<close>

section \<open>Frames\<close>

text \<open>A derived struct that denies unknown fields; a repeated key is an error as well.\<close>

definition strict_entries :: "string list \<Rightarrow> json \<Rightarrow> (string \<times> json) list option" where
  "strict_entries known value =
     Option.bind (struct_entries known value) (\<lambda>kvs.
       if no_unknown_fields known kvs \<and> distinct (map fst kvs) then Some kvs else None)"

definition value_field :: "string \<Rightarrow> (string \<times> json) list \<Rightarrow> json" where
  "value_field key kvs = (case map_of kvs key of None \<Rightarrow> JNull | Some v \<Rightarrow> v)"

record state_version =
  stv_presence :: u64
  stv_health :: u64

record wire_error_shape =
  wes_code :: string
  wes_message :: string
  wes_details :: json
  wes_retryable :: "bool option"
  wes_retry_after_ms :: "u64 option"

datatype wire_frame =
    WireEvent string json "u64 option" "state_version option"
  | WireRequest string string json
  | WireResponse string bool json "wire_error_shape option"

definition state_version_of :: "json \<Rightarrow> state_version option" where
  "state_version_of value =
     Option.bind (strict_entries [''presence'', ''health''] value) (\<lambda>kvs.
     Option.bind (required_field json_as_u64 ''presence'' kvs) (\<lambda>presence.
     map_option (\<lambda>health. \<lparr>stv_presence = presence, stv_health = health\<rparr>)
       (required_field json_as_u64 ''health'' kvs)))"

definition wire_error_shape_of :: "json \<Rightarrow> wire_error_shape option" where
  "wire_error_shape_of value =
     Option.bind (strict_entries [''code'', ''message'', ''details'', ''retryable'', ''retryAfterMs''] value) (\<lambda>kvs.
     Option.bind (required_field as_str ''code'' kvs) (\<lambda>code.
     Option.bind (required_field as_str ''message'' kvs) (\<lambda>message.
     Option.bind (default_field as_bool ''retryable'' kvs) (\<lambda>retryable.
     map_option (\<lambda>retry_after_ms.
         \<lparr>wes_code = code, wes_message = message, wes_details = value_field ''details'' kvs,
          wes_retryable = retryable, wes_retry_after_ms = retry_after_ms\<rparr>)
       (default_field json_as_u64 ''retryAfterMs'' kvs)))))"

text \<open>The variant of a tag, from what is left without the tag.\<close>

definition frame_variant :: "string \<Rightarrow> json \<Rightarrow> wire_frame option" where
  "frame_variant tag content =
     (if tag = ''event'' then
        Option.bind (strict_entries [''event'', ''payload'', ''seq'', ''stateVersion''] content) (\<lambda>kvs.
        Option.bind (required_field as_str ''event'' kvs) (\<lambda>event.
        Option.bind (default_field json_as_u64 ''seq'' kvs) (\<lambda>seq.
        map_option (\<lambda>version. WireEvent event (value_field ''payload'' kvs) seq version)
          (default_field state_version_of ''stateVersion'' kvs))))
      else if tag = ''req'' then
        Option.bind (strict_entries [''id'', ''method'', ''params''] content) (\<lambda>kvs.
        Option.bind (required_field as_str ''id'' kvs) (\<lambda>rid.
        map_option (\<lambda>op. WireRequest rid op (value_field ''params'' kvs)) (required_field as_str ''method'' kvs)))
      else if tag = ''res'' then
        Option.bind (strict_entries [''id'', ''ok'', ''payload'', ''error''] content) (\<lambda>kvs.
        Option.bind (required_field as_str ''id'' kvs) (\<lambda>rid.
        Option.bind (required_field as_bool ''ok'' kvs) (\<lambda>ok.
        map_option (\<lambda>error. WireResponse rid ok (value_field ''payload'' kvs) error)
          (default_field wire_error_shape_of ''error'' kvs))))
      else None)"

definition wire_frame_of :: "json \<Rightarrow> wire_frame option" where
  "wire_frame_of value =
     (case value of
        JObject kvs \<Rightarrow>
          if length (filter (\<lambda>kv. fst kv = ''type'') kvs) \<noteq> 1 then None
          else Option.bind (required_field as_str ''type'' kvs) (\<lambda>tag.
            frame_variant tag (JObject (filter (\<lambda>kv. fst kv \<noteq> ''type'') kvs)))
      | JArray (tag # vs) \<Rightarrow> Option.bind (as_str tag) (\<lambda>tag. frame_variant tag (JArray vs))
      | _ \<Rightarrow> None)"

definition require_non_empty :: "string \<Rightarrow> string \<Rightarrow> string + unit" where
  "require_non_empty field value = (if value = [] then Inl (field @ '' must have minLength 1'') else Inr ())"

definition validate_non_empty_items :: "string \<Rightarrow> string list option \<Rightarrow> string + unit" where
  "validate_non_empty_items field vs =
     (if (case vs of None \<Rightarrow> False | Some vs \<Rightarrow> list_ex (\<lambda>v. v = []) vs)
        then Inl (field @ '' items must have minLength 1'') else Inr ())"

definition require_optional :: "string \<Rightarrow> string option \<Rightarrow> string + unit" where
  "require_optional field value = (case value of None \<Rightarrow> Inr () | Some v \<Rightarrow> require_non_empty field v)"

definition validate_wire_error :: "wire_error_shape \<Rightarrow> string + unit" where
  "validate_wire_error e =
     bind_result (require_non_empty ''error.code'' (wes_code e)) (\<lambda>_. require_non_empty ''error.message'' (wes_message e))"

fun validate_frame :: "wire_frame \<Rightarrow> string + unit" where
  "validate_frame (WireEvent event _ _ _) = require_non_empty ''event'' event"
| "validate_frame (WireRequest rid op _) =
     bind_result (require_non_empty ''id'' rid) (\<lambda>_. require_non_empty ''method'' op)"
| "validate_frame (WireResponse rid _ _ error) =
     bind_result (require_non_empty ''id'' rid) (\<lambda>_.
       case error of None \<Rightarrow> Inr () | Some e \<Rightarrow> validate_wire_error e)"

section \<open>Payloads\<close>

text \<open>\<open>Vec<String>\<close>.\<close>

definition as_strings :: "json \<Rightarrow> string list option" where
  "as_strings value =
     Option.bind (as_array value) (\<lambda>vs. if list_all (\<lambda>v. as_str v \<noteq> None) vs then Some (map (the \<circ> as_str) vs) else None)"

definition device_pair_fields :: "string list" where
  "device_pair_fields = [''requestId'', ''deviceId'', ''publicKey'', ''ts'', ''displayName'', ''platform'',
     ''deviceFamily'', ''clientId'', ''clientMode'', ''browserOrigin'', ''role'', ''roles'', ''scopes'', ''remoteIp'',
     ''silent'', ''isRepair'']"

text \<open>Decoding the optional strings in the order they are validated.\<close>

definition device_pair_strings :: "string list" where
  "device_pair_strings = [''displayName'', ''platform'', ''deviceFamily'', ''clientId'', ''clientMode'',
     ''browserOrigin'', ''role'', ''remoteIp'']"

record device_pair_requested =
  dpq_request_id :: string
  dpq_device_id :: string
  dpq_public_key :: string
  dpq_ts :: u64
  dpq_strings :: "(string \<times> string option) list"
  dpq_roles :: "string list option"
  dpq_scopes :: "string list option"
  dpq_silent :: "bool option"
  dpq_is_repair :: "bool option"

fun default_strings :: "string list \<Rightarrow> (string \<times> json) list \<Rightarrow> (string \<times> string option) list option" where
  "default_strings [] kvs = Some []"
| "default_strings (key # keys) kvs =
     Option.bind (default_field as_str key kvs) (\<lambda>v. map_option (\<lambda>rest. (key, v) # rest) (default_strings keys kvs))"

definition device_pair_requested_of :: "json \<Rightarrow> device_pair_requested option" where
  "device_pair_requested_of value =
     Option.bind (strict_entries device_pair_fields value) (\<lambda>kvs.
     Option.bind (required_field as_str ''requestId'' kvs) (\<lambda>request_id.
     Option.bind (required_field as_str ''deviceId'' kvs) (\<lambda>device_id.
     Option.bind (required_field as_str ''publicKey'' kvs) (\<lambda>public_key.
     Option.bind (required_field json_as_u64 ''ts'' kvs) (\<lambda>ts.
     Option.bind (default_strings device_pair_strings kvs) (\<lambda>texts.
     Option.bind (default_field as_strings ''roles'' kvs) (\<lambda>roles.
     Option.bind (default_field as_strings ''scopes'' kvs) (\<lambda>scopes.
     Option.bind (default_field as_bool ''silent'' kvs) (\<lambda>silent.
     map_option (\<lambda>is_repair.
         \<lparr>dpq_request_id = request_id, dpq_device_id = device_id, dpq_public_key = public_key, dpq_ts = ts,
          dpq_strings = texts, dpq_roles = roles, dpq_scopes = scopes, dpq_silent = silent,
          dpq_is_repair = is_repair\<rparr>)
       (default_field as_bool ''isRepair'' kvs))))))))))"

fun require_all :: "(string \<times> string option) list \<Rightarrow> string + unit" where
  "require_all [] = Inr ()"
| "require_all ((field, value) # rest) = bind_result (require_optional field value) (\<lambda>_. require_all rest)"

definition validate_device_pair :: "device_pair_requested \<Rightarrow> string + unit" where
  "validate_device_pair p =
     bind_result (require_non_empty ''requestId'' (dpq_request_id p)) (\<lambda>_.
     bind_result (require_non_empty ''deviceId'' (dpq_device_id p)) (\<lambda>_.
     bind_result (require_non_empty ''publicKey'' (dpq_public_key p)) (\<lambda>_.
     bind_result (require_all (dpq_strings p)) (\<lambda>_.
     bind_result (validate_non_empty_items ''roles'' (dpq_roles p)) (\<lambda>_.
     validate_non_empty_items ''scopes'' (dpq_scopes p))))))"

record node_invoke_request =
  nrq_id :: string
  nrq_node_id :: string
  nrq_command :: string
  nrq_params_json :: "string option"
  nrq_timeout_ms :: "u64 option"
  nrq_idempotency_key :: "string option"

definition invoke_request_fields :: "string list" where
  "invoke_request_fields = [''id'', ''nodeId'', ''command'', ''paramsJSON'', ''timeoutMs'', ''idempotencyKey'']"

definition node_invoke_request_of :: "json \<Rightarrow> node_invoke_request option" where
  "node_invoke_request_of value =
     Option.bind (strict_entries invoke_request_fields value) (\<lambda>kvs.
     Option.bind (required_field as_str ''id'' kvs) (\<lambda>call_id.
     Option.bind (required_field as_str ''nodeId'' kvs) (\<lambda>node_id.
     Option.bind (required_field as_str ''command'' kvs) (\<lambda>command.
     Option.bind (default_field as_str ''paramsJSON'' kvs) (\<lambda>params_json.
     Option.bind (default_field json_as_u64 ''timeoutMs'' kvs) (\<lambda>timeout_ms.
     map_option (\<lambda>idempotency_key.
         \<lparr>nrq_id = call_id, nrq_node_id = node_id, nrq_command = command, nrq_params_json = params_json,
          nrq_timeout_ms = timeout_ms, nrq_idempotency_key = idempotency_key\<rparr>)
       (default_field as_str ''idempotencyKey'' kvs)))))))"

definition validate_invoke_request :: "node_invoke_request \<Rightarrow> string + unit" where
  "validate_invoke_request r =
     bind_result (require_non_empty ''id'' (nrq_id r)) (\<lambda>_.
     bind_result (require_non_empty ''nodeId'' (nrq_node_id r)) (\<lambda>_.
     bind_result (require_non_empty ''command'' (nrq_command r)) (\<lambda>_.
     require_optional ''idempotencyKey'' (nrq_idempotency_key r))))"

record node_invoke_input =
  nin_id :: string
  nin_node_id :: string
  nin_seq :: u64
  nin_payload_json :: string

definition node_invoke_input_of :: "json \<Rightarrow> node_invoke_input option" where
  "node_invoke_input_of value =
     Option.bind (strict_entries [''id'', ''nodeId'', ''seq'', ''payloadJSON''] value) (\<lambda>kvs.
     Option.bind (required_field as_str ''id'' kvs) (\<lambda>call_id.
     Option.bind (required_field as_str ''nodeId'' kvs) (\<lambda>node_id.
     Option.bind (required_field json_as_u64 ''seq'' kvs) (\<lambda>seq.
     map_option (\<lambda>payload_json.
         \<lparr>nin_id = call_id, nin_node_id = node_id, nin_seq = seq, nin_payload_json = payload_json\<rparr>)
       (required_field as_str ''payloadJSON'' kvs)))))"

definition validate_invoke_input :: "node_invoke_input \<Rightarrow> string + unit" where
  "validate_invoke_input i =
     bind_result (require_non_empty ''id'' (nin_id i)) (\<lambda>_.
     bind_result (require_non_empty ''nodeId'' (nin_node_id i)) (\<lambda>_.
     if count_chars (nin_payload_json i) > 16384 then Inl ''payloadJSON exceeds maxLength 16384'' else Inr ()))"

record invoke_error =
  ive_code :: "string option"
  ive_message :: "string option"

record node_invoke_result =
  nrs_id :: string
  nrs_node_id :: string
  nrs_ok :: bool
  nrs_payload :: json
  nrs_payload_json :: "string option"
  nrs_error :: "invoke_error option"

definition invoke_error_of :: "json \<Rightarrow> invoke_error option" where
  "invoke_error_of value =
     Option.bind (strict_entries [''code'', ''message''] value) (\<lambda>kvs.
     Option.bind (default_field as_str ''code'' kvs) (\<lambda>code.
     map_option (\<lambda>message. \<lparr>ive_code = code, ive_message = message\<rparr>) (default_field as_str ''message'' kvs)))"

definition node_invoke_result_of :: "json \<Rightarrow> node_invoke_result option" where
  "node_invoke_result_of value =
     Option.bind (strict_entries [''id'', ''nodeId'', ''ok'', ''payload'', ''payloadJSON'', ''error''] value) (\<lambda>kvs.
     Option.bind (required_field as_str ''id'' kvs) (\<lambda>call_id.
     Option.bind (required_field as_str ''nodeId'' kvs) (\<lambda>node_id.
     Option.bind (required_field as_bool ''ok'' kvs) (\<lambda>ok.
     Option.bind (default_field as_str ''payloadJSON'' kvs) (\<lambda>payload_json.
     map_option (\<lambda>error.
         \<lparr>nrs_id = call_id, nrs_node_id = node_id, nrs_ok = ok, nrs_payload = value_field ''payload'' kvs,
          nrs_payload_json = payload_json, nrs_error = error\<rparr>)
       (default_field invoke_error_of ''error'' kvs))))))"

definition validate_invoke_error :: "invoke_error \<Rightarrow> string + unit" where
  "validate_invoke_error e =
     bind_result (require_optional ''error.code'' (ive_code e)) (\<lambda>_.
     require_optional ''error.message'' (ive_message e))"

definition validate_invoke_result :: "node_invoke_result \<Rightarrow> string + unit" where
  "validate_invoke_result r =
     bind_result (require_non_empty ''id'' (nrs_id r)) (\<lambda>_.
     bind_result (require_non_empty ''nodeId'' (nrs_node_id r)) (\<lambda>_.
     case nrs_error r of None \<Rightarrow> Inr () | Some e \<Rightarrow> validate_invoke_error e))"

section \<open>Fixtures\<close>

datatype fixture_error =
    FxInvalidFrame string
  | FxWrongEvent string string
  | FxInvalidPayload string
  | FxUnsupportedContract string

definition validate_event_name :: "string \<Rightarrow> string \<Rightarrow> fixture_error + unit" where
  "validate_event_name expected actual = (if actual = expected then Inr () else Inl (FxWrongEvent expected actual))"

definition decode_payload ::
  "(json \<Rightarrow> string) \<Rightarrow> (json \<Rightarrow> 'a option) \<Rightarrow> ('a \<Rightarrow> string + unit) \<Rightarrow> json \<Rightarrow> fixture_error + unit" where
  "decode_payload explain from_value validate payload =
     (case from_value payload of
        None \<Rightarrow> Inl (FxInvalidPayload (explain payload))
      | Some decoded \<Rightarrow> map_sum FxInvalidPayload id (validate decoded))"

definition unsupported_contracts :: "string list" where
  "unsupported_contracts = [''connect.challenge'', ''node.pair.requested'', ''node.pair.resolved'',
     ''node.invoke.cancel'', ''disconnect-cleanup'', ''node.pending'']"

definition validate_fixture_frame ::
  "(json \<Rightarrow> string) \<Rightarrow> string \<Rightarrow> wire_frame \<Rightarrow> fixture_error + unit" where
  "validate_fixture_frame explain contract_id frame =
     (case frame of
        WireEvent event payload seq version \<Rightarrow>
          if contract_id = ''device.pair.requested'' then
            bind_result (validate_event_name ''device.pair.requested'' event) (\<lambda>_.
              decode_payload explain device_pair_requested_of validate_device_pair payload)
          else if contract_id = ''node.invoke.request'' then
            bind_result (validate_event_name ''node.invoke.request'' event) (\<lambda>_.
              decode_payload explain node_invoke_request_of validate_invoke_request payload)
          else if contract_id = ''node.invoke.input'' then
            bind_result (validate_event_name ''node.invoke.input'' event) (\<lambda>_.
              decode_payload explain node_invoke_input_of validate_invoke_input payload)
          else if contract_id \<in> set unsupported_contracts then Inl (FxUnsupportedContract contract_id)
          else Inl (FxWrongEvent contract_id event)
      | WireRequest rid op params \<Rightarrow>
          if contract_id = ''node.invoke.result'' then
            if op \<noteq> ''node.invoke.result'' then Inl (FxWrongEvent ''node.invoke.result'' op)
            else decode_payload explain node_invoke_result_of validate_invoke_result params
          else if contract_id \<in> set unsupported_contracts then Inl (FxUnsupportedContract contract_id)
          else Inl (FxWrongEvent contract_id op)
      | WireResponse rid ok payload error \<Rightarrow>
          if contract_id \<in> set unsupported_contracts then Inl (FxUnsupportedContract contract_id)
          else Inl (FxWrongEvent contract_id ''response''))"

definition validate_fixture ::
  "(string \<Rightarrow> string + json) \<Rightarrow> (json \<Rightarrow> string) \<Rightarrow> string \<Rightarrow> string \<Rightarrow> fixture_error + unit" where
  "validate_fixture from_str explain contract_id text =
     (case from_str text of
        Inl e \<Rightarrow> Inl (FxInvalidFrame e)
      | Inr value \<Rightarrow>
     (case wire_frame_of value of
        None \<Rightarrow> Inl (FxInvalidFrame (explain value))
      | Some frame \<Rightarrow>
          bind_result (map_sum FxInvalidFrame id (validate_frame frame)) (\<lambda>_.
            validate_fixture_frame explain contract_id frame)))"

section \<open>The manifest and the pin\<close>

record protocol_pin =
  pin_package :: string
  pin_version :: string
  pin_dist_tag :: string
  pin_tarball :: string
  pin_npm_integrity :: string
  pin_sha512_hex :: string
  pin_source_release :: string
  pin_source_commit :: string
  pin_schema_id :: string
  pin_schema_definition_count :: u32
  pin_protocol_version :: u32
  pin_minimum_node_protocol_version :: u32
  pin_release_ready :: bool

datatype contract_status = Published | MissingUpstream | ExcludedV1

record contract_entry =
  cte_id :: string
  cte_direction :: string
  cte_schema_definition :: "string option"
  cte_status :: contract_status
  cte_upstream :: "string option"

record contract_manifest =
  cmf_format_version :: u32
  cmf_protocol_pin :: string
  cmf_contracts :: "contract_entry list"

text \<open>The loop over the entries with the set of identifiers seen.\<close>

fun validate_contracts :: "string set \<Rightarrow> contract_entry list \<Rightarrow> string + unit" where
  "validate_contracts ids [] = Inr ()"
| "validate_contracts ids (entry # entries) =
     (if cte_id entry \<in> ids then Inl (''duplicate contract id: '' @ cte_id entry)
      else if cte_status entry = Published \<and> cte_schema_definition entry = None
        then Inl (''published contract has no schema definition: '' @ cte_id entry)
      else if cte_status entry = MissingUpstream \<and> cte_upstream entry = None
        then Inl (''missing upstream contract has no tracking item: '' @ cte_id entry)
      else validate_contracts (insert (cte_id entry) ids) entries)"

definition validate_manifest :: "contract_manifest \<Rightarrow> string + unit" where
  "validate_manifest manifest = validate_contracts {} (cmf_contracts manifest)"

definition as_u32 :: "json \<Rightarrow> u32 option" where
  "as_u32 value = Option.bind (json_as_u64 value) (\<lambda>n. if unat n < 2 ^ 32 then Some (ucast n) else None)"

definition contract_status_of :: "json \<Rightarrow> contract_status option" where
  "contract_status_of value =
     Option.bind (unit_variant value) (\<lambda>s.
       if s = ''published'' then Some Published
       else if s = ''missing-upstream'' then Some MissingUpstream
       else if s = ''excluded-v1'' then Some ExcludedV1 else None)"

definition contract_entry_of :: "json \<Rightarrow> contract_entry option" where
  "contract_entry_of value =
     Option.bind (strict_entries [''id'', ''direction'', ''schemaDefinition'', ''status'', ''upstream''] value) (\<lambda>kvs.
     Option.bind (required_field as_str ''id'' kvs) (\<lambda>cid.
     Option.bind (required_field as_str ''direction'' kvs) (\<lambda>direction.
     Option.bind (nullable_field as_str ''schemaDefinition'' kvs) (\<lambda>schema_definition.
     Option.bind (required_field contract_status_of ''status'' kvs) (\<lambda>status.
     map_option (\<lambda>upstream.
         \<lparr>cte_id = cid, cte_direction = direction, cte_schema_definition = schema_definition, cte_status = status,
          cte_upstream = upstream\<rparr>)
       (nullable_field as_str ''upstream'' kvs))))))"

fun decode_all :: "('a \<Rightarrow> 'b option) \<Rightarrow> 'a list \<Rightarrow> 'b list option" where
  "decode_all f [] = Some []"
| "decode_all f (x # xs) = Option.bind (f x) (\<lambda>y. map_option (\<lambda>ys. y # ys) (decode_all f xs))"

definition contract_manifest_of :: "json \<Rightarrow> contract_manifest option" where
  "contract_manifest_of value =
     Option.bind (strict_entries [''formatVersion'', ''protocolPin'', ''contracts''] value) (\<lambda>kvs.
     Option.bind (required_field as_u32 ''formatVersion'' kvs) (\<lambda>format_version.
     Option.bind (required_field as_str ''protocolPin'' kvs) (\<lambda>pin.
     map_option (\<lambda>contracts.
         \<lparr>cmf_format_version = format_version, cmf_protocol_pin = pin, cmf_contracts = contracts\<rparr>)
       (required_field (\<lambda>v. Option.bind (as_array v) (decode_all contract_entry_of)) ''contracts'' kvs))))"

definition protocol_pin_fields :: "string list" where
  "protocol_pin_fields = [''package'', ''version'', ''distTag'', ''tarball'', ''npmIntegrity'', ''sha512Hex'',
     ''sourceRelease'', ''sourceCommit'', ''schemaId'', ''schemaDefinitionCount'', ''protocolVersion'',
     ''minimumNodeProtocolVersion'', ''releaseReady'']"

definition protocol_pin_of :: "json \<Rightarrow> protocol_pin option" where
  "protocol_pin_of value =
     Option.bind (strict_entries protocol_pin_fields value) (\<lambda>kvs.
     Option.bind (required_field as_str ''package'' kvs) (\<lambda>package.
     Option.bind (required_field as_str ''version'' kvs) (\<lambda>version.
     Option.bind (required_field as_str ''distTag'' kvs) (\<lambda>dist_tag.
     Option.bind (required_field as_str ''tarball'' kvs) (\<lambda>tarball.
     Option.bind (required_field as_str ''npmIntegrity'' kvs) (\<lambda>npm_integrity.
     Option.bind (required_field as_str ''sha512Hex'' kvs) (\<lambda>sha512_hex.
     Option.bind (required_field as_str ''sourceRelease'' kvs) (\<lambda>source_release.
     Option.bind (required_field as_str ''sourceCommit'' kvs) (\<lambda>source_commit.
     Option.bind (required_field as_str ''schemaId'' kvs) (\<lambda>schema_id.
     Option.bind (required_field as_u32 ''schemaDefinitionCount'' kvs) (\<lambda>schema_count.
     Option.bind (required_field as_u32 ''protocolVersion'' kvs) (\<lambda>protocol.
     Option.bind (required_field as_u32 ''minimumNodeProtocolVersion'' kvs) (\<lambda>minimum.
     map_option (\<lambda>ready.
         \<lparr>pin_package = package, pin_version = version, pin_dist_tag = dist_tag, pin_tarball = tarball,
          pin_npm_integrity = npm_integrity, pin_sha512_hex = sha512_hex, pin_source_release = source_release,
          pin_source_commit = source_commit, pin_schema_id = schema_id, pin_schema_definition_count = schema_count,
          pin_protocol_version = protocol, pin_minimum_node_protocol_version = minimum, pin_release_ready = ready\<rparr>)
       (required_field as_bool ''releaseReady'' kvs))))))))))))))"

text \<open>\<open>load_pin\<close> and \<open>load_manifest\<close>: reading the file, then its JSON.\<close>

definition load_json ::
  "(string \<Rightarrow> string + json) \<Rightarrow> (json \<Rightarrow> string) \<Rightarrow> (json \<Rightarrow> 'a option) \<Rightarrow> string + string \<Rightarrow> string + 'a" where
  "load_json from_str explain from_value contents =
     bind_result contents (\<lambda>text. bind_result (from_str text) (\<lambda>value.
       case from_value value of None \<Rightarrow> Inl (explain value) | Some x \<Rightarrow> Inr x))"

definition load_pin ::
  "(string \<Rightarrow> string + json) \<Rightarrow> (json \<Rightarrow> string) \<Rightarrow> string + string \<Rightarrow> string + protocol_pin" where
  "load_pin from_str explain = load_json from_str explain protocol_pin_of"

definition load_manifest ::
  "(string \<Rightarrow> string + json) \<Rightarrow> (json \<Rightarrow> string) \<Rightarrow> string + string \<Rightarrow> string + contract_manifest" where
  "load_manifest from_str explain = load_json from_str explain contract_manifest_of"

definition verify_tarball_sha512 :: "(bytes \<Rightarrow> bytes) \<Rightarrow> string + bytes \<Rightarrow> string \<Rightarrow> string + unit" where
  "verify_tarball_sha512 sha512 contents expected_hex =
     bind_result contents (\<lambda>content.
       let actual = hex_string False (sha512 content) in
       if actual = expected_hex then Inr ()
       else Inl (''SHA-512 mismatch: expected '' @ expected_hex @ '', got '' @ actual))"

section \<open>Properties\<close>

definition entry_ok :: "contract_entry \<Rightarrow> bool" where
  "entry_ok entry \<longleftrightarrow> \<not> (cte_status entry = Published \<and> cte_schema_definition entry = None) \<and>
     \<not> (cte_status entry = MissingUpstream \<and> cte_upstream entry = None)"

text \<open>What is wrong with an entry after the ones before it.\<close>

definition offends :: "contract_entry list \<Rightarrow> contract_entry \<Rightarrow> string \<Rightarrow> bool" where
  "offends before entry e \<longleftrightarrow>
     (if cte_id entry \<in> set (map cte_id before) then e = ''duplicate contract id: '' @ cte_id entry
      else \<not> entry_ok entry \<and> e = (if cte_status entry = Published
        then ''published contract has no schema definition: '' else ''missing upstream contract has no tracking item: '')
          @ cte_id entry)"

lemma validate_contracts_cases:
  assumes "distinct (map cte_id done_entries)"
  shows "case validate_contracts (set (map cte_id done_entries)) entries of
      Inr _ \<Rightarrow> distinct (map cte_id (done_entries @ entries)) \<and> list_all entry_ok entries
    | Inl e \<Rightarrow> \<exists>before entry after. entries = before @ entry # after \<and>
        distinct (map cte_id (done_entries @ before)) \<and> list_all entry_ok before \<and> offends (done_entries @ before) entry e"
  using assms
proof (induction entries arbitrary: done_entries)
  case (Cons entry entries)
  show ?case
  proof (cases "cte_id entry \<in> set (map cte_id done_entries) \<or> \<not> entry_ok entry")
    case True
    then have "\<exists>e. validate_contracts (set (map cte_id done_entries)) (entry # entries) = Inl e \<and> offends done_entries entry e"
      by (cases "cte_status entry") (auto simp: offends_def entry_ok_def)
    with Cons.prems show ?thesis by (force intro!: exI [of _ "[]"])
  next
    case False
    then have step: "validate_contracts (set (map cte_id done_entries)) (entry # entries) =
        validate_contracts (set (map cte_id (done_entries @ [entry]))) entries"
      by (auto simp: entry_ok_def)
    have "distinct (map cte_id (done_entries @ [entry]))" using Cons.prems False by auto
    note IH = Cons.IH [OF this]
    show ?thesis
    proof (cases "validate_contracts (set (map cte_id (done_entries @ [entry]))) entries")
      case (Inl e)
      from IH obtain before e' after where "entries = before @ e' # after"
        "distinct (map cte_id (done_entries @ entry # before))" "list_all entry_ok before"
        "offends (done_entries @ entry # before) e' e"
        unfolding Inl by auto
      then show ?thesis unfolding step Inl using False
        unfolding sum.case by (intro exI [of _ "entry # before"] exI [of _ e'] exI [of _ after]) simp
    qed (use IH False step in auto)
  qed
qed simp

text \<open>
  The manifest check accepts exactly the manifests it describes: the identifiers are distinct, every published
  contract has a schema definition and every contract missing upstream a tracking item. An error is that of the
  first entry that breaks a rule, and says which.
\<close>

lemma manifest_check_exact:
  "case validate_manifest manifest of
     Inr _ \<Rightarrow> distinct (map cte_id (cmf_contracts manifest)) \<and> list_all entry_ok (cmf_contracts manifest)
   | Inl e \<Rightarrow> \<exists>before entry after. cmf_contracts manifest = before @ entry # after \<and>
       distinct (map cte_id before) \<and> list_all entry_ok before \<and> offends before entry e"
  using validate_contracts_cases [of "[]" "cmf_contracts manifest"]
  by (auto simp: validate_manifest_def split: sum.splits)

subsection \<open>Fixtures and the runtime's decoders\<close>

definition params_readable :: "(string \<Rightarrow> json option) \<Rightarrow> (string \<times> json) list \<Rightarrow> bool" where
  "params_readable from_str kvs =
     (case map_of kvs ''paramsJSON'' of Some (JString text) \<Rightarrow> from_str text \<noteq> None | _ \<Rightarrow> True)"

lemma require_wire_text: "require_non_empty field v = Inr () \<longleftrightarrow> v \<noteq> []"
  by (simp add: require_non_empty_def)

lemma require_optional_Inr: "require_optional field v = Inr () \<longleftrightarrow> v \<noteq> Some []"
  by (auto simp: require_optional_def require_non_empty_def split: option.split)

lemma bind_unit: "bind_result r (\<lambda>_. s) = Inr () \<longleftrightarrow> r = Inr () \<and> s = Inr ()"
  by (cases r) (auto simp: bind_result_def)

lemma transpose_non_empty:
  "transpose_map (require_non_empty_result_field name) v =
     (if v = Some [] then Inl (InvalidFrame (name @ '' must not be empty'')) else Inr v)"
  by (auto simp: transpose_map_def require_non_empty_result_field_def split: option.split)

text \<open>The conditions both decoders put on the entries.\<close>

definition non_empty_text :: "string \<Rightarrow> (string \<times> json) list \<Rightarrow> bool" where
  "non_empty_text key kvs \<longleftrightarrow> (\<exists>s. map_of kvs key = Some (JString s) \<and> s \<noteq> [])"

definition optional_entry_ok :: "(json \<Rightarrow> bool) \<Rightarrow> string \<Rightarrow> (string \<times> json) list \<Rightarrow> bool" where
  "optional_entry_ok P key kvs \<longleftrightarrow> (case map_of kvs key of None \<Rightarrow> True | Some v \<Rightarrow> P v)"

definition is_text :: "json \<Rightarrow> bool" where "is_text v \<longleftrightarrow> (\<exists>s. v = JString s)"
definition is_non_empty_text :: "json \<Rightarrow> bool" where "is_non_empty_text v \<longleftrightarrow> (\<exists>s. v = JString s \<and> s \<noteq> [])"

lemma as_str_eq: "as_str v = Some s \<longleftrightarrow> v = JString s" by (cases v) auto

lemma required_text: "required_field as_str key kvs = Some s \<longleftrightarrow> map_of kvs key = Some (JString s)"
  by (auto simp: required_field_def bind_eq_Some_conv as_str_eq)

lemma default_text:
  "default_field as_str key kvs = Some v \<longleftrightarrow>
     (case v of None \<Rightarrow> map_of kvs key = None | Some s \<Rightarrow> map_of kvs key = Some (JString s))"
  by (auto simp: default_field_def as_str_eq split: option.splits)

lemma nullable_text:
  "nullable_field as_str key kvs = Some v \<longleftrightarrow>
     (case v of None \<Rightarrow> map_of kvs key = None \<or> map_of kvs key = Some JNull | Some s \<Rightarrow> map_of kvs key = Some (JString s))"
  by (auto simp: nullable_field_def as_str_eq split: option.splits json.splits)

lemma default_number:
  "(\<exists>n. default_field json_as_u64 key kvs = Some n) \<longleftrightarrow> optional_entry_ok (\<lambda>v. json_as_u64 v \<noteq> None) key kvs"
  by (auto simp: default_field_def optional_entry_ok_def split: option.splits)

lemma request_fixture_ok:
  assumes "distinct (map fst kvs)"
  shows "(\<exists>r. node_invoke_request_of (JObject kvs) = Some r \<and> validate_invoke_request r = Inr ()) \<longleftrightarrow>
    no_unknown_fields invoke_request_fields kvs \<and>
    non_empty_text ''id'' kvs \<and> non_empty_text ''nodeId'' kvs \<and> non_empty_text ''command'' kvs \<and>
    optional_entry_ok is_text ''paramsJSON'' kvs \<and> optional_entry_ok (\<lambda>v. json_as_u64 v \<noteq> None) ''timeoutMs'' kvs \<and>
    optional_entry_ok is_non_empty_text ''idempotencyKey'' kvs"
proof (cases "no_unknown_fields invoke_request_fields kvs")
  case True
  then have strict: "strict_entries invoke_request_fields (JObject kvs) = Some kvs"
    using assms by (simp add: strict_entries_def)
  have "(\<exists>r. node_invoke_request_of (JObject kvs) = Some r \<and> validate_invoke_request r = Inr ()) \<longleftrightarrow>
    (\<exists>i n c. required_field as_str ''id'' kvs = Some i \<and> i \<noteq> [] \<and> required_field as_str ''nodeId'' kvs = Some n \<and> n \<noteq> [] \<and>
      required_field as_str ''command'' kvs = Some c \<and> c \<noteq> []) \<and>
    (\<exists>p. default_field as_str ''paramsJSON'' kvs = Some p) \<and> (\<exists>t. default_field json_as_u64 ''timeoutMs'' kvs = Some t) \<and>
    (\<exists>k. default_field as_str ''idempotencyKey'' kvs = Some k \<and> k \<noteq> Some [])"
    by (auto simp: node_invoke_request_of_def strict validate_invoke_request_def require_wire_text bind_eq_Some_conv
        bind_unit require_optional_Inr)
  moreover have "(\<exists>p. default_field as_str ''paramsJSON'' kvs = Some p) \<longleftrightarrow> optional_entry_ok is_text ''paramsJSON'' kvs"
    by (auto simp: default_field_def optional_entry_ok_def is_text_def as_str_eq split: option.splits)
  moreover have "(\<exists>k. default_field as_str ''idempotencyKey'' kvs = Some k \<and> k \<noteq> Some []) \<longleftrightarrow>
      optional_entry_ok is_non_empty_text ''idempotencyKey'' kvs"
    by (auto simp: default_field_def optional_entry_ok_def is_non_empty_text_def as_str_eq split: option.splits)
  ultimately show ?thesis using True by (auto simp: default_number required_text non_empty_text_def)
qed (simp add: node_invoke_request_of_def strict_entries_def)

lemma request_runtime_ok:
  "(\<exists>call. parse_invocation from_str (JObject kvs) arrival = Inr call) \<longleftrightarrow>
    no_unknown_fields invocation_fields kvs \<and>
    non_empty_text ''id'' kvs \<and> non_empty_text ''nodeId'' kvs \<and> non_empty_text ''command'' kvs \<and>
    optional_entry_ok (\<lambda>v. v = JNull \<or> is_text v) ''paramsJSON'' kvs \<and> params_readable from_str kvs \<and>
    optional_entry_ok (\<lambda>v. json_as_u64 v \<noteq> None) ''timeoutMs'' kvs \<and>
    optional_entry_ok is_non_empty_text ''idempotencyKey'' kvs \<and>
    optional_entry_ok (\<lambda>v. v = JNull \<or> is_non_empty_text v) ''sessionKey'' kvs"
proof (cases "no_unknown_fields invocation_fields kvs")
  case True
  have payload: "invocation_payload (JObject kvs) = Some (i, n, c, p, t, k, s) \<longleftrightarrow>
      required_field as_str ''id'' kvs = Some i \<and> required_field as_str ''nodeId'' kvs = Some n \<and>
      required_field as_str ''command'' kvs = Some c \<and> nullable_field as_str ''paramsJSON'' kvs = Some p \<and>
      default_field json_as_u64 ''timeoutMs'' kvs = Some t \<and> default_field as_str ''idempotencyKey'' kvs = Some k \<and>
      nullable_field as_str ''sessionKey'' kvs = Some s" for i n c p t k s
    by (auto simp: invocation_payload_def True bind_eq_Some_conv)
  have parsed: "(\<exists>call. parse_invocation from_str (JObject kvs) arrival = Inr call) \<longleftrightarrow>
    (\<exists>i n c p t k s. invocation_payload (JObject kvs) = Some (i, n, c, p, t, k, s) \<and> i \<noteq> [] \<and> n \<noteq> [] \<and> c \<noteq> [] \<and>
      (case p of None \<Rightarrow> True | Some t \<Rightarrow> from_str t \<noteq> None) \<and> k \<noteq> Some [] \<and> s \<noteq> Some [])"
  proof (cases "invocation_payload (JObject kvs)")
    case (Some fields)
    obtain i n c p t k s where "fields = (i, n, c, p, t, k, s)" by (metis prod_cases7)
    then show ?thesis using Some
      by (auto simp: parse_invocation_def decode_invocation_def transpose_non_empty require_non_empty_result_field_def
          split: option.splits)
  qed (simp add: parse_invocation_def decode_invocation_def)
  moreover have "(\<exists>i n c p t k s. invocation_payload (JObject kvs) = Some (i, n, c, p, t, k, s) \<and> i \<noteq> [] \<and> n \<noteq> [] \<and> c \<noteq> [] \<and>
      (case p of None \<Rightarrow> True | Some t \<Rightarrow> from_str t \<noteq> None) \<and> k \<noteq> Some [] \<and> s \<noteq> Some []) \<longleftrightarrow>
    (\<exists>i n c. required_field as_str ''id'' kvs = Some i \<and> i \<noteq> [] \<and> required_field as_str ''nodeId'' kvs = Some n \<and> n \<noteq> [] \<and>
      required_field as_str ''command'' kvs = Some c \<and> c \<noteq> []) \<and>
    (\<exists>p. nullable_field as_str ''paramsJSON'' kvs = Some p \<and> (case p of None \<Rightarrow> True | Some t \<Rightarrow> from_str t \<noteq> None)) \<and>
    (\<exists>t. default_field json_as_u64 ''timeoutMs'' kvs = Some t) \<and>
    (\<exists>k. default_field as_str ''idempotencyKey'' kvs = Some k \<and> k \<noteq> Some []) \<and>
    (\<exists>k. nullable_field as_str ''sessionKey'' kvs = Some k \<and> k \<noteq> Some [])"
    unfolding payload by blast
  moreover have "(\<exists>p. nullable_field as_str ''paramsJSON'' kvs = Some p \<and> (case p of None \<Rightarrow> True | Some t \<Rightarrow> from_str t \<noteq> None)) \<longleftrightarrow>
      optional_entry_ok (\<lambda>v. v = JNull \<or> is_text v) ''paramsJSON'' kvs \<and> params_readable from_str kvs"
    by (auto simp: nullable_field_def optional_entry_ok_def is_text_def as_str_eq params_readable_def
        split: option.splits json.splits)
  moreover have "(\<exists>k. default_field as_str ''idempotencyKey'' kvs = Some k \<and> k \<noteq> Some []) \<longleftrightarrow>
      optional_entry_ok is_non_empty_text ''idempotencyKey'' kvs"
    by (auto simp: default_field_def optional_entry_ok_def is_non_empty_text_def as_str_eq split: option.splits)
  moreover have "(\<exists>k. nullable_field as_str ''sessionKey'' kvs = Some k \<and> k \<noteq> Some []) \<longleftrightarrow>
      optional_entry_ok (\<lambda>v. v = JNull \<or> is_non_empty_text v) ''sessionKey'' kvs"
    by (auto simp: nullable_field_def optional_entry_ok_def is_non_empty_text_def as_str_eq split: option.splits json.splits)
  ultimately show ?thesis using True by (auto simp: default_number required_text non_empty_text_def)
qed (simp add: parse_invocation_def decode_invocation_def invocation_payload_def)

lemma no_unknown_set: "no_unknown_fields known kvs \<longleftrightarrow> fst ` set kvs \<subseteq> set known"
  by (auto simp: no_unknown_fields_def list_all_iff)

lemma subset_insert_split: "B = insert x A \<Longrightarrow> x \<notin> A \<Longrightarrow> S \<subseteq> A \<longleftrightarrow> S \<subseteq> B \<and> x \<notin> S"
  by auto

lemma no_unknown_session:
  "no_unknown_fields invoke_request_fields kvs \<longleftrightarrow>
     no_unknown_fields invocation_fields kvs \<and> map_of kvs ''sessionKey'' = None"
proof -
  have fields: "invocation_fields = invoke_request_fields @ [''sessionKey'']"
    and new: "''sessionKey'' \<notin> set invoke_request_fields"
    by (simp_all add: invocation_fields_def invoke_request_fields_def)
  have "set invocation_fields = insert ''sessionKey'' (set invoke_request_fields)"
    unfolding fields set_append by simp
  then show ?thesis unfolding no_unknown_set map_of_eq_None_iff by (rule subset_insert_split [OF _ new])
qed

lemma text_or_null:
  "optional_entry_ok is_text key kvs \<longleftrightarrow>
     optional_entry_ok (\<lambda>v. v = JNull \<or> is_text v) key kvs \<and> map_of kvs key \<noteq> Some JNull"
  by (auto simp: optional_entry_ok_def is_text_def split: option.split)

lemma absent_ok: "map_of kvs key = None \<Longrightarrow> optional_entry_ok P key kvs"
  by (simp add: optional_entry_ok_def)

text \<open>
  C35. A request fixture of the pinned projection is a request the runtime decodes. On an object without repeated
  keys the harness accepts the payload, with parameters that are JSON, exactly if the runtime's decoder does and the
  payload neither names the newer \<open>sessionKey\<close> nor has \<open>null\<close> for its parameters.
\<close>

lemma fixture_request_runs:
  assumes "distinct (map fst kvs)"
  shows "validate_fixture_frame explain ''node.invoke.request'' (WireEvent ''node.invoke.request'' (JObject kvs) seq version)
      = Inr () \<and> params_readable from_str kvs \<longleftrightarrow>
    map_of kvs ''sessionKey'' = None \<and> map_of kvs ''paramsJSON'' \<noteq> Some JNull \<and>
    (\<exists>call. parse_invocation from_str (JObject kvs) arrival = Inr call)"
proof -
  have "validate_fixture_frame explain ''node.invoke.request'' (WireEvent ''node.invoke.request'' (JObject kvs) seq version)
      = Inr () \<longleftrightarrow> (\<exists>r. node_invoke_request_of (JObject kvs) = Some r \<and> validate_invoke_request r = Inr ())"
    by (auto simp: validate_fixture_frame_def validate_event_name_def decode_payload_def map_sum_Inr_iff
        split: option.split)
  then show ?thesis
    unfolding request_fixture_ok [OF assms] request_runtime_ok no_unknown_session
    using text_or_null [of "''paramsJSON''" kvs] absent_ok [of kvs "''sessionKey''"] by blast
qed

lemma fixture_request_runs_witness:
  "\<exists>call. parse_invocation (\<lambda>_. Some JNull) (JObject [(''id'', JString ''i''), (''nodeId'', JString ''n''),
     (''command'', JString ''c''), (''paramsJSON'', JString ''{}'')]) 3 = Inr call"
proof -
  let ?kvs = "[(''id'', JString ''i''), (''nodeId'', JString ''n''), (''command'', JString ''c''), (''paramsJSON'', JString ''{}'')]"
  have "distinct (map fst ?kvs)" by simp
  moreover have "validate_fixture_frame (\<lambda>_. []) ''node.invoke.request'' (WireEvent ''node.invoke.request'' (JObject ?kvs) None None)
      = Inr () \<and> params_readable (\<lambda>_. Some JNull) ?kvs"
    by code_simp
  ultimately show ?thesis using fixture_request_runs by blast
qed

definition short_text :: "string \<Rightarrow> (string \<times> json) list \<Rightarrow> bool" where
  "short_text key kvs \<longleftrightarrow> (\<exists>t. map_of kvs key = Some (JString t) \<and> length t \<le> MAX_INPUT_FRAME_BYTES)"

lemma input_payload:
  assumes "no_unknown_fields input_fields kvs" and "distinct (map fst kvs)"
  shows "validate_fixture_frame explain ''node.invoke.input'' (WireEvent ''node.invoke.input'' (JObject kvs) seq version) = Inr () \<longleftrightarrow>
    (\<exists>i n q t. required_field as_str ''id'' kvs = Some i \<and> required_field as_str ''nodeId'' kvs = Some n \<and>
      required_field json_as_u64 ''seq'' kvs = Some q \<and> required_field as_str ''payloadJSON'' kvs = Some t \<and>
      i \<noteq> [] \<and> n \<noteq> [] \<and> count_chars t \<le> 16384)"
    and "(\<exists>event. parse_invocation_input (JObject kvs) = Inr event) \<longleftrightarrow>
    (\<exists>i n q t. required_field as_str ''id'' kvs = Some i \<and> required_field as_str ''nodeId'' kvs = Some n \<and>
      required_field json_as_u64 ''seq'' kvs = Some q \<and> required_field as_str ''payloadJSON'' kvs = Some t \<and>
      i \<noteq> [] \<and> n \<noteq> [] \<and> length t \<le> MAX_INPUT_FRAME_BYTES)"
proof -
  have strict: "strict_entries [''id'', ''nodeId'', ''seq'', ''payloadJSON''] (JObject kvs) = Some kvs"
    using assms by (simp add: strict_entries_def input_fields_def)
  show "validate_fixture_frame explain ''node.invoke.input'' (WireEvent ''node.invoke.input'' (JObject kvs) seq version) = Inr () \<longleftrightarrow>
    (\<exists>i n q t. required_field as_str ''id'' kvs = Some i \<and> required_field as_str ''nodeId'' kvs = Some n \<and>
      required_field json_as_u64 ''seq'' kvs = Some q \<and> required_field as_str ''payloadJSON'' kvs = Some t \<and>
      i \<noteq> [] \<and> n \<noteq> [] \<and> count_chars t \<le> 16384)"
    by (cases "required_field as_str ''id'' kvs"; cases "required_field as_str ''nodeId'' kvs";
        cases "required_field json_as_u64 ''seq'' kvs"; cases "required_field as_str ''payloadJSON'' kvs")
      (auto simp: validate_fixture_frame_def validate_event_name_def decode_payload_def map_sum_Inr_iff
        node_invoke_input_of_def strict validate_invoke_input_def require_wire_text bind_unit)
  show "(\<exists>event. parse_invocation_input (JObject kvs) = Inr event) \<longleftrightarrow>
    (\<exists>i n q t. required_field as_str ''id'' kvs = Some i \<and> required_field as_str ''nodeId'' kvs = Some n \<and>
      required_field json_as_u64 ''seq'' kvs = Some q \<and> required_field as_str ''payloadJSON'' kvs = Some t \<and>
      i \<noteq> [] \<and> n \<noteq> [] \<and> length t \<le> MAX_INPUT_FRAME_BYTES)"
    by (cases "required_field as_str ''id'' kvs"; cases "required_field as_str ''nodeId'' kvs";
        cases "required_field json_as_u64 ''seq'' kvs"; cases "required_field as_str ''payloadJSON'' kvs")
      (simp_all add: parse_invocation_input_def assms(1) require_non_empty_result_field_def)
qed

lemma count_chars_le: "count_chars s \<le> length s"
  by (simp add: count_chars_def)

text \<open>A character of two bytes, 16384 times.\<close>

definition wide_text :: string where
  "wide_text = concat (replicate 16384 [char_of (195 :: nat), char_of (169 :: nat)])"

lemma concat_replicate:
  "count_chars (concat (replicate n s)) = n * count_chars s" "length (concat (replicate n s)) = n * length s"
  by (induction n) (simp_all add: count_chars_def)

lemma wide_text: "count_chars wide_text = 16384" "length wide_text = 32768"
proof -
  have "count_chars [char_of (195 :: nat), char_of (169 :: nat)] = 1" by code_simp
  then show "count_chars wide_text = 16384" "length wide_text = 32768"
    unfolding wide_text_def concat_replicate by simp_all
qed

text \<open>
  C36. Input the runtime takes is within the pinned projection, but not all of the projection is taken. On an object
  without repeated keys the runtime's decoder accepts exactly the payloads the harness accepts whose text has at
  most 16384 bytes; the projection counts characters, so there is a payload it accepts and the runtime refuses.
\<close>

lemma fixture_input_bytes_and_chars:
  assumes "distinct (map fst kvs)"
  shows "((\<exists>event. parse_invocation_input (JObject kvs) = Inr event) \<longleftrightarrow>
      validate_fixture_frame explain ''node.invoke.input'' (WireEvent ''node.invoke.input'' (JObject kvs) seq version) = Inr () \<and>
      short_text ''payloadJSON'' kvs) \<and>
    (\<exists>payload. validate_fixture_frame explain ''node.invoke.input'' (WireEvent ''node.invoke.input'' payload seq version) = Inr () \<and>
      (\<exists>e. parse_invocation_input payload = Inl e))"
proof
  show "(\<exists>event. parse_invocation_input (JObject kvs) = Inr event) \<longleftrightarrow>
      validate_fixture_frame explain ''node.invoke.input'' (WireEvent ''node.invoke.input'' (JObject kvs) seq version) = Inr () \<and>
      short_text ''payloadJSON'' kvs"
  proof (cases "no_unknown_fields input_fields kvs")
    case True
    have "length t \<le> MAX_INPUT_FRAME_BYTES \<Longrightarrow> count_chars t \<le> 16384" for t
      using count_chars_le [of t] by (simp add: MAX_INPUT_FRAME_BYTES_def)
    then show ?thesis unfolding input_payload [OF True assms]
      by (fastforce simp: short_text_def required_text)
  next
    case False
    then show ?thesis
      by (simp add: parse_invocation_input_def validate_fixture_frame_def validate_event_name_def decode_payload_def
          node_invoke_input_of_def strict_entries_def input_fields_def)
  qed
  let ?kvs = "[(''id'', JString ''i''), (''nodeId'', JString ''n''), (''seq'', JNumber (PosInt 0)), (''payloadJSON'', JString wide_text)]"
  have known: "no_unknown_fields input_fields ?kvs" "distinct (map fst ?kvs)"
    by (simp_all add: no_unknown_fields_def input_fields_def)
  have "validate_fixture_frame explain ''node.invoke.input'' (WireEvent ''node.invoke.input'' (JObject ?kvs) seq version) = Inr ()"
    unfolding input_payload(1) [OF known] by (simp add: required_field_def wide_text)
  moreover have "\<not> (\<exists>event. parse_invocation_input (JObject ?kvs) = Inr event)"
    unfolding input_payload(2) [OF known] by (simp add: required_field_def wide_text MAX_INPUT_FRAME_BYTES_def)
  then have "\<exists>e. parse_invocation_input (JObject ?kvs) = Inl e"
    by (metis sum.exhaust)
  ultimately show "\<exists>payload. validate_fixture_frame explain ''node.invoke.input''
      (WireEvent ''node.invoke.input'' payload seq version) = Inr () \<and> (\<exists>e. parse_invocation_input payload = Inl e)"
    by blast
qed

lemma fixture_input_bytes_and_chars_witness:
  "\<exists>event. parse_invocation_input (JObject [(''id'', JString ''i''), (''nodeId'', JString ''n''),
     (''seq'', JNumber (PosInt 0)), (''payloadJSON'', JString ''x'')]) = Inr event"
proof -
  let ?kvs = "[(''id'', JString ''i''), (''nodeId'', JString ''n''), (''seq'', JNumber (PosInt 0)), (''payloadJSON'', JString ''x'')]"
  have "distinct (map fst ?kvs)" by simp
  moreover have "validate_fixture_frame (\<lambda>_. []) ''node.invoke.input'' (WireEvent ''node.invoke.input'' (JObject ?kvs) None None)
      = Inr ()" by code_simp
  moreover have "short_text ''payloadJSON'' ?kvs" by (simp add: short_text_def MAX_INPUT_FRAME_BYTES_def)
  ultimately show ?thesis
    using fixture_input_bytes_and_chars [of ?kvs "\<lambda>_. []" None None] by blast
qed

end
