(* ===== verification/PrototypeSession.thy ===== *)
theory PrototypeSession
  imports PrototypeReconnect ContractFixtures NodeConnect
begin

text \<open>
  The Gateway client of the root package (\<open>src/client.rs\<close>), the predecessor of \<open>GatewayTask\<close> and
  \<open>GatewayConnect\<close>: connecting, calls with their permits and timeouts, the session task, the decoding of
  invocations. Its connect options are those of \<open>NodeProfile\<close> and are shared.

  Calls, socket and task are steps on a shared state, in the order they happen. A write has no timeout here; a
  step that writes says how the write ended.
\<close>

section \<open>Frames\<close>

datatype proto_frame =
    PEvent string json "u64 option"
  | PResponse string bool json "gateway_error_shape option"

text \<open>A ping carries how sending its pong ended.\<close>

datatype proto_message =
    PmText string
  | PmPing "string option"
  | PmClose "close_frame option"
  | PmOther
  | PmError string
  | PmEnd

definition proto_response_result ::
  "string \<Rightarrow> bool \<Rightarrow> json \<Rightarrow> gateway_error_shape option \<Rightarrow> proto_client_error + json" where
  "proto_response_result op ok payload error =
     (if ok then Inr payload
      else
        let error = (case error of Some e \<Rightarrow> e | None \<Rightarrow>
              \<lparr>ges_code = ''UNKNOWN'', ges_message = ''Gateway rejected the request'', ges_details = None,
               ges_retryable = None, ges_retry_after_ms = None\<rparr>);
            error = (if ges_code error = [] then error\<lparr>ges_code := ''UNKNOWN''\<rparr> else error);
            error = (if ges_message error = [] then error\<lparr>ges_message := ''Gateway rejected the request''\<rparr> else error) in
        Inl (PGateway op (ges_code error) (ges_message error) (ges_details error) (ges_retryable error)
          (ges_retry_after_ms error)))"

definition proto_next_frame ::
  "(string \<Rightarrow> string + proto_frame) \<Rightarrow> proto_message \<Rightarrow> (proto_client_error + proto_frame) option" where
  "proto_next_frame parse message =
     (case message of
        PmEnd \<Rightarrow> Some (Inl (PClosed ''Gateway ended the WebSocket stream''))
      | PmError e \<Rightarrow> Some (Inl (PTransport e))
      | PmText t \<Rightarrow> Some (case parse t of Inl e \<Rightarrow> Inl (PInvalidFrame e) | Inr frame \<Rightarrow> Inr frame)
      | PmPing failed \<Rightarrow> map_option (\<lambda>e. Inl (PTransport e)) failed
      | PmClose frame \<Rightarrow> Some (Inl (PClosed (format_close frame)))
      | PmOther \<Rightarrow> None)"

section \<open>Connecting\<close>

text \<open>The host of a URL as text: an IPv6 address is in brackets, which no address parser takes.\<close>

definition is_loopback_host :: "gateway_url \<Rightarrow> bool" where
  "is_loopback_host url =
     (case url_host url of
        Some (HostDomain host) \<Rightarrow> host = ''localhost''
      | Some (HostIp (IpV4 a b c d)) \<Rightarrow> ipv4_is_loopback a
      | Some (HostIp (IpV6 _ _ _ _ _ _ _ _)) \<Rightarrow> False
      | None \<Rightarrow> False)"

definition proto_validate_gateway_url :: "(string \<Rightarrow> string + gateway_url) \<Rightarrow> string \<Rightarrow> proto_client_error + unit" where
  "proto_validate_gateway_url parse_url text =
     (case parse_url text of
        Inl e \<Rightarrow> Inl (PInvalidUrl e)
      | Inr url \<Rightarrow>
          if url_scheme url = ''wss'' then Inr ()
          else if url_scheme url = ''ws''
            then (if is_loopback_host url then Inr () else Inl PInsecureRemoteGateway)
          else Inl (PInvalidUrl (''unsupported scheme '' @ url_scheme url @ ''; expected ws or wss'')))"

record proto_config =
  pc_gateway_url :: string
  pc_challenge_timeout :: nat
  pc_request_timeout :: nat
  pc_max_message_bytes :: nat
  pc_event_capacity :: nat
  pc_max_in_flight :: nat

definition proto_config_new :: "string \<Rightarrow> proto_config" where
  "proto_config_new gateway_url =
     \<lparr>pc_gateway_url = gateway_url, pc_challenge_timeout = seconds 15, pc_request_timeout = seconds 30,
      pc_max_message_bytes = 16 * 1024 * 1024, pc_event_capacity = 256, pc_max_in_flight = 64\<rparr>"

datatype proto_arrival = PArrives proto_message | PTimeoutElapses

definition proto_nonce_of :: "json \<Rightarrow> proto_client_error + string" where
  "proto_nonce_of payload =
     (case Option.bind (map_option trim (Option.bind (json_get ''nonce'' payload) as_str)) non_empty of
        None \<Rightarrow> Inl (PInvalidChallenge ''missing nonce'')
      | Some nonce \<Rightarrow> Inr nonce)"

fun proto_wait_for_challenge ::
  "(string \<Rightarrow> string + proto_frame) \<Rightarrow> proto_arrival list \<Rightarrow> (proto_client_error + string) option \<times> proto_arrival list" where
  "proto_wait_for_challenge parse [] = (None, [])"
| "proto_wait_for_challenge parse (PTimeoutElapses # rest) = (Some (Inl PChallengeTimeout), rest)"
| "proto_wait_for_challenge parse (PArrives message # rest) =
     (case proto_next_frame parse message of
        None \<Rightarrow> proto_wait_for_challenge parse rest
      | Some (Inl e) \<Rightarrow> (Some (Inl e), rest)
      | Some (Inr (PEvent event payload _)) \<Rightarrow>
          if event = ''connect.challenge'' then (Some (proto_nonce_of payload), rest)
          else proto_wait_for_challenge parse rest
      | Some (Inr (PResponse _ _ _ _)) \<Rightarrow> proto_wait_for_challenge parse rest)"

fun proto_wait_for_response ::
  "(string \<Rightarrow> string + proto_frame) \<Rightarrow> string \<Rightarrow> string \<Rightarrow> proto_arrival list \<Rightarrow>
   (proto_client_error + json) option \<times> proto_arrival list" where
  "proto_wait_for_response parse expected_id op [] = (None, [])"
| "proto_wait_for_response parse expected_id op (PTimeoutElapses # rest) =
     (Some (Inl (PRequestTimeout ''connect'')), rest)"
| "proto_wait_for_response parse expected_id op (PArrives message # rest) =
     (case proto_next_frame parse message of
        None \<Rightarrow> proto_wait_for_response parse expected_id op rest
      | Some (Inl e) \<Rightarrow> (Some (Inl e), rest)
      | Some (Inr (PEvent _ _ _)) \<Rightarrow> proto_wait_for_response parse expected_id op rest
      | Some (Inr (PResponse rid ok payload error)) \<Rightarrow>
          if rid = expected_id then (Some (proto_response_result op ok payload error), rest)
          else proto_wait_for_response parse expected_id op rest)"

section \<open>Decoding invocations\<close>

definition proto_non_empty :: "string \<Rightarrow> string \<Rightarrow> proto_client_error + string" where
  "proto_non_empty name value =
     (if value = [] then Inl (PInvalidFrame (name @ '' must not be empty'')) else Inr value)"

text \<open>The derived \<open>Payload\<close> has the fields of the pinned projection. The text of its own error is not modelled.\<close>

definition proto_parse_invocation ::
  "(string \<Rightarrow> json option) \<Rightarrow> json \<Rightarrow> nat \<Rightarrow> proto_client_error + node_invocation" where
  "proto_parse_invocation from_str payload arrival =
     (case Option.bind (struct_entries invoke_request_fields payload) (\<lambda>kvs.
        if \<not> no_unknown_fields invoke_request_fields kvs then None
        else Option.bind (required_field as_str ''id'' kvs) (\<lambda>call_id.
             Option.bind (required_field as_str ''nodeId'' kvs) (\<lambda>node_id.
             Option.bind (required_field as_str ''command'' kvs) (\<lambda>command.
             Option.bind (default_field as_str ''paramsJSON'' kvs) (\<lambda>params_json.
             Option.bind (default_field json_as_u64 ''timeoutMs'' kvs) (\<lambda>timeout_ms.
             map_option (\<lambda>idempotency_key. (call_id, node_id, command, params_json, timeout_ms, idempotency_key))
               (default_field as_str ''idempotencyKey'' kvs))))))) of
        None \<Rightarrow> Inl (PInvalidFrame ''invalid node.invoke.request'')
      | Some (call_id, node_id, command, params_json, timeout_ms, idempotency_key) \<Rightarrow>
          bind_result (proto_non_empty ''invocation id'' call_id) (\<lambda>call_id.
          bind_result (proto_non_empty ''invocation node id'' node_id) (\<lambda>node_id.
          bind_result (proto_non_empty ''invocation command'' command) (\<lambda>command.
          bind_result (transpose_map (proto_non_empty ''invocation idempotency key'') idempotency_key) (\<lambda>idempotency_key.
          bind_result
            (case params_json of
               Some value \<Rightarrow>
                 (case from_str value of
                    None \<Rightarrow> Inl (PInvalidFrame ''invalid invocation paramsJSON'')
                  | Some params \<Rightarrow> Inr (params, Some (length value)))
             | None \<Rightarrow> Inr (JNull, Some 0))
            (\<lambda>(params, received_bytes).
               Inr \<lparr>inv_id = call_id, inv_node_id = node_id, inv_command = command, inv_params = params,
                 inv_timeout_ms = timeout_ms, inv_idempotency_key = idempotency_key, inv_session_key = None,
                 received_params_bytes = received_bytes, received_at = Some arrival\<rparr>))))))"

text \<open>What the invocation channel gives; an event comes with its instant.\<close>

datatype proto_received = ReceivedEvent json nat | ReceivedLag u64 | ReceivedClosed proto_client_error

definition proto_next_invocation ::
  "(string \<Rightarrow> json option) \<Rightarrow> bool \<Rightarrow> proto_received \<Rightarrow> proto_client_error + node_invocation" where
  "proto_next_invocation from_str is_activated received =
     (if \<not> is_activated then Inl PNotActivated
      else case received of
        ReceivedEvent payload arrival \<Rightarrow> proto_parse_invocation from_str payload arrival
      | ReceivedLag missed \<Rightarrow> Inl (PEventLagged missed)
      | ReceivedClosed e \<Rightarrow> Inl e)"

text \<open>The request a completion sends, or why it sends none.\<close>

definition proto_complete_invocation ::
  "bool \<Rightarrow> node_invocation \<Rightarrow> invocation_result \<Rightarrow> proto_client_error + string \<times> json" where
  "proto_complete_invocation is_activated call result =
     (if \<not> is_activated then Inl PNotActivated
      else bind_result
        (case result of
           Success payload \<Rightarrow>
             Inr (JObject [(''id'', JString (inv_id call)), (''nodeId'', JString (inv_node_id call)),
               (''ok'', JBool True), (''payload'', payload)])
         | Failure code message \<Rightarrow>
             bind_result (proto_non_empty ''error code'' code) (\<lambda>code.
             bind_result (proto_non_empty ''error message'' message) (\<lambda>message.
               Inr (JObject [(''id'', JString (inv_id call)), (''nodeId'', JString (inv_node_id call)),
                 (''ok'', JBool False), (''error'', JObject [(''code'', JString code), (''message'', JString message)])]))))
        (\<lambda>params. Inr (''node.invoke.result'', params)))"

section \<open>The session\<close>

datatype proto_close_cause = PcClosed string | PcInvalidFrame string | PcTransport string

fun cause_error :: "proto_close_cause \<Rightarrow> proto_client_error" where
  "cause_error (PcClosed reason) = PClosed reason"
| "cause_error (PcInvalidFrame reason) = PInvalidFrame reason"
| "cause_error (PcTransport reason) = PTransport reason"

definition pending_suffix :: "string \<Rightarrow> string" where
  "pending_suffix op = ''; request '' @ op @ '' did not complete''"

fun proto_pending_error :: "proto_close_cause \<Rightarrow> string \<Rightarrow> proto_client_error" where
  "proto_pending_error (PcClosed reason) op = PClosed (reason @ pending_suffix op)"
| "proto_pending_error (PcInvalidFrame reason) op = PInvalidFrame (reason @ pending_suffix op)"
| "proto_pending_error (PcTransport reason) op = PTransport (reason @ pending_suffix op)"

datatype proto_command = PRequest string string json | PClose

text \<open>
  Callers that wait for room in the command channel or for a reply; the channels; the task's pending map; what the
  callers got; what was published. The task runs until \<open>pss_closed\<close> is set.
\<close>

record proto_state =
  pss_capacity :: nat
  pss_permits :: nat
  pss_next :: u64
  pss_sending :: "(string \<times> string \<times> json) list"
  pss_queue :: "proto_command list"
  pss_awaiting :: "(string \<times> string) list"
  pss_cancels :: "string list"
  pss_pending :: "(string \<times> string) list"
  pss_answers :: "(string \<times> (proto_client_error + json)) list"
  pss_dropped :: "string list"
  pss_events :: "(string \<times> json \<times> u64 option) list"
  pss_closed :: "proto_close_cause option"

definition proto_session_start :: "proto_config \<Rightarrow> proto_state" where
  "proto_session_start config =
     \<lparr>pss_capacity = max (pc_max_in_flight config) 1, pss_permits = max (pc_max_in_flight config) 1, pss_next = 1,
      pss_sending = [], pss_queue = [], pss_awaiting = [], pss_cancels = [], pss_pending = [], pss_answers = [],
      pss_dropped = [], pss_events = [], pss_closed = None\<rparr>"

definition proto_request_id :: "u64 \<Rightarrow> string" where
  "proto_request_id n = ''rust-node-'' @ show_nat (unat n)"

definition proto_closed_error :: "proto_state \<Rightarrow> proto_client_error" where
  "proto_closed_error s = (case pss_closed s of None \<Rightarrow> PClosed ''session task ended'' | Some cause \<Rightarrow> cause_error cause)"

text \<open>A reply reaches its caller if it still waits; the caller's permit goes back.\<close>

definition proto_answer :: "string \<Rightarrow> proto_client_error + json \<Rightarrow> proto_state \<Rightarrow> proto_state" where
  "proto_answer rid result s =
     (if rid \<in> fst ` set (pss_awaiting s)
        then s\<lparr>pss_awaiting := filter (\<lambda>a. fst a \<noteq> rid) (pss_awaiting s), pss_permits := Suc (pss_permits s),
               pss_answers := pss_answers s @ [(rid, result)]\<rparr>
      else s)"

definition pending_remove_id :: "string \<Rightarrow> proto_state \<Rightarrow> proto_state" where
  "pending_remove_id rid s = s\<lparr>pss_pending := filter (\<lambda>p. fst p \<noteq> rid) (pss_pending s)\<rparr>"

text \<open>
  The end of the task: the pending callers get their error and the cause is published. The reply channels of the
  queued commands are dropped, so their callers read the cause.
\<close>

fun queued_call :: "proto_command \<Rightarrow> string list" where
  "queued_call (PRequest rid op params) = [rid]"
| "queued_call PClose = []"

definition proto_end :: "proto_close_cause \<Rightarrow> proto_state \<Rightarrow> proto_state" where
  "proto_end cause s =
     (let s = fold (\<lambda>(rid, op). proto_answer rid (Inl (proto_pending_error cause op))) (pss_pending s) s;
          s = s\<lparr>pss_pending := [], pss_closed := Some cause\<rparr>;
          s = fold (\<lambda>rid. proto_answer rid (Inl (proto_closed_error s))) (concat (map queued_call (pss_queue s))) s in
      s\<lparr>pss_queue := []\<rparr>)"

text \<open>
  What happens: a caller's step, the socket's or the task's choice. A call with an empty method is refused before
  it counts; a call without a permit waits. A dropped call cancels nothing.
\<close>

datatype proto_event =
    CallBegins string json
  | CallEnqueues
  | CallExpires string
  | CallDrops string
  | CloseEnqueues
  | TaskCancels
  | TaskCommands "string option"
  | TaskReceives proto_message

definition call_enqueues :: "proto_state \<Rightarrow> proto_state" where
  "call_enqueues s =
     (case pss_sending s of
        [] \<Rightarrow> s
      | (rid, op, params) # rest \<Rightarrow>
          if pss_closed s \<noteq> None
            then s\<lparr>pss_sending := rest, pss_permits := Suc (pss_permits s),
                   pss_answers := pss_answers s @ [(rid, Inl (proto_closed_error s))]\<rparr>
          else if length (pss_queue s) < pss_capacity s
            then s\<lparr>pss_sending := rest, pss_queue := pss_queue s @ [PRequest rid op params],
                   pss_awaiting := pss_awaiting s @ [(rid, op)]\<rparr>
          else s)"

definition task_command :: "string option \<Rightarrow> proto_state \<Rightarrow> proto_state" where
  "task_command failed s =
     (case pss_queue s of
        [] \<Rightarrow> s
      | PRequest rid op params # rest \<Rightarrow>
          (let s = s\<lparr>pss_queue := rest\<rparr> in
           case failed of
             Some e \<Rightarrow> proto_answer rid (Inl (PTransport e)) s
           | None \<Rightarrow> (let s = pending_remove_id rid s in s\<lparr>pss_pending := pss_pending s @ [(rid, op)]\<rparr>))
      | PClose # rest \<Rightarrow> proto_end (PcClosed ''closed by client'') (s\<lparr>pss_queue := rest\<rparr>))"

definition task_receive :: "(string \<Rightarrow> string + proto_frame) \<Rightarrow> proto_message \<Rightarrow> proto_state \<Rightarrow> proto_state" where
  "task_receive parse message s =
     (case message of
        PmText text \<Rightarrow>
          (case parse text of
             Inr (PEvent event payload seq) \<Rightarrow> s\<lparr>pss_events := pss_events s @ [(event, payload, seq)]\<rparr>
           | Inr (PResponse rid ok payload error) \<Rightarrow>
               (case map_of (pss_pending s) rid of
                  None \<Rightarrow> s
                | Some op \<Rightarrow> proto_answer rid (proto_response_result op ok payload error) (pending_remove_id rid s))
           | Inl e \<Rightarrow> proto_end (PcInvalidFrame e) s)
      | PmPing failed \<Rightarrow> (case failed of None \<Rightarrow> s | Some e \<Rightarrow> proto_end (PcTransport e) s)
      | PmClose frame \<Rightarrow> proto_end (PcClosed (format_close frame)) s
      | PmOther \<Rightarrow> s
      | PmError e \<Rightarrow> proto_end (PcTransport e) s
      | PmEnd \<Rightarrow> proto_end (PcClosed ''Gateway ended the WebSocket stream'') s)"

definition proto_step :: "(string \<Rightarrow> string + proto_frame) \<Rightarrow> proto_event \<Rightarrow> proto_state \<Rightarrow> proto_state" where
  "proto_step parse event s =
     (case event of
        CallBegins op params \<Rightarrow>
          if op = [] \<or> pss_permits s = 0 then s
          else s\<lparr>pss_permits := pss_permits s - 1, pss_next := pss_next s + 1,
                 pss_sending := pss_sending s @ [(proto_request_id (pss_next s), op, params)]\<rparr>
      | CallEnqueues \<Rightarrow> call_enqueues s
      | CallExpires rid \<Rightarrow>
          (case map_of (pss_awaiting s) rid of
             None \<Rightarrow> s
           | Some op \<Rightarrow> (proto_answer rid (Inl (PRequestTimeout op)) s)\<lparr>pss_cancels := pss_cancels s @ [rid]\<rparr>)
      | CallDrops rid \<Rightarrow>
          if rid \<in> fst ` set (pss_sending s) \<union> fst ` set (pss_awaiting s)
            then s\<lparr>pss_sending := filter (\<lambda>c. fst c \<noteq> rid) (pss_sending s),
                   pss_awaiting := filter (\<lambda>a. fst a \<noteq> rid) (pss_awaiting s),
                   pss_permits := Suc (pss_permits s), pss_dropped := pss_dropped s @ [rid]\<rparr>
          else s
      | CloseEnqueues \<Rightarrow>
          if pss_closed s = None \<and> length (pss_queue s) < pss_capacity s
            then s\<lparr>pss_queue := pss_queue s @ [PClose]\<rparr> else s
      | TaskCancels \<Rightarrow>
          (case pss_cancels s of
             rid # rest \<Rightarrow> if pss_closed s = None then pending_remove_id rid (s\<lparr>pss_cancels := rest\<rparr>) else s
           | [] \<Rightarrow> s)
      | TaskCommands failed \<Rightarrow> if pss_closed s = None then task_command failed s else s
      | TaskReceives message \<Rightarrow> if pss_closed s = None then task_receive parse message s else s)"

definition proto_run :: "(string \<Rightarrow> string + proto_frame) \<Rightarrow> proto_event list \<Rightarrow> proto_state \<Rightarrow> proto_state" where
  "proto_run parse events s = fold (proto_step parse) events s"

section \<open>The connect request\<close>

text \<open>What the environment does in a connect: the dial, what arrives, how the write ends, the clock of the signer.\<close>

record proto_connect_env =
  pce_dial_failed :: "string option"
  pce_arrivals :: "proto_arrival list"
  pce_write_failed :: "string option"
  pce_clock :: "nat option"

record proto_connected =
  pcs_hello :: json
  pcs_activated :: bool
  pcs_state :: proto_state

text \<open>
  The identity the options hold is apart from them here: the field of the shared record is for the signers of the
  later client.
\<close>

definition proto_finalize_identity ::
  "identity_crypto \<Rightarrow> nat option \<Rightarrow> string \<Rightarrow> node_connect_options \<Rightarrow> node_identity option \<Rightarrow>
   proto_identity_error + node_connect_options" where
  "proto_finalize_identity cr clock nonce opts0 identity =
     (let opts = (if activated opts0
        then opts0\<lparr>advertised_caps := declared_caps opts0, advertised_commands := declared_commands opts0,
          advertised_permissions := declared_permissions opts0\<rparr>
        else opts0) in
      case identity of
        None \<Rightarrow> Inr opts
      | Some identity \<Rightarrow>
          bind_result (proto_sign_connect cr clock identity nonce (ci_platform (opt_client opts))
              (ci_device_family (opt_client opts)) (Option.bind (opt_auth opts) signature_token))
            (\<lambda>proof. Inr (opts\<lparr>opt_device := Some proof\<rparr>)))"

definition proto_connect_id :: string where "proto_connect_id = ''rust-node-connect-1''"

text \<open>The result, none while the connect still waits, and the requests it wrote.\<close>

definition proto_connect ::
  "(string \<Rightarrow> string + gateway_url) \<Rightarrow> (string \<Rightarrow> string + proto_frame) \<Rightarrow> proto_config \<Rightarrow>
   identity_crypto \<Rightarrow> (string \<Rightarrow> string + node_connect_options \<times> node_identity option) \<Rightarrow> proto_connect_env \<Rightarrow>
   (proto_client_error + proto_connected) option \<times> json list" where
  "proto_connect parse_url parse config cr make_options env =
     (case proto_validate_gateway_url parse_url (pc_gateway_url config) of
        Inl e \<Rightarrow> (Some (Inl e), [])
      | Inr _ \<Rightarrow>
     (case pce_dial_failed env of
        Some e \<Rightarrow> (Some (Inl (PTransport e)), [])
      | None \<Rightarrow>
     (case proto_wait_for_challenge parse (pce_arrivals env) of
        (None, rest) \<Rightarrow> (None, [])
      | (Some (Inl e), rest) \<Rightarrow> (Some (Inl e), [])
      | (Some (Inr nonce), rest) \<Rightarrow>
     (case make_options nonce of
        Inl e \<Rightarrow> (Some (Inl (PConnectParams e)), [])
      | Inr (opts, identity) \<Rightarrow>
     (case proto_finalize_identity cr (pce_clock env) nonce opts identity of
        Inl e \<Rightarrow> (Some (Inl (PIdentity e)), [])
      | Inr opts \<Rightarrow>
     (case pce_write_failed env of
        Some e \<Rightarrow> (Some (Inl (PTransport e)), [])
      | None \<Rightarrow>
          (map_option (map_sum id (\<lambda>hello. \<lparr>pcs_hello = hello, pcs_activated = activated opts,
                pcs_state = proto_session_start config\<rparr>))
             (fst (proto_wait_for_response parse proto_connect_id ''connect'' rest)),
           [request_frame proto_connect_id ''connect'' (options_json opts)])))))))"

section \<open>What a call may count on\<close>

text \<open>The calls by what became of them: to be queued, waiting for a reply, answered, dropped.\<close>

definition call_ids :: "proto_state \<Rightarrow> string list" where
  "call_ids s = map fst (pss_sending s) @ map fst (pss_awaiting s) @ map fst (pss_answers s) @ pss_dropped s"

definition proto_queued :: "proto_state \<Rightarrow> string list" where
  "proto_queued s = concat (map queued_call (pss_queue s))"

text \<open>\<open>s'\<close> has the calls of \<open>s\<close>, some of those that waited for a reply answered.\<close>

definition settles :: "proto_state \<Rightarrow> proto_state \<Rightarrow> bool" where
  "settles s s' \<longleftrightarrow> mset (call_ids s') = mset (call_ids s) \<and>
     pss_permits s' + length (pss_awaiting s') = pss_permits s + length (pss_awaiting s) \<and>
     pss_sending s' = pss_sending s \<and> pss_dropped s' = pss_dropped s \<and> pss_cancels s' = pss_cancels s \<and>
     pss_capacity s' = pss_capacity s \<and> pss_next s' = pss_next s \<and>
     set (pss_answers s) \<subseteq> set (pss_answers s')"

lemma settles_refl: "settles s s" by (simp add: settles_def)

lemma settles_trans: "settles s t \<Longrightarrow> settles t u \<Longrightarrow> settles s u" by (auto simp: settles_def)

lemma filter_distinct_key:
  "distinct (map fst ps) \<Longrightarrow> k \<in> fst ` set ps \<Longrightarrow>
   add_mset k (mset (map fst (filter (\<lambda>p. fst p \<noteq> k) ps))) = mset (map fst ps) \<and>
   Suc (length (filter (\<lambda>p. fst p \<noteq> k) ps)) = length ps"
proof (induction ps)
  case (Cons p ps)
  show ?case
  proof (cases "fst p = k")
    case True
    then have "filter (\<lambda>p. fst p \<noteq> k) ps = ps" using Cons.prems by (auto simp: filter_id_conv image_iff)
    then show ?thesis using True by simp
  next
    case False
    then show ?thesis using Cons by auto
  qed
qed simp

lemma proto_answer_settles: "distinct (call_ids s) \<Longrightarrow> settles s (proto_answer rid r s)"
  using filter_distinct_key [of "pss_awaiting s" rid]
  by (auto simp: settles_def proto_answer_def call_ids_def)

lemma proto_answer_fields:
  "pss_awaiting (proto_answer rid r s) = filter (\<lambda>a. fst a \<noteq> rid) (pss_awaiting s)"
  "pss_queue (proto_answer rid r s) = pss_queue s" "pss_pending (proto_answer rid r s) = pss_pending s"
  "pss_closed (proto_answer rid r s) = pss_closed s" "pss_cancels (proto_answer rid r s) = pss_cancels s"
  "pss_sending (proto_answer rid r s) = pss_sending s" "pss_events (proto_answer rid r s) = pss_events s"
  by (auto simp: proto_answer_def image_iff intro!: filter_True [symmetric])

lemma settles_distinct: "settles s s' \<Longrightarrow> distinct (call_ids s) \<Longrightarrow> distinct (call_ids s')"
  using mset_eq_imp_distinct_iff by (auto simp: settles_def)

lemma fold_answers:
  assumes "distinct (call_ids s)"
  shows "settles s (fold (\<lambda>x. proto_answer (f x) (g x)) xs s) \<and>
    pss_awaiting (fold (\<lambda>x. proto_answer (f x) (g x)) xs s) = filter (\<lambda>a. fst a \<notin> f ` set xs) (pss_awaiting s) \<and>
    pss_queue (fold (\<lambda>x. proto_answer (f x) (g x)) xs s) = pss_queue s \<and>
    pss_closed (fold (\<lambda>x. proto_answer (f x) (g x)) xs s) = pss_closed s \<and>
    pss_events (fold (\<lambda>x. proto_answer (f x) (g x)) xs s) = pss_events s \<and>
    pss_pending (fold (\<lambda>x. proto_answer (f x) (g x)) xs s) = pss_pending s"
  using assms
proof (induction xs arbitrary: s)
  case Nil then show ?case by (simp add: settles_refl)
next
  case (Cons x xs)
  let ?t = "proto_answer (f x) (g x) s"
  have t: "settles s ?t" using proto_answer_settles Cons.prems by blast
  show ?case
    using Cons.IH [OF settles_distinct [OF t Cons.prems]] settles_trans [OF t]
    by (auto simp: proto_answer_fields intro: filter_cong)
qed

lemma settles_update:
  "settles s (t\<lparr>pss_pending := p\<rparr>) = settles s t" "settles s (t\<lparr>pss_queue := q\<rparr>) = settles s t"
  "settles s (t\<lparr>pss_closed := c\<rparr>) = settles s t" "settles s (t\<lparr>pss_events := ev\<rparr>) = settles s t"
  "settles (s\<lparr>pss_pending := p\<rparr>) t = settles s t" "settles (s\<lparr>pss_queue := q\<rparr>) t = settles s t"
  "settles (s\<lparr>pss_closed := c\<rparr>) t = settles s t"
  by (simp_all add: settles_def call_ids_def)

lemma call_ids_update [simp]:
  "call_ids (s\<lparr>pss_pending := p\<rparr>) = call_ids s" "call_ids (s\<lparr>pss_queue := q\<rparr>) = call_ids s"
  "call_ids (s\<lparr>pss_closed := c\<rparr>) = call_ids s" "call_ids (s\<lparr>pss_events := ev\<rparr>) = call_ids s"
  "call_ids (s\<lparr>pss_cancels := cs\<rparr>) = call_ids s"
  by (simp_all add: call_ids_def)

definition tracked :: "proto_state \<Rightarrow> bool" where
  "tracked s \<longleftrightarrow> (case pss_closed s of
       None \<Rightarrow> fst ` set (pss_awaiting s) \<subseteq> set (proto_queued s) \<union> fst ` set (pss_pending s)
     | Some _ \<Rightarrow> pss_awaiting s = [] \<and> pss_queue s = [] \<and> pss_pending s = [])"

text \<open>The end of the task answers whoever waits.\<close>

lemma proto_end_keeps:
  assumes "distinct (call_ids s)"
    and "fst ` set (pss_awaiting s) \<subseteq> set (proto_queued s) \<union> fst ` set (pss_pending s)"
  shows "settles s (proto_end cause s) \<and> tracked (proto_end cause s) \<and> pss_closed (proto_end cause s) = Some cause"
proof -
  define t where "t = fold (\<lambda>p. proto_answer (fst p) (Inl (proto_pending_error cause (snd p)))) (pss_pending s) s"
  define u where "u = t\<lparr>pss_pending := [], pss_closed := Some cause\<rparr>"
  define v where "v = fold (\<lambda>rid. proto_answer rid (Inl (proto_closed_error u))) (proto_queued u) u"
  have t: "settles s t" "pss_awaiting t = filter (\<lambda>a. fst a \<notin> fst ` set (pss_pending s)) (pss_awaiting s)"
    "pss_queue t = pss_queue s"
    unfolding t_def
    using fold_answers [OF assms(1), of fst "\<lambda>p. Inl (proto_pending_error cause (snd p))" "pss_pending s"] by simp_all
  have u: "distinct (call_ids u)" "pss_awaiting u = pss_awaiting t" "proto_queued u = proto_queued s"
    using settles_distinct [OF t(1) assms(1)] t(3) by (simp_all add: u_def proto_queued_def)
  have v: "settles u v" "pss_awaiting v = filter (\<lambda>a. fst a \<notin> set (proto_queued u)) (pss_awaiting u)"
    "pss_closed v = Some cause" "pss_pending v = []"
    unfolding v_def
    using fold_answers [OF u(1), of "\<lambda>rid. rid" "\<lambda>_. Inl (proto_closed_error u)" "proto_queued u"]
    by (simp_all add: u_def)
  have e: "proto_end cause s = v\<lparr>pss_queue := []\<rparr>"
    by (simp add: proto_end_def Let_def case_prod_unfold proto_queued_def v_def u_def t_def)
  have "pss_awaiting v = []" using assms(2) by (auto simp: v(2) u(2,3) t(2) filter_empty_conv)
  moreover have "settles s u" using t(1) by (simp add: u_def settles_update)
  then have "settles s v" using v(1) settles_trans by blast
  ultimately show ?thesis using v(3,4) unfolding e by (simp add: settles_update tracked_def)
qed

text \<open>A step that starts no call moves calls and permits, and a cancelled call is an answered one.\<close>

definition moves :: "proto_state \<Rightarrow> proto_state \<Rightarrow> bool" where
  "moves s s' \<longleftrightarrow> mset (call_ids s') = mset (call_ids s) \<and>
     pss_permits s' + length (pss_sending s') + length (pss_awaiting s') =
       pss_permits s + length (pss_sending s) + length (pss_awaiting s) \<and>
     pss_capacity s' = pss_capacity s \<and> pss_next s' = pss_next s \<and>
     set (pss_cancels s') \<subseteq> set (pss_cancels s) \<union> fst ` set (pss_answers s') \<and>
     set (pss_answers s) \<subseteq> set (pss_answers s')"

definition session_ok :: "proto_state \<Rightarrow> bool" where
  "session_ok s \<longleftrightarrow> distinct (call_ids s) \<and> tracked s \<and> set (pss_cancels s) \<subseteq> fst ` set (pss_answers s)"

lemma settles_moves: "settles s s' \<Longrightarrow> moves s s'" by (auto simp: settles_def moves_def)

lemma proto_queued_simps [simp]:
  "pss_queue s = PRequest rid op params # rest \<Longrightarrow> proto_queued s = rid # concat (map queued_call rest)"
  "pss_queue s = PClose # rest \<Longrightarrow> proto_queued s = concat (map queued_call rest)"
  by (simp_all add: proto_queued_def)

lemma call_enqueues_keeps: "session_ok s \<Longrightarrow> moves s (call_enqueues s) \<and> tracked (call_enqueues s)"
  by (auto simp: session_ok_def call_enqueues_def moves_def tracked_def call_ids_def proto_queued_def
      split: list.splits option.splits)

lemma call_expires_keeps:
  assumes "session_ok s"
  shows "moves s (proto_step parse (CallExpires rid) s) \<and> tracked (proto_step parse (CallExpires rid) s)"
proof (cases "map_of (pss_awaiting s) rid")
  case None
  then show ?thesis using assms by (simp add: proto_step_def moves_def session_ok_def)
next
  case (Some op)
  let ?t = "proto_answer rid (Inl (PRequestTimeout op)) s"
  have "settles s ?t" using assms proto_answer_settles by (simp add: session_ok_def)
  moreover have "rid \<in> fst ` set (pss_answers ?t)"
    using map_of_SomeD [OF Some] by (force simp: proto_answer_def)
  moreover have "tracked ?t"
    using assms by (auto simp: session_ok_def tracked_def proto_answer_fields proto_queued_def split: option.splits)
  ultimately show ?thesis
    using Some by (auto simp: proto_step_def settles_def moves_def tracked_def proto_queued_def call_ids_def
        split: option.splits)
qed

lemma call_drops_keeps:
  assumes "session_ok s"
  shows "moves s (proto_step parse (CallDrops rid) s) \<and> tracked (proto_step parse (CallDrops rid) s)"
proof -
  have d: "distinct (map fst (pss_sending s))" "distinct (map fst (pss_awaiting s))"
    "fst ` set (pss_sending s) \<inter> fst ` set (pss_awaiting s) = {}"
    using assms by (auto simp: session_ok_def call_ids_def)
  have keep: "filter (\<lambda>p. fst p \<noteq> rid) xs = xs" if "rid \<notin> fst ` set xs" for xs :: "(string \<times> 'b) list"
    using that by (auto simp: filter_id_conv image_iff)
  consider "rid \<in> fst ` set (pss_sending s)" "rid \<notin> fst ` set (pss_awaiting s)"
    | "rid \<in> fst ` set (pss_awaiting s)" "rid \<notin> fst ` set (pss_sending s)"
    | "rid \<notin> fst ` set (pss_sending s) \<union> fst ` set (pss_awaiting s)" using d(3) by auto
  then have "moves s (proto_step parse (CallDrops rid) s)"
  proof cases
    case 1
    then show ?thesis
      using filter_distinct_key [OF d(1) 1(1)] by (auto simp: proto_step_def moves_def call_ids_def keep)
  next
    case 2
    then show ?thesis
      using filter_distinct_key [OF d(2) 2(1)] by (auto simp: proto_step_def moves_def call_ids_def keep)
  next
    case 3
    then show ?thesis by (simp add: proto_step_def moves_def)
  qed
  moreover have "tracked (proto_step parse (CallDrops rid) s)"
    using assms by (auto simp: session_ok_def proto_step_def tracked_def proto_queued_def split: option.splits)
  ultimately show ?thesis by blast
qed

lemma pending_remove_settles:
  "settles s (pending_remove_id rid t) = settles s t" "settles (pending_remove_id rid s) t = settles s t"
  "call_ids (pending_remove_id rid s) = call_ids s"
  by (simp_all add: pending_remove_id_def settles_update)

text \<open>A step of the running task that ends with nobody waiting unheard.\<close>

lemma task_command_keeps:
  assumes "session_ok s" and "pss_closed s = None"
  shows "settles s (task_command failed s) \<and> tracked (task_command failed s)"
proof -
  have d: "distinct (call_ids s)" and a: "fst ` set (pss_awaiting s) \<subseteq> set (proto_queued s) \<union> fst ` set (pss_pending s)"
    using assms by (auto simp: session_ok_def tracked_def)
  show ?thesis
  proof (cases "pss_queue s")
    case Nil
    then show ?thesis using assms by (simp add: task_command_def settles_refl session_ok_def)
  next
    case (Cons command rest)
    show ?thesis
    proof (cases command)
      case (PRequest rid op params)
      have r: "settles s (proto_answer rid r (s\<lparr>pss_queue := rest\<rparr>))" for r
        using proto_answer_settles [of "s\<lparr>pss_queue := rest\<rparr>"] d by (simp add: settles_update)
      show ?thesis
        using a r assms(2) Cons PRequest
        by (auto simp: task_command_def Let_def tracked_def proto_answer_fields pending_remove_id_def settles_update
            settles_refl proto_queued_def image_iff split: option.splits)
    next
      case PClose
      then show ?thesis
        using proto_end_keeps [of "s\<lparr>pss_queue := rest\<rparr>"] d a Cons
        by (simp add: task_command_def settles_update) (simp add: proto_queued_def)
    qed
  qed
qed

lemma task_receive_keeps:
  assumes "session_ok s" and "pss_closed s = None"
  shows "settles s (task_receive parse message s) \<and> tracked (task_receive parse message s)"
proof -
  have d: "distinct (call_ids s)" and a: "fst ` set (pss_awaiting s) \<subseteq> set (proto_queued s) \<union> fst ` set (pss_pending s)"
    and s: "tracked s" using assms by (auto simp: session_ok_def tracked_def)
  have e: "settles s (proto_end cause s)" "tracked (proto_end cause s)" for cause
    using proto_end_keeps [OF d a] by blast+
  have r: "settles s (proto_answer rid r (pending_remove_id rid s))"
    "tracked (proto_answer rid r (pending_remove_id rid s))" for rid r
    using proto_answer_settles [of "pending_remove_id rid s"] d a assms(2)
    by (simp_all only: pending_remove_settles)
      (auto simp: tracked_def proto_answer_fields pending_remove_id_def proto_queued_def image_iff split: option.splits)
  have ev: "tracked (s\<lparr>pss_events := v\<rparr>)" for v using s by (simp add: tracked_def proto_queued_def split: option.splits)
  show ?thesis
    by (auto simp: task_receive_def e r ev s settles_update settles_refl split: proto_message.splits sum.splits
        proto_frame.splits option.splits)
qed

text \<open>A cancelled call waits no longer, so its pending entry can go.\<close>

lemma task_cancels_keeps:
  assumes "session_ok s"
  shows "moves s (proto_step parse TaskCancels s) \<and> tracked (proto_step parse TaskCancels s)"
proof (cases "pss_closed s = None \<and> pss_cancels s \<noteq> []")
  case False
  then show ?thesis
    using assms by (auto simp: proto_step_def moves_def session_ok_def split: list.splits)
next
  case True
  then obtain rid rest where c: "pss_cancels s = rid # rest" by (cases "pss_cancels s") auto
  have "rid \<in> fst ` set (pss_answers s)" using assms c by (simp add: session_ok_def)
  then have r: "rid \<notin> fst ` set (pss_awaiting s)" using assms by (auto simp: session_ok_def call_ids_def)
  have a: "fst ` set (pss_awaiting s) \<subseteq> set (proto_queued s) \<union> fst ` set (pss_pending s)"
    using assms True by (simp add: session_ok_def tracked_def)
  have "x \<in> set (proto_queued s) \<union> fst ` set (filter (\<lambda>p. fst p \<noteq> rid) (pss_pending s))"
    if x: "x \<in> fst ` set (pss_awaiting s)" for x
  proof (cases "x \<in> set (proto_queued s)")
    case False
    then have "x \<in> fst ` set (pss_pending s)" using subsetD [OF a x] by simp
    then obtain p where "p \<in> set (pss_pending s)" "fst p = x" by (auto elim!: imageE)
    moreover have "x \<noteq> rid" using r x by metis
    ultimately show ?thesis by (auto intro!: rev_image_eqI [of p])
  qed simp
  then have "fst ` set (pss_awaiting s) \<subseteq> set (proto_queued s) \<union> fst ` set (filter (\<lambda>p. fst p \<noteq> rid) (pss_pending s))"
    by (rule subsetI)
  moreover have "proto_step parse TaskCancels s =
      s\<lparr>pss_cancels := rest, pss_pending := filter (\<lambda>p. fst p \<noteq> rid) (pss_pending s)\<rparr>" (is "_ = ?t")
    using True c by (simp add: proto_step_def pending_remove_id_def)
  moreover have "moves s ?t" using c by (auto simp: moves_def call_ids_def)
  moreover have "proto_queued ?t = proto_queued s" by (simp add: proto_queued_def)
  ultimately show ?thesis using True by (simp add: tracked_def del: set_filter)
qed

lemma moves_refl: "moves s s" by (simp add: moves_def)

text \<open>Every step but the start of a call.\<close>

lemma proto_step_moves:
  assumes "session_ok s" and "\<And>op params. event \<noteq> CallBegins op params"
  shows "moves s (proto_step parse event s) \<and> tracked (proto_step parse event s)"
proof (cases event)
  case CallEnqueues
  then show ?thesis using call_enqueues_keeps [OF assms(1)] by (simp add: proto_step_def)
next
  case (CallExpires rid)
  then show ?thesis using call_expires_keeps [OF assms(1)] by blast
next
  case (CallDrops rid)
  then show ?thesis using call_drops_keeps [OF assms(1)] by blast
next
  case CloseEnqueues
  have "proto_queued (s\<lparr>pss_queue := pss_queue s @ [PClose]\<rparr>) = proto_queued s" by (simp add: proto_queued_def)
  then show ?thesis
    using CloseEnqueues assms(1)
    by (simp add: proto_step_def settles_moves settles_update settles_refl session_ok_def tracked_def
        split: option.splits)
next
  case TaskCancels
  then show ?thesis
    using task_cancels_keeps [OF assms(1)] by blast
next
  case (TaskCommands failed)
  then show ?thesis
    using task_command_keeps [OF assms(1)] settles_moves assms(1)
    by (auto simp: proto_step_def moves_refl session_ok_def)
next
  case (TaskReceives message)
  then show ?thesis
    using task_receive_keeps [OF assms(1)] settles_moves assms(1)
    by (auto simp: proto_step_def moves_refl session_ok_def)
qed (use assms(2) in simp)

text \<open>The identifiers of the first \<open>k\<close> calls.\<close>

definition proto_ids :: "nat \<Rightarrow> string list" where
  "proto_ids k = map (\<lambda>n. proto_request_id (word_of_nat n)) [1..<Suc k]"

lemma proto_request_id_inject: "proto_request_id a = proto_request_id b \<longleftrightarrow> a = b"
  by (auto simp: proto_request_id_def show_nat_inject intro: unsigned_word_eqI)

lemma proto_ids_distinct: "k < 2 ^ 64 - 1 \<Longrightarrow> distinct (proto_ids k)"
  by (auto simp: proto_ids_def distinct_map inj_on_def proto_request_id_inject word_of_nat_eq_iff
      take_bit_nat_eq_self)

lemma proto_run_keeps:
  assumes "length events < 2 ^ 64 - 1" and "s = proto_run parse events (proto_session_start config)"
  shows "session_ok s \<and>
    pss_permits s + length (pss_sending s) + length (pss_awaiting s) = max (pc_max_in_flight config) 1 \<and>
    (\<exists>k \<le> length events. pss_next s = word_of_nat (Suc k) \<and> mset (call_ids s) = mset (proto_ids k))"
  using assms(1) unfolding assms(2)
proof (induction events rule: rev_induct)
  case Nil
  show ?case by (simp add: proto_run_def proto_session_start_def session_ok_def call_ids_def tracked_def proto_ids_def)
next
  case (snoc event events)
  let ?s = "proto_run parse events (proto_session_start config)"
  let ?t = "proto_run parse (events @ [event]) (proto_session_start config)"
  have t: "?t = proto_step parse event ?s" by (simp add: proto_run_def)
  obtain k where s: "session_ok ?s"
      "pss_permits ?s + length (pss_sending ?s) + length (pss_awaiting ?s) = max (pc_max_in_flight config) 1"
    and k: "k \<le> length events" "pss_next ?s = word_of_nat (Suc k)" "mset (call_ids ?s) = mset (proto_ids k)"
    using snoc by auto
  have "(\<forall>op params. event \<noteq> CallBegins op params) \<or> ?t = ?s \<or>
      (\<exists>op params. pss_permits ?s \<noteq> 0 \<and> ?t = ?s\<lparr>pss_permits := pss_permits ?s - 1, pss_next := pss_next ?s + 1,
         pss_sending := pss_sending ?s @ [(proto_request_id (pss_next ?s), op, params)]\<rparr>)"
    unfolding t by (cases event) (auto simp: proto_step_def)
  then consider "moves ?s ?t" "tracked ?t"
    | op params where "pss_permits ?s \<noteq> 0" "?t = ?s\<lparr>pss_permits := pss_permits ?s - 1, pss_next := pss_next ?s + 1,
        pss_sending := pss_sending ?s @ [(proto_request_id (pss_next ?s), op, params)]\<rparr>"
    using proto_step_moves [OF s(1), of event parse] s(1) moves_refl [of ?s] unfolding t
    by (auto simp: session_ok_def)
  then show ?case
  proof cases
    case 1
    have "distinct (call_ids ?t)" using 1(1) s(1) mset_eq_imp_distinct_iff by (auto simp: moves_def session_ok_def)
    moreover have "fst ` set (pss_answers ?s) \<subseteq> fst ` set (pss_answers ?t)"
      "set (pss_cancels ?t) \<subseteq> set (pss_cancels ?s) \<union> fst ` set (pss_answers ?t)"
      using 1(1) image_mono by (auto simp: moves_def)
    ultimately have "session_ok ?t" using 1(2) s(1) unfolding session_ok_def by blast
    moreover have "pss_next ?t = word_of_nat (Suc k) \<and> mset (call_ids ?t) = mset (proto_ids k)"
      using 1(1) k by (simp add: moves_def)
    ultimately show ?thesis using 1(1) s(2) k(1) by (auto simp: moves_def intro: exI [of _ k])
  next
    case 2
    have m: "mset (call_ids ?t) = mset (proto_ids (Suc k))"
      using k(2,3) unfolding 2(2) by (simp add: call_ids_def proto_ids_def)
    have "distinct (proto_ids (Suc k))" using proto_ids_distinct k(1) snoc.prems by simp
    then have "distinct (call_ids ?t)" using m mset_eq_imp_distinct_iff by metis
    then have "session_ok ?t"
      using s(1) unfolding 2(2) by (auto simp: session_ok_def tracked_def proto_queued_def split: option.splits)
    moreover have "pss_next ?t = word_of_nat (Suc (Suc k))" using k(2) unfolding 2(2) by (simp add: add.commute)
    moreover have "pss_permits ?t + length (pss_sending ?t) + length (pss_awaiting ?t) = max (pc_max_in_flight config) 1"
      using s(2) 2(1) unfolding 2(2) by simp
    ultimately show ?thesis using m k(1) by (auto intro: exI [of _ "Suc k"])
  qed
qed

section \<open>Timed out calls that stay pending\<close>

text \<open>
  One call whose timeout fires while its request is still queued: the task takes the cancellation first, then
  writes the request and keeps it pending.
\<close>

definition stale_round :: "nat \<Rightarrow> proto_event list" where
  "stale_round n =
     [CallBegins ''status'' JNull, CallEnqueues, CallExpires (proto_request_id (word_of_nat (Suc n))), TaskCancels,
      TaskCommands None]"

definition stale_run :: "nat \<Rightarrow> proto_event list" where "stale_run n = concat (map stale_round [0..<n])"

definition stale_state :: "proto_config \<Rightarrow> nat \<Rightarrow> proto_state" where
  "stale_state config n = (proto_session_start config)
     \<lparr>pss_next := word_of_nat (Suc n), pss_pending := map (\<lambda>rid. (rid, ''status'')) (proto_ids n),
      pss_answers := map (\<lambda>rid. (rid, Inl (PRequestTimeout ''status''))) (proto_ids n)\<rparr>"

lemma proto_ids_Suc: "proto_ids (Suc n) = proto_ids n @ [proto_request_id (word_of_nat (Suc n))]"
  by (simp add: proto_ids_def)

lemma round_stays:
  assumes "pss_closed s = None" and "pss_sending s = []" and "pss_queue s = []" and "pss_awaiting s = []"
    and "pss_cancels s = []" and "0 < pss_permits s" and "0 < pss_capacity s"
    and "rid = proto_request_id (pss_next s)" and "filter (\<lambda>p. fst p \<noteq> rid) (pss_pending s) = pss_pending s"
  shows "proto_run parse [CallBegins ''status'' JNull, CallEnqueues, CallExpires rid, TaskCancels, TaskCommands None] s =
    s\<lparr>pss_next := pss_next s + 1, pss_pending := pss_pending s @ [(rid, ''status'')],
      pss_answers := pss_answers s @ [(rid, Inl (PRequestTimeout ''status''))]\<rparr>"
proof -
  let ?s1 = "s\<lparr>pss_permits := pss_permits s - 1, pss_next := pss_next s + 1, pss_sending := [(rid, ''status'', JNull)]\<rparr>"
  let ?s2 = "?s1\<lparr>pss_sending := [], pss_queue := [PRequest rid ''status'' JNull], pss_awaiting := [(rid, ''status'')]\<rparr>"
  let ?s3 = "?s2\<lparr>pss_awaiting := [], pss_permits := pss_permits s, pss_cancels := [rid],
      pss_answers := pss_answers s @ [(rid, Inl (PRequestTimeout ''status''))]\<rparr>"
  let ?s4 = "?s3\<lparr>pss_cancels := []\<rparr>"
  have "proto_step parse (CallBegins ''status'' JNull) s = ?s1" using assms by (simp add: proto_step_def)
  moreover have "proto_step parse CallEnqueues ?s1 = ?s2" using assms by (simp add: proto_step_def call_enqueues_def)
  moreover have "proto_step parse (CallExpires rid) ?s2 = ?s3" using assms by (simp add: proto_step_def proto_answer_def)
  moreover have "proto_step parse TaskCancels ?s3 = ?s4" using assms by (simp add: proto_step_def pending_remove_id_def)
  moreover have "proto_step parse (TaskCommands None) ?s4 =
      s\<lparr>pss_next := pss_next s + 1, pss_pending := pss_pending s @ [(rid, ''status'')],
        pss_answers := pss_answers s @ [(rid, Inl (PRequestTimeout ''status''))]\<rparr>"
    using assms by (simp add: proto_step_def task_command_def pending_remove_id_def Let_def)
  ultimately show ?thesis by (simp only: proto_run_def fold_simps o_apply id_apply)
qed

lemma stale_round_state:
  assumes "Suc n < 2 ^ 64 - 1"
  shows "proto_run parse (stale_round n) (stale_state config n) = stale_state config (Suc n)"
proof -
  let ?new = "proto_request_id (word_of_nat (Suc n))" and ?s = "stale_state config n"
  have "?new \<notin> set (proto_ids n)" using proto_ids_distinct [OF assms] unfolding proto_ids_Suc by simp
  then have "filter (\<lambda>p. fst p \<noteq> ?new) (pss_pending ?s) = pss_pending ?s"
    by (auto simp: filter_id_conv stale_state_def)
  then have "proto_run parse (stale_round n) ?s =
      ?s\<lparr>pss_next := pss_next ?s + 1, pss_pending := pss_pending ?s @ [(?new, ''status'')],
        pss_answers := pss_answers ?s @ [(?new, Inl (PRequestTimeout ''status''))]\<rparr>"
    unfolding stale_round_def by (intro round_stays) (simp_all add: stale_state_def proto_session_start_def)
  then show ?thesis by (simp add: stale_state_def proto_ids_Suc add.commute)
qed

lemma stale_run_state: "n < 2 ^ 64 - 1 \<Longrightarrow> proto_run parse (stale_run n) (proto_session_start config) = stale_state config n"
proof (induction n)
  case 0
  show ?case by (simp add: stale_run_def proto_run_def stale_state_def proto_session_start_def proto_ids_def)
next
  case (Suc n)
  have "proto_run parse (stale_run (Suc n)) (proto_session_start config) =
      proto_run parse (stale_round n) (proto_run parse (stale_run n) (proto_session_start config))"
    by (simp add: stale_run_def proto_run_def)
  then show ?case using Suc stale_round_state [of n parse config] by simp
qed

section \<open>What a connect waited for\<close>

lemma next_frame_text:
  "proto_next_frame parse message = Some (Inr frame) \<longleftrightarrow> (\<exists>text. message = PmText text \<and> parse text = Inr frame)"
  by (auto simp: proto_next_frame_def split: proto_message.splits sum.splits)

definition challenge_text :: "(string \<Rightarrow> string + proto_frame) \<Rightarrow> string \<Rightarrow> string \<Rightarrow> bool" where
  "challenge_text parse nonce text \<longleftrightarrow>
     (\<exists>payload seq. parse text = Inr (PEvent ''connect.challenge'' payload seq) \<and> proto_nonce_of payload = Inr nonce)"

definition answer_text :: "(string \<Rightarrow> string + proto_frame) \<Rightarrow> string \<Rightarrow> json \<Rightarrow> string \<Rightarrow> bool" where
  "answer_text parse rid hello text \<longleftrightarrow> (\<exists>error. parse text = Inr (PResponse rid True hello error))"

definition came :: "(string \<Rightarrow> bool) \<Rightarrow> proto_arrival list \<Rightarrow> proto_arrival list \<Rightarrow> bool" where
  "came P arrivals rest \<longleftrightarrow> (\<exists>before text. arrivals = before @ PArrives (PmText text) # rest \<and> P text)"

lemma came_later: "came P later rest \<Longrightarrow> came P (a # later) rest"
  unfolding came_def by (metis append_Cons)

lemma came_now: "P text \<Longrightarrow> came P (PArrives (PmText text) # rest) rest"
  unfolding came_def by (metis append_Nil)

lemma challenge_came:
  "proto_wait_for_challenge parse arrivals = (Some (Inr nonce), rest) \<Longrightarrow> came (challenge_text parse nonce) arrivals rest"
proof (induction parse arrivals rule: proto_wait_for_challenge.induct)
  case (3 parse message later)
  show ?case
  proof (cases "proto_next_frame parse message")
    case None
    then show ?thesis using 3 by (simp add: came_later)
  next
    case (Some read)
    then obtain frame where read: "proto_next_frame parse message = Some (Inr frame)"
      using 3(4) by (cases read) simp_all
    then obtain body where body: "message = PmText body" "parse body = Inr frame" by (auto simp: next_frame_text)
    show ?thesis
    proof (cases frame)
      case (PEvent event payload seq)
      show ?thesis
      proof (cases "event = ''connect.challenge''")
        case True
        then have "proto_nonce_of payload = Inr nonce" "later = rest" using 3(4) read PEvent by simp_all
        then show ?thesis using body True PEvent by (auto simp: challenge_text_def intro: came_now)
      next
        case False
        then show ?thesis using 3(2) [OF Some] 3(4) read PEvent Some by (simp add: came_later)
      qed
    next
      case (PResponse rid ok payload error)
      then show ?thesis using 3(3) [OF Some] 3(4) read Some by (simp add: came_later)
    qed
  qed
qed simp_all

lemma response_ok:
  "proto_response_result op ok payload error = Inr hello \<longleftrightarrow> ok \<and> payload = hello"
  by (simp add: proto_response_result_def Let_def)

lemma response_came:
  "proto_wait_for_response parse expected op arrivals = (Some (Inr hello), rest) \<Longrightarrow>
   came (answer_text parse expected hello) arrivals rest"
proof (induction parse expected op arrivals rule: proto_wait_for_response.induct)
  case (3 parse expected op message later)
  show ?case
  proof (cases "proto_next_frame parse message")
    case None
    then show ?thesis using 3 by (simp add: came_later)
  next
    case (Some read)
    then obtain frame where read: "proto_next_frame parse message = Some (Inr frame)"
      using 3(4) by (cases read) simp_all
    then obtain body where body: "message = PmText body" "parse body = Inr frame" by (auto simp: next_frame_text)
    show ?thesis
    proof (cases frame)
      case (PEvent event payload seq)
      then show ?thesis using 3(2) [OF Some] 3(4) read Some by (simp add: came_later)
    next
      case (PResponse rid ok payload error)
      show ?thesis
      proof (cases "rid = expected")
        case True
        then have "ok" "payload = hello" "later = rest" using 3(4) read PResponse response_ok by auto
        then show ?thesis using body True PResponse by (auto simp: answer_text_def intro: came_now)
      next
        case False
        then show ?thesis using 3(3) [OF Some] 3(4) read PResponse Some by (simp add: came_later)
      qed
    qed
  qed
qed simp_all

section \<open>Properties\<close>

text \<open>
  C32. However the calls, the socket and the task of an earlier session interleave, a call has one fate and keeps its
  permit until then. The calls that wait to be queued, wait for their reply, were answered and were dropped are the
  calls started, each once; the permits free and held are those of the session; and after the task ended no call
  waits for a reply.
\<close>

lemma prototype_calls_settle:
  assumes "length events < 2 ^ 64 - 1" and "s = proto_run parse events (proto_session_start config)"
  shows "distinct (map fst (pss_sending s) @ map fst (pss_awaiting s) @ map fst (pss_answers s) @ pss_dropped s) \<and>
    (\<exists>k \<le> length events. mset (map fst (pss_sending s) @ map fst (pss_awaiting s) @ map fst (pss_answers s)
       @ pss_dropped s) = mset (proto_ids k)) \<and>
    pss_permits s + length (pss_sending s) + length (pss_awaiting s) = max (pc_max_in_flight config) 1 \<and>
    (pss_closed s = None \<or> pss_awaiting s = [])"
  using proto_run_keeps [OF assms]
  by (auto simp: session_ok_def call_ids_def tracked_def add.assoc split: option.splits)

definition demo_proto_events :: "proto_event list" where
  "demo_proto_events =
     [CallBegins ''ping'' JNull, CallEnqueues, TaskCommands None, CallBegins ''list'' JNull, CallEnqueues,
      CallBegins ''help'' JNull, CallDrops (proto_request_id 3), TaskReceives PmEnd]"

definition demo_proto :: proto_state where
  "demo_proto = proto_run (\<lambda>_. Inl ''bad'') demo_proto_events (proto_session_start (proto_config_new ''wss://g''))"

lemma demo_proto_fields:
  "pss_answers demo_proto =
     [(proto_request_id 1, Inl (PClosed ''Gateway ended the WebSocket stream; request ping did not complete'')),
      (proto_request_id 2, Inl (PClosed ''Gateway ended the WebSocket stream''))]"
  "pss_dropped demo_proto = [proto_request_id 3]" "pss_sending demo_proto = []" "pss_closed demo_proto \<noteq> None"
  "pss_awaiting demo_proto = []"
  by (simp_all add: demo_proto_def proto_run_def demo_proto_events_def proto_session_start_def proto_config_new_def
      proto_step_def call_enqueues_def task_command_def task_receive_def proto_answer_def pending_remove_id_def
      proto_end_def proto_closed_error_def pending_suffix_def proto_request_id_inject Let_def)

lemma prototype_calls_settle_witness:
  "pss_permits demo_proto = 64 \<and>
   distinct [proto_request_id 1, proto_request_id 2, proto_request_id 3] \<and> pss_awaiting demo_proto = []"
proof -
  have "length demo_proto_events < 2 ^ 64 - 1" by (simp add: demo_proto_events_def)
  from prototype_calls_settle [OF this demo_proto_def] show ?thesis
    by (auto simp: demo_proto_fields proto_config_new_def)
qed

text \<open>
  C33. A timed out call of the earlier client can stay pending for the rest of the session. For every number of calls
  there is a run after which all of them have returned with a timeout and hold no permit, and every one is pending
  at the task. In the later client the pending requests of a session never exceed its permits.
\<close>

lemma timed_out_calls_stay_pending:
  assumes "n < 2 ^ 64 - 1" and "s = proto_run parse (stale_run n) (proto_session_start config)"
  shows "pss_closed s = None \<and> pss_sending s = [] \<and> pss_awaiting s = [] \<and> pss_cancels s = [] \<and>
    pss_permits s = max (pc_max_in_flight config) 1 \<and>
    pss_answers s = map (\<lambda>rid. (rid, Inl (PRequestTimeout ''status''))) (proto_ids n) \<and>
    map fst (pss_pending s) = proto_ids n \<and> distinct (proto_ids n) \<and> length (proto_ids n) = n \<and>
    length (gt_pending (gateway_run parse' write_timeout ops (task_start (pc_max_in_flight config) hub)))
      \<le> max (pc_max_in_flight config) 1"
proof -
  have "map fst (map (\<lambda>rid. (rid, ''status'')) (proto_ids n)) = proto_ids n" by (simp add: comp_def)
  moreover have "length (gt_pending (gateway_run parse' write_timeout ops (task_start (pc_max_in_flight config) hub)))
      \<le> max (pc_max_in_flight config) 1"
    using gateway_run_keeps [of parse' write_timeout ops "pc_max_in_flight config" hub] by (auto simp: permits_def)
  ultimately show ?thesis
    using stale_run_state [OF assms(1)] proto_ids_distinct [OF assms(1)] assms(2)
    by (simp add: stale_state_def proto_session_start_def) (simp add: proto_ids_def)
qed

lemma timed_out_calls_stay_pending_witness:
  "map fst (pss_pending (proto_run (\<lambda>_. Inl ''bad'') (stale_run 100) (proto_session_start (proto_config_new ''wss://g''))))
     = proto_ids 100 \<and> length (proto_ids 100) = 100"
proof -
  have "(100::nat) < 2 ^ 64 - 1" by simp
  from timed_out_calls_stay_pending [OF this refl, of "\<lambda>_. Inl ''bad''" "proto_config_new ''wss://g''"
      "\<lambda>_. Inl ''bad''" 0 "[]" "hub_new 1 1"]
  show ?thesis by (elim conjE) (intro conjI, assumption+)
qed

text \<open>
  An invocation the earlier client hands over is the one the later client decodes from the same object. The
  later client takes the same objects with the same result, and besides objects with a session key and objects with
  \<open>null\<close> parameters.
\<close>

lemma later_client_decodes_the_same:
  "proto_parse_invocation from_str (JObject kvs) arrival = Inr call \<longleftrightarrow>
     map_of kvs ''sessionKey'' = None \<and> map_of kvs ''paramsJSON'' \<noteq> Some JNull \<and>
     parse_invocation from_str (JObject kvs) arrival = Inr call"
proof (cases "no_unknown_fields invoke_request_fields kvs")
  case False
  then show ?thesis
    by (auto simp: proto_parse_invocation_def parse_invocation_def decode_invocation_def invocation_payload_def
        no_unknown_session)
next
  case True
  then have keys: "no_unknown_fields invocation_fields kvs" "map_of kvs ''sessionKey'' = None"
    by (auto simp: no_unknown_session)
  show ?thesis
  proof (cases "map_of kvs ''paramsJSON'' = Some JNull")
    case null: True
    then have "default_field as_str ''paramsJSON'' kvs = None" by (simp add: default_field_def)
    then have "proto_parse_invocation from_str (JObject kvs) arrival \<noteq> Inr call"
      by (auto simp: proto_parse_invocation_def Option.bind_eq_None_conv split: option.splits Option.bind_splits)
    then show ?thesis using null by simp
  next
    case False
    then have params: "nullable_field as_str ''paramsJSON'' kvs = default_field as_str ''paramsJSON'' kvs"
      by (auto simp: nullable_field_def default_field_def split: option.splits json.splits)
    have session: "nullable_field as_str ''sessionKey'' kvs = Some None" using keys by (simp add: nullable_field_def)
    let ?entries = "Option.bind (required_field as_str ''id'' kvs) (\<lambda>call_id.
      Option.bind (required_field as_str ''nodeId'' kvs) (\<lambda>node_id.
      Option.bind (required_field as_str ''command'' kvs) (\<lambda>command.
      Option.bind (default_field as_str ''paramsJSON'' kvs) (\<lambda>params_json.
      Option.bind (default_field json_as_u64 ''timeoutMs'' kvs) (\<lambda>timeout_ms.
      map_option (\<lambda>idempotency_key. (call_id, node_id, command, params_json, timeout_ms, idempotency_key))
        (default_field as_str ''idempotencyKey'' kvs))))))"
    have payload: "invocation_payload (JObject kvs) =
        map_option (\<lambda>(call_id, node_id, command, params_json, timeout_ms, idempotency_key).
          (call_id, node_id, command, params_json, timeout_ms, idempotency_key, None)) ?entries"
      using keys
      by (cases "default_field as_str ''idempotencyKey'' kvs")
        (simp_all add: invocation_payload_def params session map_option_bind comp_def)
    show ?thesis
    proof (cases ?entries)
      case None
      then show ?thesis
        using True by (simp add: proto_parse_invocation_def parse_invocation_def decode_invocation_def payload)
    next
      case (Some entries)
      obtain i n c p t k where e: "entries = (i, n, c, p, t, k)" by (metis prod_cases6)
      have "decode_invocation from_str (JObject kvs) =
          (case p of
             None \<Rightarrow> Inr \<lparr>dec_id = i, dec_node_id = n, dec_command = c, dec_params = JNull,
               dec_received_params_bytes = Some 0, dec_timeout_ms = t, dec_idempotency_key = k, dec_session_key = None\<rparr>
           | Some text \<Rightarrow>
               (case from_str text of
                  None \<Rightarrow> Inl (InvalidFrame ''invalid invocation paramsJSON'')
                | Some v \<Rightarrow> Inr \<lparr>dec_id = i, dec_node_id = n, dec_command = c, dec_params = v,
                    dec_received_params_bytes = Some (length text), dec_timeout_ms = t, dec_idempotency_key = k,
                    dec_session_key = None\<rparr>))"
        unfolding decode_invocation_def payload Some e by (simp split: option.split)
      moreover have "proto_parse_invocation from_str (JObject kvs) arrival =
          bind_result (proto_non_empty ''invocation id'' i) (\<lambda>i.
          bind_result (proto_non_empty ''invocation node id'' n) (\<lambda>n.
          bind_result (proto_non_empty ''invocation command'' c) (\<lambda>c.
          bind_result (transpose_map (proto_non_empty ''invocation idempotency key'') k) (\<lambda>k.
          bind_result
            (case p of
               Some text \<Rightarrow>
                 (case from_str text of
                    None \<Rightarrow> Inl (PInvalidFrame ''invalid invocation paramsJSON'')
                  | Some v \<Rightarrow> Inr (v, Some (length text)))
             | None \<Rightarrow> Inr (JNull, Some 0))
            (\<lambda>(v, bytes). Inr \<lparr>inv_id = i, inv_node_id = n, inv_command = c, inv_params = v, inv_timeout_ms = t,
               inv_idempotency_key = k, inv_session_key = None, received_params_bytes = bytes,
               received_at = Some arrival\<rparr>)))))"
        using True Some e by (simp add: proto_parse_invocation_def)
      ultimately show ?thesis
        using keys(2) False
        by (auto simp: parse_invocation_def proto_non_empty_def require_non_empty_result_field_def transpose_map_def
            split: option.splits if_splits)
    qed
  qed
qed

text \<open>
  A session of the earlier client exists only after the Gateway's challenge and its answer. On a connect that
  succeeds the URL was allowed, a challenge came with a nonce that is not empty, the options were made and signed for
  that nonce, exactly their request was written, and later the Gateway accepted that request; the session starts
  with every permit.
\<close>

lemma earlier_session_after_hello:
  assumes "proto_connect parse_url parse config cr make_options env = (Some (Inr session), sent)"
  shows "\<exists>nonce opts identity final rest after.
    proto_validate_gateway_url parse_url (pc_gateway_url config) = Inr () \<and> nonce \<noteq> [] \<and>
    came (challenge_text parse nonce) (pce_arrivals env) rest \<and>
    make_options nonce = Inr (opts, identity) \<and>
    proto_finalize_identity cr (pce_clock env) nonce opts identity = Inr final \<and>
    sent = [request_frame proto_connect_id ''connect'' (options_json final)] \<and>
    came (answer_text parse proto_connect_id (pcs_hello session)) rest after \<and>
    pcs_activated session = activated final \<and> pcs_state session = proto_session_start config"
proof -
  let ?wait = "proto_wait_for_challenge parse (pce_arrivals env)"
  have url: "proto_validate_gateway_url parse_url (pc_gateway_url config) = Inr ()"
    using assms by (cases "proto_validate_gateway_url parse_url (pc_gateway_url config)") (simp_all add: proto_connect_def)
  have dial: "pce_dial_failed env = None"
    using assms url by (cases "pce_dial_failed env") (simp_all add: proto_connect_def)
  obtain nonce rest where wait: "?wait = (Some (Inr nonce), rest)"
    using assms url dial
    by (cases ?wait; cases "fst ?wait"; cases "the (fst ?wait)") (simp_all add: proto_connect_def)
  obtain opts identity where opts: "make_options nonce = Inr (opts, identity)"
    using assms url dial wait by (cases "make_options nonce") (auto simp: proto_connect_def)
  obtain final where final: "proto_finalize_identity cr (pce_clock env) nonce opts identity = Inr final"
    using assms url dial wait opts
    by (cases "proto_finalize_identity cr (pce_clock env) nonce opts identity") (simp_all add: proto_connect_def)
  have written: "pce_write_failed env = None"
    using assms url dial wait opts final by (cases "pce_write_failed env") (simp_all add: proto_connect_def)
  obtain result after where answer: "proto_wait_for_response parse proto_connect_id ''connect'' rest = (result, after)"
    by fastforce
  have "map_option (map_sum id (\<lambda>hello. \<lparr>pcs_hello = hello, pcs_activated = activated final,
      pcs_state = proto_session_start config\<rparr>)) result = Some (Inr session)"
    and sent: "sent = [request_frame proto_connect_id ''connect'' (options_json final)]"
    using assms url dial wait opts final written answer by (auto simp: proto_connect_def)
  then obtain hello where hello: "result = Some (Inr hello)"
      "session = \<lparr>pcs_hello = hello, pcs_activated = activated final, pcs_state = proto_session_start config\<rparr>"
    by (cases result; cases "the result") auto
  have "came (challenge_text parse nonce) (pce_arrivals env) rest" using wait challenge_came by blast
  moreover have "nonce \<noteq> []"
    using calculation
    by (auto simp: came_def challenge_text_def proto_nonce_of_def non_empty_def bind_eq_Some_conv
        split: option.splits if_splits)
  moreover have "came (answer_text parse proto_connect_id hello) rest after" using answer hello(1) response_came by blast
  ultimately show ?thesis
    unfolding hello(2) using url opts final sent
    by (intro exI [of _ nonce] exI [of _ opts] exI [of _ identity] exI [of _ final] exI [of _ rest] exI [of _ after]) simp
qed

definition demo_proto_parse :: "string \<Rightarrow> string + proto_frame" where
  "demo_proto_parse t =
     (if t = ''c'' then Inr (PEvent ''connect.challenge'' (JObject [(''nonce'', JString '' n '')]) None)
      else if t = ''h'' then Inr (PResponse proto_connect_id True (JString ''hello'') None)
      else Inl ''bad frame'')"

definition demo_proto_env :: proto_connect_env where
  "demo_proto_env = \<lparr>pce_dial_failed = None,
     pce_arrivals = [PArrives (PmPing None), PArrives (PmText ''c''), PArrives PmOther, PArrives (PmText ''h'')],
     pce_write_failed = None, pce_clock = Some 7\<rparr>"

definition demo_proto_url :: "string \<Rightarrow> string + gateway_url" where
  "demo_proto_url t = Inr \<lparr>url_scheme = ''ws'', url_host = Some (HostIp (IpV4 127 0 0 1))\<rparr>"

definition demo_proto_options :: "string \<Rightarrow> string + node_connect_options \<times> node_identity option" where
  "demo_proto_options nonce = Inr (activate_options (with_command ''status'' (options_new ''1'' ''linux'')), None)"

lemma demo_proto_connect:
  "map_option (map_sum (\<lambda>_. ()) pcs_hello) (fst (proto_connect demo_proto_url demo_proto_parse
     (proto_config_new ''ws://127.0.0.1'') demo_crypto demo_proto_options demo_proto_env)) = Some (Inr (JString ''hello''))"
proof -
  have "trim '' n '' = ''n''" by code_simp
  then have nonce: "proto_nonce_of (JObject [(''nonce'', JString '' n '')]) = Inr ''n''"
    by (simp add: proto_nonce_of_def non_empty_def json_get_def)
  have opts: "proto_finalize_identity demo_crypto (Some 7) ''n'' (activate_options (with_command ''status'' (options_new ''1'' ''linux''))) None =
      Inr (activate_options (with_command ''status'' (options_new ''1'' ''linux''))\<lparr>advertised_commands := [''status'']\<rparr>)"
    by (simp add: proto_finalize_identity_def activate_options_def with_command_def options_new_def)
  show ?thesis
    by (simp add: proto_connect_def proto_validate_gateway_url_def demo_proto_url_def is_loopback_host_def
        ipv4_is_loopback_def demo_proto_env_def proto_next_frame_def demo_proto_parse_def nonce demo_proto_options_def
        opts response_ok)
qed

lemma earlier_session_after_hello_witness:
  "\<exists>session sent nonce rest. proto_connect demo_proto_url demo_proto_parse (proto_config_new ''ws://127.0.0.1'') demo_crypto
     demo_proto_options demo_proto_env = (Some (Inr session), sent) \<and> pcs_hello session = JString ''hello'' \<and>
     nonce \<noteq> [] \<and> came (challenge_text demo_proto_parse nonce) (pce_arrivals demo_proto_env) rest"
proof -
  let ?c = "proto_connect demo_proto_url demo_proto_parse (proto_config_new ''ws://127.0.0.1'') demo_crypto demo_proto_options
      demo_proto_env"
  obtain session where s: "fst ?c = Some (Inr session)" "pcs_hello session = JString ''hello''"
    using demo_proto_connect by (cases "fst ?c"; cases "the (fst ?c)") auto
  then have "?c = (Some (Inr session), snd ?c)" by (metis prod.collapse)
  from earlier_session_after_hello [OF this] this s(2) show ?thesis by metis
qed

text \<open>The address of an IPv6 loopback is loopback for the later client and refused by the earlier one.\<close>

lemma ipv6_loopback_refused:
  assumes "parse_url text = Inr url" and "url_scheme url = ''ws''" and "url_host url = Some (HostIp (IpV6 0 0 0 0 0 0 0 1))"
  shows "proto_validate_gateway_url parse_url text = Inl PInsecureRemoteGateway \<and>
    validate_gateway_url parse_url text = Inr ()"
  using assms
  by (simp add: proto_validate_gateway_url_def is_loopback_host_def validate_gateway_url_def is_trusted_plaintext_host_def)

text \<open>Every URL the earlier client takes the later one takes.\<close>

lemma loopback_trusted: "is_loopback_host url \<Longrightarrow> is_trusted_plaintext_host url"
proof -
  have "to_ascii_lowercase ''localhost'' = ''localhost''" by code_simp
  then show "is_loopback_host url \<Longrightarrow> is_trusted_plaintext_host url"
    by (auto simp: is_loopback_host_def is_trusted_plaintext_host_def is_trusted_plaintext_v4_def
        split: option.splits url_host.splits ip_addr.splits)
qed

lemma earlier_plaintext_narrower:
  "proto_validate_gateway_url parse_url text = Inr () \<Longrightarrow> validate_gateway_url parse_url text = Inr ()"
  using loopback_trusted
  by (auto simp: proto_validate_gateway_url_def validate_gateway_url_def split: sum.splits if_splits)

end
