(* ===== verification/PrototypeRuntime.thy ===== *)
theory PrototypeRuntime
  imports PrototypeSession CommandRuntime
begin

text \<open>
  The command runtime of the root package (\<open>src/runtime.rs\<close>), the predecessor of \<open>CommandRuntime\<close>: its builder,
  its activation and the evaluation of one invocation. It has no capabilities, no admission policy, no duplex
  commands and no view of the session. The limited JSON writer, the durations and what a handler's outcome
  becomes are those of the crate word for word and are shared. Shown: for the same registrations, calls and
  handlers both do the same, but for a command named \<open>system\<close> and a call with \<open>timeoutMs\<close> 0.
\<close>

section \<open>The builder\<close>

datatype proto_build_error = PEmptyCommand | PReservedCommand string | PDuplicateCommand string

record 'h proto_registration =
  prg_command :: string
  prg_handler :: 'h

record 'h proto_runtime_builder =
  prb_registrations :: "'h proto_registration list"
  prb_max_concurrency :: nat
  prb_max_input_bytes :: nat
  prb_max_output_bytes :: nat
  prb_default_timeout :: duration
  prb_max_timeout :: duration
  prb_result_grace :: duration

definition proto_builder_default :: "'h proto_runtime_builder" where
  "proto_builder_default =
     \<lparr>prb_registrations = [], prb_max_concurrency = 8, prb_max_input_bytes = 256 * 1024,
      prb_max_output_bytes = 256 * 1024, prb_default_timeout = from_secs 30, prb_max_timeout = from_secs (5 * 60),
      prb_result_grace = from_millis 100\<rparr>"

definition prb_command :: "string \<Rightarrow> 'h \<Rightarrow> 'h proto_runtime_builder \<Rightarrow> 'h proto_runtime_builder" where
  "prb_command command handler b = b\<lparr>prb_registrations := prb_registrations b @
     [\<lparr>prg_command = command, prg_handler = handler\<rparr>]\<rparr>"

datatype prb_bound =
    PbConcurrency nat | PbInputBytes nat | PbOutputBytes nat | PbDefaultTimeout duration | PbMaxTimeout duration
  | PbResultGrace duration

text \<open>The setters of the bounds, one constructor each.\<close>

fun prb_set :: "prb_bound \<Rightarrow> 'h proto_runtime_builder \<Rightarrow> 'h proto_runtime_builder" where
  "prb_set (PbConcurrency maximum) b = b\<lparr>prb_max_concurrency := max maximum 1\<rparr>"
| "prb_set (PbInputBytes maximum) b = b\<lparr>prb_max_input_bytes := max maximum 1\<rparr>"
| "prb_set (PbOutputBytes maximum) b = b\<lparr>prb_max_output_bytes := max maximum 1\<rparr>"
| "prb_set (PbDefaultTimeout timeout) b = b\<lparr>prb_default_timeout := nonzero_duration timeout\<rparr>"
| "prb_set (PbMaxTimeout timeout) b = b\<lparr>prb_max_timeout := nonzero_duration timeout\<rparr>"
| "prb_set (PbResultGrace grace) b = b\<lparr>prb_result_grace := grace\<rparr>"

record 'h proto_runtime =
  prt_handlers :: "(string \<times> 'h) list"
  prt_max_permits :: nat
  prt_delivery_capacity :: nat
  prt_max_input_bytes :: nat
  prt_max_output_bytes :: nat
  prt_default_timeout :: duration
  prt_max_timeout :: duration
  prt_result_grace :: duration

fun proto_build_handlers ::
  "'h proto_registration list \<Rightarrow> (string \<times> 'h) list \<Rightarrow> proto_build_error + (string \<times> 'h) list" where
  "proto_build_handlers [] acc = Inr acc"
| "proto_build_handlers (r # rs) acc =
     (let cmd = trim (prg_command r) in
      if cmd = [] then Inl PEmptyCommand
      else if starts_with cmd ''system.'' then Inl (PReservedCommand cmd)
      else case btree_insert cmd (prg_handler r) acc of
        (Some _, _) \<Rightarrow> Inl (PDuplicateCommand cmd)
      | (None, acc') \<Rightarrow> proto_build_handlers rs acc')"

definition proto_build :: "'h proto_runtime_builder \<Rightarrow> proto_build_error + 'h proto_runtime" where
  "proto_build b =
     bind_result (proto_build_handlers (prb_registrations b) []) (\<lambda>handlers.
     let max_timeout = nonzero_duration (prb_max_timeout b) in
     Inr \<lparr>prt_handlers = handlers, prt_max_permits = max (prb_max_concurrency b) 1,
          prt_delivery_capacity = max (prb_max_concurrency b) 1,
          prt_max_input_bytes = max (prb_max_input_bytes b) 1, prt_max_output_bytes = max (prb_max_output_bytes b) 1,
          prt_default_timeout = min (nonzero_duration (prb_default_timeout b)) max_timeout,
          prt_max_timeout = max_timeout, prt_result_grace = prb_result_grace b\<rparr>)"

definition proto_command_names :: "'h proto_runtime \<Rightarrow> string list" where
  "proto_command_names rt = map fst (prt_handlers rt)"

definition proto_activate :: "'h proto_runtime \<Rightarrow> node_connect_options \<Rightarrow> node_connect_options" where
  "proto_activate rt opts = activate_options (fold with_command (proto_command_names rt) opts)"

section \<open>Evaluation\<close>

definition proto_resolve_timeout :: "'h proto_runtime \<Rightarrow> node_invocation \<Rightarrow> nat option \<Rightarrow> duration option" where
  "proto_resolve_timeout rt call elapsed =
     (let total = (case inv_timeout_ms call of
            None \<Rightarrow> prt_default_timeout rt
          | Some milliseconds \<Rightarrow>
              min (from_millis (unat (max milliseconds 1))) (prt_max_timeout rt) - prt_result_grace rt);
          waited = (case elapsed of None \<Rightarrow> 0 | Some e \<Rightarrow> e) in
      if waited \<le> total \<and> total - waited \<noteq> 0 then Some (total - waited) else None)"

text \<open>\<open>tokio::time::timeout\<close> polls the future before the timer.\<close>

definition proto_timeout :: "duration \<Rightarrow> (duration \<times> 'a) option \<Rightarrow> duration \<times> 'a option" where
  "proto_timeout deadline ready =
     (case ready of
        Some (t, x) \<Rightarrow> if t \<le> deadline then (t, Some x) else (deadline, None)
      | None \<Rightarrow> (deadline, None))"

text \<open>What happens during an evaluation: the age of the call, and what its handler does and when.\<close>

record proto_eval_env =
  pev_elapsed :: "nat option"
  pev_handler_panics :: bool
  pev_handler_ready :: "(duration \<times> (handler_error + json) outcome) option"

text \<open>The evaluation of a tracked invocation; an untracked one is a duplicate (\<open>PrototypeLoop\<close>).\<close>

definition proto_evaluate ::
  "(json \<Rightarrow> serialized) \<Rightarrow> 'h proto_runtime \<Rightarrow> proto_eval_env \<Rightarrow> node_invocation \<Rightarrow> evaluation" where
  "proto_evaluate ser rt env call =
     (if map_of (prt_handlers rt) (inv_command call) = None
        then evaluation (failure ''COMMAND_NOT_FOUND'' ''no handler registered for command'') 0 False False
      else if \<not> ((case received_params_bytes call of None \<Rightarrow> True | Some received \<Rightarrow> received \<le> prt_max_input_bytes rt)
           \<and> serialized_json_within_limit (ser (inv_params call)) (prt_max_input_bytes rt))
        then evaluation (failure ''INPUT_TOO_LARGE'' ''command parameters exceed the runtime limit'') 0 False False
      else case proto_resolve_timeout rt call (pev_elapsed env) of
        None \<Rightarrow> evaluation (failure ''HANDLER_TIMEOUT'' ''command handler deadline already elapsed'') 0 False True
      | Some timeout \<Rightarrow>
          if pev_handler_panics env
            then evaluation (failure ''HANDLER_PANIC'' ''command handler panicked'') 0 True True
          else (case proto_timeout timeout (pev_handler_ready env) of
            (t, ended) \<Rightarrow>
              (case handler_outcome ser (prt_max_output_bytes rt) ended of
                 (result, cancels) \<Rightarrow> evaluation result t True cancels)))"

section \<open>The two builders\<close>

text \<open>The same builder, runtime and environment, as the crate has them.\<close>

definition later_registration :: "'h proto_registration \<Rightarrow> 'h registration" where
  "later_registration r = \<lparr>reg_command = prg_command r, reg_handler = prg_handler r, reg_duplex = False\<rparr>"

definition later_handler :: "string \<times> 'h \<Rightarrow> string \<times> 'h registered_handler" where
  "later_handler e = (fst e, \<lparr>rh_handler = snd e, rh_duplex = False\<rparr>)"

definition later_builder :: "'h proto_runtime_builder \<Rightarrow> ('h, 'p) command_runtime_builder" where
  "later_builder b =
     \<lparr>bu_registrations = map later_registration (prb_registrations b), bu_capabilities = [], bu_admission_policy = None,
      bu_max_concurrency = prb_max_concurrency b, bu_max_input_bytes = prb_max_input_bytes b,
      bu_max_output_bytes = prb_max_output_bytes b, bu_default_timeout = prb_default_timeout b,
      bu_max_timeout = prb_max_timeout b, bu_result_grace = prb_result_grace b\<rparr>"

definition later_runtime :: "'h proto_runtime \<Rightarrow> ('h, 'p) command_runtime" where
  "later_runtime rt =
     \<lparr>handlers = map later_handler (prt_handlers rt), capabilities = [], admission_policy = None,
      max_permits = prt_max_permits rt, delivery_capacity = prt_delivery_capacity rt,
      max_input_bytes = prt_max_input_bytes rt, max_output_bytes = prt_max_output_bytes rt,
      default_timeout = prt_default_timeout rt, max_timeout = prt_max_timeout rt, result_grace = prt_result_grace rt\<rparr>"

fun later_build_error :: "proto_build_error \<Rightarrow> runtime_build_error" where
  "later_build_error PEmptyCommand = EmptyCommand"
| "later_build_error (PReservedCommand cmd) = ReservedCommand cmd"
| "later_build_error (PDuplicateCommand cmd) = DuplicateCommand cmd"

definition later_env :: "bool \<Rightarrow> proto_eval_env \<Rightarrow> eval_env" where
  "later_env retired env =
     \<lparr>session_commands = None, session_retired = retired, elapsed_since_receipt = pev_elapsed env,
      policy_panics = False, policy_ready = None, cancelled_at = None, overflowed_before = False,
      cancelled_before = False, handler_panics = pev_handler_panics env, handler_ready = pev_handler_ready env,
      overflow_at = None\<rparr>"

lemma later_insert:
  "btree_insert k \<lparr>rh_handler = h, rh_duplex = False\<rparr> (map later_handler es) =
     map_prod (map_option (\<lambda>h. \<lparr>rh_handler = h, rh_duplex = False\<rparr>)) (map later_handler) (btree_insert k h es)"
proof (induction k h es rule: btree_insert.induct)
  case (2 k h k' h' es)
  then show ?case by (cases "btree_insert k h es") (simp add: later_handler_def)
qed (simp add: later_handler_def)

lemma later_lookup:
  "map_of (map later_handler es) k = map_option (\<lambda>h. \<lparr>rh_handler = h, rh_duplex = False\<rparr>) (map_of es k)"
  by (induction es) (simp_all add: later_handler_def)

lemma later_handlers:
  assumes "\<forall>r \<in> set rs. trim (prg_command r) \<noteq> ''system''"
  shows "build_handlers (map later_registration rs) (map later_handler acc) =
    map_sum later_build_error (map later_handler) (proto_build_handlers rs acc)"
  using assms
proof (induction rs arbitrary: acc)
  case (Cons r rs)
  obtain old es where b: "btree_insert (trim (prg_command r)) (prg_handler r) acc = (old, es)" by fastforce
  show ?case using Cons b
    by (cases old) (simp_all add: later_registration_def reserved_def later_insert Let_def)
qed simp

text \<open>
  Both builders take the same registrations and refuse the same ones for the same reason, unless one of the
  commands is \<open>system\<close> itself: that name the later builder always refuses.
\<close>

lemma builders_alike:
  assumes "\<forall>r \<in> set (prb_registrations b). trim (prg_command r) \<noteq> ''system''"
  shows "build (later_builder b) = map_sum later_build_error later_runtime (proto_build b)"
  using later_handlers [OF assms, of "[]"]
  by (cases "proto_build_handlers (prb_registrations b) []")
    (simp_all add: build_def proto_build_def later_builder_def later_runtime_def Let_def)

lemma system_only_refused_later:
  assumes "r \<in> set (prb_registrations b)" and "trim (prg_command r) = ''system''"
  shows "\<nexists>rt. build (later_builder b) = Inr rt"
proof -
  let ?rs = "map later_registration (prb_registrations b)"
  have "later_registration r \<in> set ?rs" using assms(1) by simp
  moreover have "reserved (reg_name (later_registration r))"
    using assms(2) by (simp add: reserved_def reg_name_def later_registration_def)
  ultimately have "\<not> registrations_ok ?rs" unfolding registrations_ok_def by blast
  then have "\<nexists>hs. build_handlers ?rs [] = Inr hs"
    using build_handlers_spec [of "[]" ?rs] registrations_ok_iff [of ?rs] by (auto simp del: length_map nth_map)
  then show ?thesis by (auto simp: build_def later_builder_def bind_result_Inr Let_def)
qed

lemma system_taken_by_earlier:
  "\<exists>rt. proto_build (prb_command ''system'' h proto_builder_default) = Inr rt \<and> proto_command_names rt = [''system'']"
proof -
  have "trim ''system'' = ''system''" "\<not> starts_with ''system'' ''system.''" by code_simp+
  then show ?thesis
    by (simp add: proto_build_def prb_command_def proto_builder_default_def proto_command_names_def Let_def)
qed

text \<open>Both activate the same surface.\<close>

lemma later_names: "command_names (later_runtime rt) = proto_command_names rt"
  by (simp add: command_names_def proto_command_names_def later_runtime_def later_handler_def)

lemma activates_alike: "runtime_activate (later_runtime rt) opts = proto_activate rt opts"
  by (simp add: runtime_activate_def proto_activate_def later_names) (simp add: later_runtime_def)

section \<open>The two evaluations\<close>

lemma timeouts_alike:
  assumes "inv_timeout_ms call \<noteq> Some 0"
  shows "resolve_timeout (later_runtime rt) call elapsed =
    (case proto_resolve_timeout rt call elapsed of None \<Rightarrow> Inl () | Some d \<Rightarrow> Inr (Some d))"
proof -
  have one: "max ms 1 = ms" if "ms \<noteq> 0" for ms :: u64
    using that by (metis max.absorb1 word_less_1 not_le_imp_less)
  show ?thesis using assms
    by (cases "inv_timeout_ms call")
      (auto simp: resolve_timeout_def proto_resolve_timeout_def later_runtime_def Let_def one)
qed

lemma later_fields:
  "max_input_bytes (later_runtime rt) = prt_max_input_bytes rt"
  "max_output_bytes (later_runtime rt) = prt_max_output_bytes rt" "admission_policy (later_runtime rt) = None"
  by (simp_all add: later_runtime_def)

lemma later_resolve:
  "resolve_session_handler (later_runtime rt) call None =
     (case map_of (prt_handlers rt) (inv_command call) of
        None \<Rightarrow> Inl (failure ''COMMAND_NOT_FOUND'' ''no handler registered for command'')
      | Some h \<Rightarrow> Inr \<lparr>rh_handler = h, rh_duplex = False\<rparr>)"
  by (simp add: resolve_session_handler_def later_runtime_def later_lookup split: option.split)

lemma await_timeout: "await (Some d) ready = Some (proto_timeout d ready)"
  by (cases ready) (auto simp: await_def proto_timeout_def)

text \<open>
  C39. The earlier and the later runtime evaluate alike. For a call whose \<open>timeoutMs\<close> is not 0 the crate's
  evaluation, on the runtime built from the same registrations, without a policy and outside a session, ends with
  the same result at the same time, starts the handler exactly when the earlier one does and cancels exactly when
  it does. For \<open>timeoutMs\<close> 0 the two part: the later sets no deadline, the earlier gives the call one millisecond
  less the grace, so with a grace of a millisecond or more it never starts the handler.
\<close>

lemma runtimes_evaluate_alike:
  "if inv_timeout_ms call = Some 0
     then from_millis 1 \<le> prt_result_grace rt \<longrightarrow> \<not> ev_handler_started (proto_evaluate ser rt env call)
   else evaluate_tracked ser (later_runtime rt) (later_env retired env) call = Some (proto_evaluate ser rt env call)"
proof (cases "inv_timeout_ms call = Some 0")
  case True
  have "proto_resolve_timeout rt call (pev_elapsed env) = None" if "from_millis 1 \<le> prt_result_grace rt"
  proof -
    have "min (from_millis (unat (max (0::u64) 1))) (prt_max_timeout rt) - prt_result_grace rt = 0"
      using that by (simp add: max_def)
    then show ?thesis by (simp add: proto_resolve_timeout_def True)
  qed
  then show ?thesis using True by (auto simp: proto_evaluate_def evaluation_def)
next
  case False
  then show ?thesis
    by (cases "map_of (prt_handlers rt) (inv_command call)"; cases "proto_resolve_timeout rt call (pev_elapsed env)";
        cases "received_params_bytes call")
      (auto simp: evaluate_tracked_def proto_evaluate_def later_env_def later_resolve timeouts_alike
        evaluate_admission_def handler_entry_rejection_def execute_handler_def await_timeout later_fields
        split: prod.split)
qed

definition demo_proto_rt :: "nat proto_runtime" where
  "demo_proto_rt = \<lparr>prt_handlers = [(''a.b'', 5)], prt_max_permits = 1, prt_delivery_capacity = 1,
     prt_max_input_bytes = 262144, prt_max_output_bytes = 262144, prt_default_timeout = 30000000000,
     prt_max_timeout = 300000000000, prt_result_grace = 100000000\<rparr>"

definition demo_proto_eval :: proto_eval_env where
  "demo_proto_eval = \<lparr>pev_elapsed = Some 3, pev_handler_panics = False, pev_handler_ready = Some (9, Returns (Inr JNull))\<rparr>"

lemma runtimes_evaluate_alike_witness:
  "\<not> ev_handler_started (proto_evaluate demo_ser demo_proto_rt demo_proto_eval (demo_call\<lparr>inv_timeout_ms := Some 0\<rparr>)) \<and>
   evaluate_tracked demo_ser (later_runtime demo_proto_rt :: (nat, unit) command_runtime) (later_env False demo_proto_eval)
     demo_call = Some (proto_evaluate demo_ser demo_proto_rt demo_proto_eval demo_call)"
  using runtimes_evaluate_alike [of "demo_call\<lparr>inv_timeout_ms := Some 0\<rparr>" demo_proto_rt demo_ser demo_proto_eval]
    runtimes_evaluate_alike [of demo_call demo_proto_rt demo_ser demo_proto_eval False]
  by (simp add: demo_proto_rt_def demo_call_def invocation_new_def from_millis_def)

end
