(* ===== verification/PrototypeLoop.thy ===== *)
theory PrototypeLoop
  imports PrototypeRuntime RuntimeLoop
begin

text \<open>
  The session loop of the earlier runtime (\<open>run\<close>, \<open>dispatch\<close> and the table of active invocations of
  \<open>src/runtime.rs\<close>). A turn of the loop, and what a task or the delivery worker does beside it, is an event. Unlike
  in the crate a task enters the table itself, when it is first polled, so a spawned task may be aborted before it
  has a token; there is no input and no cancellation from the Gateway. The map of the session scopes is that of
  \<open>SessionScopes\<close>.
\<close>

section \<open>Tokens and the table\<close>

record proto_world =
  prw_tokens :: "nat \<Rightarrow> bool"
  prw_next :: nat
  prw_active :: "(string \<times> nat) list"

record proto_guard =
  pgd_id :: string
  pgd_cancellation :: nat
  pgd_cancel_on_drop :: bool

definition proto_world_new :: proto_world where
  "proto_world_new = \<lparr>prw_tokens = (\<lambda>_. False), prw_next = 0, prw_active = []\<rparr>"

definition proto_token_new :: "proto_world \<Rightarrow> nat \<times> proto_world" where
  "proto_token_new w =
     (prw_next w, w\<lparr>prw_tokens := (prw_tokens w)(prw_next w := False), prw_next := Suc (prw_next w)\<rparr>)"

definition proto_token_cancel :: "nat \<Rightarrow> proto_world \<Rightarrow> proto_world" where
  "proto_token_cancel t w = w\<lparr>prw_tokens := (prw_tokens w)(t := True)\<rparr>"

definition proto_track :: "string \<Rightarrow> nat \<Rightarrow> proto_world \<Rightarrow> proto_guard option \<times> proto_world" where
  "proto_track i t w =
     (case map_of (prw_active w) i of
        Some _ \<Rightarrow> (None, w)
      | None \<Rightarrow>
          (Some \<lparr>pgd_id = i, pgd_cancellation = t, pgd_cancel_on_drop = True\<rparr>,
           w\<lparr>prw_active := (i, t) # prw_active w\<rparr>))"

definition proto_untrack :: "string \<Rightarrow> proto_world \<Rightarrow> proto_world" where
  "proto_untrack i w = w\<lparr>prw_active := filter (\<lambda>e. fst e \<noteq> i) (prw_active w)\<rparr>"

definition proto_cancel_all :: "proto_world \<Rightarrow> proto_world" where
  "proto_cancel_all w = (fold (\<lambda>e. proto_token_cancel (snd e)) (prw_active w) w)\<lparr>prw_active := []\<rparr>"

definition proto_disarm :: "proto_guard \<Rightarrow> proto_guard" where
  "proto_disarm guard = guard\<lparr>pgd_cancel_on_drop := False\<rparr>"

definition proto_guard_drop :: "proto_guard \<Rightarrow> proto_world \<Rightarrow> proto_world" where
  "proto_guard_drop guard w =
     proto_untrack (pgd_id guard)
       (if pgd_cancel_on_drop guard then proto_token_cancel (pgd_cancellation guard) w else w)"

definition proto_drop_tracking :: "proto_guard option \<Rightarrow> proto_world \<Rightarrow> proto_world" where
  "proto_drop_tracking guard w = (case guard of None \<Rightarrow> w | Some g \<Rightarrow> proto_guard_drop g w)"

section \<open>Tasks\<close>

datatype proto_runtime_error = PClient proto_client_error | PDeliverySaturated | PResultTask string

text \<open>
  A task has nothing until it is first polled; then its token and, unless its identifier is already executing, a
  guard; once it has ended, its outcome, with a \<open>JoinError\<close> as \<open>to_string\<close> shows it. It owns a permit until it is
  joined.
\<close>

type_synonym proto_joined = "string + proto_client_error + unit"

record proto_task =
  ptk_call :: node_invocation
  ptk_tracking :: "(nat \<times> proto_guard option) option"
  ptk_ended :: "proto_joined option"

text \<open>
  \<open>pl_tracked\<close> are the tokens that entered the table so far, \<open>pl_finished\<close> those of the invocations the session took
  the result of.
\<close>

record proto_loop =
  pl_world :: proto_world
  pl_permits :: nat
  pl_tasks :: "proto_task list"
  pl_overload :: "(node_invocation \<times> invocation_result) list"
  pl_worker_ended :: "proto_joined option"
  pl_delivered :: "(node_invocation \<times> invocation_result) list"
  pl_tracked :: "nat list"
  pl_finished :: "nat list"
  pl_session_closed :: bool
  pl_exit :: "proto_runtime_error option"

definition proto_loop_start :: "'h proto_runtime \<Rightarrow> proto_loop" where
  "proto_loop_start rt =
     \<lparr>pl_world = proto_world_new, pl_permits = prt_max_permits rt, pl_tasks = [], pl_overload = [],
      pl_worker_ended = None, pl_delivered = [], pl_tracked = [], pl_finished = [], pl_session_closed = False,
      pl_exit = None\<rparr>"

definition proto_spawn_handler_task :: "node_invocation \<Rightarrow> proto_loop \<Rightarrow> proto_loop" where
  "proto_spawn_handler_task call s =
     s\<lparr>pl_tasks := pl_tasks s @ [\<lparr>ptk_call = call, ptk_tracking = None, ptk_ended = None\<rparr>]\<rparr>"

text \<open>The start of \<open>evaluate_with_scope\<close>: a token, and the guard if the identifier is free.\<close>

definition proto_begin :: "string \<Rightarrow> proto_world \<Rightarrow> (nat \<times> proto_guard option) \<times> proto_world" where
  "proto_begin i w =
     (case proto_token_new w of (t, w) \<Rightarrow> case proto_track i t w of (guard, w) \<Rightarrow> ((t, guard), w))"

definition proto_task_evaluation ::
  "(json \<Rightarrow> serialized) \<Rightarrow> 'h proto_runtime \<Rightarrow> node_invocation \<Rightarrow> proto_guard option \<Rightarrow> proto_eval_env \<Rightarrow>
   invocation_result \<times> bool" where
  "proto_task_evaluation ser rt call guard env =
     (case guard of
        None \<Rightarrow> (failure ''DUPLICATE_INVOCATION'' ''invocation id is already executing'', False)
      | Some _ \<Rightarrow> (let ev = proto_evaluate ser rt env call in (ev_result ev, ev_cancelled ev)))"

text \<open>The rest of the task: the session takes the result, the guard is disarmed if it did, and dropped.\<close>

definition proto_finish ::
  "nat \<times> proto_guard option \<Rightarrow> bool \<Rightarrow> proto_client_error + unit \<Rightarrow> proto_world \<Rightarrow> proto_world" where
  "proto_finish tracking cancels completion w =
     (case tracking of (t, guard) \<Rightarrow>
        let w = (if cancels then proto_token_cancel t w else w) in
        proto_drop_tracking (if is_ok completion then map_option proto_disarm guard else guard) w)"

text \<open>A running task that is dropped, by a panic or an abort, drops its guard as it is.\<close>

definition proto_drop_task :: "proto_task \<Rightarrow> proto_world \<Rightarrow> proto_world" where
  "proto_drop_task task w =
     (if ptk_ended task \<noteq> None then w
      else case ptk_tracking task of None \<Rightarrow> w | Some (t, guard) \<Rightarrow> proto_drop_tracking guard w)"

definition proto_stop_handler_tasks :: "proto_loop \<Rightarrow> proto_loop" where
  "proto_stop_handler_tasks s =
     s\<lparr>pl_world := fold proto_drop_task (pl_tasks s) (proto_cancel_all (pl_world s)),
       pl_permits := pl_permits s + length (pl_tasks s), pl_tasks := []\<rparr>"

definition proto_stop_runtime_tasks :: "proto_loop \<Rightarrow> proto_loop" where
  "proto_stop_runtime_tasks s =
     proto_stop_handler_tasks
       (s\<lparr>pl_worker_ended := (if pl_worker_ended s = None then Some (Inl ''aborted'') else pl_worker_ended s),
         pl_overload := []\<rparr>)"

definition proto_task_failure :: "proto_joined \<Rightarrow> string \<Rightarrow> proto_runtime_error" where
  "proto_task_failure completed unexpected =
     (case completed of
        Inr (Inl error) \<Rightarrow> PClient error
      | Inl error \<Rightarrow> PResultTask error
      | Inr (Inr _) \<Rightarrow> PResultTask unexpected)"

definition proto_leave :: "proto_runtime_error \<Rightarrow> proto_loop \<Rightarrow> proto_loop" where
  "proto_leave error s = s\<lparr>pl_session_closed := True, pl_exit := Some error\<rparr>"

section \<open>The loop\<close>

datatype proto_loop_event =
    LoopInvocation "proto_client_error + node_invocation"
  | LoopTaskJoined nat
  | LoopWorkerJoined
  | LoopTaskStarts nat
  | LoopTaskEnds nat proto_eval_env "proto_client_error + unit"
  | LoopTaskPanics nat string
  | LoopWorkerDelivers "proto_client_error + unit"
  | LoopWorkerPanics string

definition proto_overloaded :: invocation_result where
  "proto_overloaded = failure ''OVERLOADED'' ''command runtime is at its concurrency limit''"

definition proto_on_invocation ::
  "'h proto_runtime \<Rightarrow> proto_client_error + node_invocation \<Rightarrow> proto_loop \<Rightarrow> proto_loop" where
  "proto_on_invocation rt event s =
     (case event of
        Inl error \<Rightarrow> proto_leave (PClient error) (proto_stop_runtime_tasks s)
      | Inr call \<Rightarrow>
     (case pl_permits s of
        Suc free \<Rightarrow> proto_spawn_handler_task call (s\<lparr>pl_permits := free\<rparr>)
      | 0 \<Rightarrow>
     (case pl_worker_ended s of
        Some worker \<Rightarrow>
          proto_leave (proto_task_failure worker ''result delivery worker stopped'') (proto_stop_handler_tasks s)
      | None \<Rightarrow>
          if length (pl_overload s) < prt_delivery_capacity rt
            then s\<lparr>pl_overload := pl_overload s @ [(call, proto_overloaded)]\<rparr>
          else proto_leave PDeliverySaturated (proto_stop_runtime_tasks s))))"

definition proto_on_task_joined :: "nat \<Rightarrow> proto_loop \<Rightarrow> proto_loop" where
  "proto_on_task_joined k s =
     (if k < length (pl_tasks s) then
        (case ptk_ended (pl_tasks s ! k) of
           None \<Rightarrow> s
         | Some completed \<Rightarrow>
             (let s = s\<lparr>pl_tasks := remove_nth k (pl_tasks s), pl_permits := Suc (pl_permits s)\<rparr> in
              case completed of
                Inr (Inr _) \<Rightarrow> s
              | Inr (Inl error) \<Rightarrow> proto_leave (PClient error) (proto_stop_runtime_tasks s)
              | Inl error \<Rightarrow> proto_leave (PResultTask error) (proto_stop_runtime_tasks s)))
      else s)"

definition proto_on_worker_joined :: "proto_loop \<Rightarrow> proto_loop" where
  "proto_on_worker_joined s =
     (case pl_worker_ended s of
        None \<Rightarrow> s
      | Some completed \<Rightarrow>
          proto_leave (proto_task_failure completed ''result delivery worker stopped unexpectedly'')
            (proto_stop_handler_tasks s))"

text \<open>Beside the loop: a task is first polled, ends, or panics.\<close>

definition proto_on_task_starts :: "nat \<Rightarrow> proto_loop \<Rightarrow> proto_loop" where
  "proto_on_task_starts k s =
     (if k < length (pl_tasks s) \<and> ptk_tracking (pl_tasks s ! k) = None \<and> ptk_ended (pl_tasks s ! k) = None then
        (case proto_begin (inv_id (ptk_call (pl_tasks s ! k))) (pl_world s) of
           (tracking, w) \<Rightarrow>
             s\<lparr>pl_world := w, pl_tasks := (pl_tasks s)[k := (pl_tasks s ! k)\<lparr>ptk_tracking := Some tracking\<rparr>],
               pl_tracked := (if snd tracking = None then pl_tracked s else pl_tracked s @ [fst tracking])\<rparr>)
      else s)"

definition proto_on_task_ends ::
  "(json \<Rightarrow> serialized) \<Rightarrow> 'h proto_runtime \<Rightarrow> nat \<Rightarrow> proto_eval_env \<Rightarrow> proto_client_error + unit \<Rightarrow> proto_loop \<Rightarrow>
   proto_loop" where
  "proto_on_task_ends ser rt k env completion s =
     (if k < length (pl_tasks s) \<and> ptk_ended (pl_tasks s ! k) = None then
        (case ptk_tracking (pl_tasks s ! k) of
           None \<Rightarrow> s
         | Some (t, guard) \<Rightarrow>
             (case proto_task_evaluation ser rt (ptk_call (pl_tasks s ! k)) guard env of
                (result, cancels) \<Rightarrow>
                  s\<lparr>pl_world := proto_finish (t, guard) cancels completion (pl_world s),
                    pl_tasks := (pl_tasks s)[k := (pl_tasks s ! k)\<lparr>ptk_ended := Some (Inr completion)\<rparr>],
                    pl_delivered := pl_delivered s @ [(ptk_call (pl_tasks s ! k), result)],
                    pl_finished := (if is_ok completion then pl_finished s @ [t] else pl_finished s)\<rparr>))
      else s)"

definition proto_on_task_panics :: "nat \<Rightarrow> string \<Rightarrow> proto_loop \<Rightarrow> proto_loop" where
  "proto_on_task_panics k message s =
     (if k < length (pl_tasks s) \<and> ptk_ended (pl_tasks s ! k) = None \<and> ptk_tracking (pl_tasks s ! k) \<noteq> None then
        s\<lparr>pl_world := proto_drop_task (pl_tasks s ! k) (pl_world s),
          pl_tasks := (pl_tasks s)[k := (pl_tasks s ! k)\<lparr>ptk_ended := Some (Inl message)\<rparr>]\<rparr>
      else s)"

definition proto_worker_ends :: "proto_joined \<Rightarrow> proto_loop \<Rightarrow> proto_loop" where
  "proto_worker_ends completed s = s\<lparr>pl_worker_ended := Some completed, pl_overload := []\<rparr>"

definition proto_on_worker_delivers :: "proto_client_error + unit \<Rightarrow> proto_loop \<Rightarrow> proto_loop" where
  "proto_on_worker_delivers completion s =
     (case (pl_worker_ended s, pl_overload s) of
        (None, d # ds) \<Rightarrow>
          (let s = s\<lparr>pl_overload := ds, pl_delivered := pl_delivered s @ [d]\<rparr> in
           case completion of Inl error \<Rightarrow> proto_worker_ends (Inr (Inl error)) s | Inr _ \<Rightarrow> s)
      | _ \<Rightarrow> s)"

definition proto_loop_step ::
  "(json \<Rightarrow> serialized) \<Rightarrow> 'h proto_runtime \<Rightarrow> proto_loop_event \<Rightarrow> proto_loop \<Rightarrow> proto_loop" where
  "proto_loop_step ser rt event s =
     (if pl_exit s \<noteq> None then s
      else case event of
        LoopInvocation e \<Rightarrow> proto_on_invocation rt e s
      | LoopTaskJoined k \<Rightarrow> proto_on_task_joined k s
      | LoopWorkerJoined \<Rightarrow> proto_on_worker_joined s
      | LoopTaskStarts k \<Rightarrow> proto_on_task_starts k s
      | LoopTaskEnds k env completion \<Rightarrow> proto_on_task_ends ser rt k env completion s
      | LoopTaskPanics k message \<Rightarrow> proto_on_task_panics k message s
      | LoopWorkerDelivers completion \<Rightarrow> proto_on_worker_delivers completion s
      | LoopWorkerPanics message \<Rightarrow>
          if pl_worker_ended s = None then proto_worker_ends (Inl message) s else s)"

definition proto_loop_run ::
  "(json \<Rightarrow> serialized) \<Rightarrow> 'h proto_runtime \<Rightarrow> proto_loop_event list \<Rightarrow> proto_loop \<Rightarrow> proto_loop" where
  "proto_loop_run ser rt events s = fold (proto_loop_step ser rt) events s"

section \<open>Invariant\<close>

text \<open>The guards the running tasks hold.\<close>

definition held_guard :: "proto_task \<Rightarrow> proto_guard list" where
  "held_guard task =
     (if ptk_ended task \<noteq> None then []
      else case ptk_tracking task of Some (_, Some g) \<Rightarrow> [g] | _ \<Rightarrow> [])"

definition held_guards :: "proto_task list \<Rightarrow> proto_guard list" where
  "held_guards tasks = concat (map held_guard tasks)"

definition guard_key :: "proto_guard \<Rightarrow> string \<times> nat" where
  "guard_key g = (pgd_id g, pgd_cancellation g)"

text \<open>
  The table has exactly the entries of the held guards, each identifier once; every guard is armed, for the token of
  its task; and a token that entered the table is cancelled, or its invocation is finished, or its guard is held.
\<close>

definition task_armed :: "proto_task \<Rightarrow> bool" where
  "task_armed task \<longleftrightarrow>
     (\<forall>t g. ptk_tracking task = Some (t, Some g) \<longrightarrow> pgd_cancellation g = t \<and> pgd_cancel_on_drop g)"

definition tasks_ok :: "proto_world \<Rightarrow> proto_task list \<Rightarrow> nat list \<Rightarrow> nat list \<Rightarrow> bool" where
  "tasks_ok w tasks was_tracked finished \<longleftrightarrow>
     set (prw_active w) = guard_key ` set (held_guards tasks) \<and> distinct (map pgd_id (held_guards tasks)) \<and>
     (\<forall>task \<in> set tasks. task_armed task) \<and>
     (\<forall>t \<in> set was_tracked. t < prw_next w \<and>
        (prw_tokens w t \<or> t \<in> set finished \<or> t \<in> pgd_cancellation ` set (held_guards tasks)))"

definition proto_loop_ok :: "'h proto_runtime \<Rightarrow> proto_loop \<Rightarrow> bool" where
  "proto_loop_ok rt s \<longleftrightarrow>
     tasks_ok (pl_world s) (pl_tasks s) (pl_tracked s) (pl_finished s) \<and>
     pl_permits s + length (pl_tasks s) = prt_max_permits rt \<and>
     length (pl_overload s) \<le> prt_delivery_capacity rt \<and>
     (pl_exit s \<noteq> None \<longrightarrow> pl_tasks s = [] \<and> pl_session_closed s)"

lemma held_guard_iff:
  "g \<in> set (held_guard task) \<longleftrightarrow> ptk_ended task = None \<and> (\<exists>t. ptk_tracking task = Some (t, Some g))"
proof (cases "ptk_tracking task")
  case (Some tracking)
  then show ?thesis by (cases tracking; cases "snd tracking") (auto simp: held_guard_def)
qed (simp add: held_guard_def)

lemma held_guards_simps [simp]:
  "held_guards [] = []" "held_guards (task # tasks) = held_guard task @ held_guards tasks"
  "held_guards (xs @ ys) = held_guards xs @ held_guards ys"
  by (simp_all add: held_guards_def)

lemma held_guards_nth:
  assumes "k < length tasks"
  obtains before after where "held_guards tasks = before @ held_guard (tasks ! k) @ after"
    "\<And>task. held_guards (tasks[k := task]) = before @ held_guard task @ after"
    "held_guards (remove_nth k tasks) = before @ after"
proof -
  obtain xs ys where "tasks = xs @ tasks ! k # ys" "\<And>task. tasks[k := task] = xs @ task # ys"
    "remove_nth k tasks = xs @ ys"
    using nth_split [OF assms] by metis
  then have "held_guards tasks = held_guards xs @ held_guard (tasks ! k) @ held_guards ys"
    "\<And>task. held_guards (tasks[k := task]) = held_guards xs @ held_guard task @ held_guards ys"
    "held_guards (remove_nth k tasks) = held_guards xs @ held_guards ys"
    by (metis held_guards_simps(2,3))+
  then show ?thesis by (rule that)
qed

lemma guard_drop_world [simp]:
  "prw_active (proto_guard_drop g w) = filter (\<lambda>e. fst e \<noteq> pgd_id g) (prw_active w)"
  "prw_next (proto_guard_drop g w) = prw_next w"
  "prw_tokens (proto_guard_drop g w) t = (prw_tokens w t \<or> pgd_cancel_on_drop g \<and> t = pgd_cancellation g)"
  by (simp_all add: proto_guard_drop_def proto_untrack_def proto_token_cancel_def)

lemma drop_tracking_world:
  "prw_active (proto_drop_tracking guard w) =
     (case guard of None \<Rightarrow> prw_active w | Some g \<Rightarrow> filter (\<lambda>e. fst e \<noteq> pgd_id g) (prw_active w))"
  "prw_next (proto_drop_tracking guard w) = prw_next w"
  "prw_tokens (proto_drop_tracking guard w) t =
     (prw_tokens w t \<or> (\<exists>g. guard = Some g \<and> pgd_cancel_on_drop g \<and> t = pgd_cancellation g))"
  by (simp_all add: proto_drop_tracking_def split: option.split)

lemma drop_task_world:
  "prw_active (proto_drop_task task w) = filter (\<lambda>e. fst e \<notin> pgd_id ` set (held_guard task)) (prw_active w)"
  "prw_next (proto_drop_task task w) = prw_next w"
  "prw_tokens (proto_drop_task task w) t =
     (prw_tokens w t \<or> (\<exists>g \<in> set (held_guard task). pgd_cancel_on_drop g \<and> t = pgd_cancellation g))"
  by (auto simp: proto_drop_task_def held_guard_def drop_tracking_world split: option.split)

lemma drop_tasks_world:
  "prw_active (fold proto_drop_task tasks w) = filter (\<lambda>e. fst e \<notin> pgd_id ` set (held_guards tasks)) (prw_active w)"
  "prw_next (fold proto_drop_task tasks w) = prw_next w"
  "prw_tokens (fold proto_drop_task tasks w) t =
     (prw_tokens w t \<or> (\<exists>g \<in> set (held_guards tasks). pgd_cancel_on_drop g \<and> t = pgd_cancellation g))"
proof (induction tasks arbitrary: w)
  case (Cons task tasks)
  { case 1 then show ?case by (simp add: Cons.IH drop_task_world image_Un conj_commute) }
  { case 2 then show ?case by (simp add: Cons.IH drop_task_world) }
  { case 3 then show ?case by (auto simp: Cons.IH drop_task_world) }
qed simp_all

lemma cancel_tokens_world:
  "prw_next (fold (\<lambda>e. proto_token_cancel (snd e)) es w) = prw_next w"
  "prw_tokens (fold (\<lambda>e. proto_token_cancel (snd e)) es w) t = (prw_tokens w t \<or> t \<in> snd ` set es)"
  by (induction es arbitrary: w) (auto simp: proto_token_cancel_def)

lemma proto_cancel_all_world:
  "prw_active (proto_cancel_all w) = []" "prw_next (proto_cancel_all w) = prw_next w"
  "prw_tokens (proto_cancel_all w) t = (prw_tokens w t \<or> t \<in> snd ` set (prw_active w))"
  by (simp_all add: proto_cancel_all_def cancel_tokens_world)

lemma update_all: "\<forall>x \<in> set xs. P x \<Longrightarrow> P y \<Longrightarrow> \<forall>x \<in> set (xs[k := y]). P x"
  using set_update_subset_insert by fastforce

lemma held_guard_armed:
  assumes "tasks_ok w tasks was_tracked finished" and "g \<in> set (held_guards tasks)"
  shows "pgd_cancel_on_drop g"
proof -
  obtain task t where task: "task \<in> set tasks" "ptk_tracking task = Some (t, Some g)"
    using assms(2) by (auto simp: held_guards_def held_guard_iff)
  then show ?thesis using assms(1) unfolding tasks_ok_def task_armed_def by blast
qed

text \<open>A task that was first polled.\<close>

lemma begin_tasks_ok:
  assumes ok: "tasks_ok w tasks was_tracked finished" and k: "k < length tasks" "ptk_tracking (tasks ! k) = None"
    and unended: "ptk_ended (tasks ! k) = None" and beg: "proto_begin i w = ((t, guard), w')"
    and task': "task' = (tasks ! k)\<lparr>ptk_tracking := Some (t, guard)\<rparr>"
  shows "tasks_ok w' (tasks[k := task']) (if guard = None then was_tracked else was_tracked @ [t]) finished"
proof -
  obtain before after where h: "held_guards tasks = before @ after"
    "held_guards (tasks[k := task']) = before @ held_guard task' @ after"
    using held_guards_nth [OF k(1)] k(2) unended by (metis append_Nil held_guard_def option.simps(4))
  have tokens: "t = prw_next w" "prw_next w' = Suc t" "\<And>u. u < t \<Longrightarrow> prw_tokens w' u = prw_tokens w u"
    and free: "guard = None \<longleftrightarrow> map_of (prw_active w) i \<noteq> None"
    "guard = None \<Longrightarrow> prw_active w' = prw_active w"
    "\<And>g. guard = Some g \<Longrightarrow> prw_active w' = (i, t) # prw_active w \<and> g = \<lparr>pgd_id = i, pgd_cancellation = t, pgd_cancel_on_drop = True\<rparr>"
    using beg by (auto simp: proto_begin_def proto_token_new_def proto_track_def split: option.splits)
  have ids: "fst ` set (prw_active w) = pgd_id ` set (before @ after)"
  proof -
    have "set (prw_active w) = guard_key ` set (before @ after)" using ok unfolding tasks_ok_def h(1) by blast
    then show ?thesis unfolding guard_key_def by (simp only: image_image fst_conv)
  qed
  have "pgd_cancellation g = t \<and> pgd_cancel_on_drop g" if "guard = Some g" for g using free(3) [OF that] by simp
  then have "task_armed task'" by (simp add: task_armed_def task')
  then have updated: "\<forall>task \<in> set (tasks[k := task']). task_armed task"
    using ok unfolding tasks_ok_def by (intro update_all) blast+
  show ?thesis
  proof (cases guard)
    case None
    then have "held_guard task' = []" by (simp add: held_guard_def task')
    then show ?thesis using ok h tokens free(2) updated None
      by (auto simp: tasks_ok_def)
  next
    case (Some g)
    then have g: "held_guard task' = [g]" "pgd_id g = i" "pgd_cancellation g = t" "prw_active w' = (i, t) # prw_active w"
      using free(3) unended by (simp_all add: held_guard_def task')
    have "i \<notin> pgd_id ` set (before @ after)"
      using free(1) Some ids by (simp add: map_of_eq_None_iff)
    then show ?thesis using ok h tokens g updated Some
      by (auto simp: tasks_ok_def guard_key_def)
  qed
qed

text \<open>A task that ended, was joined, or was stopped.\<close>

lemma end_tasks_ok:
  assumes ok: "tasks_ok w tasks was_tracked finished" and k: "k < length tasks"
    and task': "ptk_tracking task' = ptk_tracking (tasks ! k)" "ptk_ended task' \<noteq> None"
    and w': "prw_active w' = filter (\<lambda>e. fst e \<notin> pgd_id ` set (held_guard (tasks ! k))) (prw_active w)"
      "prw_next w' = prw_next w" "\<And>t. prw_tokens w t \<Longrightarrow> prw_tokens w' t"
    and finished': "set finished \<subseteq> set finished'"
      "\<And>g. g \<in> set (held_guard (tasks ! k)) \<Longrightarrow> prw_tokens w' (pgd_cancellation g) \<or> pgd_cancellation g \<in> set finished'"
  shows "tasks_ok w' (tasks[k := task']) was_tracked finished'"
proof -
  obtain before after where h: "held_guards tasks = before @ held_guard (tasks ! k) @ after"
    "held_guards (tasks[k := task']) = before @ after"
    using held_guards_nth [OF k] task'(2) by (metis append_Nil held_guard_def)
  have "set (prw_active w') = guard_key ` set (before @ after)"
  proof -
    have "set (prw_active w') = {e \<in> guard_key ` set (held_guards tasks). fst e \<notin> pgd_id ` set (held_guard (tasks ! k))}"
      using ok w'(1) by (simp add: tasks_ok_def)
    also have "\<dots> = guard_key ` {g \<in> set (held_guards tasks). pgd_id g \<notin> pgd_id ` set (held_guard (tasks ! k))}"
      by (auto simp: guard_key_def)
    also have "{g \<in> set (held_guards tasks). pgd_id g \<notin> pgd_id ` set (held_guard (tasks ! k))} = set (before @ after)"
    proof -
      have "pgd_id ` set (held_guard (tasks ! k)) \<inter> pgd_id ` (set before \<union> set after) = {}"
        using ok by (auto simp: tasks_ok_def h(1))
      then show ?thesis unfolding h(1) set_append by blast
    qed
    finally show ?thesis .
  qed
  moreover have "distinct (map pgd_id (before @ after))" using ok by (auto simp: tasks_ok_def h(1))
  moreover have "\<forall>task \<in> set (tasks[k := task']). task_armed task"
  proof (rule update_all)
    show "\<forall>task \<in> set tasks. task_armed task" using ok unfolding tasks_ok_def by blast
    then show "task_armed task'" using nth_mem [OF k] task'(1) by (metis task_armed_def)
  qed
  moreover have "\<forall>t \<in> set was_tracked. t < prw_next w' \<and>
      (prw_tokens w' t \<or> t \<in> set finished' \<or> t \<in> pgd_cancellation ` set (before @ after))"
  proof
    fix t
    assume "t \<in> set was_tracked"
    then have "t < prw_next w" "prw_tokens w t \<or> t \<in> set finished
        \<or> t \<in> pgd_cancellation ` set (before @ held_guard (tasks ! k) @ after)"
      using ok unfolding tasks_ok_def h by blast+
    then show "t < prw_next w' \<and> (prw_tokens w' t \<or> t \<in> set finished' \<or> t \<in> pgd_cancellation ` set (before @ after))"
      using w'(2,3) finished' by (auto simp: subset_iff)
  qed
  ultimately show ?thesis unfolding tasks_ok_def h by blast
qed

lemma join_tasks_ok:
  assumes "tasks_ok w tasks was_tracked finished" and "k < length tasks" and "ptk_ended (tasks ! k) \<noteq> None"
  shows "tasks_ok w (remove_nth k tasks) was_tracked finished"
proof -
  have "held_guards (remove_nth k tasks) = held_guards tasks"
    using held_guards_nth [OF assms(2)] assms(3) by (metis append_Nil held_guard_def)
  moreover have "set (remove_nth k tasks) \<subseteq> set tasks"
    by (auto simp: remove_nth_def dest: in_set_takeD in_set_dropD)
  ultimately show ?thesis using assms(1) by (fastforce simp: tasks_ok_def)
qed

lemma stop_tasks_ok:
  assumes ok: "tasks_ok w tasks was_tracked finished" and w': "w' = fold proto_drop_task tasks (proto_cancel_all w)"
  shows "tasks_ok w' [] was_tracked finished"
  using ok held_guard_armed [OF ok]
  by (auto simp: tasks_ok_def w' drop_tasks_world proto_cancel_all_world)

lemma proto_loop_stopped [simp]:
  "pl_tasks (proto_stop_handler_tasks s) = []"
  "pl_permits (proto_stop_handler_tasks s) = pl_permits s + length (pl_tasks s)"
  "pl_overload (proto_stop_handler_tasks s) = pl_overload s"
  by (simp_all add: proto_stop_handler_tasks_def)

lemma proto_leave_ok:
  assumes "proto_loop_ok rt s"
  shows "proto_loop_ok rt (proto_leave e (proto_stop_handler_tasks s))"
    and "proto_loop_ok rt (proto_leave e (proto_stop_runtime_tasks s))"
  using assms stop_tasks_ok [OF _ refl, of "pl_world s" "pl_tasks s" "pl_tracked s" "pl_finished s"]
  by (simp_all add: proto_loop_ok_def proto_leave_def proto_stop_runtime_tasks_def proto_stop_handler_tasks_def)

lemma spawn_ok:
  assumes "tasks_ok w tasks was_tracked finished"
  shows "tasks_ok w (tasks @ [\<lparr>ptk_call = call, ptk_tracking = None, ptk_ended = None\<rparr>]) was_tracked finished"
  using assms by (auto simp: tasks_ok_def held_guard_def task_armed_def)

lemma proto_on_invocation_ok:
  assumes "proto_loop_ok rt s" and "pl_exit s = None"
  shows "proto_loop_ok rt (proto_on_invocation rt event s)"
  using assms proto_leave_ok [OF assms(1)]
  by (auto simp: proto_on_invocation_def proto_spawn_handler_task_def proto_loop_ok_def spawn_ok
      split: sum.split nat.split option.split)

lemma proto_on_task_joined_ok:
  assumes "proto_loop_ok rt s" and "pl_exit s = None"
  shows "proto_loop_ok rt (proto_on_task_joined k s)"
proof (cases "k < length (pl_tasks s) \<and> ptk_ended (pl_tasks s ! k) \<noteq> None")
  case True
  then obtain completed where c: "ptk_ended (pl_tasks s ! k) = Some completed" by auto
  define s1 where "s1 = s\<lparr>pl_tasks := remove_nth k (pl_tasks s), pl_permits := Suc (pl_permits s)\<rparr>"
  have s1: "proto_loop_ok rt s1"
    using assms True join_tasks_ok by (auto simp: proto_loop_ok_def s1_def)
  then show ?thesis using True c proto_leave_ok [OF s1]
    by (auto simp: proto_on_task_joined_def s1_def Let_def split: sum.split)
next
  case False
  then show ?thesis using assms(1) by (auto simp: proto_on_task_joined_def split: option.split)
qed

lemma proto_on_task_starts_ok:
  assumes "proto_loop_ok rt s" and "pl_exit s = None"
  shows "proto_loop_ok rt (proto_on_task_starts k s)"
proof (cases "k < length (pl_tasks s) \<and> ptk_tracking (pl_tasks s ! k) = None \<and> ptk_ended (pl_tasks s ! k) = None")
  case True
  obtain t guard w where b: "proto_begin (inv_id (ptk_call (pl_tasks s ! k))) (pl_world s) = ((t, guard), w)"
    by (metis prod.exhaust)
  from begin_tasks_ok [OF _ _ _ _ b refl] True assms show ?thesis
    by (auto simp: proto_on_task_starts_def b proto_loop_ok_def)
next
  case False
  then show ?thesis using assms by (auto simp: proto_on_task_starts_def)
qed

lemma proto_finish_world:
  "prw_active (proto_finish (t, guard) cancels completion w) =
     (case guard of None \<Rightarrow> prw_active w | Some g \<Rightarrow> filter (\<lambda>e. fst e \<noteq> pgd_id g) (prw_active w))"
  "prw_next (proto_finish (t, guard) cancels completion w) = prw_next w"
  "prw_tokens w u \<Longrightarrow> prw_tokens (proto_finish (t, guard) cancels completion w) u"
  "\<not> is_ok completion \<Longrightarrow> guard = Some g \<Longrightarrow> pgd_cancel_on_drop g \<Longrightarrow>
     prw_tokens (proto_finish (t, guard) cancels completion w) (pgd_cancellation g)"
  by (cases guard; simp add: proto_finish_def drop_tracking_world proto_disarm_def proto_token_cancel_def Let_def)+

lemma proto_on_task_ends_ok:
  assumes "proto_loop_ok rt s" and "pl_exit s = None"
  shows "proto_loop_ok rt (proto_on_task_ends ser rt k env completion s)"
proof (cases "k < length (pl_tasks s) \<and> ptk_ended (pl_tasks s ! k) = None \<and> ptk_tracking (pl_tasks s ! k) \<noteq> None")
  case True
  then obtain t guard where tr: "ptk_tracking (pl_tasks s ! k) = Some (t, guard)" by auto
  obtain result cancels where r: "proto_task_evaluation ser rt (ptk_call (pl_tasks s ! k)) guard env = (result, cancels)"
    by (metis prod.exhaust)
  have ok: "tasks_ok (pl_world s) (pl_tasks s) (pl_tracked s) (pl_finished s)" using assms(1) by (simp add: proto_loop_ok_def)
  have held: "held_guard (pl_tasks s ! k) = (case guard of None \<Rightarrow> [] | Some g \<Rightarrow> [g])"
    using True tr by (simp add: held_guard_def split: option.split)
  have armed: "pgd_cancellation g = t \<and> pgd_cancel_on_drop g" if "guard = Some g" for g
    using ok tr True nth_mem [of k "pl_tasks s"] that unfolding tasks_ok_def task_armed_def by blast
  let ?task = "(pl_tasks s ! k)\<lparr>ptk_ended := Some (Inr completion)\<rparr>"
  have "tasks_ok (proto_finish (t, guard) cancels completion (pl_world s)) ((pl_tasks s)[k := ?task]) (pl_tracked s)
      (if is_ok completion then pl_finished s @ [t] else pl_finished s)"
    using armed proto_finish_world(3,4)
    by (intro end_tasks_ok [OF ok]) (auto simp: True proto_finish_world(1,2) held split: option.splits)
  then show ?thesis using assms True tr r by (simp add: proto_on_task_ends_def proto_loop_ok_def)
next
  case False
  then show ?thesis using assms(1)
    by (cases "ptk_tracking (pl_tasks s ! k)") (auto simp: proto_on_task_ends_def)
qed

lemma proto_on_task_panics_ok:
  assumes "proto_loop_ok rt s" and "pl_exit s = None"
  shows "proto_loop_ok rt (proto_on_task_panics k message s)"
proof (cases "k < length (pl_tasks s) \<and> ptk_ended (pl_tasks s ! k) = None \<and> ptk_tracking (pl_tasks s ! k) \<noteq> None")
  case True
  have ok: "tasks_ok (pl_world s) (pl_tasks s) (pl_tracked s) (pl_finished s)" using assms(1) by (simp add: proto_loop_ok_def)
  have armed: "pgd_cancel_on_drop g" if "g \<in> set (held_guard (pl_tasks s ! k))" for g
    using held_guard_armed [OF ok, of g] held_guards_nth [of k "pl_tasks s"] True that by (metis Un_iff set_append)
  have "tasks_ok (proto_drop_task (pl_tasks s ! k) (pl_world s))
      ((pl_tasks s)[k := (pl_tasks s ! k)\<lparr>ptk_ended := Some (Inl message)\<rparr>]) (pl_tracked s) (pl_finished s)"
    using armed by (intro end_tasks_ok [OF ok]) (auto simp: True drop_task_world)
  then show ?thesis using assms True by (simp add: proto_on_task_panics_def proto_loop_ok_def)
next
  case False
  then show ?thesis using assms(1) by (auto simp: proto_on_task_panics_def)
qed

lemma proto_worker_ok:
  assumes "proto_loop_ok rt s" and "pl_exit s = None"
  shows "proto_loop_ok rt (proto_on_worker_joined s)" "proto_loop_ok rt (proto_on_worker_delivers completion s)"
    "proto_loop_ok rt (proto_worker_ends joined s)"
  using assms proto_leave_ok [OF assms(1)]
  by (auto simp: proto_on_worker_joined_def proto_on_worker_delivers_def proto_worker_ends_def proto_loop_ok_def
      Let_def split: option.split list.split sum.split)

lemma proto_loop_step_ok:
  assumes "proto_loop_ok rt s"
  shows "proto_loop_ok rt (proto_loop_step ser rt event s)"
proof (cases "pl_exit s")
  case None
  then show ?thesis
    using assms proto_on_invocation_ok [OF assms None] proto_on_task_joined_ok [OF assms None]
      proto_on_task_starts_ok [OF assms None] proto_on_task_ends_ok [OF assms None]
      proto_on_task_panics_ok [OF assms None] proto_worker_ok [OF assms None]
    by (cases event) (simp_all add: proto_loop_step_def)
qed (use assms in \<open>simp add: proto_loop_step_def\<close>)

lemma proto_loop_run_ok: "proto_loop_ok rt (proto_loop_run ser rt events (proto_loop_start rt))"
proof -
  have "proto_loop_ok rt (proto_loop_start rt)"
    by (simp add: proto_loop_ok_def proto_loop_start_def tasks_ok_def proto_world_new_def)
  then show ?thesis
    unfolding proto_loop_run_def by (induction events rule: rev_induct) (simp_all add: proto_loop_step_ok)
qed

section \<open>Dispatch\<close>

text \<open>
  The one-shot \<open>dispatch\<close>. It finds the free permits and overload permits; \<open>session_end\<close> tells whether the session
  closed first, with what, and whether the evaluation was polled before. The value is its result, what it handed to
  the session, the world afterwards and whether it closed the session. The permits it takes are back when it returns.
\<close>

record proto_dispatched =
  pdp_result :: "proto_runtime_error + unit"
  pdp_delivered :: "invocation_result option"
  pdp_world :: proto_world
  pdp_closed_session :: bool

definition proto_dispatch ::
  "(json \<Rightarrow> serialized) \<Rightarrow> 'h proto_runtime \<Rightarrow> nat \<Rightarrow> nat \<Rightarrow> (bool \<times> (proto_client_error + unit)) option \<Rightarrow>
   proto_eval_env \<Rightarrow> proto_client_error + unit \<Rightarrow> node_invocation \<Rightarrow> proto_world \<Rightarrow> proto_dispatched" where
  "proto_dispatch ser rt free overload_free session_end env completion call w =
     (if free = 0 then
        (if overload_free = 0
           then \<lparr>pdp_result = Inl PDeliverySaturated, pdp_delivered = None, pdp_world = w, pdp_closed_session = True\<rparr>
         else \<lparr>pdp_result = map_err PClient completion, pdp_delivered = Some proto_overloaded, pdp_world = w,
                pdp_closed_session = False\<rparr>)
      else case session_end of
        Some (polled, closing) \<Rightarrow>
          (let w = (if polled then (case proto_begin (inv_id call) w of ((t, guard), w) \<Rightarrow> proto_drop_tracking guard w)
                    else w) in
           \<lparr>pdp_result = map_err PClient closing, pdp_delivered = None, pdp_world = proto_cancel_all w,
            pdp_closed_session = False\<rparr>)
      | None \<Rightarrow>
          (case proto_begin (inv_id call) w of
             ((t, guard), w) \<Rightarrow>
               (case proto_task_evaluation ser rt call guard env of
                  (result, cancels) \<Rightarrow>
                    \<lparr>pdp_result = map_err PClient completion, pdp_delivered = Some result,
                     pdp_world = proto_finish (t, guard) cancels completion w, pdp_closed_session = False\<rparr>)))"

lemma proto_begin_world:
  assumes "proto_begin i w = ((t, guard), w')"
  shows "t = prw_next w" "u < prw_next w \<Longrightarrow> prw_tokens w' u = prw_tokens w u"
    "case map_of (prw_active w) i of
       Some _ \<Rightarrow> guard = None \<and> prw_active w' = prw_active w
     | None \<Rightarrow> (\<exists>g. guard = Some g \<and> pgd_id g = i \<and> prw_active w' = (i, t) # prw_active w)"
  using assms by (auto simp: proto_begin_def proto_token_new_def proto_track_def split: option.splits)

text \<open>
  A dispatch leaves the table of the session as it found it, unless the session closes meanwhile: then everything in
  the table is cancelled, and nothing is handed to the session.
\<close>

lemma proto_dispatch_leaves_table:
  assumes "proto_dispatch ser rt free overload_free session_end env completion call w = d"
  shows "if pdp_delivered d = None \<and> \<not> pdp_closed_session d
    then prw_active (pdp_world d) = [] \<and> (\<forall>e \<in> set (prw_active w). prw_tokens (pdp_world d) (snd e))
    else prw_active (pdp_world d) = prw_active w"
proof -
  obtain t guard w1 where b: "proto_begin (inv_id call) w = ((t, guard), w1)" by (metis prod.exhaust)
  note entry = proto_begin_world [OF b]
  have own: "filter (\<lambda>e. fst e \<noteq> inv_id call) (prw_active w) = prw_active w" if "map_of (prw_active w) (inv_id call) = None"
    using that by (intro filter_True) (auto simp: map_of_eq_None_iff image_iff)
  have drop: "prw_active (proto_drop_tracking guard w1) = prw_active w"
    using entry(3) own by (auto simp: drop_tracking_world split: option.splits)
  consider (saturated) "free = 0" | (closed) polled c where "0 < free" "session_end = Some (polled, c)"
    | (ended) "0 < free" "session_end = None" by (cases session_end) auto
  then show ?thesis
  proof cases
    case saturated
    then show ?thesis using assms by (auto simp: proto_dispatch_def)
  next
    case closed
    then show ?thesis using assms [symmetric] b drop by (cases polled) (simp_all add: proto_dispatch_def proto_cancel_all_world)
  next
    case ended
    have "prw_active (proto_finish (t, guard) cancels completion w1) = prw_active w" for cancels
      using entry(3) own by (auto simp: proto_finish_world split: option.splits)
    then show ?thesis using assms ended b by (auto simp: proto_dispatch_def split: prod.splits)
  qed
qed

section \<open>Properties\<close>

text \<open>
  The earlier loop keeps its bounds and loses no handler. After any events every permit is free or owned by a
  task, the queue of overload results is within its capacity, and exactly the identifiers of the running tasks that
  own one are in the table. The token of every invocation that ever entered the table is cancelled, unless the session
  took its result or its task still runs; and once the loop was left no task and no table entry remains, and the
  session is closed.
\<close>

lemma earlier_loop_loses_no_handler:
  assumes "s = proto_loop_run ser rt events (proto_loop_start rt)"
  shows "pl_permits s + length (pl_tasks s) = prt_max_permits rt \<and> length (pl_overload s) \<le> prt_delivery_capacity rt \<and>
    (\<forall>i t. (i, t) \<in> set (prw_active (pl_world s)) \<longleftrightarrow>
      (\<exists>task \<in> set (pl_tasks s). \<exists>g. ptk_ended task = None \<and> ptk_tracking task = Some (t, Some g) \<and> pgd_id g = i)) \<and>
    (\<forall>t \<in> set (pl_tracked s). prw_tokens (pl_world s) t \<or> t \<in> set (pl_finished s) \<or> t \<in> snd ` set (prw_active (pl_world s))) \<and>
    (pl_exit s \<noteq> None \<longrightarrow> pl_tasks s = [] \<and> prw_active (pl_world s) = [] \<and> pl_session_closed s)"
proof -
  have ok: "proto_loop_ok rt s" unfolding assms by (rule proto_loop_run_ok)
  have key: "pgd_cancellation g = t" if "task \<in> set (pl_tasks s)" "ptk_tracking task = Some (t, Some g)" for task t g
    using ok that unfolding proto_loop_ok_def tasks_ok_def task_armed_def by blast
  have table: "set (prw_active (pl_world s)) = guard_key ` set (held_guards (pl_tasks s))"
    using ok by (simp add: proto_loop_ok_def tasks_ok_def)
  have held: "g \<in> set (held_guards (pl_tasks s)) \<longleftrightarrow>
      (\<exists>task \<in> set (pl_tasks s). \<exists>t. ptk_ended task = None \<and> ptk_tracking task = Some (t, Some g))" for g
    by (auto simp: held_guards_def held_guard_iff)
  have entries: "(i, t) \<in> set (prw_active (pl_world s)) \<longleftrightarrow>
      (\<exists>task \<in> set (pl_tasks s). \<exists>g. ptk_ended task = None \<and> ptk_tracking task = Some (t, Some g) \<and> pgd_id g = i)" for i t
  proof -
    have "(i, t) \<in> set (prw_active (pl_world s)) \<longleftrightarrow>
        (\<exists>g \<in> set (held_guards (pl_tasks s)). pgd_id g = i \<and> pgd_cancellation g = t)"
      unfolding table guard_key_def image_iff by auto
    then show ?thesis unfolding held Bex_def by (auto dest: key)
  qed
  have "pgd_cancellation ` set (held_guards (pl_tasks s)) = snd ` set (prw_active (pl_world s))"
    unfolding table by (simp add: image_image guard_key_def)
  then have tokens: "\<forall>t \<in> set (pl_tracked s). prw_tokens (pl_world s) t \<or> t \<in> set (pl_finished s) \<or> t \<in> snd ` set (prw_active (pl_world s))"
    using ok unfolding proto_loop_ok_def tasks_ok_def by simp
  have "pl_exit s \<noteq> None \<longrightarrow> pl_tasks s = [] \<and> pl_session_closed s" using ok unfolding proto_loop_ok_def by blast
  then have exit: "pl_exit s \<noteq> None \<longrightarrow> pl_tasks s = [] \<and> prw_active (pl_world s) = [] \<and> pl_session_closed s"
    using table by auto
  have "pl_permits s + length (pl_tasks s) = prt_max_permits rt" "length (pl_overload s) \<le> prt_delivery_capacity rt"
    using ok unfolding proto_loop_ok_def by blast+
  then show ?thesis using entries tokens exit by (intro conjI allI)
qed

lemma earlier_loop_loses_no_handler_witness:
  "prw_tokens (pl_world (proto_loop_run demo_ser demo_proto_rt
     [LoopInvocation (Inr demo_call), LoopTaskStarts 0, LoopInvocation (Inl PNotActivated)] (proto_loop_start demo_proto_rt))) 0"
proof -
  define s where "s = proto_loop_run demo_ser demo_proto_rt
    [LoopInvocation (Inr demo_call), LoopTaskStarts 0, LoopInvocation (Inl PNotActivated)] (proto_loop_start demo_proto_rt)"
  have "pl_tracked s = [0]" "pl_finished s = []" "pl_exit s = Some (PClient PNotActivated)"
    by (simp_all add: s_def proto_loop_run_def proto_loop_step_def proto_loop_start_def proto_on_invocation_def
        proto_spawn_handler_task_def proto_on_task_starts_def proto_begin_def proto_token_new_def proto_track_def
        proto_world_new_def proto_leave_def proto_stop_runtime_tasks_def proto_stop_handler_tasks_def demo_proto_rt_def)
  then show ?thesis using earlier_loop_loses_no_handler [OF s_def] unfolding s_def [symmetric] by auto
qed

end
