(* ===== verification/PrototypeHost.thy ===== *)
theory PrototypeHost
  imports PrototypeLoop NodeHost
begin

text \<open>
  The host of the root package (\<open>src/host.rs\<close>), the predecessor of \<open>NodeHost\<close>: one loop over connections without a
  lifecycle driver. The shape of its configuration, its readers and its log records are those of the later host and
  are shared, and so are the health endpoint (\<open>HealthServer\<close>) and the command line. Its errors are those of
  the later host too; an error of its runtime builder is the later builder's error of that name. Shown: readiness is
  that of the session, the newest device token is used until there is a newer one, every retry waits no longer than
  the policy allows, and a host ends only by a shutdown or by a pause, which its last record names.
\<close>

section \<open>Configuration and credentials\<close>

text \<open>The address \<open>127.0.0.1:18790\<close>.\<close>

definition proto_health_listen :: socket_addr where
  "proto_health_listen = \<lparr>sa_ip = IpV4 127 0 0 1, sa_port = 18790\<rparr>"

definition proto_parse_host_config :: "(string \<Rightarrow> socket_addr option) \<Rightarrow> json \<Rightarrow> host_config option" where
  "proto_parse_host_config = read_host_config proto_health_listen"

definition proto_validate_host_config :: "nat \<Rightarrow> host_config \<Rightarrow> host_error + unit" where
  "proto_validate_host_config semaphore_max config =
     (if trim (hc_gateway_url config) = [] \<or> trim (hc_gateway_url config) \<noteq> hc_gateway_url config
        then Inl (ConfigInvalid ''gatewayUrl must be non-empty and have no surrounding whitespace'')
      else if \<not> ip_is_loopback (sa_ip (hc_health_listen config)) \<or> sa_port (hc_health_listen config) = 0
        then Inl (ConfigInvalid ''healthListen must use a loopback address and nonzero port'')
      else
        let command = trim (hc_status_command config) in
      if command = [] \<or> command \<noteq> hc_status_command config \<or> command = ''system'' \<or> starts_with command ''system.''
        then Inl (ConfigInvalid ''statusCommand must have no surrounding whitespace and be outside the reserved system namespace'')
      else if trim (hc_auth_env config) = [] \<or> trim (hc_auth_env config) \<noteq> hc_auth_env config
        then Inl (ConfigInvalid ''authEnv must be non-empty and have no surrounding whitespace'')
      else if trim (hc_identity_secret_env config) = []
          \<or> trim (hc_identity_secret_env config) \<noteq> hc_identity_secret_env config
        then Inl (ConfigInvalid ''identitySecretEnv must be non-empty and have no surrounding whitespace'')
      else if eq_ignore_ascii_case (hc_auth_env config) (hc_identity_secret_env config)
        then Inl (ConfigInvalid ''authEnv and identitySecretEnv must name different variables'')
      else if hc_max_concurrency config = 0 \<or> hc_max_concurrency config > semaphore_max
          \<or> hc_max_input_bytes config = 0 \<or> hc_max_output_bytes config = 0
          \<or> hc_default_timeout_ms config = 0 \<or> hc_max_timeout_ms config = 0
          \<or> hc_default_timeout_ms config > hc_max_timeout_ms config
        then Inl (ConfigInvalid ''runtime bounds must be positive and defaultTimeoutMs must not exceed maxTimeoutMs'')
      else Inr ())"

definition proto_load_host_config ::
  "nat \<Rightarrow> (bytes \<Rightarrow> string + json) \<Rightarrow> (string \<Rightarrow> socket_addr option) \<Rightarrow> config_file \<Rightarrow> host_error + host_config" where
  "proto_load_host_config semaphore_max from_slice parse_addr file =
     (case cf_metadata file of
        Inl e \<Rightarrow> Inl (ConfigRead e)
      | Inr (is_file, len) \<Rightarrow>
          if \<not> is_file \<or> len > MAX_CONFIG_FILE_BYTES
            then Inl (ConfigRead ''configuration path must be a regular file no larger than 64 KiB'')
          else
     (case cf_content file of
        Inl e \<Rightarrow> Inl (ConfigRead e)
      | Inr content \<Rightarrow>
     (case from_slice content of
        Inl e \<Rightarrow> Inl (ConfigParse e)
      | Inr value \<Rightarrow>
     (case proto_parse_host_config parse_addr value of
        None \<Rightarrow> Inl (ConfigParse [])
      | Some config \<Rightarrow>
          bind_result (proto_validate_host_config semaphore_max config) (\<lambda>_. Inr config)))))"

record proto_credentials =
  pcr_identity :: node_identity
  pcr_auth :: connect_auth

definition proto_load_credentials ::
  "identity_crypto \<Rightarrow> (string \<Rightarrow> string option) \<Rightarrow> host_config \<Rightarrow> host_error + proto_credentials" where
  "proto_load_credentials cr env config =
     (case env (hc_identity_secret_env config) of
        None \<Rightarrow> Inl (MissingSecret (hc_identity_secret_env config))
      | Some identity_value \<Rightarrow>
     bind_result (decode_identity cr identity_value) (\<lambda>secret.
     (case env (hc_auth_env config) of
        None \<Rightarrow> Inl (MissingSecret (hc_auth_env config))
      | Some auth_value \<Rightarrow>
          if auth_value = [] then Inl (EmptySecret (hc_auth_env config))
          else Inr \<lparr>pcr_identity = from_secret_bytes secret, pcr_auth = auth_of_kind (hc_auth_kind config) auth_value\<rparr>)))"

definition proto_build_runtime :: "'h \<Rightarrow> host_config \<Rightarrow> proto_build_error + 'h proto_runtime" where
  "proto_build_runtime status_handler config =
     proto_build (prb_command (hc_status_command config) status_handler
       (prb_set (PbMaxTimeout (from_millis (unat (hc_max_timeout_ms config))))
       (prb_set (PbDefaultTimeout (from_millis (unat (hc_default_timeout_ms config))))
       (prb_set (PbOutputBytes (hc_max_output_bytes config))
       (prb_set (PbInputBytes (hc_max_input_bytes config))
       (prb_set (PbConcurrency (hc_max_concurrency config)) proto_builder_default))))))"

section \<open>State\<close>

text \<open>
  Where the loop is: connecting, running a session, waiting before the next attempt, or returned.
\<close>

datatype proto_phase =
    PhConnecting
  | PhRunning
  | PhWaiting duration
  | PhReturned "host_error + unit"

record proto_host =
  ph_phase :: proto_phase
  ph_ready :: bool
  ph_credentials :: proto_credentials
  ph_policy :: reconnect_policy
  ph_log :: "log_record list"

definition ph_emit :: "string \<Rightarrow> string \<Rightarrow> json \<Rightarrow> proto_host \<Rightarrow> proto_host" where
  "ph_emit level event entries h = h\<lparr>ph_log := ph_log h @ [(level, event, entries)]\<rparr>"

fun proto_error_class :: "proto_client_error \<Rightarrow> string" where
  "proto_error_class (PInvalidUrl _) = ''configuration''"
| "proto_error_class PInsecureRemoteGateway = ''configuration''"
| "proto_error_class (PTransport _) = ''transport''"
| "proto_error_class PChallengeTimeout = ''transport''"
| "proto_error_class (PClosed _) = ''transport''"
| "proto_error_class (PInvalidChallenge _) = ''protocol''"
| "proto_error_class (PInvalidFrame _) = ''protocol''"
| "proto_error_class (PConnectParams _) = ''identity''"
| "proto_error_class (PIdentity _) = ''identity''"
| "proto_error_class (PGateway _ _ _ _ _ _) = ''gateway''"
| "proto_error_class (PRequestTimeout _) = ''request-timeout''"
| "proto_error_class (PEventLagged _) = ''event-lagged''"
| "proto_error_class PNotActivated = ''activation''"

fun proto_runtime_error_class :: "proto_runtime_error \<Rightarrow> string" where
  "proto_runtime_error_class PDeliverySaturated = ''delivery-saturated''"
| "proto_runtime_error_class (PResultTask _) = ''result-task''"
| "proto_runtime_error_class (PClient _) = ''client''"

section \<open>The loop over connections\<close>

text \<open>What the loop holds; version and operating system are those of the build.\<close>

record 'h proto_host_links =
  phl_config :: host_config
  phl_runtime :: "'h proto_runtime"
  phl_url :: "string \<Rightarrow> string + gateway_url"
  phl_frames :: "string \<Rightarrow> string + proto_frame"
  phl_crypto :: identity_crypto
  phl_version :: string
  phl_os :: string

definition proto_host_options :: "'h proto_host_links \<Rightarrow> proto_credentials \<Rightarrow> node_connect_options" where
  "proto_host_options links credentials =
     (let options = with_auth (pcr_auth credentials)
            (with_display_name (hc_display_name (phl_config links)) (options_new (phl_version links) (phl_os links)));
          options = (case hc_instance_id (phl_config links) of
              None \<Rightarrow> options
            | Some instance_id \<Rightarrow> with_instance_id instance_id options) in
      proto_activate (phl_runtime links) options)"

definition proto_host_connect ::
  "'h proto_host_links \<Rightarrow> proto_credentials \<Rightarrow> proto_connect_env \<Rightarrow>
   (proto_client_error + proto_connected) option \<times> json list" where
  "proto_host_connect links credentials env =
     proto_connect (phl_url links) (phl_frames links) (proto_config_new (hc_gateway_url (phl_config links)))
       (phl_crypto links) (\<lambda>nonce. Inr (proto_host_options links credentials, Some (pcr_identity credentials))) env"

definition proto_device_token :: "json \<Rightarrow> string option" where
  "proto_device_token hello =
     Option.bind (as_str (json_index (json_index hello ''auth'') ''deviceToken'')) non_empty"

definition proto_adopt_device_token :: "json \<Rightarrow> proto_host \<Rightarrow> proto_host" where
  "proto_adopt_device_token hello h =
     (case proto_device_token hello of
        None \<Rightarrow> h
      | Some device_token \<Rightarrow>
          ph_emit ''info'' ''gateway.device_token_adopted'' (JObject [(''persistence'', JString ''process-memory'')])
            (h\<lparr>ph_credentials := (ph_credentials h)\<lparr>pcr_auth := auth_with_device_token device_token\<rparr>\<rparr>))"

definition proto_emit_connected :: "identity_crypto \<Rightarrow> json \<Rightarrow> proto_host \<Rightarrow> proto_host" where
  "proto_emit_connected cr hello h =
     ph_emit ''info'' ''gateway.connected''
       (JObject [(''protocol'', json_index hello ''protocol''),
         (''serverVersion'', json_index (json_index hello ''server'') ''version''),
         (''deviceId'', JString (proto_device_id cr (pcr_identity (ph_credentials h))))]) h"

definition proto_emit_retry :: "duration \<Rightarrow> proto_client_error \<Rightarrow> proto_host \<Rightarrow> proto_host" where
  "proto_emit_retry delay error h =
     ph_emit ''warn'' ''gateway.retry''
       (JObject [(''delayMs'', JNumber (PosInt (duration_ms delay))), (''errorClass'', JString (proto_error_class error))]) h"

text \<open>\<open>reconnect_delay\<close>: the delay, or the error the loop returns, as the phase that follows.\<close>

definition proto_reconnect_delay :: "proto_client_error \<Rightarrow> proto_host \<Rightarrow> proto_host" where
  "proto_reconnect_delay error h =
     (case proto_after_failure error (ph_policy h) of
        (action, policy) \<Rightarrow>
          let h = h\<lparr>ph_policy := policy\<rparr> in
          case action of
            RetryAfter delay \<Rightarrow> (proto_emit_retry delay error h)\<lparr>ph_phase := PhWaiting delay\<rparr>
          | RetryWithStoredDeviceTokenAfter delay \<Rightarrow> (proto_emit_retry delay error h)\<lparr>ph_phase := PhWaiting delay\<rparr>
          | KeepSession \<Rightarrow> (proto_emit_retry (from_secs 1) error h)\<lparr>ph_phase := PhWaiting (from_secs 1)\<rparr>
          | Pause pause \<Rightarrow>
              (ph_emit ''error'' ''gateway.paused''
                 (JObject [(''reason'', JString (pause_name pause)), (''diagnostic'', pause_diagnostic pause)]) h)
                \<lparr>ph_phase := PhReturned (Inl (ReconnectPaused (pause_name pause)))\<rparr>)"

text \<open>
  What can happen: the connect of this attempt ends, with what the network did; the runtime of the session ends; the
  wait ends; shutdown is requested, and a running session drained in time or not. An event that does not belong to the
  phase does not happen.
\<close>

datatype proto_host_event =
    HostConnects proto_connect_env
  | HostRuntimeEnds "proto_runtime_error + unit"
  | HostWaited
  | HostShutdown bool

definition proto_on_connect :: "'h proto_host_links \<Rightarrow> proto_connect_env \<Rightarrow> proto_host \<Rightarrow> proto_host" where
  "proto_on_connect links env h =
     (case fst (proto_host_connect links (ph_credentials h) env) of
        None \<Rightarrow> h
      | Some (Inl error) \<Rightarrow> proto_reconnect_delay error (h\<lparr>ph_ready := False\<rparr>)
      | Some (Inr session) \<Rightarrow>
          (let h = proto_adopt_device_token (pcs_hello session) (h\<lparr>ph_policy := connected (ph_policy h)\<rparr>) in
           (proto_emit_connected (phl_crypto links) (pcs_hello session) (h\<lparr>ph_ready := True\<rparr>))\<lparr>ph_phase := PhRunning\<rparr>))"

definition proto_on_runtime_end :: "proto_runtime_error + unit \<Rightarrow> proto_host \<Rightarrow> proto_host" where
  "proto_on_runtime_end result h =
     (let h = h\<lparr>ph_ready := False\<rparr> in
      case result of
        Inl (PClient error) \<Rightarrow> proto_reconnect_delay error h
      | Inl error \<Rightarrow>
          (ph_emit ''error'' ''runtime.restart'' (JObject [(''reason'', JString (proto_runtime_error_class error))]) h)
            \<lparr>ph_phase := PhWaiting (from_secs 1)\<rparr>
      | Inr _ \<Rightarrow>
          (ph_emit ''warn'' ''runtime.restart'' (JObject [(''reason'', JString ''runtime-ended'')]) h)
            \<lparr>ph_phase := PhConnecting\<rparr>)"

definition proto_host_stopped :: "(string \<times> json) list \<Rightarrow> proto_host \<Rightarrow> proto_host" where
  "proto_host_stopped extra h =
     (ph_emit ''info'' ''host.stopped'' (JObject ((''reason'', JString ''shutdown'') # extra)) h)
       \<lparr>ph_phase := PhReturned (Inr ())\<rparr>"

definition proto_host_step :: "'h proto_host_links \<Rightarrow> proto_host_event \<Rightarrow> proto_host \<Rightarrow> proto_host" where
  "proto_host_step links event h =
     (case ph_phase h of
        PhConnecting \<Rightarrow>
          (case event of
             HostConnects env \<Rightarrow> proto_on_connect links env h
           | HostShutdown _ \<Rightarrow> proto_host_stopped [] h
           | _ \<Rightarrow> h)
      | PhRunning \<Rightarrow>
          (case event of
             HostRuntimeEnds result \<Rightarrow> proto_on_runtime_end result h
           | HostShutdown drained \<Rightarrow> proto_host_stopped [(''drained'', JBool drained)] (h\<lparr>ph_ready := False\<rparr>)
           | _ \<Rightarrow> h)
      | PhWaiting _ \<Rightarrow>
          (case event of
             HostWaited \<Rightarrow> h\<lparr>ph_phase := PhConnecting\<rparr>
           | HostShutdown _ \<Rightarrow> proto_host_stopped [] h
           | _ \<Rightarrow> h)
      | PhReturned _ \<Rightarrow> h)"

definition proto_host_run :: "'h proto_host_links \<Rightarrow> proto_host_event list \<Rightarrow> proto_host \<Rightarrow> proto_host" where
  "proto_host_run links events h = fold (proto_host_step links) events h"

definition proto_connections_start ::
  "(socket_addr \<Rightarrow> string) \<Rightarrow> host_config \<Rightarrow> proto_credentials \<Rightarrow> proto_host" where
  "proto_connections_start show_addr config credentials =
     \<lparr>ph_phase = PhConnecting, ph_ready = False, ph_credentials = credentials, ph_policy = policy_default,
      ph_log = [(''info'', ''host.starting'', JObject
          [(''healthListen'', JString (show_addr (hc_health_listen config))),
           (''statusCommand'', JString (hc_status_command config))])]\<rparr>"

text \<open>\<open>run_host\<close>: its start, where \<open>bind\<close> is why the listener could not be bound, and its result.\<close>

definition proto_run_host_start ::
  "nat \<Rightarrow> (socket_addr \<Rightarrow> string) \<Rightarrow> 'h \<Rightarrow> (socket_addr \<Rightarrow> string option) \<Rightarrow> host_config \<Rightarrow> proto_credentials \<Rightarrow>
   host_error + 'h proto_runtime \<times> proto_host" where
  "proto_run_host_start semaphore_max show_addr status_handler bind_failed config credentials =
     bind_result (proto_validate_host_config semaphore_max config) (\<lambda>_.
       case bind_failed (hc_health_listen config) of
         Some e \<Rightarrow> Inl (HealthBind e)
       | None \<Rightarrow>
           (case proto_build_runtime status_handler config of
              Inl e \<Rightarrow> Inl (RuntimeBuild (later_build_error e))
            | Inr runtime \<Rightarrow> Inr (runtime, proto_connections_start show_addr config credentials)))"

datatype proto_host_race = ProtoConnectionsEnded proto_host | ProtoHealthTaskEnded string

fun proto_run_host_result :: "proto_host_race \<Rightarrow> (host_error + unit) option" where
  "proto_run_host_result (ProtoConnectionsEnded h) =
     (case ph_phase h of PhReturned result \<Rightarrow> Some result | _ \<Rightarrow> None)"
| "proto_run_host_result (ProtoHealthTaskEnded e) = Some (Inl (HealthServe e))"

section \<open>Configurations\<close>

text \<open>The earlier host takes what the later one takes, but for an address without a port.\<close>

lemma earlier_config_stricter:
  "proto_validate_host_config semaphore_max config = Inr () \<longleftrightarrow>
     validate_host_config semaphore_max config = Inr () \<and> sa_port (hc_health_listen config) \<noteq> 0"
  by (auto simp: proto_validate_host_config_def validate_host_config_def Let_def)

text \<open>So its runtime can always be built, with the bounds of the configuration.\<close>

lemma earlier_host_config_builds:
  assumes "proto_validate_host_config semaphore_max config = Inr ()"
  shows "\<exists>rt. proto_build_runtime handler config = Inr rt \<and> proto_command_names rt = [hc_status_command config] \<and>
    map_of (prt_handlers rt) (hc_status_command config) = Some handler \<and>
    prt_max_permits rt = hc_max_concurrency config \<and>
    prt_max_input_bytes rt = hc_max_input_bytes config \<and> prt_max_output_bytes rt = hc_max_output_bytes config \<and>
    prt_default_timeout rt = from_millis (unat (hc_default_timeout_ms config)) \<and>
    prt_max_timeout rt = from_millis (unat (hc_max_timeout_ms config))"
proof -
  have "validate_host_config semaphore_max config = Inr ()" using assms by (simp add: earlier_config_stricter)
  from valid_host_config [OF this] show ?thesis
    by (auto simp: proto_build_runtime_def proto_build_def prb_command_def proto_builder_default_def reserved_def
        proto_command_names_def nonzero_duration_def from_millis_def Let_def)
qed

section \<open>Invariant\<close>

text \<open>
  What holds between any two events: the flag says whether a session runs, a wait is no longer than the policy's maximum,
  and the record of the return is the last one.
\<close>

definition policy_in_bounds :: "reconnect_policy \<Rightarrow> bool" where
  "policy_in_bounds p \<longleftrightarrow> rp_maximum_delay p = DEFAULT_MAXIMUM_DELAY \<and>
     rp_initial_delay p \<le> DEFAULT_MAXIMUM_DELAY \<and> rp_next_delay p \<le> DEFAULT_MAXIMUM_DELAY"

fun return_record :: "host_error + unit \<Rightarrow> log_record \<Rightarrow> bool" where
  "return_record (Inr _) (level, event, entries) \<longleftrightarrow> level = ''info'' \<and> event = ''host.stopped''"
| "return_record (Inl e) (level, event, entries) \<longleftrightarrow> level = ''error'' \<and> event = ''gateway.paused'' \<and>
     (\<exists>pause. e = ReconnectPaused (pause_name pause) \<and>
        entries = JObject [(''reason'', JString (pause_name pause)), (''diagnostic'', pause_diagnostic pause)])"

definition phase_ok :: "proto_host \<Rightarrow> bool" where
  "phase_ok h \<longleftrightarrow>
     (case ph_phase h of
        PhWaiting delay \<Rightarrow> delay \<le> DEFAULT_MAXIMUM_DELAY
      | PhReturned result \<Rightarrow> ph_log h \<noteq> [] \<and> return_record result (last (ph_log h))
      | _ \<Rightarrow> True)"

definition proto_host_ok :: "proto_host \<Rightarrow> bool" where
  "proto_host_ok h \<longleftrightarrow> (ph_ready h \<longleftrightarrow> ph_phase h = PhRunning) \<and> phase_ok h \<and> policy_in_bounds (ph_policy h)"

lemma proto_after_failure_bounds:
  assumes "policy_in_bounds p" and "proto_after_failure error p = (action, p')"
  shows "policy_in_bounds p' \<and>
    (\<forall>delay. action = RetryAfter delay \<or> action = RetryWithStoredDeviceTokenAfter delay \<longrightarrow> delay \<le> DEFAULT_MAXIMUM_DELAY)"
  using assms
  by (auto simp: proto_after_failure_def proto_after_failure_with_device_token_def policy_in_bounds_def
      split: if_splits option.splits)

lemma second_in_bounds: "from_secs 1 \<le> DEFAULT_MAXIMUM_DELAY"
  by (simp add: DEFAULT_MAXIMUM_DELAY_def from_secs_def)

lemma proto_reconnect_delay_ok:
  assumes "policy_in_bounds (ph_policy h)" and "\<not> ph_ready h"
  shows "proto_host_ok (proto_reconnect_delay error h)"
proof -
  obtain action p where a: "proto_after_failure error (ph_policy h) = (action, p)" by fastforce
  from proto_after_failure_bounds [OF assms(1) a] assms(2) second_in_bounds show ?thesis
    by (cases action)
      (auto simp: proto_reconnect_delay_def a proto_host_ok_def phase_ok_def proto_emit_retry_def ph_emit_def)
qed

lemma proto_host_step_ok: "proto_host_ok h \<Longrightarrow> proto_host_ok (proto_host_step links event h)"
proof -
  assume ok: "proto_host_ok h"
  have stopped: "proto_host_ok (proto_host_stopped extra g)" if "policy_in_bounds (ph_policy g)" "\<not> ph_ready g" for extra g
    using that by (simp add: proto_host_stopped_def proto_host_ok_def phase_ok_def ph_emit_def)
  have policy: "policy_in_bounds (ph_policy h)" using ok by (simp add: proto_host_ok_def)
  show ?thesis
  proof (cases "ph_phase h")
    case PhConnecting
    have "proto_host_ok (proto_on_connect links env h)" for env
      using ok policy proto_reconnect_delay_ok [of "h\<lparr>ph_ready := False\<rparr>"]
      by (auto simp: proto_on_connect_def proto_host_ok_def phase_ok_def proto_adopt_device_token_def
          proto_emit_connected_def ph_emit_def connected_def policy_in_bounds_def Let_def split: option.split sum.split)
    then show ?thesis using ok policy stopped [of h] PhConnecting
      by (cases event) (simp_all add: proto_host_step_def proto_host_ok_def)
  next
    case PhRunning
    have "proto_host_ok (proto_on_runtime_end result h)" for result
      using ok policy proto_reconnect_delay_ok [of "h\<lparr>ph_ready := False\<rparr>"] second_in_bounds
      by (auto simp: proto_on_runtime_end_def proto_host_ok_def phase_ok_def ph_emit_def Let_def
          split: sum.split proto_runtime_error.split)
    then show ?thesis using ok policy stopped [of "h\<lparr>ph_ready := False\<rparr>"] PhRunning
      by (cases event) (simp_all add: proto_host_step_def)
  next
    case (PhWaiting delay)
    then show ?thesis using ok policy stopped [of h]
      by (cases event) (simp_all add: proto_host_step_def proto_host_ok_def phase_ok_def)
  next
    case (PhReturned result)
    then show ?thesis using ok by (simp add: proto_host_step_def)
  qed
qed

lemma proto_host_run_ok: "proto_host_ok h \<Longrightarrow> proto_host_ok (proto_host_run links events h)"
  unfolding proto_host_run_def by (induction events arbitrary: h) (simp_all add: proto_host_step_ok)

lemma proto_connections_start_ok: "proto_host_ok (proto_connections_start show_addr config credentials)"
  by (simp add: proto_connections_start_def proto_host_ok_def phase_ok_def policy_in_bounds_def policy_default_def
      policy_new_def DEFAULT_INITIAL_DELAY_def DEFAULT_MAXIMUM_DELAY_def from_secs_def)

section \<open>Credentials over a run\<close>

text \<open>The device tokens the Gateway gave in the hellos of a run, in their order.\<close>

definition token_of_step :: "'h proto_host_links \<Rightarrow> proto_host_event \<Rightarrow> proto_host \<Rightarrow> string list" where
  "token_of_step links event h =
     (case (ph_phase h, event) of
        (PhConnecting, HostConnects env) \<Rightarrow>
          (case fst (proto_host_connect links (ph_credentials h) env) of
             Some (Inr session) \<Rightarrow> (case proto_device_token (pcs_hello session) of None \<Rightarrow> [] | Some t \<Rightarrow> [t])
           | _ \<Rightarrow> [])
      | _ \<Rightarrow> [])"

fun tokens_of_run :: "'h proto_host_links \<Rightarrow> proto_host_event list \<Rightarrow> proto_host \<Rightarrow> string list" where
  "tokens_of_run links [] h = []"
| "tokens_of_run links (event # events) h =
     token_of_step links event h @ tokens_of_run links events (proto_host_step links event h)"

definition newest_auth :: "connect_auth \<Rightarrow> string list \<Rightarrow> connect_auth" where
  "newest_auth configured given = (if given = [] then configured else auth_with_device_token (last given))"

lemma reconnect_delay_credentials [simp]: "ph_credentials (proto_reconnect_delay error h) = ph_credentials h"
  by (auto simp: proto_reconnect_delay_def proto_emit_retry_def ph_emit_def Let_def split: prod.split reconnect_action.split)

lemma step_credentials:
  "ph_credentials (proto_host_step links event h) =
     (ph_credentials h)\<lparr>pcr_auth := newest_auth (pcr_auth (ph_credentials h)) (token_of_step links event h)\<rparr>"
  by (auto simp: proto_host_step_def token_of_step_def newest_auth_def proto_on_connect_def proto_on_runtime_end_def
      proto_host_stopped_def proto_adopt_device_token_def proto_emit_connected_def ph_emit_def Let_def
      split: proto_phase.split proto_host_event.split option.split sum.split proto_runtime_error.split)

lemma run_credentials:
  "ph_credentials (proto_host_run links events h) =
     (ph_credentials h)\<lparr>pcr_auth := newest_auth (pcr_auth (ph_credentials h)) (tokens_of_run links events h)\<rparr>"
  unfolding proto_host_run_def
  by (induction events arbitrary: h) (auto simp: step_credentials newest_auth_def)

section \<open>Properties\<close>

text \<open>
  The earlier host is ready exactly while a session runs. After any events from its start it authenticates with
  the newest device token a hello gave it, or as configured while there was none, and with the identity it was
  started with; it waits between two attempts no longer than the maximum of the default policy; and when it has
  returned, its last record says why: a shutdown, or the pause it returned.
\<close>

lemma earlier_host_follows_session:
  assumes "h = proto_host_run links events (proto_connections_start show_addr config credentials)"
  shows "(ph_ready h \<longleftrightarrow> ph_phase h = PhRunning) \<and>
    ph_credentials h = credentials\<lparr>pcr_auth := newest_auth (pcr_auth credentials)
      (tokens_of_run links events (proto_connections_start show_addr config credentials))\<rparr> \<and>
    (\<forall>delay. ph_phase h = PhWaiting delay \<longrightarrow> delay \<le> from_secs 30) \<and>
    (\<forall>result. ph_phase h = PhReturned result \<longrightarrow> ph_log h \<noteq> [] \<and> return_record result (last (ph_log h)))"
proof -
  have "proto_host_ok h" unfolding assms by (rule proto_host_run_ok [OF proto_connections_start_ok])
  moreover have "ph_credentials h = credentials\<lparr>pcr_auth := newest_auth (pcr_auth credentials)
      (tokens_of_run links events (proto_connections_start show_addr config credentials))\<rparr>"
    unfolding assms run_credentials by (simp add: proto_connections_start_def)
  ultimately show ?thesis
    by (simp add: proto_host_ok_def phase_ok_def DEFAULT_MAXIMUM_DELAY_def split: proto_phase.splits)
qed

definition demo_proto_links :: "nat proto_host_links" where
  "demo_proto_links = \<lparr>phl_config = demo_host_config, phl_runtime = demo_proto_rt, phl_url = demo_proto_url,
     phl_frames = demo_proto_parse, phl_crypto = demo_crypto, phl_version = ''1'', phl_os = ''linux''\<rparr>"

lemma earlier_host_follows_session_witness:
  "\<exists>h :: proto_host. ph_phase h = PhReturned (Inr ()) \<and> \<not> ph_ready h \<and> return_record (Inr ()) (last (ph_log h))"
proof -
  define h where "h = proto_host_run demo_proto_links [HostShutdown True]
    (proto_connections_start (\<lambda>_. ''a'') demo_host_config \<lparr>pcr_identity = \<lparr>ni_secret = [1]\<rparr>, pcr_auth = auth_with_token ''t''\<rparr>)"
  have "ph_phase h = PhReturned (Inr ())"
    by (simp add: h_def proto_host_run_def proto_host_step_def proto_connections_start_def proto_host_stopped_def)
  moreover from this earlier_host_follows_session [OF h_def] have "\<not> ph_ready h" "return_record (Inr ()) (last (ph_log h))"
    by auto
  ultimately show ?thesis by blast
qed

end
