(* ===== verification/GatewayWrite.thy ===== *)
theory GatewayWrite
  imports GatewayTask
begin

text \<open>
  The stages of one write of the session task (\<open>send_message_guarded\<close> of \<open>session.rs\<close>): the socket becomes
  writable, the guard is asked, the message is handed to the sink and flushed, all within a timeout. \<open>GatewayTask\<close>
  takes how a write ended as its input; here that outcome is made from the stages, so that what reached the sink
  can be related to what became of the request.
\<close>

section \<open>Stages\<close>

text \<open>
  What the socket and the guard do: when polling for writability ends and how, what the guard says (none: there is
  no guard), whether the sink takes the message, how long after that the flush ends and how. \<open>None\<close> for a time is
  never.
\<close>

record write_env =
  we_ready :: "(duration \<times> (string + unit)) option"
  we_guard :: "(string + unit) option"
  we_start_send :: "string + unit"
  we_flush :: "(duration \<times> (string + unit)) option"

text \<open>How the write ended, whether the guard was asked, whether the sink took the message.\<close>

record write_run =
  wr_outcome :: send_outcome
  wr_guard_asked :: bool
  wr_handed :: bool

definition send_message_guarded :: "duration \<Rightarrow> write_env \<Rightarrow> write_run" where
  "send_message_guarded timeout env =
     (case we_ready env of
        None \<Rightarrow> \<lparr>wr_outcome = SendTimedOut, wr_guard_asked = False, wr_handed = False\<rparr>
      | Some (t, ready) \<Rightarrow>
     if timeout < t then \<lparr>wr_outcome = SendTimedOut, wr_guard_asked = False, wr_handed = False\<rparr>
     else case ready of
        Inl e \<Rightarrow> \<lparr>wr_outcome = SendFailed e, wr_guard_asked = False, wr_handed = False\<rparr>
      | Inr _ \<Rightarrow>
     (let asked = (we_guard env \<noteq> None) in
      case we_guard env of
        Some (Inl reason) \<Rightarrow> \<lparr>wr_outcome = SendRejected reason, wr_guard_asked = asked, wr_handed = False\<rparr>
      | _ \<Rightarrow>
     (case we_start_send env of
        Inl e \<Rightarrow> \<lparr>wr_outcome = SendFailed e, wr_guard_asked = asked, wr_handed = False\<rparr>
      | Inr _ \<Rightarrow>
     (case we_flush env of
        None \<Rightarrow> \<lparr>wr_outcome = SendTimedOut, wr_guard_asked = asked, wr_handed = True\<rparr>
      | Some (t', flushed) \<Rightarrow>
          \<lparr>wr_outcome = (if timeout < t + t' then SendTimedOut
              else case flushed of Inl e \<Rightarrow> SendFailed e | Inr _ \<Rightarrow> Sent),
           wr_guard_asked = asked, wr_handed = True\<rparr>))))"

text \<open>A message without a guard: \<open>send_message\<close>.\<close>

definition send_message :: "duration \<Rightarrow> write_env \<Rightarrow> write_run" where
  "send_message timeout env = send_message_guarded timeout (env\<lparr>we_guard := None\<rparr>)"

text \<open>A request taken from the command channel, written within what is left until its deadline.\<close>

definition request_write :: "duration \<Rightarrow> nat \<Rightarrow> write_env \<Rightarrow> request_command \<Rightarrow> write_run" where
  "request_write write_timeout now env rq = send_message_guarded (min write_timeout (rq_deadline rq - now)) env"

text \<open>Whether the task comes to write the request at all.\<close>

definition write_begins :: "nat \<Rightarrow> request_command \<Rightarrow> gateway_task \<Rightarrow> bool" where
  "write_begins now rq s \<longleftrightarrow> rq_id rq \<notin> gt_cancelled s \<and> now < rq_deadline rq"

definition on_request_written :: "duration \<Rightarrow> nat \<Rightarrow> write_env \<Rightarrow> request_command \<Rightarrow> gateway_task \<Rightarrow> gateway_task" where
  "on_request_written write_timeout now env rq s =
     on_request write_timeout now (wr_outcome (request_write write_timeout now env rq)) rq s"

section \<open>What reached the sink\<close>

lemma rejected_write:
  "wr_outcome (send_message_guarded timeout env) = SendRejected reason \<longleftrightarrow>
     (\<exists>t. we_ready env = Some (t, Inr ()) \<and> t \<le> timeout) \<and> we_guard env = Some (Inl reason)"
  by (auto simp: send_message_guarded_def Let_def not_less split: option.splits sum.splits if_splits)

lemma handed_write:
  "wr_handed (send_message_guarded timeout env) \<longleftrightarrow>
     (\<exists>t. we_ready env = Some (t, Inr ()) \<and> t \<le> timeout) \<and> (we_guard env = None \<or> we_guard env = Some (Inr ())) \<and>
     we_start_send env = Inr ()"
  by (auto simp: send_message_guarded_def Let_def not_less split: option.splits sum.splits if_splits)

lemma guard_asked:
  "wr_guard_asked (send_message_guarded timeout env) \<longleftrightarrow>
     (\<exists>t. we_ready env = Some (t, Inr ()) \<and> t \<le> timeout) \<and> we_guard env \<noteq> None"
  by (auto simp: send_message_guarded_def Let_def not_less split: option.splits sum.splits if_splits)

lemma unguarded_never_rejected: "wr_outcome (send_message timeout env) \<noteq> SendRejected reason"
  by (simp add: send_message_def rejected_write)

text \<open>
  C37. A request the sink took is never lost from sight. If the task wrote a request and the sink took its
  frame, then the socket was writable before the deadline and the guard, where there is one, was asked and agreed;
  and afterwards the request is pending or the session is over. If the sink did not take it, the request is answered
  at once and is not among those sent.
\<close>

lemma handed_request_is_tracked:
  assumes "gateway_inv s" and "gt_closed s = None" and "write_begins now rq s"
    and "run = request_write write_timeout now env rq" and "s' = on_request_written write_timeout now env rq s"
  shows "(if wr_handed run
      then (\<exists>t. we_ready env = Some (t, Inr ()) \<and> now + t \<le> rq_deadline rq) \<and>
        (wr_guard_asked run = (we_guard env \<noteq> None)) \<and> (\<forall>reason. we_guard env \<noteq> Some (Inl reason)) \<and>
        (gt_closed s' = None \<and> rq_id rq \<in> fst ` set (gt_pending s') \<and> gt_sent s' = gt_sent s @ [rq]
          \<or> gt_closed s' \<noteq> None \<and> gt_pending s' = [])
      else gt_sent s' = gt_sent s \<and> (\<exists>e. (rq_id rq, Inl e) \<in> set (gt_replies s')))"
proof (cases "wr_handed run")
  case True
  obtain t where t: "we_ready env = Some (t, Inr ())" "t \<le> min write_timeout (rq_deadline rq - now)"
    "we_guard env = None \<or> we_guard env = Some (Inr ())"
    using True assms(4) by (auto simp: request_write_def handed_write)
  have "wr_outcome run \<noteq> SendRejected reason" for reason
    using t(3) assms(4) by (auto simp: request_write_def rejected_write)
  then have "gt_closed s' = None \<and> rq_id rq \<in> fst ` set (gt_pending s') \<and> gt_sent s' = gt_sent s @ [rq]
      \<or> gt_closed s' \<noteq> None \<and> gt_pending s' = []"
    using assms(2,3) unfolding assms(5) on_request_written_def assms(4) [symmetric]
    by (cases "wr_outcome run")
      (auto simp: on_request_def write_begins_def Let_def end_session_fields end_session_pending pending_insert_def
        pending_drop_def pending_remove_def split: option.splits)
  moreover have "now + t \<le> rq_deadline rq" using t(2) assms(3) by (auto simp: write_begins_def)
  moreover have "wr_guard_asked run = (we_guard env \<noteq> None)"
    using t assms(4) by (auto simp: request_write_def guard_asked)
  ultimately show ?thesis using True t(1,3) by auto
next
  case False
  then have "wr_outcome run \<noteq> Sent"
    unfolding assms(4) request_write_def
    by (auto simp: send_message_guarded_def Let_def split: option.splits sum.splits if_splits)
  moreover have sent: "gt_sent (answer_command rq r s) = gt_sent s" for r by (simp add: answer_command_def)
  moreover have replied: "(rq_id rq, r) \<in> set (gt_replies (answer_command rq r s))" for r
    by (simp add: answer_command_def)
  moreover have "(rq_id rq, r) \<in> set (gt_replies (end_session cause (answer_command rq r s)))" for cause r
  proof -
    have "distinct (pending_ids (answer_command rq r s))"
      using assms(1) by (simp add: gateway_inv_def pending_ids_def answer_command_def)
    then show ?thesis using end_session_replies [of "answer_command rq r s" cause] replied by simp
  qed
  ultimately show ?thesis
    using False assms(2,3) unfolding assms(5) on_request_written_def assms(4) [symmetric]
    by (cases "wr_outcome run")
      (simp_all add: on_request_def write_begins_def Let_def end_session_fields del: split_paired_Ex, blast+)
qed

lemma handed_request_is_tracked_witness:
  "rq_id (demo_request 3 ''help'' 70) \<in> fst ` set (gt_pending (on_request_written 10 2
     \<lparr>we_ready = Some (3, Inr ()), we_guard = Some (Inr ()), we_start_send = Inr (), we_flush = Some (1, Inr ())\<rparr>
     (demo_request 3 ''help'' 70) demo_gateway))"
proof -
  let ?env = "\<lparr>we_ready = Some (3, Inr ()), we_guard = Some (Inr ()), we_start_send = Inr (), we_flush = Some (1, Inr ())\<rparr>"
  have b: "write_begins 2 (demo_request 3 ''help'' 70) demo_gateway"
    by (simp add: write_begins_def demo_gateway_eq) (simp add: demo_request_def)
  have c: "gt_closed demo_gateway = None" by (simp add: demo_gateway_eq)
  have h: "wr_handed (request_write 10 2 ?env (demo_request 3 ''help'' 70))"
    by (simp add: request_write_def handed_write) (simp add: demo_request_def)
  have "wr_outcome (request_write 10 2 ?env (demo_request 3 ''help'' 70)) = Sent"
    by (simp add: request_write_def send_message_guarded_def) (simp add: demo_request_def)
  then have "gt_closed (on_request_written 10 2 ?env (demo_request 3 ''help'' 70) demo_gateway) = None"
    using b c by (simp add: on_request_written_def on_request_def write_begins_def Let_def pending_insert_def
        pending_drop_def pending_remove_def split: option.split)
  then show ?thesis
    using handed_request_is_tracked [OF demo_gateway_inv c b refl refl, of 10 ?env] h by simp
qed

end
