(* ===== verification/SessionScopes.thy ===== *)
theory SessionScopes
  imports ActiveInvocations
begin

text \<open>
  The map of session scopes of a command runtime (\<open>session_scope\<close> of \<open>runtime.rs\<close>, \<open>runtime_scope\<close> of
  \<open>node.rs\<close>). Every session has a marker; a scope, the table of running invocations and the overload permits of a
  session, is found under the address of that marker and holds it weakly. An address is used again after its session
  is gone. Shown: a session always finds its own scope, and no other session ever does.
\<close>

section \<open>Scopes\<close>

text \<open>
  A marker is named by a number that is never used again, a scope by the number of its shared table. The heap holds
  the markers some session still owns, with their addresses. The allocator keeps the address of a marker a scope still
  holds weakly; here it may be used again as soon as the session ended, so what is shown does not rest on that.
\<close>

record session_scope =
  scope_marker :: nat
  scope_active :: nat
  scope_overload_permits :: nat

record scope_state =
  heap_markers :: "(nat \<times> nat) list"
  heap_next :: nat
  session_scopes :: "(nat \<times> session_scope) list"
  next_active :: nat
  found_scopes :: "(nat \<times> nat) list"

definition scopes_start :: scope_state where
  "scopes_start = \<lparr>heap_markers = [], heap_next = 0, session_scopes = [], next_active = 0, found_scopes = []\<rparr>"

text \<open>\<open>Weak::strong_count\<close> is positive.\<close>

definition marker_alive :: "nat \<Rightarrow> scope_state \<Rightarrow> bool" where
  "marker_alive marker s = (marker \<in> snd ` set (heap_markers s))"

text \<open>\<open>runtime_scope\<close>: the address of the session's marker, as the key, and the marker.\<close>

definition runtime_scope :: "nat \<Rightarrow> scope_state \<Rightarrow> (nat \<times> nat) option" where
  "runtime_scope marker s = find (\<lambda>entry. snd entry = marker) (heap_markers s)"

text \<open>\<open>retain\<close>: the entries whose marker lives.\<close>

definition retained_scopes :: "scope_state \<Rightarrow> (nat \<times> session_scope) list" where
  "retained_scopes s = filter (\<lambda>(_, scope). marker_alive (scope_marker scope) s) (session_scopes s)"

definition find_scope :: "nat \<Rightarrow> nat \<times> nat \<Rightarrow> scope_state \<Rightarrow> session_scope \<times> scope_state" where
  "find_scope capacity place s =
     (case place of (key, marker) \<Rightarrow>
        let scopes = retained_scopes s in
        case map_of scopes key of
          Some scope \<Rightarrow> (scope, s\<lparr>session_scopes := scopes\<rparr>)
        | None \<Rightarrow>
            (let scope = \<lparr>scope_marker = marker, scope_active = next_active s, scope_overload_permits = capacity\<rparr> in
             (scope, s\<lparr>session_scopes := (key, scope) # scopes, next_active := Suc (next_active s)\<rparr>)))"

section \<open>Runs\<close>

text \<open>
  A session starts at an address no living session has, ends, or uses the runtime. What it found is recorded.
\<close>

datatype scope_event = SessionStarts nat | SessionEnds nat | SessionUses nat

definition scope_step :: "nat \<Rightarrow> scope_event \<Rightarrow> scope_state \<Rightarrow> scope_state" where
  "scope_step capacity event s =
     (case event of
        SessionStarts address \<Rightarrow>
          if address \<in> fst ` set (heap_markers s) then s
          else s\<lparr>heap_markers := (address, heap_next s) # heap_markers s, heap_next := Suc (heap_next s)\<rparr>
      | SessionEnds marker \<Rightarrow> s\<lparr>heap_markers := filter (\<lambda>entry. snd entry \<noteq> marker) (heap_markers s)\<rparr>
      | SessionUses marker \<Rightarrow>
          (case runtime_scope marker s of
             None \<Rightarrow> s
           | Some place \<Rightarrow>
               (case find_scope capacity place s of
                  (scope, s) \<Rightarrow> s\<lparr>found_scopes := found_scopes s @ [(marker, scope_active scope)]\<rparr>)))"

definition scope_run :: "nat \<Rightarrow> scope_event list \<Rightarrow> scope_state" where
  "scope_run capacity events = fold (scope_step capacity) events scopes_start"

section \<open>Invariant\<close>

text \<open>
  Addresses and markers in use are distinct; a scope was made for its marker, and lies at the marker's address while
  the marker lives; what was found is a one-to-one relation between markers and tables, and a living marker that
  found a table still has its scope.
\<close>

definition scope_at :: "scope_state \<Rightarrow> nat \<Rightarrow> nat \<Rightarrow> nat \<Rightarrow> bool" where
  "scope_at s key marker table \<longleftrightarrow>
     (\<exists>scope. (key, scope) \<in> set (session_scopes s) \<and> scope_marker scope = marker \<and> scope_active scope = table)"

definition heap_ok :: "scope_state \<Rightarrow> bool" where
  "heap_ok s \<longleftrightarrow> distinct (map fst (heap_markers s)) \<and> distinct (map snd (heap_markers s)) \<and>
     (\<forall>m. marker_alive m s \<longrightarrow> m < heap_next s)"

definition found_ok :: "scope_state \<Rightarrow> bool" where
  "found_ok s \<longleftrightarrow> (\<forall>m a. (m, a) \<in> set (found_scopes s) \<longrightarrow> m < heap_next s \<and> a < next_active s) \<and>
     (\<forall>m a m' a'. (m, a) \<in> set (found_scopes s) \<longrightarrow> (m', a') \<in> set (found_scopes s) \<longrightarrow> (m = m' \<longleftrightarrow> a = a'))"

definition scopes_ok :: "scope_state \<Rightarrow> bool" where
  "scopes_ok s \<longleftrightarrow> heap_ok s \<and> found_ok s \<and> distinct (map fst (session_scopes s)) \<and>
     (\<forall>key m a. scope_at s key m a \<longrightarrow> (m, a) \<in> set (found_scopes s) \<and>
        (marker_alive m s \<longrightarrow> (key, m) \<in> set (heap_markers s))) \<and>
     (\<forall>m a. (m, a) \<in> set (found_scopes s) \<longrightarrow> marker_alive m s \<longrightarrow> (\<exists>key. scope_at s key m a))"

lemma scopes_okI:
  assumes "heap_ok s" and "found_ok s" and "distinct (map fst (session_scopes s))"
    and "\<And>key m a. scope_at s key m a \<Longrightarrow> (m, a) \<in> set (found_scopes s)"
    and "\<And>key m a. scope_at s key m a \<Longrightarrow> marker_alive m s \<Longrightarrow> (key, m) \<in> set (heap_markers s)"
    and "\<And>m a. (m, a) \<in> set (found_scopes s) \<Longrightarrow> marker_alive m s \<Longrightarrow> \<exists>key. scope_at s key m a"
  shows "scopes_ok s"
  using assms unfolding scopes_ok_def by blast

lemma scopes_okD:
  assumes "scopes_ok s"
  shows "heap_ok s" "found_ok s" "distinct (map fst (session_scopes s))"
    "scope_at s key m a \<Longrightarrow> (m, a) \<in> set (found_scopes s)"
    "scope_at s key m a \<Longrightarrow> marker_alive m s \<Longrightarrow> (key, m) \<in> set (heap_markers s)"
    "(m, a) \<in> set (found_scopes s) \<Longrightarrow> marker_alive m s \<Longrightarrow> \<exists>key. scope_at s key m a"
  using assms unfolding scopes_ok_def by blast+

lemma found_okD:
  assumes "found_ok s" and "(m, a) \<in> set (found_scopes s)"
  shows "m < heap_next s" "a < next_active s" "(m', a') \<in> set (found_scopes s) \<Longrightarrow> m = m' \<longleftrightarrow> a = a'"
  using assms unfolding found_ok_def by blast+

lemma marker_place:
  assumes "heap_ok s" and "(k, m) \<in> set (heap_markers s)" and "(k', m) \<in> set (heap_markers s)"
  shows "k = k'"
  using assms unfolding heap_ok_def distinct_map by (metis inj_onD prod.inject snd_conv)

lemma marker_of_place:
  assumes "heap_ok s" and "(k, m) \<in> set (heap_markers s)" and "(k, m') \<in> set (heap_markers s)"
  shows "m = m'"
  using assms unfolding heap_ok_def distinct_map by (metis inj_onD prod.inject fst_conv)

lemma retained_iff:
  "(key, scope) \<in> set (retained_scopes s) \<longleftrightarrow> (key, scope) \<in> set (session_scopes s) \<and> marker_alive (scope_marker scope) s"
  by (simp add: retained_scopes_def)

lemma retained_distinct: "distinct (map fst (session_scopes s)) \<Longrightarrow> distinct (map fst (retained_scopes s))"
  unfolding retained_scopes_def by (rule distinct_map_filter)

lemma retained_at:
  "(\<exists>scope. (key, scope) \<in> set (retained_scopes s) \<and> scope_marker scope = m \<and> scope_active scope = a)
     \<longleftrightarrow> scope_at s key m a \<and> marker_alive m s"
  by (auto simp: retained_iff scope_at_def)

lemma scopes_ok_start: "scopes_ok scopes_start"
  by (simp add: scopes_ok_def scopes_start_def heap_ok_def found_ok_def scope_at_def marker_alive_def)

lemma session_starts_ok:
  assumes "scopes_ok s"
  shows "scopes_ok (scope_step capacity (SessionStarts address) s)"
proof (cases "address \<in> fst ` set (heap_markers s)")
  case False
  let ?t = "s\<lparr>heap_markers := (address, heap_next s) # heap_markers s, heap_next := Suc (heap_next s)\<rparr>"
  have fresh: "\<not> marker_alive (heap_next s) s" using assms by (auto simp: scopes_ok_def heap_ok_def)
  have alive: "marker_alive m ?t \<longleftrightarrow> m = heap_next s \<or> marker_alive m s" for m by (auto simp: marker_alive_def)
  have at: "scope_at ?t key m a = scope_at s key m a" for key m a by (simp add: scope_at_def)
  have "scopes_ok ?t"
  proof (rule scopes_okI)
    show "heap_ok ?t"
      using scopes_okD(1) [OF assms] False fresh
      by (auto simp: heap_ok_def alive less_Suc_eq) (auto simp: marker_alive_def)
    show "found_ok ?t" using scopes_okD(2) [OF assms] by (auto simp: found_ok_def less_Suc_eq)
    show "distinct (map fst (session_scopes ?t))" using scopes_okD(3) [OF assms] by simp
    fix m a
    { fix key
      assume k: "scope_at ?t key m a"
      then show f: "(m, a) \<in> set (found_scopes ?t)" using scopes_okD(4) [OF assms] by (simp add: at)
      assume "marker_alive m ?t"
      moreover have "m \<noteq> heap_next s" using f found_okD(1) [OF scopes_okD(2) [OF assms]] by fastforce
      ultimately show "(key, m) \<in> set (heap_markers ?t)" using scopes_okD(5) [OF assms] k by (simp add: alive at)
    }
    assume "(m, a) \<in> set (found_scopes ?t)" "marker_alive m ?t"
    moreover from this have "m \<noteq> heap_next s" using found_okD(1) [OF scopes_okD(2) [OF assms]] by fastforce
    ultimately show "\<exists>key. scope_at ?t key m a" using scopes_okD(6) [OF assms] by (simp add: alive at)
  qed
  then show ?thesis using False by (simp add: scope_step_def)
qed (simp add: scope_step_def assms)

lemma session_ends_ok:
  assumes "scopes_ok s"
  shows "scopes_ok (scope_step capacity (SessionEnds marker) s)"
proof -
  let ?t = "s\<lparr>heap_markers := filter (\<lambda>entry. snd entry \<noteq> marker) (heap_markers s)\<rparr>"
  have alive: "marker_alive m ?t \<longleftrightarrow> m \<noteq> marker \<and> marker_alive m s" for m by (auto simp: marker_alive_def)
  have at: "scope_at ?t key m a = scope_at s key m a" for key m a by (simp add: scope_at_def)
  have "scopes_ok ?t"
  proof (rule scopes_okI)
    show "heap_ok ?t" using scopes_okD(1) [OF assms] by (simp add: heap_ok_def alive distinct_map_filter)
    show "found_ok ?t" using scopes_okD(2) [OF assms] by (simp add: found_ok_def)
    show "distinct (map fst (session_scopes ?t))" using scopes_okD(3) [OF assms] by simp
  qed (use scopes_okD [OF assms] in \<open>auto simp: alive at\<close>)
  then show ?thesis by (simp add: scope_step_def)
qed

text \<open>What a living session finds: its own scope if it has one, a new one otherwise.\<close>

lemma runtime_scope_alive:
  assumes "heap_ok s" and "runtime_scope m s = Some (key, m')"
  shows "m' = m \<and> (key, m) \<in> set (heap_markers s) \<and> marker_alive m s"
proof -
  have "(key, m') \<in> set (heap_markers s)" "m' = m"
    using assms(2) unfolding runtime_scope_def find_Some_iff by (metis nth_mem, metis snd_conv)
  then show ?thesis by (force simp: marker_alive_def)
qed

lemma find_scope_cases:
  assumes "scopes_ok s" and "(key, m) \<in> set (heap_markers s)"
  obtains (own) scope where "scope_at s key m (scope_active scope)" "(m, scope_active scope) \<in> set (found_scopes s)"
      "find_scope capacity (key, m) s =
        (scope, s\<lparr>session_scopes := retained_scopes s\<rparr>)"
    | (new) "\<And>a. (m, a) \<notin> set (found_scopes s)"
      "find_scope capacity (key, m) s =
        (\<lparr>scope_marker = m, scope_active = next_active s, scope_overload_permits = capacity\<rparr>,
         s\<lparr>session_scopes := (key, \<lparr>scope_marker = m, scope_active = next_active s, scope_overload_permits = capacity\<rparr>)
             # retained_scopes s,
           next_active := Suc (next_active s)\<rparr>)"
      "key \<notin> fst ` set (retained_scopes s)"
proof (cases "map_of (retained_scopes s) key")
  case None
  have alive: "marker_alive m s" using assms(2) by (force simp: marker_alive_def)
  have "(m, a) \<notin> set (found_scopes s)" for a
  proof
    assume "(m, a) \<in> set (found_scopes s)"
    then obtain key' where at: "scope_at s key' m a" using scopes_okD(6) [OF assms(1) _ alive] by blast
    then have "(key', m) \<in> set (heap_markers s)" using scopes_okD(5) [OF assms(1) _ alive] by blast
    then have "key' = key" using assms(2) marker_place [OF scopes_okD(1) [OF assms(1)]] by blast
    then have "key \<in> fst ` set (retained_scopes s)"
      using at alive retained_at [of key s m a] by (metis fst_conv image_eqI)
    then show False using None by (simp add: map_of_eq_None_iff)
  qed
  moreover have "key \<notin> fst ` set (retained_scopes s)"
    by (rule iffD1 [OF map_of_eq_None_iff None])
  moreover have "find_scope capacity (key, m) s =
      (\<lparr>scope_marker = m, scope_active = next_active s, scope_overload_permits = capacity\<rparr>,
       s\<lparr>session_scopes := (key, \<lparr>scope_marker = m, scope_active = next_active s, scope_overload_permits = capacity\<rparr>)
           # retained_scopes s,
         next_active := Suc (next_active s)\<rparr>)"
    unfolding find_scope_def Let_def prod.case None option.case by (rule refl)
  ultimately show ?thesis using new by blast
next
  case (Some scope)
  then have "(key, scope) \<in> set (retained_scopes s)"
    by (rule map_of_SomeD)
  then have at: "scope_at s key (scope_marker scope) (scope_active scope)" "marker_alive (scope_marker scope) s"
    by (auto simp: scope_at_def retained_iff)
  then have "(key, scope_marker scope) \<in> set (heap_markers s)" using scopes_okD(5) [OF assms(1)] by blast
  then have m: "scope_marker scope = m" using assms(2) marker_of_place [OF scopes_okD(1) [OF assms(1)]] by blast
  then show ?thesis
    using own [of scope] at Some scopes_okD(4) [OF assms(1) at(1)] unfolding m by (simp add: find_scope_def Let_def)
qed

lemma session_uses_ok:
  assumes "scopes_ok s"
  shows "scopes_ok (scope_step capacity (SessionUses marker) s)"
proof (cases "runtime_scope marker s")
  case None
  then show ?thesis using assms by (simp add: scope_step_def)
next
  case (Some place)
  obtain key m where "place = (key, m)" by fastforce
  then have place: "runtime_scope marker s = Some (key, marker)" "(key, marker) \<in> set (heap_markers s)" "marker_alive marker s"
    using runtime_scope_alive [OF scopes_okD(1) [OF assms]] Some by auto
  let ?alive = "retained_scopes s"
  have d: "distinct (map fst ?alive)" using scopes_okD(3) [OF assms] by (rule retained_distinct)
  from assms place(2) show ?thesis
  proof (cases rule: find_scope_cases [where capacity = capacity])
    case (own scope)
    let ?t = "s\<lparr>session_scopes := ?alive, found_scopes := found_scopes s @ [(marker, scope_active scope)]\<rparr>"
    have alive: "marker_alive n ?t = marker_alive n s" for n by (simp add: marker_alive_def)
    have at: "scope_at ?t k n a \<longleftrightarrow> scope_at s k n a \<and> marker_alive n s" for k n a
      using retained_at [of k s n a] by (simp add: scope_at_def)
    have found: "set (found_scopes ?t) = set (found_scopes s)" using own(2) by auto
    have "scopes_ok ?t"
    proof (rule scopes_okI)
      show "heap_ok ?t" using scopes_okD(1) [OF assms] by (simp add: heap_ok_def alive)
      show "found_ok ?t" using scopes_okD(2) [OF assms] unfolding found_ok_def found by simp
      show "distinct (map fst (session_scopes ?t))" using d by simp
    qed (use scopes_okD [OF assms] in \<open>unfold found, auto simp: alive at\<close>)
    then show ?thesis using place(1) own(3) by (simp add: scope_step_def)
  next
    case new
    let ?new = "\<lparr>scope_marker = marker, scope_active = next_active s, scope_overload_permits = capacity\<rparr>"
    let ?t = "s\<lparr>session_scopes := (key, ?new) # ?alive, next_active := Suc (next_active s),
        found_scopes := found_scopes s @ [(marker, next_active s)]\<rparr>"
    have alive: "marker_alive n ?t = marker_alive n s" for n by (simp add: marker_alive_def)
    have at: "scope_at ?t k n a \<longleftrightarrow> k = key \<and> n = marker \<and> a = next_active s \<or> scope_at s k n a \<and> marker_alive n s" for k n a
      using retained_at [of k s n a] by (auto simp: scope_at_def)
    have found: "set (found_scopes ?t) = insert (marker, next_active s) (set (found_scopes s))" by simp
    have unused: "(n, next_active s) \<notin> set (found_scopes s)" for n
      using found_okD(2) [OF scopes_okD(2) [OF assms]] by fastforce
    have "scopes_ok ?t"
    proof (rule scopes_okI)
      show "heap_ok ?t" using scopes_okD(1) [OF assms] by (simp add: heap_ok_def alive)
      have "marker < heap_next s" using place(3) scopes_okD(1) [OF assms] by (simp add: heap_ok_def)
      then show "found_ok ?t"
        using scopes_okD(2) [OF assms] new(1) unused unfolding found_ok_def found by (auto simp: less_Suc_eq)
      show "distinct (map fst (session_scopes ?t))" using d new(3) by simp
      fix n a
      { fix k
        assume k: "scope_at ?t k n a"
        then show "(n, a) \<in> set (found_scopes ?t)" using scopes_okD(4) [OF assms] unfolding found at by blast
        assume "marker_alive n ?t"
        then show "(k, n) \<in> set (heap_markers ?t)"
          using scopes_okD(5) [OF assms] place(2) k unfolding alive at by auto
      }
      assume "(n, a) \<in> set (found_scopes ?t)" "marker_alive n ?t"
      then show "\<exists>k. scope_at ?t k n a" using scopes_okD(6) [OF assms] unfolding found alive at by blast
    qed
    then show ?thesis using place(1) new(2) by (simp add: scope_step_def)
  qed
qed

lemma scope_run_ok: "scopes_ok (scope_run capacity events)"
proof (induction events rule: rev_induct)
  case Nil
  show ?case by (simp add: scope_run_def scopes_ok_start)
next
  case (snoc event events)
  then show ?case
    using session_starts_ok session_ends_ok session_uses_ok by (cases event) (simp_all add: scope_run_def)
qed

section \<open>How many scopes there are\<close>

text \<open>Entries at distinct addresses that living markers have.\<close>

definition living_scopes :: "scope_state \<Rightarrow> (nat \<times> session_scope) list \<Rightarrow> bool" where
  "living_scopes s scopes \<longleftrightarrow> distinct (map (scope_marker \<circ> snd) scopes) \<and>
     (\<forall>scope \<in> snd ` set scopes. marker_alive (scope_marker scope) s) \<and> length scopes \<le> length (heap_markers s)"

lemma living_scopesI:
  assumes "heap_ok s" and "distinct (map fst scopes)"
    and "\<And>k scope. (k, scope) \<in> set scopes \<Longrightarrow> (k, scope_marker scope) \<in> set (heap_markers s)"
  shows "living_scopes s scopes"
proof -
  let ?ps = "map (\<lambda>(k, scope). (k, scope_marker scope)) scopes"
  have sub: "set ?ps \<subseteq> set (heap_markers s)" using assms(3) by auto
  have d: "distinct ?ps"
    using assms(2) by (simp add: distinct_map inj_on_def case_prod_beta)
  have "inj_on snd (set (heap_markers s))" using assms(1) by (simp add: heap_ok_def distinct_map)
  then have "distinct (map snd ?ps)" using d inj_on_subset [OF _ sub] by (simp only: distinct_map [of snd]) blast
  moreover have "map snd ?ps = map (scope_marker \<circ> snd) scopes" by (induction scopes) auto
  moreover have "length ?ps \<le> length (heap_markers s)"
    using card_mono [OF finite_set sub] card_length [of "heap_markers s"] distinct_card [OF d] by linarith
  moreover have "marker_alive (scope_marker scope) s" if "scope \<in> snd ` set scopes" for scope
    using that assms(3) by (force simp: marker_alive_def)
  ultimately show ?thesis unfolding living_scopes_def by (metis length_map)
qed

lemma find_scope_living:
  assumes "scopes_ok s" and "(key, n) \<in> set (heap_markers s)"
  shows "living_scopes s (session_scopes (snd (find_scope capacity (key, n) s)))"
proof -
  note ok = scopes_okD [OF assms(1)]
  let ?alive = "retained_scopes s"
  have d: "distinct (map fst ?alive)" using ok(3) by (rule retained_distinct)
  have place: "(k, scope_marker scope) \<in> set (heap_markers s)" if "(k, scope) \<in> set ?alive" for k scope
    using that ok(5) by (auto simp: scope_at_def retained_iff)
  from assms show ?thesis
  proof (cases rule: find_scope_cases [where capacity = capacity])
    case (own scope)
    then show ?thesis using living_scopesI [OF ok(1) d place] by simp
  next
    case new
    then show ?thesis using d place assms(2) by (auto intro!: living_scopesI [OF ok(1)])
  qed
qed

section \<open>Properties\<close>

text \<open>
  C38. A session always finds the scope of its own and of no other session. Through any starts, uses and ends of
  sessions, with addresses used again, two uses of the runtime find the same table of invocations exactly if they
  are of the same session; and a further use leaves scopes of living sessions only, at most one for each.
\<close>

lemma scopes_separate_sessions:
  assumes "(m, a) \<in> set (found_scopes (scope_run capacity events))"
    and "(m', a') \<in> set (found_scopes (scope_run capacity events))"
    and "runtime_scope n (scope_run capacity events) = Some place"
  shows "(m = m' \<longleftrightarrow> a = a') \<and>
    living_scopes (scope_run capacity events) (session_scopes (snd (find_scope capacity place (scope_run capacity events))))"
proof -
  let ?s = "scope_run capacity events"
  have ok: "scopes_ok ?s" by (rule scope_run_ok)
  obtain key n' where p: "place = (key, n')" by fastforce
  then have "(key, n') \<in> set (heap_markers ?s)"
    using runtime_scope_alive [OF scopes_okD(1) [OF ok]] assms(3) by auto
  then show ?thesis using found_okD(3) [OF scopes_okD(2) [OF ok] assms(1)] assms(2) find_scope_living [OF ok] p by blast
qed

definition demo_scope_events :: "scope_event list" where
  "demo_scope_events = [SessionStarts 7, SessionUses 0, SessionEnds 0, SessionStarts 7, SessionUses 1, SessionUses 1]"

lemma scopes_separate_sessions_witness:
  "found_scopes (scope_run 8 demo_scope_events) = [(0, 0), (1, 1), (1, 1)] \<and>
   living_scopes (scope_run 8 demo_scope_events) (session_scopes (snd (find_scope 8 (7, 1) (scope_run 8 demo_scope_events))))"
proof -
  have f: "found_scopes (scope_run 8 demo_scope_events) = [(0, 0), (1, 1), (1, 1)]"
    and r: "runtime_scope 1 (scope_run 8 demo_scope_events) = Some (7, 1)"
    by code_simp+
  have "(0, 0) \<in> set (found_scopes (scope_run 8 demo_scope_events))"
    "(1, 1) \<in> set (found_scopes (scope_run 8 demo_scope_events))" by (simp_all add: f)
  then show ?thesis using scopes_separate_sessions [OF _ _ r] f by blast
qed

end
