(* ===== verification/DuplexHeartbeat.thy ===== *)
theory DuplexHeartbeat
  imports CommandRuntime
begin

text \<open>
  The output side of a running duplex invocation (\<open>InvocationDuplex\<close> of \<open>runtime.rs\<close> over \<open>InvocationProgress\<close>
  of \<open>duplex.rs\<close>): the handler's output and the heartbeat task share one counter behind an asynchronous lock. A step
  is one send under that lock, a cancellation or the stop after the handler.
\<close>

section \<open>State and steps\<close>

record duplex_state =
  dx_progress :: progress_state
  dx_heartbeat_running :: bool
  dx_cancelled :: bool
  dx_stopped :: bool

definition progress_start :: progress_state where
  "progress_start = \<lparr>progress_seq = 0, sent_frames = []\<rparr>"

text \<open>\<open>InvocationDuplex::start\<close>: duplex commands on a session have a progress, an input and a heartbeat task.\<close>

definition duplex_start :: "bool \<Rightarrow> bool \<Rightarrow> bool \<Rightarrow> duplex_state option" where
  "duplex_start enabled on_session already_cancelled =
     (if enabled \<and> on_session
        then Some \<lparr>dx_progress = progress_start, dx_heartbeat_running = True, dx_cancelled = already_cancelled,
          dx_stopped = False\<rparr>
      else None)"

text \<open>What a send meets: the answer its request would get, unless the invocation is not active any more.\<close>

definition send_meets :: "client_error + unit \<Rightarrow> duplex_state \<Rightarrow> send_event" where
  "send_meets answer s = (if dx_stopped s \<or> dx_cancelled s then Inactive else Answered answer)"

text \<open>
  The handler emits a chunk of at most 16 KiB; the interval of the heartbeat task elapses; the heartbeat task notices
  a cancellation; the token is cancelled from outside; the evaluation stops the duplex after the handler.
\<close>

datatype duplex_event =
    HandlerEmits string "client_error + unit"
  | IntervalElapses "client_error + unit"
  | HeartbeatNotices
  | TokenCancelled
  | DuplexStops

definition duplex_step :: "duplex_event \<Rightarrow> duplex_state \<Rightarrow> duplex_state" where
  "duplex_step event s =
     (case event of
        HandlerEmits chunk answer \<Rightarrow>
          s\<lparr>dx_progress := snd (progress_send (send_meets answer s) chunk (dx_progress s))\<rparr>
      | IntervalElapses answer \<Rightarrow>
          if \<not> dx_heartbeat_running s then s
          else
            (case progress_heartbeat (send_meets answer s) (dx_progress s) of
               (Inl _, progress) \<Rightarrow> s\<lparr>dx_progress := progress, dx_cancelled := True, dx_heartbeat_running := False\<rparr>
             | (Inr _, progress) \<Rightarrow> s\<lparr>dx_progress := progress\<rparr>)
      | HeartbeatNotices \<Rightarrow> if dx_cancelled s then s\<lparr>dx_heartbeat_running := False\<rparr> else s
      | TokenCancelled \<Rightarrow> s\<lparr>dx_cancelled := True\<rparr>
      | DuplexStops \<Rightarrow> s\<lparr>dx_stopped := True, dx_heartbeat_running := False\<rparr>)"

definition duplex_run :: "duplex_event list \<Rightarrow> duplex_state \<Rightarrow> duplex_state" where
  "duplex_run events s = fold duplex_step events s"

section \<open>What is sent\<close>

text \<open>
  The chunks sent in a run that starts active, by the run alone: until the first cancellation, stop or failed
  heartbeat, those of the handler and an empty one for each heartbeat. With each, whether its request succeeded.
\<close>

fun sends :: "bool \<Rightarrow> duplex_event list \<Rightarrow> (string \<times> bool) list" where
  "sends beating [] = []"
| "sends beating (HandlerEmits chunk answer # events) = (chunk, is_ok answer) # sends beating events"
| "sends beating (IntervalElapses answer # events) =
     (if \<not> beating then sends beating events
      else ([], is_ok answer) # (if is_ok answer then sends beating events else []))"
| "sends beating (HeartbeatNotices # events) = sends beating events"
| "sends beating (TokenCancelled # events) = []"
| "sends beating (DuplexStops # events) = []"

text \<open>The frames of such sends: the number advances past a send that succeeded.\<close>

fun numbered_sends :: "u64 \<Rightarrow> (string \<times> bool) list \<Rightarrow> (u64 \<times> string) list" where
  "numbered_sends seq [] = []"
| "numbered_sends seq ((chunk, ok) # rest) = (seq, chunk) # numbered_sends (if ok then seq + 1 else seq) rest"

lemma duplex_run_simps [simp]:
  "duplex_run [] s = s" "duplex_run (event # events) s = duplex_run events (duplex_step event s)"
  by (simp_all add: duplex_run_def)

lemma quiet_step:
  assumes "dx_stopped s \<or> dx_cancelled s"
  shows "sent_frames (dx_progress (duplex_step event s)) = sent_frames (dx_progress s) \<and>
    (dx_stopped (duplex_step event s) \<or> dx_cancelled (duplex_step event s))"
  using assms
  by (cases event) (auto simp: duplex_step_def send_meets_def progress_send_def progress_heartbeat_def)

lemma quiet_run:
  "dx_stopped s \<or> dx_cancelled s \<Longrightarrow> sent_frames (dx_progress (duplex_run events s)) = sent_frames (dx_progress s)"
proof (induction events arbitrary: s)
  case (Cons event events)
  then show ?case using quiet_step [OF Cons.prems, of event] by simp
qed simp

lemma active_run:
  "\<not> dx_stopped s \<Longrightarrow> \<not> dx_cancelled s \<Longrightarrow>
   sent_frames (dx_progress (duplex_run events s)) =
     sent_frames (dx_progress s) @ numbered_sends (progress_seq (dx_progress s)) (sends (dx_heartbeat_running s) events)"
proof (induction events arbitrary: s)
  case (Cons event events)
  show ?case
  proof (cases event)
    case (HandlerEmits chunk answer)
    then show ?thesis
      using Cons by (cases answer) (auto simp: duplex_step_def send_meets_def progress_send_def Let_def is_ok_def)
  next
    case (IntervalElapses answer)
    then show ?thesis
      using Cons quiet_run [of "duplex_step event s" events]
      by (cases answer)
        (auto simp: duplex_step_def send_meets_def progress_send_def progress_heartbeat_def Let_def is_ok_def)
  next
    case HeartbeatNotices
    then show ?thesis using Cons by (simp add: duplex_step_def)
  next
    case TokenCancelled
    then show ?thesis using quiet_run [of "duplex_step event s" events] by (simp add: duplex_step_def)
  next
    case DuplexStops
    then show ?thesis using quiet_run [of "duplex_step event s" events] by (simp add: duplex_step_def)
  qed
qed simp

lemma numbered_all_ok:
  "(\<And>chunk ok. (chunk, ok) \<in> set xs \<Longrightarrow> ok) \<Longrightarrow> numbered_sends seq xs = numbered seq (map fst xs)"
proof (induction xs arbitrary: seq)
  case (Cons x xs)
  then show ?case by (cases x) auto
qed simp

text \<open>The heartbeat task runs only while nothing failed it; what it leaves when it ended.\<close>

lemma heartbeat_ends:
  assumes "\<not> dx_heartbeat_running (duplex_run events s)" and "dx_heartbeat_running s"
  shows "dx_cancelled (duplex_run events s) \<or> dx_stopped (duplex_run events s)"
  using assms
proof (induction events rule: rev_induct)
  case (snoc event events)
  let ?s = "duplex_run events s"
  have r: "duplex_run (events @ [event]) s = duplex_step event ?s" by (simp add: duplex_run_def)
  have keep: "dx_cancelled u \<or> dx_stopped u \<Longrightarrow> dx_cancelled (duplex_step event u) \<or> dx_stopped (duplex_step event u)" for u
    using quiet_step by blast
  show ?case
  proof (cases "dx_heartbeat_running ?s")
    case True
    then show ?thesis using snoc.prems(1) unfolding r
      by (cases event) (auto simp: duplex_step_def split: prod.splits sum.splits if_splits)
  qed (use snoc.IH snoc.prems keep r in auto)
qed simp

section \<open>Properties\<close>

text \<open>
  C40. Handler output and heartbeats of an invocation form one numbered stream. However they interleave, the frames
  sent are, from zero on, those of the sends up to the first cancellation, stop or failed heartbeat, a heartbeat being
  an empty chunk; a frame has the number after the last one that succeeded, so in a run without failures the numbers
  are consecutive; and once the heartbeat task has ended the invocation is cancelled or stopped.
\<close>

lemma duplex_output_is_one_stream:
  assumes "duplex_start enabled on_session False = Some s" and "s' = duplex_run events s"
  shows "sent_frames (dx_progress s') = numbered_sends 0 (sends True events) \<and>
    ((\<exists>chunk. (chunk, False) \<in> set (sends True events)) \<or>
       sent_frames (dx_progress s') = numbered 0 (map fst (sends True events))) \<and>
    (dx_heartbeat_running s' \<or> dx_cancelled s' \<or> dx_stopped s')"
proof -
  have s: "s = \<lparr>dx_progress = progress_start, dx_heartbeat_running = True, dx_cancelled = False, dx_stopped = False\<rparr>"
    using assms(1) by (auto simp: duplex_start_def split: if_splits)
  then have f: "sent_frames (dx_progress s') = numbered_sends 0 (sends True events)"
    using active_run [of s events] assms(2) by (simp add: progress_start_def)
  moreover have "(\<exists>chunk. (chunk, False) \<in> set (sends True events)) \<or>
      numbered_sends 0 (sends True events) = numbered 0 (map fst (sends True events))"
    using numbered_all_ok [of "sends True events" 0] by (metis (full_types))
  ultimately show ?thesis using heartbeat_ends [of events s] s assms(2) by auto
qed

lemma duplex_output_is_one_stream_witness:
  "sent_frames (dx_progress (duplex_run [HandlerEmits ''a'' (Inr ()), IntervalElapses (Inr ()), HandlerEmits ''b'' (Inr ()),
     IntervalElapses (Inl NotActivated), HandlerEmits ''c'' (Inr ())]
     \<lparr>dx_progress = progress_start, dx_heartbeat_running = True, dx_cancelled = False, dx_stopped = False\<rparr>))
   = [(0, ''a''), (1, []), (2, ''b''), (3, [])]"
proof -
  have "duplex_start True True False =
      Some \<lparr>dx_progress = progress_start, dx_heartbeat_running = True, dx_cancelled = False, dx_stopped = False\<rparr>"
    by (simp add: duplex_start_def)
  note stream = conjunct1 [OF duplex_output_is_one_stream [OF this refl]]
  show ?thesis unfolding stream by simp
qed

end
