(* ===== verification/Spec2Isabelle.thy ===== *)
theory Spec2Isabelle
  imports SidecarBridge NodeHost PrototypeHost GatewayWrite SessionScopes DuplexHeartbeat
begin

text \<open>
  A verification library of the Rust node host of OpenClaw: the crates
  \<open>crates/openclaw-node-host\<close> and \<open>crates/openclaw-gateway-client\<close>. A node connects to a
  Gateway, advertises a surface of commands, and runs the invocations it is sent; a desktop
  application may supervise the node process over an authenticated pipe, the sidecar channel.

  How the parts interact. The lifecycle driver (\<open>lifecycle.rs\<close>) connects again and again; the
  reconnect policy (\<open>reconnect.rs\<close>) classifies each failure and chooses the delay or the pause.
  While a session is up, the command runtime (\<open>runtime.rs\<close>) consumes the events the node profile
  (\<open>node.rs\<close>) decodes, evaluates invocations within permits, deadlines and byte limits, and routes
  input and cancellation to the running ones (\<open>duplex.rs\<close>). Between application and node process
  the frames of \<open>sidecar_protocol.rs\<close> carry the messages of \<open>sidecar_handshake.rs\<close>, then those of
  \<open>sidecar_runtime.rs\<close>: the configuration, from which the bridge builds a command runtime whose
  handlers call the application, and the status projected from the lifecycle events.

  The theories, in the order of their imports:

  \<^item> \<open>Prelude\<close>: machine integers, checked and saturating arithmetic, results, big-endian bytes.
  \<^item> \<open>Writers\<close>: the three \<open>io::Write\<close> implementations that bound a serialization; the locale
    \<open>bounded_sink\<close> is interpreted on each of them.
  \<^item> \<open>RustText\<close>: strings as UTF-8 bytes, trimming, order.
  \<^item> \<open>SidecarProtocol\<close>, \<open>SidecarFrames\<close>, \<open>SidecarChannel\<close>: offers and their negotiation; sealing and
    opening of frames, transport; the life of a channel. The locale \<open>secure_link\<close> states what a
    stream of messages relies on and is interpreted on \<open>seal\<close> and \<open>open_frame\<close>. Shown: messages are
    delivered in order, forged, replayed or reordered frames are refused and end the channel.
  \<^item> \<open>BoundExchange\<close>, \<open>SidecarHandshake\<close>: exchanges bound to one channel (locale \<open>bound_exchange\<close>), and
    the handshake as their instance. Shown: it succeeds between matching peers, both derive the same
    selection, errors are terminal, the runtime commits last.
  \<^item> \<open>Json\<close>, \<open>NodeProfile\<close>: JSON values with the numbers that may cross to another runtime; client
    errors, connect options, decoding of invocations. Shown: decoding inverts the Gateway's encoding,
    nothing is advertised before activation.
  \<^item> \<open>DuplexInput\<close>, \<open>ActiveInvocations\<close>: the bounded input buffer (locale \<open>ordered_queue\<close>) and progress
    chunks; the table of running invocations over a store of shared tokens and buffers. Shown: the buffer
    takes and delivers exactly what a reference without counters does (\<open>expected_input\<close>), its bounds,
    isolation of invocations from each other, one execution per identifier.
  \<^item> \<open>CommandRuntime\<close>: the builder, and the evaluation of one invocation. Shown: what is built, when
    exactly a handler is entered, what a result may carry, that every call with a deadline ends.
  \<^item> \<open>RuntimeLoop\<close>: the session loop and \<open>dispatch\<close> as steps over events. Shown: permits are conserved,
    the table is exact, every invocation is answered once, every exit cancels and closes.
  \<^item> \<open>SessionScopes\<close>, \<open>DuplexHeartbeat\<close>: the map from sessions to their tables of invocations; the output of a
    duplex invocation with its heartbeat task. Shown: no session finds the table of another although addresses are
    used again, output and heartbeats are one numbered stream that a failed heartbeat ends.
  \<^item> \<open>ConnectPolicy\<close>, \<open>Reconnect\<close>, \<open>Lifecycle\<close>: recovery metadata and TLS pins; the reconnect policy
    (locale \<open>retry_policy\<close>); the driver. Shown: the exact exponential delays and their bounds, when
    reconnecting pauses, the event protocol an observer can rely on, that shutdown ends the driver.

  \<^item> \<open>SidecarConfiguration\<close>, \<open>ConfigurationExchange\<close>, \<open>SidecarBridge\<close>: the messages and validation of the
    sidecar runtime; the exchange, a second interpretation of \<open>bound_exchange\<close>; activation, the two
    futures that call the adapter, the status. Shown: the exchange succeeds between authenticated
    peers, an activated runtime enforces exactly the configuration, only what the adapter returned
    gets out, a retired channel releases every call, every status fits.

  \<^item> \<open>GatewayEvents\<close>, \<open>GatewayTask\<close>, \<open>GatewayConnect\<close>: the client session of \<open>session.rs\<close>: the hub that retains
    events for subscribers; callers and the session task as steps on a shared state (the locale
    \<open>request_mover\<close> is the contract of what takes a request out of the map); configuration, challenge, connect
    request and protocol fallback. Shown: every request has one fate and is answered at most once, permits are
    conserved, a subscriber accounts for every event, the end of a session answers everyone, plaintext is for
    exactly the private address blocks, an older protocol needs the Gateway's refusal.

  \<^item> \<open>GatewayWrite\<close>: the stages of one write of the session task. Shown: a request the sink took is pending or the
    session is over, and none is handed to the sink against its guard.

  \<^item> \<open>DeviceIdentity\<close> (\<open>identity.rs\<close>), \<open>NodeConnect\<close> (\<open>NodeClient\<close> and \<open>NodeSession\<close> of \<open>node.rs\<close>): the payload
    a device signs and its proof; client configuration, connect envelope and the session of a connect. Shown: the
    payload determines what it is made of, a session says what the last connect request said.
  \<^item> \<open>HealthServer\<close>, \<open>HostConfiguration\<close>, \<open>NodeHost\<close> (\<open>host.rs\<close>, \<open>main.rs\<close>): the health endpoint; the
    configuration file, credentials and the runtime they give; the host under the lifecycle driver with its ready
    flag, its adopted device token and its log. Shown: requests are routed and bounded, a valid configuration
    always builds, readiness is that of the session, the adopted token is used and dropped as the Gateway says,
    the exit is explained by the last record.

  \<^item> \<open>ContractFixtures\<close>, \<open>PrototypeIdentity\<close>, \<open>PrototypeReconnect\<close>, \<open>PrototypeSession\<close>: from the root package,
    the single-crate predecessor under \<open>src/\<close>, the contract harness (\<open>wire.rs\<close>, \<open>manifest.rs\<close>, \<open>lib.rs\<close>), the
    identity, the reconnect policy and the Gateway client, each compared with the crates. Shown: what the harness
    accepts the runtime decodes, but for a limit one reads in characters and the other in bytes; both identities make
    the same proofs; the later policy differs by pausing more; every call of an earlier session is settled, but a
    timed out one can stay pending at its task.

  \<^item> \<open>PrototypeRuntime\<close>, \<open>PrototypeLoop\<close>, \<open>PrototypeHost\<close>: its \<open>runtime.rs\<close> and \<open>host.rs\<close>: builder and evaluation, the
    session loop with its table and tasks, and the host as a loop over connections. What is word for word the code
    of the crates (limited writer, handler outcomes, health endpoint, session scopes, command line) is modelled once,
    there. Shown: both runtimes build and evaluate alike but for the name \<open>system\<close> and \<open>timeoutMs\<close> 0; the loop
    keeps its bounds and loses no handler; the host is ready while a session runs, uses the newest device token and
    ends only as its last record says.

  Conventions. \<open>Inl\<close> is \<open>Err\<close> and \<open>Inr\<close> is \<open>Ok\<close>; a method on \<open>&mut self\<close> returns its result and the new
  state; a \<open>Duration\<close> is a number of nanoseconds, and a machine integer whose overflow matters is a
  word. \<open>serde_json\<close>'s text codec, HMAC-SHA-256, SHA-256, Ed25519 signers, handlers and policies of
  the embedding are parameters. Asynchronous code is given by steps in the order they happen; what a
  future does is part of the input (when it is ready, with what); an evaluation that waits for ever
  is \<open>None\<close>. No fuel is used: recursion is structural or has a measure, and \<open>progress_write\<close>, whose
  loop ends for valid UTF-8 only, is a \<open>partial_function\<close> proved to return there.

  Not modelled: the operating system beneath the host (files, signals, sockets, randomness), TLS and WebSocket
  libraries, the threads and mutexes beneath the atomic steps, zeroization of memory, tests and fixtures.
\<close>

end
